(* ===== verification/Prelude.thy ===== *)
theory Prelude
  imports Complex_Main "HOL-Library.Word" "HOL-Library.Multiset" "HOL-Library.Char_ord" "HOL-Library.List_Lexorder"
begin

text \<open>
  Shared vocabulary of the development. Strings are byte strings, as in Go, and compare
  bytewise (\<open>Char_ord\<close>, \<open>List_Lexorder\<close>). The first part models the functions of Go's
  packages \<^verbatim>\<open>strings\<close> and \<^verbatim>\<open>strconv\<close> the program calls; white space is ASCII white space.
  The second part is time: instants and durations are integers in nanoseconds, and
  subtraction of instants saturates at the \<open>int64\<close> bounds as \<^verbatim>\<open>time.Time.Sub\<close> does. The
  last part holds generic lemmas and the collections of simplification rules that the
  component theories extend.
\<close>

named_theorems go_simps \<open>evaluation rules of the Go library functions used by the program\<close>

type_synonym strmap = "string \<Rightarrow> string option"
type_synonym int32 = "32 word"
type_synonym time = int
type_synonym duration = int

section \<open>Strings\<close>

text \<open>A lookup in a Go map of strings gives the empty string for a missing key.\<close>

definition mget :: "strmap \<Rightarrow> string \<Rightarrow> string" where
  "mget m k = (case m k of None \<Rightarrow> [] | Some v \<Rightarrow> v)"

definition hasPrefix :: "string \<Rightarrow> string \<Rightarrow> bool" where
  "hasPrefix s p \<longleftrightarrow> take (length p) s = p"

definition hasByte :: "string \<Rightarrow> char \<Rightarrow> bool" where
  "hasByte s c \<longleftrightarrow> c \<in> set s"

text \<open>\<^verbatim>\<open>strings.Split(s, sep)\<close> with a one-byte separator.\<close>

fun splitOn :: "char \<Rightarrow> string \<Rightarrow> string list" where
  "splitOn c [] = [[]]"
| "splitOn c (x # xs) =
     (if x = c then [] # splitOn c xs
      else (case splitOn c xs of [] \<Rightarrow> [[x]] | y # ys \<Rightarrow> (x # y) # ys))"

text \<open>\<^verbatim>\<open>strings.ReplaceAll\<close> for a pattern of two bytes and for a pattern of one byte.\<close>

fun replaceAll2 :: "char \<Rightarrow> char \<Rightarrow> string \<Rightarrow> string \<Rightarrow> string" where
  "replaceAll2 c d r [] = []"
| "replaceAll2 c d r [x] = [x]"
| "replaceAll2 c d r (x # y # s) =
     (if x = c \<and> y = d then r @ replaceAll2 c d r s else x # replaceAll2 c d r (y # s))"

definition replaceAll1 :: "char \<Rightarrow> string \<Rightarrow> string \<Rightarrow> string" where
  "replaceAll1 c r s = concat (map (\<lambda>x. if x = c then r else [x]) s)"

definition isSpace :: "char \<Rightarrow> bool" where
  "isSpace c \<longleftrightarrow> of_char c \<in> {9::nat, 10, 11, 12, 13, 32}"

definition trimSpace :: "string \<Rightarrow> string" where
  "trimSpace s = rev (dropWhile isSpace (rev (dropWhile isSpace s)))"

text \<open>\<^verbatim>\<open>strings.Fields\<close>: the maximal runs of non-space bytes.\<close>

fun stringFieldsAux :: "string \<Rightarrow> string \<Rightarrow> string list" where
  "stringFieldsAux cur [] = (if cur = [] then [] else [rev cur])"
| "stringFieldsAux cur (x # xs) =
     (if isSpace x then (if cur = [] then stringFieldsAux [] xs else rev cur # stringFieldsAux [] xs)
      else stringFieldsAux (x # cur) xs)"

definition stringFields :: "string \<Rightarrow> string list" where
  "stringFields s = stringFieldsAux [] s"

text \<open>\<^verbatim>\<open>strings.Join\<close>.\<close>

fun joinWith :: "string \<Rightarrow> string list \<Rightarrow> string" where
  "joinWith sep [] = []"
| "joinWith sep [x] = x"
| "joinWith sep (x # y # xs) = x @ sep @ joinWith sep (y # xs)"

section \<open>Numbers and their text\<close>

definition digitChar :: "nat \<Rightarrow> char" where
  "digitChar n = char_of (48 + n)"

definition digitVal :: "char \<Rightarrow> nat option" where
  "digitVal c = (let n = of_char c in if 48 \<le> n \<and> n \<le> (57::nat) then Some (n - 48) else None)"

fun natText :: "nat \<Rightarrow> string" where
  "natText n = (if n < 10 then [digitChar n] else natText (n div 10) @ [digitChar (n mod 10)])"

declare natText.simps [simp del]

text \<open>\<^verbatim>\<open>strconv.Itoa\<close> and \<^verbatim>\<open>strconv.FormatInt(_, 10)\<close>.\<close>

definition itoa :: "int \<Rightarrow> string" where
  "itoa i = (if i < 0 then CHR ''-'' # natText (nat (- i)) else natText (nat i))"

fun parseDigits :: "nat \<Rightarrow> string \<Rightarrow> nat option" where
  "parseDigits acc [] = Some acc"
| "parseDigits acc (c # cs) =
     (case digitVal c of None \<Rightarrow> None | Some d \<Rightarrow> parseDigits (10 * acc + d) cs)"

text \<open>
  \<^verbatim>\<open>strconv.ParseInt(s, 10, bits)\<close>: an optional sign, at least one digit, and a value that
  fits \<open>bits\<close> bits of two's complement. The program only looks at whether there was an
  error, so the syntax error and the range error are both \<open>None\<close>.
\<close>

definition parseUnsigned :: "string \<Rightarrow> nat option" where
  "parseUnsigned s = (if s = [] then None else parseDigits 0 s)"

definition parseInt :: "nat \<Rightarrow> string \<Rightarrow> int option" where
  "parseInt bits s =
     (case s of
        [] \<Rightarrow> None
      | c # cs \<Rightarrow>
          (let neg = (c = CHR ''-'');
               body = (if c = CHR ''-'' \<or> c = CHR ''+'' then cs else s)
           in case parseUnsigned body of
                None \<Rightarrow> None
              | Some n \<Rightarrow>
                  if neg then (if int n \<le> 2 ^ (bits - 1) then Some (- int n) else None)
                  else (if int n < 2 ^ (bits - 1) then Some (int n) else None)))"

definition atoi :: "string \<Rightarrow> int option" where
  "atoi s = parseInt 64 s"

section \<open>Time\<close>

definition second :: duration where "second = 1000000000"
definition minute :: duration where "minute = 60 * second"
definition hour :: duration where "hour = 60 * minute"

definition maxDuration :: duration where "maxDuration = 2 ^ 63 - 1"
definition minDuration :: duration where "minDuration = - (2 ^ 63)"

text \<open>\<^verbatim>\<open>t.Sub(u)\<close> saturates instead of overflowing.\<close>

definition timeSub :: "time \<Rightarrow> time \<Rightarrow> duration" where
  "timeSub t u = max minDuration (min maxDuration (t - u))"

text \<open>
  \<^verbatim>\<open>Duration.String\<close>: hours, minutes and seconds, the seconds with as many decimals as
  needed, or a smaller unit below a second.
\<close>

fun padDigits :: "nat \<Rightarrow> nat \<Rightarrow> string" where
  "padDigits 0 v = []"
| "padDigits (Suc n) v = padDigits n (v div 10) @ [digitChar (v mod 10)]"

definition fracText :: "nat \<Rightarrow> nat \<Rightarrow> string" where
  "fracText prec v =
     (let f = rev (dropWhile (\<lambda>c. c = CHR ''0'') (rev (padDigits prec (v mod 10 ^ prec))))
      in natText (v div 10 ^ prec) @ (if f = [] then [] else ''.'' @ f))"

definition durationString :: "duration \<Rightarrow> string" where
  "durationString d =
     (let u = nat \<bar>d\<bar>;
          minutes = u div 60000000000;
          text = (if u = 0 then ''0s''
                  else if u < 1000 then natText u @ ''ns''
                  else if u < 1000000 then fracText 3 u @ map char_of [194, 181 :: nat] @ ''s''
                  else if u < 1000000000 then fracText 6 u @ ''ms''
                  else (if minutes div 60 = 0 then [] else natText (minutes div 60) @ ''h'')
                     @ (if minutes = 0 then [] else natText (minutes mod 60) @ ''m'')
                     @ fracText 9 (u mod 60000000000) @ ''s'')
      in if d < 0 then ''-'' @ text else text)"

text \<open>\<^verbatim>\<open>strings.Compare\<close>, and sorting with a comparison function that keeps equal elements in order.\<close>

definition goCompare :: "string \<Rightarrow> string \<Rightarrow> int" where
  "goCompare a b = (if a < b then - 1 else if a = b then 0 else 1)"

fun insertBy :: "('a \<Rightarrow> 'a \<Rightarrow> int) \<Rightarrow> 'a \<Rightarrow> 'a list \<Rightarrow> 'a list" where
  "insertBy cmp x [] = [x]"
| "insertBy cmp x (y # ys) = (if cmp x y \<le> 0 then x # y # ys else y # insertBy cmp x ys)"

definition stableSort :: "('a \<Rightarrow> 'a \<Rightarrow> int) \<Rightarrow> 'a list \<Rightarrow> 'a list" where
  "stableSort cmp xs = foldr (insertBy cmp) xs []"

section \<open>Facts about strings and numbers\<close>

lemma mget_upd [simp]: "mget (m(k \<mapsto> v)) k' = (if k' = k then v else mget m k')"
  by (simp add: mget_def)

lemma mget_del [simp]: "mget (m(k := None)) k' = (if k' = k then [] else mget m k')"
  by (simp add: mget_def)

lemma mget_empty [simp]: "mget Map.empty k = []"
  by (simp add: mget_def)

lemma splitOn_nonempty [simp]: "splitOn c s \<noteq> []"
  by (induction c s rule: splitOn.induct) (auto split: list.splits)

lemma splitOn_no_sep: "c \<notin> set s \<Longrightarrow> splitOn c s = [s]"
  by (induction s) auto

lemma splitOn_append: "c \<notin> set s \<Longrightarrow> splitOn c (s @ c # t) = s # splitOn c t"
  by (induction s) auto

lemma splitOn_parts: "p \<in> set (splitOn c s) \<Longrightarrow> c \<notin> set p"
proof (induction c s arbitrary: p rule: splitOn.induct)
  case (2 c x xs)
  then show ?case by (cases "splitOn c xs") (auto split: if_splits)
qed simp

lemma splitOn_concat: "concat (map (\<lambda>p. c # p) (splitOn c s)) = c # s"
  by (induction c s rule: splitOn.induct) (auto split: list.splits)

lemma splitOn_concat_inverse:
  assumes "ps \<noteq> []" and "\<forall>p \<in> set ps. c \<notin> set p"
  shows "splitOn c (tl (concat (map (\<lambda>p. c # p) ps))) = ps"
  using assms
proof (induction ps)
  case (Cons p ps)
  show ?case
  proof (cases ps)
    case Nil
    with Cons.prems show ?thesis by (simp add: splitOn_no_sep)
  next
    case (Cons q qs)
    with Cons.IH Cons.prems have "splitOn c (q @ concat (map (\<lambda>p. c # p) qs)) = ps" by simp
    with Cons Cons.prems show ?thesis by (simp add: splitOn_append)
  qed
qed simp

lemma replaceAll2_id: "c \<notin> set s \<Longrightarrow> replaceAll2 c d r s = s"
  by (induction c d r s rule: replaceAll2.induct) auto

lemma replaceAll2_skip: "x \<noteq> c \<Longrightarrow> replaceAll2 c d r (x # s) = x # replaceAll2 c d r s"
  by (cases s) auto

lemma hasPrefix_Cons [simp]: "hasPrefix (x # s) (y # p) \<longleftrightarrow> x = y \<and> hasPrefix s p"
  by (auto simp: hasPrefix_def)

lemma hasPrefix_Nil [simp]: "hasPrefix s []" "hasPrefix [] (y # p) \<longleftrightarrow> False"
  by (auto simp: hasPrefix_def)

subsection \<open>Decimal text\<close>

lemma digitVal_digitChar [simp]: "n < 10 \<Longrightarrow> digitVal (digitChar n) = Some n"
  by (simp add: digitVal_def digitChar_def Let_def)

lemma digitChar_not_sign [simp]:
  assumes "n < 10"
  shows "digitChar n \<noteq> CHR ''-''" "digitChar n \<noteq> CHR ''+''"
proof -
  have "of_char (digitChar n) = 48 + n" using assms by (simp add: digitChar_def)
  then show "digitChar n \<noteq> CHR ''-''" "digitChar n \<noteq> CHR ''+''"
    by (auto dest: arg_cong [where f = "of_char :: char \<Rightarrow> nat"])
qed

lemma natText_nonempty [simp]: "natText n \<noteq> []"
  by (subst natText.simps) simp

lemma natText_not_empty' [simp]: "[] \<noteq> natText n"
  using natText_nonempty [of n] by metis

lemma natText_chars: "c \<in> set (natText n) \<Longrightarrow> \<exists>d < 10. c = digitChar d"
proof (induction n rule: natText.induct)
  case (1 n)
  show ?case
  proof (cases "n < 10")
    case True
    with "1.prems" show ?thesis by (subst (asm) natText.simps) auto
  next
    case False
    with "1.prems" have "c \<in> set (natText (n div 10)) \<or> c = digitChar (n mod 10)"
      by (subst (asm) natText.simps) auto
    moreover have "n mod 10 < 10" by simp
    ultimately show ?thesis using "1.IH" [OF False] by blast
  qed
qed

lemma parseDigits_append:
  "parseDigits acc (xs @ ys) =
     (case parseDigits acc xs of None \<Rightarrow> None | Some a \<Rightarrow> parseDigits a ys)"
  by (induction acc xs rule: parseDigits.induct) (auto split: option.splits)

lemma parseDigits_natText: "parseDigits 0 (natText n) = Some n"
proof (induction n rule: natText.induct)
  case (1 n)
  show ?case
  proof (cases "n < 10")
    case True
    then show ?thesis by (subst natText.simps) simp
  next
    case False
    with 1 have "parseDigits 0 (natText (n div 10)) = Some (n div 10)" by simp
    with False show ?thesis by (subst natText.simps) (simp add: parseDigits_append)
  qed
qed

lemma natText_hd: "natText n = c # cs \<Longrightarrow> c \<noteq> CHR ''-'' \<and> c \<noteq> CHR ''+''"
  using natText_chars [of c n] by auto

lemma itoa_nonempty [simp]: "itoa i \<noteq> []"
  by (simp add: itoa_def)

lemma parseInt_itoa:
  assumes "- (2 ^ (b - 1)) \<le> i" and "i < 2 ^ (b - 1)"
  shows "parseInt b (itoa i) = Some i"
proof (cases "i < 0")
  case True
  then have "parseUnsigned (natText (nat (- i))) = Some (nat (- i))"
    by (simp add: parseUnsigned_def parseDigits_natText)
  with True assms show ?thesis by (simp add: parseInt_def itoa_def Let_def)
next
  case False
  obtain c cs where t: "natText (nat i) = c # cs" by (cases "natText (nat i)") auto
  have "parseUnsigned (c # cs) = Some (nat i)"
    using parseDigits_natText [of "nat i"] by (simp add: parseUnsigned_def t [symmetric])
  with False assms t natText_hd [OF t] show ?thesis by (simp add: parseInt_def itoa_def Let_def)
qed

lemma parseInt_range:
  "parseInt b s = Some i \<Longrightarrow> - (2 ^ (b - 1)) \<le> i \<and> i < 2 ^ (b - 1)"
  by (auto simp: parseInt_def Let_def split: list.splits option.splits if_splits
      intro: order_trans [of _ 0] order_le_less_trans [of _ 0])

text \<open>An \<open>int32\<close> printed in decimal and parsed back with \<^verbatim>\<open>ParseInt(_, 10, 32)\<close> is itself.\<close>

lemma parseInt32_sint: "parseInt 32 (itoa (sint (r :: int32))) = Some (sint r)"
proof (rule parseInt_itoa)
  show "- (2 ^ (32 - 1)) \<le> sint r" using sint_ge [of r] by simp
  show "sint r < 2 ^ (32 - 1)" using sint_lt [of r] by simp
qed

lemma timeSub_exact:
  "minDuration \<le> t - u \<Longrightarrow> t - u \<le> maxDuration \<Longrightarrow> timeSub t u = t - u"
  by (simp add: timeSub_def)

lemma timeSub_ge: "x \<le> maxDuration \<Longrightarrow> x \<le> t - u \<Longrightarrow> x \<le> timeSub t u"
  by (simp add: timeSub_def)

section \<open>Stores with addressed fields\<close>

text \<open>
  A store holds values at addresses; \<open>put d p (Some v)\<close> puts a value, \<open>put d p None\<close>
  takes it away, and either may fail. \<open>writeAll\<close> performs several writes. The locale says
  what a component that overwrites fields and puts them back later needs from the store.
\<close>

fun writeAll :: "('d \<Rightarrow> 'p \<Rightarrow> 'v option \<Rightarrow> 'd option) \<Rightarrow> 'd \<Rightarrow> ('p \<times> 'v option) list \<Rightarrow> 'd option" where
  "writeAll put d [] = Some d"
| "writeAll put d ((p, v) # ps) =
     (case put d p v of None \<Rightarrow> None | Some d' \<Rightarrow> writeAll put d' ps)"

lemma writeAll_append:
  "writeAll put d (xs @ ys) =
     (case writeAll put d xs of None \<Rightarrow> None | Some d' \<Rightarrow> writeAll put d' ys)"
  by (induction xs arbitrary: d) (auto split: option.splits)

locale field_store =
  fixes read :: "'d \<Rightarrow> 'p \<Rightarrow> 'v option"
    and put :: "'d \<Rightarrow> 'p \<Rightarrow> 'v option \<Rightarrow> 'd option"
    and disjnt :: "'p \<Rightarrow> 'p \<Rightarrow> bool"
    and ok :: "'d \<Rightarrow> bool"
    and vok :: "'v \<Rightarrow> bool"
  assumes undo: "ok d \<Longrightarrow> put d p (Some v) = Some d' \<Longrightarrow> put d' p (read d p) = Some d"
    and commute: "ok d \<Longrightarrow> disjnt p q \<Longrightarrow> put d p a = Some d1 \<Longrightarrow> put d1 q b = Some d2 \<Longrightarrow>
      \<exists>d1'. put d q b = Some d1' \<and> put d1' p a = Some d2"
    and frame: "disjnt p q \<Longrightarrow> put d p a = Some d' \<Longrightarrow> read d' q = read d q"
    and put_ok: "ok d \<Longrightarrow> pred_option vok a \<Longrightarrow> put d p a = Some d' \<Longrightarrow> ok d'"
    and read_ok: "ok d \<Longrightarrow> read d p = Some v \<Longrightarrow> vok v"
    and disjnt_sym: "disjnt p q \<Longrightarrow> disjnt q p"
begin

lemma read_vok: "ok d \<Longrightarrow> pred_option vok (read d p)"
  by (cases "read d p") (auto dest: read_ok)

lemma writeAll_ok:
  "ok d \<Longrightarrow> \<forall>(p, a) \<in> set ps. pred_option vok a \<Longrightarrow> writeAll put d ps = Some d' \<Longrightarrow> ok d'"
proof (induction ps arbitrary: d)
  case (Cons x ps)
  obtain p a where x: "x = (p, a)" by (cases x)
  then obtain e where e: "put d p a = Some e" and es: "writeAll put e ps = Some d'"
    using Cons.prems(3) by (auto split: option.splits)
  have "ok e" using put_ok [OF Cons.prems(1) _ e] Cons.prems(2) x by simp
  with Cons.IH Cons.prems(2) es show ?case by simp
qed simp

text \<open>A write at an address disjoint from all the others can be made first instead of last.\<close>

lemma put_first:
  assumes "ok d" and "\<forall>(q, a) \<in> set xs. pred_option vok a \<and> disjnt p q"
    and "writeAll put d xs = Some d1" and "put d1 p b = Some d2"
  shows "writeAll put d ((p, b) # xs) = Some d2"
  using assms
proof (induction xs arbitrary: d)
  case (Cons x xs)
  obtain q a where x: "x = (q, a)" by (cases x)
  from Cons.prems(3) x obtain e where e: "put d q a = Some e" and es: "writeAll put e xs = Some d1"
    by (auto split: option.splits)
  have pq: "disjnt p q" and va: "pred_option vok a" using Cons.prems(2) x by auto
  have "ok e" using Cons.prems(1) va e by (rule put_ok)
  with Cons.IH [OF this] Cons.prems(2,4) es have "writeAll put e ((p, b) # xs) = Some d2" by auto
  then obtain f where f: "put e p b = Some f" and fs: "writeAll put f xs = Some d2"
    by (auto split: option.splits)
  from commute [OF Cons.prems(1) disjnt_sym [OF pq] e f]
  obtain g where "put d p b = Some g" "put g q a = Some f" by blast
  with x fs show ?case by simp
qed simp

text \<open>
  Fields at pairwise disjoint addresses are overwritten; putting back what each held, in
  any order, gives the original store.
\<close>

lemma writeAll_restore:
  assumes "ok d" and "\<forall>(p, v) \<in> set ps. vok v"
    and "pairwise disjnt (set (map fst ps))" and "distinct (map fst ps)"
    and "writeAll put d (map (\<lambda>(p, v). (p, Some v)) ps) = Some d'"
    and "mset olds = mset (map (\<lambda>(p, _). (p, read d p)) ps)"
  shows "writeAll put d' olds = Some d"
  using assms
proof (induction ps arbitrary: d olds)
  case (Cons x ps)
  obtain p v where x: "x = (p, v)" by (cases x)
  from Cons.prems(5) x obtain e where e: "put d p (Some v) = Some e"
    and es: "writeAll put e (map (\<lambda>(p, v). (p, Some v)) ps) = Some d'"
    by (auto split: option.splits)
  have oke: "ok e" using put_ok [OF Cons.prems(1) _ e] Cons.prems(2) x by simp
  have disj: "disjnt p q" if "q \<in> fst ` set ps" for q
    using Cons.prems(3,4) x that by (auto simp: pairwise_def)
  then have same: "read e q = read d q" if "q \<in> fst ` set ps" for q
    using frame [OF _ e] that by blast
  have "(p, read d p) \<in> set olds"
    using Cons.prems(6) x by (metis (no_types, lifting) case_prod_conv list.set_intros(1) list.simps(9) set_mset_mset)
  then obtain ys zs where olds: "olds = ys @ (p, read d p) # zs" by (meson split_list)
  have rest: "mset (ys @ zs) = mset (map (\<lambda>(q, _). (q, read e q)) ps)"
  proof -
    have "mset (map (\<lambda>(q, _). (q, read e q)) ps) = mset (map (\<lambda>(q, _). (q, read d q)) ps)"
      using same by (intro arg_cong [where f = mset] map_cong refl) force
    then show ?thesis using Cons.prems(6) x olds by simp
  qed
  have r1: "writeAll put d' (ys @ zs) = Some e"
    using Cons.IH [OF oke _ _ _ es rest] Cons.prems(2-4) by (auto simp: pairwise_def)
  then obtain f where f: "writeAll put d' ys = Some f" and fz: "writeAll put f zs = Some e"
    by (auto simp: writeAll_append split: option.splits)
  have inps: "\<exists>w. (q, w) \<in> set ps \<and> a = read e q" if "(q, a) \<in> set (ys @ zs)" for q a
  proof -
    have "(q, a) \<in> set (map (\<lambda>(q, _). (q, read e q)) ps)"
      using that rest by (metis set_mset_mset)
    then show ?thesis by auto
  qed
  have okd': "ok d'" using writeAll_ok [OF oke _ es] Cons.prems(2) by fastforce
  have okf: "ok f" using writeAll_ok [OF okd' _ f] inps read_vok [OF oke] by fastforce
  have "writeAll put f ((p, read d p) # zs) = Some d"
    using put_first [OF okf _ fz undo [OF Cons.prems(1) e]] inps read_vok [OF oke] disj
    by (fastforce simp: image_iff)
  with f olds show ?case by (simp add: writeAll_append)
qed simp

end

section \<open>Sorting with a comparison function\<close>

lemma mset_insertBy [simp]: "mset (insertBy cmp x xs) = add_mset x (mset xs)"
  by (induction xs) auto

lemma mset_stableSort [simp]: "mset (stableSort cmp xs) = mset xs"
  by (induction xs) (simp_all add: stableSort_def)

lemma set_stableSort [simp]: "set (stableSort cmp xs) = set xs"
  by (metis mset_stableSort set_mset_mset)

lemma length_stableSort [simp]: "length (stableSort cmp xs) = length xs"
  by (metis mset_stableSort size_mset)

locale comparison =
  fixes cmp :: "'a \<Rightarrow> 'a \<Rightarrow> int"
  assumes swap: "cmp y x < 0 \<longleftrightarrow> 0 < cmp x y"
    and trans: "cmp x y \<le> 0 \<Longrightarrow> cmp y z \<le> 0 \<Longrightarrow> cmp x z \<le> 0"
begin

lemma sorted_insertBy:
  "sorted_wrt (\<lambda>a b. cmp a b \<le> 0) xs \<Longrightarrow> sorted_wrt (\<lambda>a b. cmp a b \<le> 0) (insertBy cmp x xs)"
proof (induction xs)
  case (Cons y ys)
  have "set (insertBy cmp x ys) = insert x (set ys)"
    by (metis mset_insertBy set_mset_add_mset_insert set_mset_mset)
  moreover have "cmp y x \<le> 0" if "\<not> cmp x y \<le> 0" using swap [of y x] that by linarith
  moreover have "\<forall>z \<in> set ys. cmp x z \<le> 0" if "cmp x y \<le> 0"
    using that trans [of x y] Cons.prems by simp
  ultimately show ?case using Cons by simp
qed simp

lemma sorted_stableSort: "sorted_wrt (\<lambda>a b. cmp a b \<le> 0) (stableSort cmp xs)"
  by (induction xs) (simp_all add: stableSort_def sorted_insertBy)

lemma filter_insertBy:
  "filter (\<lambda>y. cmp z y = 0) (insertBy cmp x xs) =
     (if cmp z x = 0 then x # filter (\<lambda>y. cmp z y = 0) xs else filter (\<lambda>y. cmp z y = 0) xs)"
proof (induction xs)
  case (Cons y ys)
  have "cmp x y \<le> 0" if "cmp z x = 0" "cmp z y = 0"
    using that swap [of x z] swap [of z x] trans [of x z y] by simp
  with Cons show ?case by auto
qed simp

lemma filter_stableSort:
  "filter (\<lambda>y. cmp z y = 0) (stableSort cmp xs) = filter (\<lambda>y. cmp z y = 0) xs"
  by (induction xs) (simp_all add: stableSort_def filter_insertBy)

end

section \<open>Objects with an owner\<close>

text \<open>
  Several schedules work on the same objects. An operation by a schedule other than the
  owner of an object does nothing to it; then no sequence of such operations does.
\<close>

locale owned_object =
  fixes step :: "string \<Rightarrow> bool \<Rightarrow> 'w \<Rightarrow> 'w"
    and owner :: "'w \<Rightarrow> string"
  assumes foreign: "owner w \<noteq> [] \<Longrightarrow> owner w \<noteq> sched \<Longrightarrow> step sched up w = w"
begin

definition runAll :: "(string \<times> bool) list \<Rightarrow> 'w \<Rightarrow> 'w" where
  "runAll ops w = fold (\<lambda>(sched, up) w. step sched up w) ops w"

lemma runAll_foreign:
  "owner w \<noteq> [] \<Longrightarrow> \<forall>(sched, up) \<in> set ops. sched \<noteq> owner w \<Longrightarrow> runAll ops w = w"
  by (induction ops) (auto simp: runAll_def foreign)

text \<open>Operations of others between two operations of the owner make no difference.\<close>

lemma runAll_between:
  "owner (step a u w) = a \<Longrightarrow> a \<noteq> [] \<Longrightarrow> \<forall>(sched, up) \<in> set ops. sched \<noteq> a \<Longrightarrow>
     step a u' (runAll ops (step a u w)) = step a u' (step a u w)"
  by (subst runAll_foreign) auto

end

end
