(* ===== verification/Json.thy ===== *)
theory Json
  imports Prelude
begin

text \<open>
  Decoded JSON documents, the Go type \<^verbatim>\<open>any\<close> as the program meets it: the dynamic types that
  \<^verbatim>\<open>encoding/json\<close> and the unstructured objects produce, and the two further integer types
  that \<^verbatim>\<open>NormalizeValue\<close> accepts. A finite \<^verbatim>\<open>float64\<close> is an exact rational. A
  \<^verbatim>\<open>map[string]any\<close> is an association list kept sorted by key, so that equal maps are equal
  lists and iteration in key order is iteration over the list.
\<close>

named_theorems json_simps \<open>lookups and updates of JSON objects\<close>

datatype json =
    JNull
  | JBool bool
  | JInt64 int
  | JGoInt int
  | JInt32 int
  | JFloat rat
  | JStr string
  | JArr "json list"
  | JObj "(string \<times> json) list"

section \<open>Objects as sorted association lists\<close>

fun objSet :: "string \<Rightarrow> 'v \<Rightarrow> (string \<times> 'v) list \<Rightarrow> (string \<times> 'v) list" where
  "objSet k v [] = [(k, v)]"
| "objSet k v ((k', v') # m) =
     (if k < k' then (k, v) # (k', v') # m
      else if k = k' then (k, v) # m
      else (k', v') # objSet k v m)"

definition objDel :: "string \<Rightarrow> (string \<times> 'v) list \<Rightarrow> (string \<times> 'v) list" where
  "objDel k m = filter (\<lambda>(k', _). k' \<noteq> k) m"

definition wfObj :: "(string \<times> 'v) list \<Rightarrow> bool" where
  "wfObj m \<longleftrightarrow> sorted_wrt (<) (map fst m)"

text \<open>A well-formed document: sorted objects, and arrays a Go slice can hold.\<close>

fun wfJson :: "json \<Rightarrow> bool" where
  "wfJson (JArr xs) \<longleftrightarrow> length xs < 2 ^ 63 \<and> (\<forall>x \<in> set xs. wfJson x)"
| "wfJson (JObj m) \<longleftrightarrow> wfObj m \<and> (\<forall>kv \<in> set m. wfJson (snd kv))"
| "wfJson _ \<longleftrightarrow> True"

lemma map_of_objSet [simp, json_simps]: "map_of (objSet k v m) = (map_of m)(k \<mapsto> v)"
  by (induction k v m rule: objSet.induct) (auto simp: fun_eq_iff)

lemma map_of_objDel [simp, json_simps]: "map_of (objDel k m) = (map_of m)(k := None)"
  by (induction m) (auto simp: objDel_def fun_eq_iff)

lemma keys_objSet: "set (map fst (objSet k v m)) = insert k (set (map fst m))"
  by (induction k v m rule: objSet.induct) auto

lemma wfObj_Nil [simp]: "wfObj []"
  by (simp add: wfObj_def)

lemma wfObj_objSet [simp]: "wfObj m \<Longrightarrow> wfObj (objSet k v m)"
proof (induction k v m rule: objSet.induct)
  case (2 k v k' v' m)
  then show ?case
    using keys_objSet [of k v m] by (auto simp: wfObj_def not_less)
qed (simp add: wfObj_def)

lemma wfObj_objDel [simp]: "wfObj m \<Longrightarrow> wfObj (objDel k m)"
  by (induction m) (auto simp: wfObj_def objDel_def)

lemma wfObj_distinct: "wfObj m \<Longrightarrow> distinct (map fst m)"
  by (induction m) (auto simp: wfObj_def)

text \<open>Two sorted association lists with the same lookups are the same list.\<close>

lemma wfObj_eqI:
  assumes "wfObj m" and "wfObj n" and "map_of m = map_of n"
  shows "m = n"
proof -
  have "set m = set n"
    using assms by (metis map_of_inject_set wfObj_distinct)
  moreover have "sorted (map fst m)" "sorted (map fst n)"
    using assms(1,2) unfolding wfObj_def by (auto intro: sorted_wrt_mono_rel strict_sorted_imp_sorted)
  ultimately show ?thesis
    using assms(1,2) by (metis wfObj_distinct map_sorted_distinct_set_unique distinct_map inj_on_Un Un_absorb)
qed

lemma objSet_overwrite: "wfObj m \<Longrightarrow> objSet k v (objSet k w m) = objSet k v m"
  by (rule wfObj_eqI) auto

lemma objSet_same: "wfObj m \<Longrightarrow> map_of m k = Some v \<Longrightarrow> objSet k v m = m"
  by (rule wfObj_eqI) (auto simp: fun_eq_iff)

lemma objDel_objSet: "wfObj m \<Longrightarrow> map_of m k = None \<Longrightarrow> objDel k (objSet k v m) = m"
  by (rule wfObj_eqI) (auto simp: fun_eq_iff)

lemma objSet_commute:
  "wfObj m \<Longrightarrow> k \<noteq> k' \<Longrightarrow> objSet k v (objSet k' v' m) = objSet k' v' (objSet k v m)"
  by (rule wfObj_eqI) (auto simp: fun_eq_iff)

lemma objSet_objDel_commute:
  "wfObj m \<Longrightarrow> k \<noteq> k' \<Longrightarrow> objSet k v (objDel k' m) = objDel k' (objSet k v m)"
  by (rule wfObj_eqI) (auto simp: fun_eq_iff)

lemma objDel_commute: "objDel k (objDel k' m) = objDel k' (objDel k m)"
  by (simp add: objDel_def conj_commute)

lemma objDel_absent: "map_of m k = None \<Longrightarrow> objDel k m = m"
  by (force simp: objDel_def filter_id_conv map_of_eq_None_iff)

section \<open>Well-formed documents\<close>

lemma wfJson_map_of: "wfJson (JObj m) \<Longrightarrow> map_of m k = Some c \<Longrightarrow> wfJson c"
  by (fastforce dest: map_of_SomeD)

lemma wfJson_nth: "wfJson (JArr xs) \<Longrightarrow> i < length xs \<Longrightarrow> wfJson (xs ! i)"
  by auto

lemma set_objSet: "set (objSet k v m) \<subseteq> insert (k, v) (set m)"
  by (induction k v m rule: objSet.induct) auto

lemma wfJson_objSet: "wfJson (JObj m) \<Longrightarrow> wfJson c \<Longrightarrow> wfJson (JObj (objSet k c m))"
  using set_objSet [of k c m] by auto

lemma wfJson_objDel: "wfJson (JObj m) \<Longrightarrow> wfJson (JObj (objDel k m))"
  by (auto simp: objDel_def[symmetric]) (auto simp: objDel_def)

lemma wfJson_list_update: "wfJson (JArr xs) \<Longrightarrow> wfJson c \<Longrightarrow> wfJson (JArr (xs[i := c]))"
  by (auto dest!: set_update_subset_insert [THEN subsetD])

end
