(* ===== verification/Jsonpointer.thy ===== *)
theory Jsonpointer
  imports Json
begin

text \<open>
  The package \<^verbatim>\<open>internal/jsonpointer\<close>: RFC 6901 pointers with a wildcard. \<open>Parse\<close> and
  \<open>Format\<close> convert between pointer strings and tokens, \<open>Expand\<close> resolves wildcards
  against a document, \<open>GetValue\<close>, \<open>SetValue\<close> and \<open>DeleteValue\<close> read and write at a
  concrete path and \<open>NormalizeValue\<close> brings a decoded value into the form unstructured
  objects use. The Go code mutates the document in place; the model returns the new one.
  A failing \<open>SetValue\<close> has not changed the document in Go either: the objects it creates
  on the way are empty maps, below which no later step can fail.
\<close>

datatype ptr_error =
    EmptyPointer
  | NoLeadingSlash string
  | EmptySegment string
  | CannotSetRoot
  | CannotDeleteRoot
  | NotAnIndex string string
  | IndexOutOfRange int string
  | CannotDescend string
  | ParentNotContainer string
  | ParentNotObject string

section \<open>Parse and Format\<close>

definition decodePart :: "string \<Rightarrow> string" where
  "decodePart part = replaceAll2 CHR ''~'' CHR ''0'' ''~'' (replaceAll2 CHR ''~'' CHR ''1'' ''/'' part)"

fun parseParts :: "string \<Rightarrow> string list \<Rightarrow> ptr_error + string list" where
  "parseParts pointer [] = Inr []"
| "parseParts pointer (part # parts) =
     (if part = [] then Inl (EmptySegment pointer)
      else (case parseParts pointer parts of
              Inl e \<Rightarrow> Inl e
            | Inr ts \<Rightarrow> Inr (decodePart part # ts)))"

definition Parse :: "string \<Rightarrow> ptr_error + string list" where
  "Parse pointer =
     (if pointer = [] then Inl EmptyPointer
      else if \<not> hasPrefix pointer ''/'' then Inl (NoLeadingSlash pointer)
      else parseParts pointer (splitOn CHR ''/'' (tl pointer)))"

definition encodeToken :: "string \<Rightarrow> string" where
  "encodeToken token = replaceAll1 CHR ''/'' ''~1'' (replaceAll1 CHR ''~'' ''~0'' token)"

definition Format :: "string list \<Rightarrow> string" where
  "Format tokens = concat (map (\<lambda>t. ''/'' @ encodeToken t) tokens)"

section \<open>Expand\<close>

definition wildcardToken :: string where
  "wildcardToken = ''*''"

definition containsWildcard :: "string list \<Rightarrow> bool" where
  "containsWildcard tokens \<longleftrightarrow> wildcardToken \<in> set tokens"

text \<open>An array element addressed by a token: \<^verbatim>\<open>Atoi\<close> and the bounds check.\<close>

definition arrayIndex :: "string \<Rightarrow> 'v list \<Rightarrow> nat option" where
  "arrayIndex token xs =
     (case atoi token of
        None \<Rightarrow> None
      | Some i \<Rightarrow> if i < 0 \<or> i \<ge> int (length xs) then None else Some (nat i))"

fun walkPointer :: "json \<Rightarrow> string list \<Rightarrow> string list \<Rightarrow> string list list" where
  "walkPointer node [] path = [path]"
| "walkPointer node (token # rest) path =
     (case node of
        JObj m \<Rightarrow>
          (if token = wildcardToken
           then concat (map (\<lambda>(key, child). walkPointer child rest (path @ [key])) m)
           else (case map_of m token of
                   None \<Rightarrow> (if containsWildcard rest then [] else [path @ [token] @ rest])
                 | Some child \<Rightarrow> walkPointer child rest (path @ [token])))
      | JArr xs \<Rightarrow>
          (if token = wildcardToken
           then concat (map (\<lambda>(i, x). walkPointer x rest (path @ [itoa (int i)])) (enumerate 0 xs))
           else (case arrayIndex token xs of
                   None \<Rightarrow> []
                 | Some i \<Rightarrow> walkPointer (xs ! i) rest (path @ [token])))
      | _ \<Rightarrow> [])"

definition Expand :: "json \<Rightarrow> string list \<Rightarrow> string list list" where
  "Expand doc tokens = walkPointer doc tokens []"

section \<open>Reading and writing at a concrete path\<close>

fun GetValue :: "json \<Rightarrow> string list \<Rightarrow> json option" where
  "GetValue node [] = Some node"
| "GetValue node (token # rest) =
     (case node of
        JObj m \<Rightarrow> (case map_of m token of None \<Rightarrow> None | Some child \<Rightarrow> GetValue child rest)
      | JArr xs \<Rightarrow> (case arrayIndex token xs of None \<Rightarrow> None | Some i \<Rightarrow> GetValue (xs ! i) rest)
      | _ \<Rightarrow> None)"

text \<open>The error of an array step of \<open>SetValue\<close>, with the pointer up to and including it.\<close>

definition indexError :: "string \<Rightarrow> string list \<Rightarrow> ptr_error" where
  "indexError token seen =
     (case atoi token of
        None \<Rightarrow> NotAnIndex token (Format seen)
      | Some i \<Rightarrow> IndexOutOfRange i (Format seen))"

text \<open>A missing or null member becomes an empty object on the way down.\<close>

definition childOrNew :: "(string \<times> json) list \<Rightarrow> string \<Rightarrow> json" where
  "childOrNew m token =
     (case map_of m token of None \<Rightarrow> JObj [] | Some JNull \<Rightarrow> JObj [] | Some c \<Rightarrow> c)"

fun setAt :: "json \<Rightarrow> string list \<Rightarrow> string list \<Rightarrow> json \<Rightarrow> ptr_error + json" where
  "setAt node path [] v = Inl CannotSetRoot"
| "setAt node path [leaf] v =
     (case node of
        JObj m \<Rightarrow> Inr (JObj (objSet leaf v m))
      | JArr xs \<Rightarrow> (case arrayIndex leaf xs of
                     None \<Rightarrow> Inl (indexError leaf (path @ [leaf]))
                   | Some i \<Rightarrow> Inr (JArr (xs[i := v])))
      | _ \<Rightarrow> Inl (ParentNotContainer (Format (path @ [leaf]))))"
| "setAt node path (token # t2 # rest) v =
     (case node of
        JObj m \<Rightarrow> (case setAt (childOrNew m token) (path @ [token]) (t2 # rest) v of
                     Inl e \<Rightarrow> Inl e
                   | Inr c \<Rightarrow> Inr (JObj (objSet token c m)))
      | JArr xs \<Rightarrow> (case arrayIndex token xs of
                     None \<Rightarrow> Inl (indexError token (path @ [token]))
                   | Some i \<Rightarrow> (case setAt (xs ! i) (path @ [token]) (t2 # rest) v of
                                 Inl e \<Rightarrow> Inl e
                               | Inr c \<Rightarrow> Inr (JArr (xs[i := c]))))
      | _ \<Rightarrow> Inl (CannotDescend (Format (path @ [token]))))"

definition SetValue :: "json \<Rightarrow> string list \<Rightarrow> json \<Rightarrow> ptr_error + json" where
  "SetValue doc tokens v = (if tokens = [] then Inl CannotSetRoot else setAt doc [] tokens v)"

text \<open>
  \<^verbatim>\<open>DeleteValue\<close> finds the parent with \<^verbatim>\<open>GetValue\<close> and deletes from the map it got, which is
  part of the document: \<open>putAt\<close> writes that map back at the parent's path.
\<close>

fun putAt :: "json \<Rightarrow> string list \<Rightarrow> json \<Rightarrow> json" where
  "putAt node [] c = c"
| "putAt node (token # rest) c =
     (case node of
        JObj m \<Rightarrow> (case map_of m token of
                     None \<Rightarrow> node
                   | Some child \<Rightarrow> JObj (objSet token (putAt child rest c) m))
      | JArr xs \<Rightarrow> (case arrayIndex token xs of
                     None \<Rightarrow> node
                   | Some i \<Rightarrow> JArr (xs[i := putAt (xs ! i) rest c]))
      | _ \<Rightarrow> node)"

definition DeleteValue :: "json \<Rightarrow> string list \<Rightarrow> ptr_error + json" where
  "DeleteValue doc tokens =
     (if tokens = [] then Inl CannotDeleteRoot
      else (case GetValue doc (butlast tokens) of
              None \<Rightarrow> Inr doc
            | Some parent \<Rightarrow>
                (case parent of
                   JObj m \<Rightarrow> Inr (putAt doc (butlast tokens) (JObj (objDel (last tokens) m)))
                 | JArr xs \<Rightarrow> Inr doc
                 | _ \<Rightarrow> Inl (ParentNotObject (Format tokens)))))"

section \<open>NormalizeValue\<close>

text \<open>
  A whole \<^verbatim>\<open>float64\<close> becomes an \<^verbatim>\<open>int64\<close>. The constant \<^verbatim>\<open>math.MaxInt64\<close> rounds to \<open>2 ^ 63\<close> in
  the comparison with a \<^verbatim>\<open>float64\<close>, so that value passes the check although it does not fit;
  what the conversion gives for it depends on the platform (\<open>wide\<close>: the least \<^verbatim>\<open>int64\<close> on
  amd64, the greatest on arm64).
\<close>

definition convertFloat :: "int \<Rightarrow> rat \<Rightarrow> int" where
  "convertFloat wide q = (if q < 2 ^ 63 then \<lfloor>q\<rfloor> else wide)"

fun NormalizeValue :: "int \<Rightarrow> json \<Rightarrow> json" where
  "NormalizeValue wide (JFloat q) =
     (if q = of_int \<lfloor>q\<rfloor> \<and> - (2 ^ 63) \<le> q \<and> q \<le> 2 ^ 63
      then JInt64 (convertFloat wide q) else JFloat q)"
| "NormalizeValue wide (JGoInt i) = JInt64 i"
| "NormalizeValue wide (JInt32 i) = JInt64 i"
| "NormalizeValue wide (JArr xs) = JArr (map (NormalizeValue wide) xs)"
| "NormalizeValue wide (JObj m) = JObj (map (map_prod id (NormalizeValue wide)) m)"
| "NormalizeValue wide v = v"

section \<open>Pointers and tokens\<close>

lemma parseParts_eq:
  "parseParts pointer parts =
     (if [] \<in> set parts then Inl (EmptySegment pointer) else Inr (map decodePart parts))"
  by (induction parts) auto

lemma encodeToken_Nil [simp]: "encodeToken [] = []"
  by (simp add: encodeToken_def replaceAll1_def)

lemma encodeToken_Cons:
  "encodeToken (x # t) =
     (if x = CHR ''~'' then ''~0'' else if x = CHR ''/'' then ''~1'' else [x]) @ encodeToken t"
  by (simp add: encodeToken_def replaceAll1_def)

lemma encodeToken_empty_iff [simp]: "encodeToken t = [] \<longleftrightarrow> t = []"
  by (cases t) (auto simp: encodeToken_Cons)

lemma encodeToken_empty_iff' [simp]: "[] = encodeToken t \<longleftrightarrow> t = []"
  by (metis encodeToken_empty_iff)

lemma encodeToken_no_slash: "CHR ''/'' \<notin> set (encodeToken t)"
  by (induction t) (auto simp: encodeToken_Cons)

text \<open>The first replacement leaves a tilde only where the token had one.\<close>

lemma decode_encode_aux:
  "replaceAll2 CHR ''~'' CHR ''1'' ''/'' (encodeToken t) = replaceAll1 CHR ''~'' ''~0'' t"
proof (induction t)
  case (Cons x t)
  have "encodeToken t = [] \<or> (\<exists>y ys. encodeToken t = y # ys)" by (cases "encodeToken t") auto
  with Cons show ?case by (auto simp: encodeToken_Cons replaceAll1_def)
qed (simp add: replaceAll1_def)

lemma replaceAll2_tilde:
  "replaceAll2 CHR ''~'' CHR ''0'' ''~'' (replaceAll1 CHR ''~'' ''~0'' t) = t"
proof (induction t)
  case (Cons x t)
  have "t = [] \<or> (\<exists>y ys. t = y # ys)" by (cases t) auto
  with Cons show ?case by (auto simp: replaceAll1_def)
qed (simp add: replaceAll1_def)

lemma decode_encode [simp]: "decodePart (encodeToken t) = t"
  by (simp add: decodePart_def decode_encode_aux replaceAll2_tilde)

lemma Format_Cons: "Format (t # ts) = CHR ''/'' # encodeToken t @ Format ts"
  by (simp add: Format_def)

lemma Format_Nil [simp]: "Format [] = []"
  by (simp add: Format_def)

lemma Format_splits:
  assumes "ts \<noteq> []"
  shows "hasPrefix (Format ts) ''/''" and "splitOn CHR ''/'' (tl (Format ts)) = map encodeToken ts"
proof -
  show "hasPrefix (Format ts) ''/''" using assms by (cases ts) (auto simp: Format_Cons)
  have "Format ts = concat (map (\<lambda>p. CHR ''/'' # p) (map encodeToken ts))"
    by (simp add: Format_def o_def)
  moreover have "\<forall>p \<in> set (map encodeToken ts). CHR ''/'' \<notin> set p"
    using encodeToken_no_slash by auto
  ultimately show "splitOn CHR ''/'' (tl (Format ts)) = map encodeToken ts"
    using splitOn_concat_inverse [of "map encodeToken ts" "CHR ''/''"] assms by simp
qed

lemma Parse_Format_iff:
  "Parse (Format ts) = Inr ts \<longleftrightarrow> ts \<noteq> [] \<and> [] \<notin> set ts"
proof (cases "ts = []")
  case True
  then show ?thesis by (simp add: Parse_def)
next
  case False
  then have "Format ts \<noteq> []" by (cases ts) (auto simp: Format_Cons)
  with False show ?thesis
    by (auto simp: Parse_def Format_splits parseParts_eq image_iff o_def)
qed

text \<open>A pointer whose tildes all start one of the two escapes.\<close>

fun escapesOk :: "string \<Rightarrow> bool" where
  "escapesOk [] \<longleftrightarrow> True"
| "escapesOk [x] \<longleftrightarrow> x \<noteq> CHR ''~''"
| "escapesOk (x # y # s) \<longleftrightarrow>
     (if x = CHR ''~'' then (y = CHR ''0'' \<or> y = CHR ''1'') \<and> escapesOk s else escapesOk (y # s))"

lemma encode_decode:
  "escapesOk p \<Longrightarrow> CHR ''/'' \<notin> set p \<Longrightarrow> encodeToken (decodePart p) = p"
proof (induction p rule: escapesOk.induct)
  case (2 x)
  then show ?case by (simp add: decodePart_def encodeToken_Cons)
next
  case (3 x y s)
  show ?case
  proof (cases "x = CHR ''~''")
    case True
    with 3 have ih: "encodeToken (decodePart s) = s" and y: "y = CHR ''0'' \<or> y = CHR ''1''" by auto
    have "decodePart (x # y # s) = (if y = CHR ''1'' then CHR ''/'' else CHR ''~'') # decodePart s"
      using True y by (auto simp: decodePart_def replaceAll2_skip)
    then show ?thesis using ih y True by (auto simp: encodeToken_Cons)
  next
    case False
    have "decodePart (x # y # s) = x # decodePart (y # s)"
      using False by (simp add: decodePart_def replaceAll2_skip del: replaceAll2.simps)
    moreover have "encodeToken (decodePart (y # s)) = y # s" using 3 False by auto
    ultimately show ?thesis using False "3.prems" by (auto simp: encodeToken_Cons)
  qed
qed (simp add: decodePart_def)

lemma escapesOk_split: "escapesOk p \<Longrightarrow> q \<in> set (splitOn CHR ''/'' p) \<Longrightarrow> escapesOk q"
proof (induction p arbitrary: q rule: escapesOk.induct)
  case (3 x y s)
  obtain h t where ht: "splitOn CHR ''/'' s = h # t"
    by (metis splitOn_nonempty neq_Nil_conv)
  obtain h' t' where ht': "splitOn CHR ''/'' (y # s) = h' # t'"
    by (metis splitOn_nonempty neq_Nil_conv)
  show ?case
  proof (cases "x = CHR ''~''")
    case True
    with 3 ht have "q = x # y # h \<or> q \<in> set t" by auto
    with 3 True ht show ?thesis by auto
  next
    case False
    with 3 ht' have "q = [] \<or> q = x # h' \<or> q \<in> set t' \<or> q = h'" by (auto split: if_splits)
    moreover have "escapesOk h'" and "\<And>q. q \<in> set t' \<Longrightarrow> escapesOk q"
      using 3 False ht' by auto
    ultimately show ?thesis using False by (cases h') auto
  qed
qed (auto split: if_splits)

section \<open>Reads after writes\<close>

lemma arrayIndex_bound: "arrayIndex t xs = Some i \<Longrightarrow> i < length xs"
  by (auto simp: arrayIndex_def split: option.splits if_splits)

lemma arrayIndex_update [simp]: "arrayIndex t (xs[i := v]) = arrayIndex t xs"
  by (simp only: arrayIndex_def length_list_update)

lemma arrayIndex_nth_update [simp]: "arrayIndex t xs = Some i \<Longrightarrow> xs[i := v] ! i = v"
  by (simp add: arrayIndex_bound)

text \<open>Two tokens that can address the same member of some container.\<close>

definition sameStep :: "string \<Rightarrow> string \<Rightarrow> bool" where
  "sameStep a b \<longleftrightarrow> a = b \<or> (atoi a \<noteq> None \<and> atoi a = atoi b)"

lemma sameStep_sym: "sameStep a b \<Longrightarrow> sameStep b a"
  unfolding sameStep_def by metis

lemma not_sameStep_index:
  "\<not> sameStep a b \<Longrightarrow> arrayIndex a xs = Some i \<Longrightarrow> arrayIndex b xs = Some j \<Longrightarrow> i \<noteq> j"
  by (auto simp: sameStep_def arrayIndex_def split: option.splits if_splits)

text \<open>Paths that part ways: neither is a prefix of the other, on any document.\<close>

fun apart :: "string list \<Rightarrow> string list \<Rightarrow> bool" where
  "apart (a # p) (b # q) \<longleftrightarrow> \<not> sameStep a b \<or> apart p q"
| "apart _ _ \<longleftrightarrow> False"

lemma apart_sym: "apart p q \<Longrightarrow> apart q p"
  by (induction p q rule: apart.induct) (auto dest: sameStep_sym)

lemma apart_nonempty: "apart p q \<Longrightarrow> p \<noteq> [] \<and> q \<noteq> []"
  by (cases p; cases q) auto

lemma GetValue_Nil_obj: "q \<noteq> [] \<Longrightarrow> GetValue (JObj []) q = None" "q \<noteq> [] \<Longrightarrow> GetValue JNull q = None"
  by (cases q; simp)+

lemma GetValue_childOrNew:
  "q \<noteq> [] \<Longrightarrow> GetValue (childOrNew m t) q =
     (case map_of m t of None \<Rightarrow> None | Some c \<Rightarrow> GetValue c q)"
  by (auto simp: childOrNew_def GetValue_Nil_obj split: option.splits json.splits)

lemma GetValue_setAt: "setAt d path p v = Inr d' \<Longrightarrow> GetValue d' p = Some v"
proof (induction d path p v arbitrary: d' rule: setAt.induct)
  case (3 node path t t2 rest v)
  show ?case
  proof (cases node)
    case (JArr xs)
    then obtain i c where i: "arrayIndex t xs = Some i"
      and c: "setAt (xs ! i) (path @ [t]) (t2 # rest) v = Inr c" and d': "d' = JArr (xs[i := c])"
      using "3.prems" by (auto split: option.splits sum.splits)
    from "3.IH"(1) [OF JArr i c] show ?thesis using i d' by simp
  next
    case (JObj m)
    then obtain c where c: "setAt (childOrNew m t) (path @ [t]) (t2 # rest) v = Inr c"
      and d': "d' = JObj (objSet t c m)"
      using "3.prems" by (auto split: sum.splits)
    from "3.IH"(2) [OF JObj c] show ?thesis using d' by simp
  qed (use 3 in auto)
qed (auto split: json.splits option.splits)

text \<open>Writing at a path leaves the values at all paths apart from it unchanged.\<close>

lemma GetValue_setAt_apart:
  "setAt d path p v = Inr d' \<Longrightarrow> apart p q \<Longrightarrow> GetValue d' q = GetValue d q"
proof (induction d path p v arbitrary: d' q rule: setAt.induct)
  case (2 node path leaf v)
  from "2.prems"(2) obtain b r where q: "q = b # r" by (cases q) auto
  with "2.prems" have ns: "\<not> sameStep leaf b" by (cases r) auto
  then have "leaf \<noteq> b" by (auto simp: sameStep_def)
  with 2 q ns show ?case
    by (auto split: json.splits option.splits dest: not_sameStep_index)
next
  case (3 node path t t2 rest v)
  from "3.prems"(2) obtain b r where q: "q = b # r" by (cases q) auto
  show ?case
  proof (cases node)
    case (JArr xs)
    then obtain i c where i: "arrayIndex t xs = Some i"
      and c: "setAt (xs ! i) (path @ [t]) (t2 # rest) v = Inr c" and d': "d' = JArr (xs[i := c])"
      using "3.prems" by (auto split: option.splits sum.splits)
    show ?thesis
    proof (cases "sameStep t b")
      case True
      with q "3.prems"(2) have "apart (t2 # rest) r" by simp
      from "3.IH"(1) [OF JArr i c this] i d' q JArr show ?thesis
        by (auto split: option.splits simp: nth_list_update arrayIndex_bound)
    next
      case False
      with i d' q JArr show ?thesis
        by (auto split: option.splits dest: not_sameStep_index)
    qed
  next
    case (JObj m)
    then obtain c where c: "setAt (childOrNew m t) (path @ [t]) (t2 # rest) v = Inr c"
      and d': "d' = JObj (objSet t c m)"
      using "3.prems" by (auto split: sum.splits)
    show ?thesis
    proof (cases "t = b")
      case True
      with q "3.prems"(2) have ap: "apart (t2 # rest) r" by (simp add: sameStep_def)
      then have "r \<noteq> []" by (auto dest: apart_nonempty)
      with "3.IH"(2) [OF JObj c ap] True d' q JObj show ?thesis
        by (auto simp: GetValue_childOrNew split: option.splits)
    next
      case False
      with d' q JObj show ?thesis by simp
    qed
  qed (use 3 in auto)
qed simp

lemma wfJson_childOrNew: "wfJson (JObj m) \<Longrightarrow> wfJson (childOrNew m t)"
proof (cases "map_of m t")
  case (Some c)
  assume "wfJson (JObj m)"
  with Some have "wfJson c" by (rule wfJson_map_of [rotated])
  with Some show ?thesis by (cases c) (simp_all add: childOrNew_def)
qed (simp add: childOrNew_def)

lemma wfJson_setAt:
  "setAt d path p v = Inr d' \<Longrightarrow> wfJson d \<Longrightarrow> wfJson v \<Longrightarrow> wfJson d'"
proof (induction d path p v arbitrary: d' rule: setAt.induct)
  case (2 node path leaf v)
  then show ?case
    by (auto split: json.splits option.splits simp del: wfJson.simps
        intro: wfJson_objSet wfJson_list_update)
next
  case (3 node path t t2 rest v)
  show ?case
  proof (cases node)
    case (JArr xs)
    then obtain i c where i: "arrayIndex t xs = Some i"
      and c: "setAt (xs ! i) (path @ [t]) (t2 # rest) v = Inr c" and d': "d' = JArr (xs[i := c])"
      using "3.prems" by (auto split: option.splits sum.splits)
    have "wfJson (xs ! i)" using "3.prems" JArr i wfJson_nth arrayIndex_bound by blast
    from "3.IH"(1) [OF JArr i c this] "3.prems" JArr d' show ?thesis
      by (auto simp del: wfJson.simps intro: wfJson_list_update)
  next
    case (JObj m)
    then obtain c where c: "setAt (childOrNew m t) (path @ [t]) (t2 # rest) v = Inr c"
      and d': "d' = JObj (objSet t c m)"
      using "3.prems" by (auto split: sum.splits)
    have "wfJson (childOrNew m t)" using "3.prems" JObj wfJson_childOrNew by blast
    from "3.IH"(2) [OF JObj c this] "3.prems" JObj d' show ?thesis
      by (auto simp del: wfJson.simps intro: wfJson_objSet)
  qed (use 3 in auto)
qed simp

lemma wfJson_GetValue: "GetValue d p = Some v \<Longrightarrow> wfJson d \<Longrightarrow> wfJson v"
proof (induction d p rule: GetValue.induct)
  case (2 node t rest)
  then show ?case
    by (auto split: json.splits option.splits simp del: wfJson.simps
        dest: wfJson_map_of wfJson_nth [OF _ arrayIndex_bound])
qed simp

section \<open>Writes at existing parents\<close>

text \<open>
  \<open>writeAt\<close> is the common specification of \<open>SetValue\<close> and \<open>DeleteValue\<close> at a path whose
  parent exists: \<open>Some v\<close> sets the member, \<open>None\<close> removes it (and leaves an array alone).
\<close>

fun writeAt :: "json \<Rightarrow> string list \<Rightarrow> json option \<Rightarrow> json option" where
  "writeAt node [] w = None"
| "writeAt node [leaf] w =
     (case node of
        JObj m \<Rightarrow> Some (JObj (case w of Some v \<Rightarrow> objSet leaf v m | None \<Rightarrow> objDel leaf m))
      | JArr xs \<Rightarrow>
          (case w of
             None \<Rightarrow> Some node
           | Some v \<Rightarrow> (case arrayIndex leaf xs of None \<Rightarrow> None | Some i \<Rightarrow> Some (JArr (xs[i := v]))))
      | _ \<Rightarrow> None)"
| "writeAt node (t # t2 # rest) w =
     (case node of
        JObj m \<Rightarrow> (case map_of m t of
                     None \<Rightarrow> None
                   | Some c \<Rightarrow> map_option (\<lambda>c'. JObj (objSet t c' m)) (writeAt c (t2 # rest) w))
      | JArr xs \<Rightarrow> (case arrayIndex t xs of
                     None \<Rightarrow> None
                   | Some i \<Rightarrow> map_option (\<lambda>c'. JArr (xs[i := c'])) (writeAt (xs ! i) (t2 # rest) w))
      | _ \<Rightarrow> None)"

lemma writeAt_ok:
  "wfJson d \<Longrightarrow> pred_option wfJson w \<Longrightarrow> writeAt d p w = Some d' \<Longrightarrow> wfJson d'"
proof (induction d p w arbitrary: d' rule: writeAt.induct)
  case (2 node leaf w)
  then show ?case
    by (cases w) (auto split: json.splits option.splits simp del: wfJson.simps
        intro: wfJson_objSet wfJson_objDel wfJson_list_update)
next
  case (3 node t t2 rest w)
  show ?case
  proof (cases node)
    case (JArr xs)
    then obtain i c where i: "arrayIndex t xs = Some i"
      and c: "writeAt (xs ! i) (t2 # rest) w = Some c" and d': "d' = JArr (xs[i := c])"
      using "3.prems" by (auto split: option.splits)
    have "wfJson (xs ! i)" using "3.prems" JArr i wfJson_nth arrayIndex_bound by blast
    from "3.IH"(1) [OF JArr i this "3.prems"(2) c] "3.prems" JArr d' show ?thesis
      by (auto simp del: wfJson.simps intro: wfJson_list_update)
  next
    case (JObj m)
    then obtain k c where k: "map_of m t = Some k"
      and c: "writeAt k (t2 # rest) w = Some c" and d': "d' = JObj (objSet t c m)"
      using "3.prems" by (auto split: option.splits)
    have "wfJson k" using "3.prems" JObj k wfJson_map_of by blast
    from "3.IH"(2) [OF JObj k this "3.prems"(2) c] "3.prems" JObj d' show ?thesis
      by (auto simp del: wfJson.simps intro: wfJson_objSet)
  qed (use 3 in auto)
qed simp

lemma writeAt_undo:
  "wfJson d \<Longrightarrow> writeAt d p (Some v) = Some d' \<Longrightarrow> writeAt d' p (GetValue d p) = Some d"
proof (induction d p "Some v" arbitrary: d' rule: writeAt.induct)
  case (2 node leaf)
  then show ?case
    by (auto split: json.splits option.splits simp: objDel_objSet objSet_overwrite objSet_same)
next
  case (3 node t t2 rest)
  show ?case
  proof (cases node)
    case (JArr xs)
    then obtain i c where i: "arrayIndex t xs = Some i"
      and c: "writeAt (xs ! i) (t2 # rest) (Some v) = Some c" and d': "d' = JArr (xs[i := c])"
      using "3.prems" by (auto split: option.splits)
    have "wfJson (xs ! i)" using "3.prems" JArr i wfJson_nth arrayIndex_bound by blast
    from "3.hyps"(1) [OF JArr i this c] JArr i d' show ?thesis by simp
  next
    case (JObj m)
    then obtain k c where k: "map_of m t = Some k"
      and c: "writeAt k (t2 # rest) (Some v) = Some c" and d': "d' = JObj (objSet t c m)"
      using "3.prems" by (auto split: option.splits)
    have "wfJson k" using "3.prems" JObj k wfJson_map_of by blast
    from "3.hyps"(2) [OF JObj k this c] JObj k d' "3.prems"(1) show ?thesis
      by (simp add: objSet_overwrite objSet_same)
  qed (use 3 in auto)
qed simp

lemma writeAt_frame:
  "apart p q \<Longrightarrow> writeAt d p w = Some d' \<Longrightarrow> GetValue d' q = GetValue d q"
proof (induction d p w arbitrary: d' q rule: writeAt.induct)
  case (2 node leaf w)
  from "2.prems"(1) obtain b r where q: "q = b # r" by (cases q) auto
  with "2.prems" have ns: "\<not> sameStep leaf b" by (cases r) auto
  then have "leaf \<noteq> b" by (auto simp: sameStep_def)
  with 2 q ns show ?case
    by (auto split: json.splits option.splits dest: not_sameStep_index)
next
  case (3 node t t2 rest w)
  from "3.prems"(1) obtain b r where q: "q = b # r" by (cases q) auto
  show ?case
  proof (cases node)
    case (JArr xs)
    then obtain i c where i: "arrayIndex t xs = Some i"
      and c: "writeAt (xs ! i) (t2 # rest) w = Some c" and d': "d' = JArr (xs[i := c])"
      using "3.prems" by (auto split: option.splits)
    show ?thesis
    proof (cases "sameStep t b")
      case True
      with q "3.prems"(1) have "apart (t2 # rest) r" by simp
      from "3.IH"(1) [OF JArr i this c] i d' q JArr show ?thesis
        by (auto split: option.splits simp: nth_list_update arrayIndex_bound)
    next
      case False
      with i d' q JArr show ?thesis
        by (auto split: option.splits dest: not_sameStep_index)
    qed
  next
    case (JObj m)
    then obtain k c where k: "map_of m t = Some k"
      and c: "writeAt k (t2 # rest) w = Some c" and d': "d' = JObj (objSet t c m)"
      using "3.prems" by (auto split: option.splits)
    show ?thesis
    proof (cases "t = b")
      case True
      with q "3.prems"(1) have "apart (t2 # rest) r" by (simp add: sameStep_def)
      from "3.IH"(2) [OF JObj k this c] True d' q JObj k show ?thesis by simp
    next
      case False
      with d' q JObj show ?thesis by simp
    qed
  qed (use 3 in auto)
qed simp

lemma writeAt_obj:
  "writeAt (JObj m) (t # p) w = Some d' \<longleftrightarrow>
     (if p = [] then d' = JObj (case w of Some v \<Rightarrow> objSet t v m | None \<Rightarrow> objDel t m)
      else (\<exists>k c. map_of m t = Some k \<and> writeAt k p w = Some c \<and> d' = JObj (objSet t c m)))"
  by (cases p) (auto split: option.splits)

lemma writeAt_arr:
  "writeAt (JArr xs) (t # p) w = Some d' \<longleftrightarrow>
     (if p = [] \<and> w = None then d' = JArr xs
      else (\<exists>i c. arrayIndex t xs = Some i \<and>
        (if p = [] then w else writeAt (xs ! i) p w) = Some c \<and> d' = JArr (xs[i := c])))"
  by (cases p; cases w) (auto split: option.splits)

lemma writeAt_other: "writeAt d p w = Some d' \<Longrightarrow> (\<exists>m. d = JObj m) \<or> (\<exists>xs. d = JArr xs)"
  by (cases d; cases p rule: remdups_adj.cases; simp)

lemma writeAt_commute:
  "wfJson d \<Longrightarrow> apart p q \<Longrightarrow> writeAt d p a = Some d1 \<Longrightarrow> writeAt d1 q b = Some d2 \<Longrightarrow>
     \<exists>d1'. writeAt d q b = Some d1' \<and> writeAt d1' p a = Some d2"
proof (induction p arbitrary: d q d1 d2)
  case (Cons t p)
  from Cons.prems(2) obtain s r where q: "q = s # r" by (cases q) auto
  from writeAt_other [OF Cons.prems(3)] show ?case
  proof (elim disjE exE)
    fix m assume d: "d = JObj m"
    have wm: "wfObj m" using Cons.prems(1) d by simp
    show ?case
    proof (cases "t = s")
      case True
      with Cons.prems(2) q have ap: "apart p r" by (simp add: sameStep_def)
      then have ne: "p \<noteq> []" "r \<noteq> []" by (auto dest: apart_nonempty)
      with Cons.prems d q True obtain k c c2 where k: "map_of m t = Some k" and c: "writeAt k p a = Some c"
        and c2: "writeAt c r b = Some c2" and d2: "d2 = JObj (objSet t c2 (objSet t c m))"
        by (auto simp: writeAt_obj simp del: writeAt.simps)
      have "wfJson k" using Cons.prems(1) d k wfJson_map_of by blast
      from Cons.IH [OF this ap c c2] obtain e where "writeAt k r b = Some e" "writeAt e p a = Some c2"
        by blast
      with d q True ne k wm d2 show ?thesis
        by (auto simp: writeAt_obj objSet_overwrite simp del: writeAt.simps)
    next
      case False
      with Cons.prems d q wm show ?thesis
        by (auto simp: writeAt_obj objSet_commute objSet_objDel_commute objDel_commute
            split: if_splits option.splits simp del: writeAt.simps)
    qed
  next
    fix xs assume d: "d = JArr xs"
    show ?case
    proof (cases "sameStep t s")
      case True
      with Cons.prems(2) q have ap: "apart p r" by simp
      then have ne: "p \<noteq> []" "r \<noteq> []" by (auto dest: apart_nonempty)
      from Cons.prems d q ne obtain i j c c2 where i: "arrayIndex t xs = Some i"
        and j: "arrayIndex s xs = Some j" and c: "writeAt (xs ! i) p a = Some c"
        and c2: "writeAt (xs[i := c] ! j) r b = Some c2" and d2: "d2 = JArr (xs[i := c, j := c2])"
        by (auto simp: writeAt_arr simp del: writeAt.simps)
      show ?thesis
      proof (cases "i = j")
        case True
        have wi: "wfJson (xs ! i)" using Cons.prems(1) d i wfJson_nth arrayIndex_bound by blast
        have c2': "writeAt c r b = Some c2" using c2 i True by simp
        from Cons.IH [OF wi ap c c2'] obtain e where "writeAt (xs ! i) r b = Some e" "writeAt e p a = Some c2"
          by blast
        with d q True ne i j d2 show ?thesis by (auto simp: writeAt_arr simp del: writeAt.simps)
      next
        case False
        with d q ne i j c c2 d2 show ?thesis
          by (auto simp: writeAt_arr list_update_swap simp del: writeAt.simps)
      qed
    next
      case False
      consider (noopa) "p = []" "a = None" | (noopb) "r = []" "b = None"
        | (nop) "\<not> (p = [] \<and> a = None)" "\<not> (r = [] \<and> b = None)" by blast
      then show ?thesis
      proof cases
        case noopa
        with Cons.prems d have "writeAt d q b = Some d2" by (auto simp: writeAt_arr simp del: writeAt.simps)
        moreover from this d q obtain ys where "d2 = JArr ys"
          by (auto simp: writeAt_arr simp del: writeAt.simps split: if_splits)
        ultimately show ?thesis using noopa by simp
      next
        case noopb
        with Cons.prems d q have "d2 = d1" "writeAt d q b = Some d"
          by (auto simp: writeAt_arr simp del: writeAt.simps split: if_splits)
        with Cons.prems(3) show ?thesis by blast
      next
        case nop
        with Cons.prems d q obtain i j c c2 where i: "arrayIndex t xs = Some i"
          and c: "(if p = [] then a else writeAt (xs ! i) p a) = Some c"
          and j: "arrayIndex s xs = Some j"
          and c2: "(if r = [] then b else writeAt (xs[i := c] ! j) r b) = Some c2"
          and d2: "d2 = JArr (xs[i := c, j := c2])"
          by (auto simp: writeAt_arr simp del: writeAt.simps)
        have ij: "i \<noteq> j" using not_sameStep_index [OF False i j] .
        with c2 have "(if r = [] then b else writeAt (xs ! j) r b) = Some c2"
          by (auto split: if_splits)
        with nop d q i j c ij have "writeAt d q b = Some (JArr (xs[j := c2]))"
          by (auto simp: writeAt_arr simp del: writeAt.simps)
        moreover have "writeAt (JArr (xs[j := c2])) (t # p) a = Some d2"
          using nop i c ij d2 by (auto simp: writeAt_arr list_update_swap simp del: writeAt.simps)
        ultimately show ?thesis by blast
      qed
    qed
  qed
qed simp

text \<open>JSON documents with \<open>writeAt\<close> are a store of addressed fields.\<close>

interpretation pointer_store: field_store GetValue writeAt apart wfJson wfJson
  by unfold_locales
    (fact writeAt_undo writeAt_commute writeAt_frame writeAt_ok apart_sym
     | erule (1) wfJson_GetValue [rotated])+

section \<open>SetValue and DeleteValue implement the specification\<close>

text \<open>The parent of the path's last token exists and is not null.\<close>

definition hasParent :: "json \<Rightarrow> string list \<Rightarrow> bool" where
  "hasParent d p \<longleftrightarrow> p \<noteq> [] \<and> GetValue d (butlast p) \<notin> {None, Some JNull}"

lemma writeAt_setAt:
  "GetValue d (butlast p) \<noteq> None \<Longrightarrow> GetValue d (butlast p) \<noteq> Some JNull \<Longrightarrow> p \<noteq> [] \<Longrightarrow>
     writeAt d p (Some v) = (case setAt d path p v of Inl _ \<Rightarrow> None | Inr d' \<Rightarrow> Some d')"
proof (induction d path p v rule: setAt.induct)
  case (2 node path leaf v)
  then show ?case by (auto split: json.splits option.splits)
next
  case (3 node path t t2 rest v)
  show ?case
  proof (cases node)
    case (JArr xs)
    then obtain i where i: "arrayIndex t xs = Some i"
      and g: "GetValue (xs ! i) (butlast (t2 # rest)) \<noteq> None"
        "GetValue (xs ! i) (butlast (t2 # rest)) \<noteq> Some JNull"
      using "3.prems" by (auto split: option.splits)
    from "3.IH"(1) [OF JArr i g] JArr i show ?thesis by (auto split: sum.splits)
  next
    case (JObj m)
    then obtain k where k: "map_of m t = Some k"
      and g: "GetValue k (butlast (t2 # rest)) \<noteq> None"
        "GetValue k (butlast (t2 # rest)) \<noteq> Some JNull"
      using "3.prems" by (auto split: option.splits)
    have "k \<noteq> JNull" using g by (cases rest) auto
    then have "childOrNew m t = k" using k by (auto simp: childOrNew_def split: json.splits)
    with "3.IH"(2) [OF JObj] g JObj k show ?thesis by (auto split: sum.splits)
  qed (use 3 in auto)
qed simp

lemma GetValue_cases:
  assumes "GetValue d (t # q) = Some c"
  obtains (obj) m k where "d = JObj m" "map_of m t = Some k" "GetValue k q = Some c"
    | (arr) xs i where "d = JArr xs" "arrayIndex t xs = Some i" "GetValue (xs ! i) q = Some c"
  using assms by (auto split: json.splits option.splits)

lemma putAt_delete:
  "GetValue d q = Some (JObj m) \<Longrightarrow>
     writeAt d (q @ [leaf]) None = Some (putAt d q (JObj (objDel leaf m)))"
proof (induction q arbitrary: d)
  case (Cons t q)
  from Cons.prems show ?case
    by (cases rule: GetValue_cases) (auto simp: writeAt_obj writeAt_arr Cons.IH simp del: writeAt.simps)
qed simp

lemma writeAt_delete_array:
  "GetValue d q = Some (JArr xs) \<Longrightarrow> wfJson d \<Longrightarrow> writeAt d (q @ [leaf]) None = Some d"
proof (induction q arbitrary: d)
  case (Cons t q)
  from Cons.prems(1) show ?case
  proof (cases rule: GetValue_cases)
    case (obj m k)
    then have "wfJson k" using Cons.prems(2) wfJson_map_of by blast
    with obj Cons show ?thesis by (auto simp: writeAt_obj objSet_same simp del: writeAt.simps)
  next
    case (arr ys i)
    then have "wfJson (ys ! i)" using Cons.prems(2) wfJson_nth arrayIndex_bound by blast
    with arr Cons show ?thesis by (auto simp: writeAt_arr simp del: writeAt.simps)
  qed
qed simp

lemma writeAt_container:
  "writeAt d (q @ [leaf]) w = Some d' \<Longrightarrow>
     (\<exists>m. GetValue d q = Some (JObj m)) \<or> (\<exists>xs. GetValue d q = Some (JArr xs))"
proof (induction q arbitrary: d d')
  case Nil
  then show ?case by (auto split: json.splits)
next
  case (Cons t q)
  from writeAt_other [OF Cons.prems] show ?case
    using Cons by (fastforce simp: writeAt_obj writeAt_arr simp del: writeAt.simps)
qed

lemma SetValue_writeAt:
  "hasParent d p \<Longrightarrow> SetValue d p v = Inr d' \<longleftrightarrow> writeAt d p (Some v) = Some d'"
  by (auto simp: hasParent_def SetValue_def writeAt_setAt [where path = "[]"] split: sum.splits)

lemma DeleteValue_writeAt:
  assumes "wfJson d" and "writeAt d p None = Some d'"
  shows "DeleteValue d p = Inr d'"
proof -
  obtain q leaf where p: "p = q @ [leaf]" using assms(2) by (cases p rule: rev_cases) auto
  from writeAt_container [OF assms(2) [unfolded p]] show ?thesis
  proof (elim disjE exE)
    fix m assume g: "GetValue d q = Some (JObj m)"
    with putAt_delete [OF g] assms(2) p show ?thesis by (simp add: DeleteValue_def)
  next
    fix xs assume g: "GetValue d q = Some (JArr xs)"
    with writeAt_delete_array [OF g assms(1)] assms(2) p show ?thesis by (simp add: DeleteValue_def)
  qed
qed

section \<open>Expansion\<close>

text \<open>A concrete path matches a pattern: same length, equal tokens except at wildcards.\<close>

fun matchesPattern :: "string list \<Rightarrow> string list \<Rightarrow> bool" where
  "matchesPattern [] [] \<longleftrightarrow> True"
| "matchesPattern (t # ts) (p # ps) \<longleftrightarrow> (t = wildcardToken \<or> t = p) \<and> matchesPattern ts ps"
| "matchesPattern _ _ \<longleftrightarrow> False"

lemma matchesPattern_refl: "matchesPattern ts ts"
  by (induction ts) auto

lemma walkPointer_path:
  "walkPointer node tokens path = map (\<lambda>p. path @ p) (walkPointer node tokens [])"
proof (induction tokens arbitrary: node path)
  case (Cons token rest)
  have IH1: "walkPointer c rest (path @ [k]) = map (\<lambda>p. path @ k # p) (walkPointer c rest [])" for c k path
    using Cons.IH [of c "path @ [k]"] by simp
  have IH2: "walkPointer c rest [k] = map (\<lambda>p. k # p) (walkPointer c rest [])" for c k
    using IH1 [of c "[]" k] by simp
  show ?case
    by (simp add: IH1 IH2 map_concat o_def case_prod_unfold split: json.split option.split)
qed simp

lemma walkPointer_snoc: "walkPointer c rest [k] = map ((#) k) (walkPointer c rest [])"
  using walkPointer_path [of c rest "[k]"] by simp

lemma atoi_itoa: "i < 2 ^ 63 \<Longrightarrow> atoi (itoa (int i)) = Some (int i)"
  unfolding atoi_def by (rule parseInt_itoa) auto

lemma arrayIndex_itoa:
  assumes "length xs < 2 ^ 63" and "i < length xs"
  shows "arrayIndex (itoa (int i)) xs = Some i"
proof -
  have "i < 2 ^ 63" using assms by linarith
  then show ?thesis using assms(2) by (simp add: arrayIndex_def atoi_itoa)
qed

text \<open>The members of a container that a token of a pattern addresses, with concrete tokens.\<close>

lemma walkPointer_Cons_iff:
  assumes "wfJson node"
  shows "q \<in> set (walkPointer node (token # rest) []) \<longleftrightarrow>
    (\<exists>k p. q = k # p \<and> (token = wildcardToken \<or> token = k) \<and>
      ((\<exists>m c. node = JObj m \<and> map_of m k = Some c \<and> p \<in> set (walkPointer c rest [])) \<or>
       (\<exists>m. node = JObj m \<and> token \<noteq> wildcardToken \<and> map_of m k = None \<and>
          \<not> containsWildcard rest \<and> p = rest) \<or>
       (\<exists>xs i. node = JArr xs \<and> arrayIndex k xs = Some i \<and> (token = wildcardToken \<longrightarrow> k = itoa (int i)) \<and>
          p \<in> set (walkPointer (xs ! i) rest []))))"
proof (cases node)
  case (JObj m)
  have mem: "(k, c) \<in> set m \<longleftrightarrow> map_of m k = Some c" for k c
    using assms JObj by (auto simp: wfObj_distinct)
  show ?thesis
  proof (cases "token = wildcardToken")
    case True
    have "q \<in> set (walkPointer node (token # rest) []) \<longleftrightarrow>
        (\<exists>k c p. (k, c) \<in> set m \<and> p \<in> set (walkPointer c rest []) \<and> q = k # p)"
      using JObj True by (fastforce simp: walkPointer_snoc)
    then show ?thesis using JObj True by (auto simp: mem)
  next
    case False
    then show ?thesis using JObj by (auto simp: walkPointer_snoc split: option.splits)
  qed
next
  case (JArr xs)
  have idx: "arrayIndex (itoa (int i)) xs = Some i" if "i < length xs" for i
    using assms JArr arrayIndex_itoa [OF _ that] by simp
  show ?thesis
  proof (cases "token = wildcardToken")
    case True
    have en: "(i, x) \<in> set (enumerate 0 xs) \<longleftrightarrow> i < length xs \<and> x = xs ! i" for i x
      by (auto simp: in_set_enumerate_eq)
    have "q \<in> set (walkPointer node (token # rest) []) \<longleftrightarrow>
        (\<exists>i x p. (i, x) \<in> set (enumerate 0 xs) \<and> p \<in> set (walkPointer x rest []) \<and> q = itoa (int i) # p)"
      using JArr True by (fastforce simp: walkPointer_snoc)
    then have "q \<in> set (walkPointer node (token # rest) []) \<longleftrightarrow>
        (\<exists>i < length xs. \<exists>p \<in> set (walkPointer (xs ! i) rest []). q = itoa (int i) # p)"
      by (auto simp: en)
    then show ?thesis using JArr True idx by (auto dest: arrayIndex_bound)
  next
    case False
    then show ?thesis using JArr
      by (cases "arrayIndex token xs") (auto simp: walkPointer_snoc)
  qed
qed auto

declare walkPointer.simps(2) [simp del]

lemma Expand_matches:
  "wfJson d \<Longrightarrow> q \<in> set (walkPointer d ts []) \<Longrightarrow> matchesPattern ts q"
proof (induction ts arbitrary: d q)
  case (Cons t ts)
  then show ?case
    by (auto simp only: walkPointer_Cons_iff [OF Cons.prems(1)] matchesPattern.simps
        intro: matchesPattern_refl dest: wfJson_map_of wfJson_nth [OF _ arrayIndex_bound] Cons.IH)
qed simp

lemma setAt_new_object: "p \<noteq> [] \<Longrightarrow> \<exists>d'. setAt (JObj []) path p v = Inr d'"
proof (induction p arbitrary: path)
  case (Cons t p)
  show ?case
  proof (cases p)
    case (Cons t2 rest)
    then obtain c where "setAt (JObj []) (path @ [t]) p v = Inr c"
      using Cons.IH by blast
    with Cons show ?thesis by (simp add: childOrNew_def)
  qed simp
qed simp

text \<open>No error is possible when writing at an expanded path.\<close>

lemma Expand_settable:
  "wfJson d \<Longrightarrow> q \<in> set (walkPointer d ts []) \<Longrightarrow> ts \<noteq> [] \<Longrightarrow> \<exists>d'. setAt d path q v = Inr d'"
proof (induction ts arbitrary: d q path)
  case (Cons t ts)
  from Cons.prems(2) obtain k p where q: "q = k # p" and
    cases: "(\<exists>m c. d = JObj m \<and> map_of m k = Some c \<and> p \<in> set (walkPointer c ts [])) \<or>
       (\<exists>m. d = JObj m \<and> map_of m k = None \<and> p = ts) \<or>
       (\<exists>xs i. d = JArr xs \<and> arrayIndex k xs = Some i \<and> p \<in> set (walkPointer (xs ! i) ts []))"
    unfolding walkPointer_Cons_iff [OF Cons.prems(1)] by blast
  show ?case
  proof (cases ts)
    case Nil
    with cases q show ?thesis by auto
  next
    case (Cons t2 rest)
    from cases show ?thesis
    proof (elim disjE exE conjE)
      fix m c assume d: "d = JObj m" and c: "map_of m k = Some c" and p: "p \<in> set (walkPointer c ts [])"
      have wc: "wfJson c" using Cons.prems(1) d c wfJson_map_of by blast
      from p Cons have pm: "matchesPattern (t2 # rest) p" using Expand_matches [OF wc] by blast
      then obtain p1 pr where pp: "p = p1 # pr" by (cases p) auto
      have "c \<noteq> JNull" using p Cons by (auto simp: walkPointer.simps)
      then have "childOrNew m k = c" using c by (auto simp: childOrNew_def split: json.splits)
      moreover obtain e where "setAt c (path @ [k]) p v = Inr e"
        using Cons.IH [OF wc p] Cons by blast
      ultimately show ?thesis using d q pp by simp
    next
      fix m assume d: "d = JObj m" and c: "map_of m k = None" and p: "p = ts"
      obtain e where "setAt (JObj []) (path @ [k]) ts v = Inr e"
        using setAt_new_object [of ts] Cons by blast
      then show ?thesis using d q p Cons c by (simp add: childOrNew_def)
    next
      fix xs i assume d: "d = JArr xs" and i: "arrayIndex k xs = Some i"
        and p: "p \<in> set (walkPointer (xs ! i) ts [])"
      have wx: "wfJson (xs ! i)" using Cons.prems(1) d i wfJson_nth arrayIndex_bound by blast
      from p Cons have "matchesPattern (t2 # rest) p" using Expand_matches [OF wx] by blast
      then obtain p1 pr where pp: "p = p1 # pr" by (cases p) auto
      obtain e where "setAt (xs ! i) (path @ [k]) p v = Inr e"
        using Cons.IH [OF wx p] Cons by blast
      then show ?thesis using d q pp i by simp
    qed
  qed
qed simp

text \<open>Every present field at a canonical path that matches the pattern is found.\<close>

lemma Expand_complete:
  "wfJson d \<Longrightarrow> matchesPattern ts q \<Longrightarrow> GetValue d q = Some v \<Longrightarrow>
     \<forall>t \<in> set q. \<forall>i. atoi t = Some i \<longrightarrow> t = itoa i \<Longrightarrow> q \<in> set (walkPointer d ts [])"
proof (induction ts arbitrary: d q)
  case Nil
  then show ?case by (cases q) auto
next
  case (Cons t ts)
  from Cons.prems(2) obtain k p where q: "q = k # p" by (cases q) auto
  from Cons.prems(3) q have "GetValue d (k # p) = Some v" by simp
  then show ?case
  proof (cases rule: GetValue_cases)
    case (obj m c)
    then have "p \<in> set (walkPointer c ts [])"
      using Cons.IH [of c p] Cons.prems q wfJson_map_of by auto
    with obj q Cons.prems(2) show ?thesis
      unfolding walkPointer_Cons_iff [OF Cons.prems(1)] by auto
  next
    case (arr xs i)
    have "wfJson (xs ! i)" using Cons.prems(1) arr wfJson_nth arrayIndex_bound by blast
    with arr have "p \<in> set (walkPointer (xs ! i) ts [])"
      using Cons.IH [of "xs ! i" p] Cons.prems(2,4) q by auto
    moreover have "k = itoa (int i)"
      using arr(2) Cons.prems(4) q by (auto simp: arrayIndex_def split: option.splits if_splits)
    ultimately show ?thesis using arr q Cons.prems(2)
      unfolding walkPointer_Cons_iff [OF Cons.prems(1)] by auto
  qed
qed

text \<open>
  What an expansion is, said of the document: it stops where a member is missing and the rest of the
  pattern has no wildcard; the wildcard of an array stands for a canonical index.
\<close>

definition missingAt :: "json \<Rightarrow> string list \<Rightarrow> string list \<Rightarrow> bool" where
  "missingAt d ts q \<longleftrightarrow>
     (\<exists>i < length ts. (\<exists>m. GetValue d (take i q) = Some (JObj m) \<and> map_of m (ts ! i) = None) \<and>
        drop i q = drop i ts \<and> wildcardToken \<notin> set (drop i ts))"

definition canonicalAt :: "json \<Rightarrow> string list \<Rightarrow> string list \<Rightarrow> bool" where
  "canonicalAt d ts q \<longleftrightarrow>
     (\<forall>i < length ts. ts ! i = wildcardToken \<longrightarrow>
        (\<forall>xs. GetValue d (take i q) = Some (JArr xs) \<longrightarrow> (\<exists>n < length xs. q ! i = itoa (int n))))"

lemma GetValue_Cons: "GetValue d (k # p) = Option.bind (GetValue d [k]) (\<lambda>c. GetValue c p)"
  by (auto split: json.splits option.splits)

lemma missingAt_Cons:
  "missingAt d (t # ts) (k # p) \<longleftrightarrow>
     (\<exists>m. d = JObj m \<and> map_of m t = None \<and> k = t \<and> p = ts \<and> wildcardToken \<notin> set (t # ts)) \<or>
     (\<exists>c. GetValue d [k] = Some c \<and> missingAt c ts p)"
proof -
  let ?at = "\<lambda>d ts q i. (\<exists>m. GetValue d (take i q) = Some (JObj m) \<and> map_of m (ts ! i) = None) \<and>
    drop i q = drop i ts \<and> wildcardToken \<notin> set (drop i ts)"
  have head: "?at d (t # ts) (k # p) 0 \<longleftrightarrow>
      (\<exists>m. d = JObj m \<and> map_of m t = None \<and> k = t \<and> p = ts \<and> wildcardToken \<notin> set (t # ts))" by auto
  have tail: "?at d (t # ts) (k # p) (Suc i) \<longleftrightarrow> (\<exists>c. GetValue d [k] = Some c \<and> ?at c ts p i)" for i
    unfolding take_Suc_Cons GetValue_Cons [of d k "take i p"] by (cases "GetValue d [k]") (auto simp del: GetValue.simps(2))
  show ?thesis unfolding missingAt_def length_Cons Ex_less_Suc2 head tail by blast
qed

lemma canonicalAt_Cons:
  "canonicalAt d (t # ts) (k # p) \<longleftrightarrow>
     (t = wildcardToken \<longrightarrow> (\<forall>xs. d = JArr xs \<longrightarrow> (\<exists>n < length xs. k = itoa (int n)))) \<and>
     (\<forall>c. GetValue d [k] = Some c \<longrightarrow> canonicalAt c ts p)"
  unfolding canonicalAt_def length_Cons All_less_Suc2 by (auto simp: GetValue_Cons [of d k "take i p" for i] bind_eq_Some_conv simp del: GetValue.simps(2))

lemma Expand_iff:
  assumes "wfJson d"
  shows "q \<in> set (walkPointer d ts []) \<longleftrightarrow>
    matchesPattern ts q \<and> canonicalAt d ts q \<and> (GetValue d q \<noteq> None \<or> missingAt d ts q)"
  using assms
proof (induction ts arbitrary: d q)
  case Nil
  then show ?case by (cases q) (simp_all add: canonicalAt_def missingAt_def)
next
  case (Cons t ts)
  show ?case
  proof (cases q)
    case Nil
    then show ?thesis by (simp add: walkPointer_Cons_iff [OF Cons.prems])
  next
    case (Cons k p)
    let ?Q = "\<lambda>c. matchesPattern ts p \<and> canonicalAt c ts p \<and> (GetValue c p \<noteq> None \<or> missingAt c ts p)"
    have down: "GetValue d (k # p) \<noteq> None \<longleftrightarrow> (\<exists>c. GetValue d [k] = Some c \<and> GetValue c p \<noteq> None)"
      unfolding GetValue_Cons [of d k p] by (cases "GetValue d [k]") simp_all
    show ?thesis
    proof (cases "GetValue d [k]")
      case None
      have "\<not> (\<exists>xs i. d = JArr xs \<and> arrayIndex k xs = Some i)" "\<not> (\<exists>m c. d = JObj m \<and> map_of m k = Some c)"
        using None by (auto split: option.splits)
      moreover have "canonicalAt d (t # ts) (k # p)" if "d = JObj m" for m
        unfolding canonicalAt_Cons None using that by simp
      ultimately show ?thesis
        unfolding walkPointer_Cons_iff [OF Cons.prems] \<open>q = k # p\<close> down missingAt_Cons None containsWildcard_def matchesPattern.simps
        by (auto intro: matchesPattern_refl)
    next
      case (Some c)
      then have "wfJson c"
      proof (cases rule: GetValue_cases)
        case (obj m c')
        with Cons.prems wfJson_map_of [of m k c'] show ?thesis by simp
      next
        case (arr xs i)
        with Cons.prems wfJson_nth [OF _ arrayIndex_bound [OF arr(2)]] show ?thesis by simp
      qed
      note IH = Cons.IH [OF this, of p]
      from Some show ?thesis
      proof (cases rule: GetValue_cases)
        case (obj m c')
        then show ?thesis
          unfolding walkPointer_Cons_iff [OF Cons.prems] \<open>q = k # p\<close> down missingAt_Cons canonicalAt_Cons Some matchesPattern.simps
          using IH by auto
      next
        case (arr xs i)
        have "(\<exists>n < length xs. k = itoa (int n)) \<longleftrightarrow> k = itoa (int i)"
        proof
          assume "\<exists>n < length xs. k = itoa (int n)"
          then obtain n where n: "n < length xs" "k = itoa (int n)" by blast
          have "arrayIndex k xs = Some n" using Cons.prems arr(1) arrayIndex_itoa [OF _ n(1)] n(2) by simp
          with arr(2) n(2) show "k = itoa (int i)" by simp
        qed (use arrayIndex_bound [OF arr(2)] in blast)
        with arr show ?thesis
          unfolding walkPointer_Cons_iff [OF Cons.prems] \<open>q = k # p\<close> down missingAt_Cons canonicalAt_Cons Some matchesPattern.simps
          using IH by auto
      qed
    qed
  qed
qed

text \<open>An asterisk in an expansion is a key of the document.\<close>

lemma Expand_concrete:
  assumes "wfJson d" and "q \<in> set (walkPointer d ts [])" and "i < length q" and "q ! i = wildcardToken"
  shows "\<exists>m. GetValue d (take i q) = Some (JObj m) \<and> map_of m wildcardToken \<noteq> None"
  using assms
proof (induction ts arbitrary: d q i)
  case (Cons t ts)
  have star: "arrayIndex wildcardToken xs = None" for xs :: "json list"
  proof -
    have "atoi wildcardToken = None" by code_simp
    then show ?thesis by (simp add: arrayIndex_def)
  qed
  obtain k p where q: "q = k # p"
    and c: "(\<exists>c. GetValue d [k] = Some c \<and> wfJson c \<and> p \<in> set (walkPointer c ts []) \<and>
          (k = wildcardToken \<longrightarrow> (\<exists>m. d = JObj m \<and> map_of m k \<noteq> None))) \<or>
        k \<noteq> wildcardToken \<and> wildcardToken \<notin> set p"
    using Cons.prems(2) [unfolded walkPointer_Cons_iff [OF Cons.prems(1)]]
  proof (elim exE conjE)
    fix k p
    assume q: "q = k # p" and t: "t = wildcardToken \<or> t = k"
      and step: "(\<exists>m c. d = JObj m \<and> map_of m k = Some c \<and> p \<in> set (walkPointer c ts [])) \<or>
       (\<exists>m. d = JObj m \<and> t \<noteq> wildcardToken \<and> map_of m k = None \<and> \<not> containsWildcard ts \<and> p = ts) \<or>
       (\<exists>xs i. d = JArr xs \<and> arrayIndex k xs = Some i \<and> (t = wildcardToken \<longrightarrow> k = itoa (int i)) \<and>
          p \<in> set (walkPointer (xs ! i) ts []))"
    from step show thesis
    proof (elim disjE exE conjE)
      fix m c
      assume "d = JObj m" "map_of m k = Some c" "p \<in> set (walkPointer c ts [])"
      with that [OF q] Cons.prems(1) wfJson_map_of [of m k c] show thesis by auto
    next
      fix m
      assume "t \<noteq> wildcardToken" "\<not> containsWildcard ts" "p = ts"
      with that [OF q] t show thesis by (auto simp: containsWildcard_def)
    next
      fix xs i
      assume a: "d = JArr xs" "arrayIndex k xs = Some i" "p \<in> set (walkPointer (xs ! i) ts [])"
      then have "k \<noteq> wildcardToken" using star by auto
      with that [OF q] a Cons.prems(1) wfJson_nth [OF _ arrayIndex_bound [OF a(2)]] show thesis by simp
    qed
  qed
  show ?case
  proof (cases i)
    case 0
    with c q Cons.prems(4) show ?thesis by auto
  next
    case (Suc j)
    with q Cons.prems(3,4) have j: "j < length p" "p ! j = wildcardToken" by auto
    then have "wildcardToken \<in> set p" by (metis nth_mem)
    with c obtain c' where c': "GetValue d [k] = Some c'" "wfJson c'" "p \<in> set (walkPointer c' ts [])" by blast
    from Cons.IH [OF c'(2,3) j] c'(1) show ?thesis
      unfolding q Suc take_Suc_Cons GetValue_Cons [of d k "take j p"] by simp
  qed
qed simp

section \<open>Properties\<close>

text \<open>
  A rendered path parses back to itself exactly when it has at least one token and no
  token is empty; a path that goes through an empty key does not survive.
\<close>

theorem Parse_Format:
  "Parse (Format ts) = Inr ts \<longleftrightarrow> ts \<noteq> [] \<and> [] \<notin> set ts"
  by (rule Parse_Format_iff)

text \<open>
  A pointer that parses and whose tildes are all escapes is rendered back byte for byte.
\<close>

theorem Format_Parse:
  assumes "Parse p = Inr ts" and "escapesOk p"
  shows "Format ts = p"
proof -
  from assms(1) obtain r where p: "p = CHR ''/'' # r"
    by (cases p) (auto simp: Parse_def split: if_splits)
  let ?parts = "splitOn CHR ''/'' r"
  from assms(1) p have ts: "ts = map decodePart ?parts"
    by (auto simp: Parse_def parseParts_eq split: if_splits)
  have "escapesOk r" using assms(2) p by (cases r) auto
  then have "encodeToken (decodePart q) = q" if "q \<in> set ?parts" for q
    using that encode_decode escapesOk_split splitOn_parts by metis
  then have "Format ts = concat (map (\<lambda>q. CHR ''/'' # q) ?parts)"
    by (auto simp: Format_def ts o_def intro!: arg_cong [where f = concat])
  then show ?thesis using p splitOn_concat by simp
qed

theorem Format_Parse_witness:
  "Parse ''/spec/a~1b~0'' = Inr [''spec'', ''a/b~''] \<and> Format [''spec'', ''a/b~''] = ''/spec/a~1b~0''"
proof -
  have "Parse ''/spec/a~1b~0'' = Inr [''spec'', ''a/b~'']" by code_simp
  moreover have "escapesOk ''/spec/a~1b~0''" by code_simp
  ultimately show ?thesis using Format_Parse by blast
qed

text \<open>
  C26: After a successful write the path holds the written value, and every path that parts
  ways with it reads as before.
\<close>

theorem SetValue_reads_back:
  assumes "SetValue d p v = Inr d'"
  shows "GetValue d' p = Some v \<and> (\<forall>q. apart p q \<longrightarrow> GetValue d' q = GetValue d q)"
proof -
  have "setAt d [] p v = Inr d'" using assms by (simp add: SetValue_def split: if_splits)
  then show ?thesis using GetValue_setAt GetValue_setAt_apart by blast
qed

theorem SetValue_reads_back_witness:
  "GetValue (JObj [(''a'', JObj [(''b'', JNull)]), (''c'', JBool True)]) [''a'', ''b''] = Some JNull \<and>
   GetValue (JObj [(''a'', JObj [(''b'', JNull)]), (''c'', JBool True)]) [''c''] = Some (JBool True)"
proof -
  have "SetValue (JObj [(''c'', JBool True)]) [''a'', ''b''] JNull =
      Inr (JObj [(''a'', JObj [(''b'', JNull)]), (''c'', JBool True)])"
    by (simp add: SetValue_def childOrNew_def)
  from SetValue_reads_back [OF this] show ?thesis
    by (auto simp: sameStep_def)
qed

text \<open>
  C36: \<^verbatim>\<open>Expand\<close> returns exactly the paths that match the pattern and whose field is there, or
  whose rest is missing and has no wildcard, with the canonical index where a wildcard stands for an element
  of an array. They are concrete, as an asterisk in one of them is a key of the document, and a write
  at any of them succeeds.
\<close>

theorem Expand_exact:
  assumes "wfJson d" and "ts \<noteq> []"
  shows "(q \<in> set (Expand d ts) \<longleftrightarrow>
      matchesPattern ts q \<and> canonicalAt d ts q \<and> (GetValue d q \<noteq> None \<or> missingAt d ts q)) \<and>
    (q \<in> set (Expand d ts) \<longrightarrow>
      (\<forall>i < length q. q ! i = wildcardToken \<longrightarrow> (\<exists>m. GetValue d (take i q) = Some (JObj m) \<and> map_of m wildcardToken \<noteq> None)) \<and>
      (\<exists>d'. SetValue d q v = Inr d'))"
proof (intro conjI impI)
  show "q \<in> set (Expand d ts) \<longleftrightarrow>
      matchesPattern ts q \<and> canonicalAt d ts q \<and> (GetValue d q \<noteq> None \<or> missingAt d ts q)"
    unfolding Expand_def by (rule Expand_iff [OF assms(1)])
  assume q: "q \<in> set (Expand d ts)"
  then show "\<forall>i < length q. q ! i = wildcardToken \<longrightarrow> (\<exists>m. GetValue d (take i q) = Some (JObj m) \<and> map_of m wildcardToken \<noteq> None)"
    using Expand_concrete [OF assms(1)] unfolding Expand_def by blast
  have "q \<noteq> []" using Expand_matches [OF assms(1), of q ts] q assms(2) by (cases ts; cases q) (simp_all add: Expand_def)
  then show "\<exists>d'. SetValue d q v = Inr d'"
    using Expand_settable [OF assms(1) _ assms(2)] q by (auto simp: Expand_def SetValue_def)
qed

theorem Expand_exact_witness:
  "[''w'', ''1'', ''n''] \<in> set (Expand (JObj [(''w'', JArr [JObj [(''n'', JInt64 1)], JObj []])]) [''w'', ''*'', ''n'']) \<and>
   [''w'', ''*'', ''n''] \<notin> set (Expand (JObj [(''w'', JArr [JObj [(''n'', JInt64 1)], JObj []])]) [''w'', ''*'', ''n'']) \<and>
   (\<exists>d'. SetValue (JObj [(''w'', JArr [JObj [(''n'', JInt64 1)], JObj []])]) [''w'', ''1'', ''n''] (JInt64 0) = Inr d')"
proof -
  let ?d = "JObj [(''w'', JArr [JObj [(''n'', JInt64 1)], JObj []])]" and ?ts = "[''w'', ''*'', ''n'']"
  have d: "wfJson ?d" "?ts \<noteq> []" by (simp_all add: wfObj_def)
  have mem: "[''w'', ''1'', ''n''] \<in> set (Expand ?d ?ts)" by code_simp
  have "?ts \<notin> set (Expand ?d ?ts)" by code_simp
  with mem Expand_exact [OF d, of "[''w'', ''1'', ''n'']" "JInt64 0"] show ?thesis by blast
qed

text \<open>
  C37: Normalising twice is normalising once. A whole float in the range of \<^verbatim>\<open>int64\<close> becomes exactly
  the integer it stands for; \<open>2 ^ 63\<close> is outside that range but passes the test, and becomes
  whatever the platform converts it to; every other float, fractional or beyond the range, stays.
\<close>

theorem NormalizeValue_exact:
  "NormalizeValue wide (NormalizeValue wide v) = NormalizeValue wide v \<and>
   (- (2 ^ 63) \<le> i \<longrightarrow> i \<le> 2 ^ 63 \<longrightarrow>
      NormalizeValue wide (JFloat (of_int i)) = JInt64 (if i = 2 ^ 63 then wide else i)) \<and>
   (i < - (2 ^ 63) \<longrightarrow> NormalizeValue wide (JFloat (of_int i)) = JFloat (of_int i)) \<and>
   (2 ^ 63 < i \<longrightarrow> NormalizeValue wide (JFloat (of_int i)) = JFloat (of_int i)) \<and>
   (q \<notin> \<int> \<longrightarrow> NormalizeValue wide (JFloat q) = JFloat q)"
proof -
  have idem: "NormalizeValue wide (NormalizeValue wide v) = NormalizeValue wide v"
    by (induction v) (auto simp: map_prod_def split_def)
  have low: "- (2 ^ 63) \<le> (of_int i :: rat) \<longleftrightarrow> - (2 ^ 63) \<le> i"
    by (metis of_int_le_iff of_int_minus of_int_numeral of_int_power)
  have high: "(of_int i :: rat) \<le> 2 ^ 63 \<longleftrightarrow> i \<le> 2 ^ 63"
    by (metis of_int_le_iff of_int_numeral of_int_power)
  have strict: "(of_int i :: rat) < 2 ^ 63 \<longleftrightarrow> i < 2 ^ 63"
    by (metis of_int_less_iff of_int_numeral of_int_power)
  have frac: "NormalizeValue wide (JFloat q) = JFloat q" if "q \<notin> \<int>"
    using that by (auto simp: Ints_def)
  have inside: "NormalizeValue wide (JFloat (of_int i)) = JInt64 (if i = 2 ^ 63 then wide else i)"
    if "- (2 ^ 63) \<le> i" "i \<le> 2 ^ 63"
    unfolding NormalizeValue.simps convertFloat_def low high strict using that by auto
  have outside: "NormalizeValue wide (JFloat (of_int i)) = JFloat (of_int i)" if "i < - (2 ^ 63) \<or> 2 ^ 63 < i"
    unfolding NormalizeValue.simps low high using that by auto
  show ?thesis using idem frac inside outside by blast
qed

theorem NormalizeValue_exact_witness:
  "NormalizeValue (- (2 ^ 63)) (JFloat (2 ^ 63)) = JInt64 (- (2 ^ 63)) \<and>
   NormalizeValue (- (2 ^ 63)) (JFloat 3) = JInt64 3 \<and>
   NormalizeValue (- (2 ^ 63)) (JFloat (2 ^ 63 + 1)) = JFloat (2 ^ 63 + 1)"
  using NormalizeValue_exact [of "- (2 ^ 63)" JNull "2 ^ 63"] NormalizeValue_exact [of "- (2 ^ 63)" JNull 3]
    NormalizeValue_exact [of "- (2 ^ 63)" JNull "2 ^ 63 + 1"]
  by simp

end
