(* ===== verification/Constants.thy ===== *)
theory Constants
  imports Prelude
begin

text \<open>
  The package \<^verbatim>\<open>internal/constants\<close>: the keys LightsOut writes to objects, the values it
  writes under them, and the intervals of its polls and timeouts.
\<close>

definition AnnotationPrefix :: string where "AnnotationPrefix = ''lightsout.techsupport.mk/''"
definition LabelPrefix :: string where "LabelPrefix = ''lightsout.techsupport.mk/''"

definition OriginalReplicasAnnotation :: string where
  "OriginalReplicasAnnotation = AnnotationPrefix @ ''original-replicas''"
definition OriginalSuspendAnnotation :: string where
  "OriginalSuspendAnnotation = AnnotationPrefix @ ''original-suspend''"
definition OriginalHPAScaleUpPolicyAnnotation :: string where
  "OriginalHPAScaleUpPolicyAnnotation = AnnotationPrefix @ ''original-hpa-scale-up-policy''"
definition OriginalFieldsAnnotation :: string where
  "OriginalFieldsAnnotation = AnnotationPrefix @ ''original-fields''"
definition ManagedByAnnotation :: string where
  "ManagedByAnnotation = AnnotationPrefix @ ''managed-by''"
definition ManagedByLabel :: string where
  "ManagedByLabel = LabelPrefix @ ''managed-by''"

definition SuspendedByLightsOut :: string where "SuspendedByLightsOut = ''lightsout''"
definition SuspendedByUser :: string where "SuspendedByUser = ''user''"

definition OperationDownscale :: string where "OperationDownscale = ''downscale''"
definition OperationUpscale :: string where "OperationUpscale = ''upscale''"

definition FinalizerName :: string where "FinalizerName = AnnotationPrefix @ ''cleanup''"

definition StateLabel :: string where "StateLabel = LabelPrefix @ ''state''"
definition StateDown :: string where "StateDown = ''down''"
definition StateWarmingUp :: string where "StateWarmingUp = ''warming-up''"
definition WarmingUpSinceAnnotation :: string where
  "WarmingUpSinceAnnotation = AnnotationPrefix @ ''warming-up-since''"

definition ArgoCDSyncWaveAnnotation :: string where
  "ArgoCDSyncWaveAnnotation = ''argocd.argoproj.io/sync-wave''"

definition DefaultArgoCDNamespace :: string where "DefaultArgoCDNamespace = ''argocd''"
definition DefaultFluxCDNamespace :: string where "DefaultFluxCDNamespace = ''flux-system''"
definition DefaultTimezone :: string where "DefaultTimezone = ''UTC''"

definition EventActionScaleUp :: string where "EventActionScaleUp = ''ScaleUp''"
definition EventActionScaleDown :: string where "EventActionScaleDown = ''ScaleDown''"
definition EventReasonScaledUp :: string where "EventReasonScaledUp = ''ScaledUp''"
definition EventReasonScaledDown :: string where "EventReasonScaledDown = ''ScaledDown''"
definition EventReasonPodsStuckTerminating :: string where
  "EventReasonPodsStuckTerminating = ''PodsStuckTerminating''"
definition EventReasonSyncWaveTimeout :: string where
  "EventReasonSyncWaveTimeout = ''SyncWaveTimeout''"
definition ConditionTypeReady :: string where "ConditionTypeReady = ''Ready''"

definition WarmupCheckInterval :: duration where "WarmupCheckInterval = 30 * second"
definition DefaultWarmupTimeout :: duration where "DefaultWarmupTimeout = 10 * minute"
definition TerminationGraceSlack :: duration where "TerminationGraceSlack = 2 * minute"
definition TerminationCheckInterval :: duration where "TerminationCheckInterval = 5 * minute"

text \<open>The keys of one metadata map are pairwise different.\<close>

lemmas key_defs = AnnotationPrefix_def LabelPrefix_def OriginalReplicasAnnotation_def
  OriginalSuspendAnnotation_def OriginalHPAScaleUpPolicyAnnotation_def OriginalFieldsAnnotation_def
  ManagedByAnnotation_def ManagedByLabel_def StateLabel_def WarmingUpSinceAnnotation_def
  ArgoCDSyncWaveAnnotation_def

lemma annotation_keys_distinct:
  "distinct [ManagedByAnnotation, OriginalReplicasAnnotation, OriginalSuspendAnnotation,
     OriginalHPAScaleUpPolicyAnnotation, OriginalFieldsAnnotation, WarmingUpSinceAnnotation,
     ArgoCDSyncWaveAnnotation]"
  by (simp add: key_defs)

lemma annotation_keys [simp]:
  "ManagedByAnnotation \<noteq> OriginalReplicasAnnotation" "ManagedByAnnotation \<noteq> OriginalSuspendAnnotation"
  "ManagedByAnnotation \<noteq> OriginalHPAScaleUpPolicyAnnotation" "ManagedByAnnotation \<noteq> OriginalFieldsAnnotation"
  "ManagedByAnnotation \<noteq> WarmingUpSinceAnnotation" "ManagedByAnnotation \<noteq> ArgoCDSyncWaveAnnotation"
  "OriginalReplicasAnnotation \<noteq> ManagedByAnnotation" "OriginalReplicasAnnotation \<noteq> OriginalSuspendAnnotation"
  "OriginalReplicasAnnotation \<noteq> OriginalHPAScaleUpPolicyAnnotation" "OriginalReplicasAnnotation \<noteq> OriginalFieldsAnnotation"
  "OriginalReplicasAnnotation \<noteq> WarmingUpSinceAnnotation" "OriginalReplicasAnnotation \<noteq> ArgoCDSyncWaveAnnotation"
  "OriginalSuspendAnnotation \<noteq> ManagedByAnnotation" "OriginalSuspendAnnotation \<noteq> OriginalReplicasAnnotation"
  "OriginalSuspendAnnotation \<noteq> OriginalHPAScaleUpPolicyAnnotation" "OriginalSuspendAnnotation \<noteq> OriginalFieldsAnnotation"
  "OriginalSuspendAnnotation \<noteq> WarmingUpSinceAnnotation" "OriginalSuspendAnnotation \<noteq> ArgoCDSyncWaveAnnotation"
  "OriginalHPAScaleUpPolicyAnnotation \<noteq> ManagedByAnnotation" "OriginalHPAScaleUpPolicyAnnotation \<noteq> OriginalReplicasAnnotation"
  "OriginalHPAScaleUpPolicyAnnotation \<noteq> OriginalSuspendAnnotation" "OriginalHPAScaleUpPolicyAnnotation \<noteq> OriginalFieldsAnnotation"
  "OriginalHPAScaleUpPolicyAnnotation \<noteq> WarmingUpSinceAnnotation" "OriginalHPAScaleUpPolicyAnnotation \<noteq> ArgoCDSyncWaveAnnotation"
  "OriginalFieldsAnnotation \<noteq> ManagedByAnnotation" "OriginalFieldsAnnotation \<noteq> OriginalReplicasAnnotation"
  "OriginalFieldsAnnotation \<noteq> OriginalSuspendAnnotation" "OriginalFieldsAnnotation \<noteq> OriginalHPAScaleUpPolicyAnnotation"
  "OriginalFieldsAnnotation \<noteq> WarmingUpSinceAnnotation" "OriginalFieldsAnnotation \<noteq> ArgoCDSyncWaveAnnotation"
  "WarmingUpSinceAnnotation \<noteq> ManagedByAnnotation" "WarmingUpSinceAnnotation \<noteq> OriginalReplicasAnnotation"
  "WarmingUpSinceAnnotation \<noteq> OriginalSuspendAnnotation" "WarmingUpSinceAnnotation \<noteq> OriginalHPAScaleUpPolicyAnnotation"
  "WarmingUpSinceAnnotation \<noteq> OriginalFieldsAnnotation" "WarmingUpSinceAnnotation \<noteq> ArgoCDSyncWaveAnnotation"
  "ArgoCDSyncWaveAnnotation \<noteq> ManagedByAnnotation" "ArgoCDSyncWaveAnnotation \<noteq> OriginalReplicasAnnotation"
  "ArgoCDSyncWaveAnnotation \<noteq> OriginalSuspendAnnotation" "ArgoCDSyncWaveAnnotation \<noteq> OriginalHPAScaleUpPolicyAnnotation"
  "ArgoCDSyncWaveAnnotation \<noteq> OriginalFieldsAnnotation" "ArgoCDSyncWaveAnnotation \<noteq> WarmingUpSinceAnnotation"
  using annotation_keys_distinct by auto

lemma label_keys [simp]: "ManagedByLabel \<noteq> StateLabel" "StateLabel \<noteq> ManagedByLabel"
  by (simp_all add: key_defs)

end
