(* ===== verification/Patch.thy ===== *)
theory Patch
  imports Jsonpointer Constants
begin

text \<open>
  The merge patches of \<^verbatim>\<open>internal/controller/patch.go\<close> and the objects they are applied to.
  A patch is built as a JSON document and handed to the API server. What the server does
  with it is RFC 7386: \<open>mergePatch\<close> for an unstructured object, which is a JSON document,
  and the \<open>merge_\<close> functions for a typed object, which is a record of the fields the
  program uses. The lemmas say what each key of the object is after the patch.
\<close>

section \<open>Objects\<close>

record OwnerReference =
  or_Kind :: string
  or_Controller :: "bool option"

record kmeta =
  obj_name :: string
  obj_namespace :: string
  obj_labels :: strmap
  obj_annotations :: strmap
  obj_generation :: int
  obj_ownerReferences :: "OwnerReference list"

text \<open>A Deployment or a StatefulSet, and a CronJob.\<close>

record replica_workload = kmeta +
  spec_replicas :: "int32 option"
  st_observedGeneration :: int
  st_replicas :: int32
  st_readyReplicas :: int32

record cronjob = kmeta +
  spec_suspend :: "bool option"

text \<open>
  \<^verbatim>\<open>NestedString\<close> and the accessors of an unstructured object descend through objects
  only. A map with a value that is not a string is returned as empty.
\<close>

fun nestedField :: "json \<Rightarrow> string list \<Rightarrow> json option" where
  "nestedField d [] = Some d"
| "nestedField d (k # ks) =
     (case d of
        JObj m \<Rightarrow> (case map_of m k of None \<Rightarrow> None | Some c \<Rightarrow> nestedField c ks)
      | _ \<Rightarrow> None)"

definition nestedString :: "json \<Rightarrow> string list \<Rightarrow> string" where
  "nestedString d ks = (case nestedField d ks of Some (JStr s) \<Rightarrow> s | _ \<Rightarrow> [])"

definition isJStr :: "json \<Rightarrow> bool" where
  "isJStr v \<longleftrightarrow> (case v of JStr _ \<Rightarrow> True | _ \<Rightarrow> False)"

definition strOf :: "json \<Rightarrow> string" where
  "strOf v = (case v of JStr s \<Rightarrow> s | _ \<Rightarrow> [])"

definition nestedStringMap :: "json \<Rightarrow> string list \<Rightarrow> strmap" where
  "nestedStringMap d ks =
     (case nestedField d ks of
        Some (JObj m) \<Rightarrow> (if \<forall>kv \<in> set m. isJStr (snd kv) then map_option strOf \<circ> map_of m else Map.empty)
      | _ \<Rightarrow> Map.empty)"

definition GetAnnotations :: "json \<Rightarrow> strmap" where
  "GetAnnotations d = nestedStringMap d [''metadata'', ''annotations'']"

definition GetLabels :: "json \<Rightarrow> strmap" where
  "GetLabels d = nestedStringMap d [''metadata'', ''labels'']"

section \<open>Building a patch\<close>

definition fieldReplicas :: string where "fieldReplicas = ''replicas''"
definition fieldSuspend :: string where "fieldSuspend = ''suspend''"

record objectPatch =
  SetLabels :: "(string \<times> string) list"
  SetAnnotations :: "(string \<times> string) list"
  RemoveAnnotations :: "string list"
  RemoveLabels :: "string list"
  Spec :: "(string \<times> json) list"

definition emptyPatch :: objectPatch where
  "emptyPatch = \<lparr>SetLabels = [], SetAnnotations = [], RemoveAnnotations = [], RemoveLabels = [], Spec = []\<rparr>"

text \<open>The set keys, then the removed ones, so a key named in both is removed.\<close>

definition mergeKeys :: "(string \<times> string) list \<Rightarrow> string list \<Rightarrow> (string \<times> json) list" where
  "mergeKeys kvs remove =
     fold (\<lambda>k m. objSet k JNull m) remove (fold (\<lambda>(k, v) m. objSet k (JStr v) m) kvs [])"

definition build :: "objectPatch \<Rightarrow> json" where
  "build p =
     (let labels = mergeKeys (SetLabels p) (RemoveLabels p);
          annotations = mergeKeys (SetAnnotations p) (RemoveAnnotations p);
          metadata0 = (if labels = [] then [] else objSet ''labels'' (JObj labels) []);
          metadata = (if annotations = [] then metadata0
                      else objSet ''annotations'' (JObj annotations) metadata0);
          patch0 = (if metadata = [] then [] else objSet ''metadata'' (JObj metadata) []);
          patch = (if Spec p = [] then patch0 else objSet ''spec'' (JObj (Spec p)) patch0)
      in JObj patch)"

text \<open>
  \<^verbatim>\<open>c.Patch\<close> overwrites the object in hand with the server's answer when it succeeds and
  leaves it as it was when it fails.
\<close>

definition applyMergePatch ::
  "('o \<Rightarrow> json \<Rightarrow> 's \<Rightarrow> (string + 'o) \<times> 's) \<Rightarrow> 'o \<Rightarrow> objectPatch \<Rightarrow> 's \<Rightarrow> string option \<times> 'o \<times> 's" where
  "applyMergePatch send obj patch s =
     (case send obj (build patch) s of
        (Inl e, s') \<Rightarrow> (Some e, obj, s')
      | (Inr obj', s') \<Rightarrow> (None, obj', s'))"

section \<open>Applying a patch\<close>

definition members :: "json \<Rightarrow> (string \<times> json) list" where
  "members d = (case d of JObj m \<Rightarrow> m | _ \<Rightarrow> [])"

fun mergePatch :: "json \<Rightarrow> json \<Rightarrow> json"
  and mergeMembers :: "(string \<times> json) list \<Rightarrow> (string \<times> json) list \<Rightarrow> (string \<times> json) list" where
  "mergePatch target (JObj p) = JObj (mergeMembers (members target) p)"
| "mergePatch target JNull = JNull"
| "mergePatch target (JBool b) = JBool b"
| "mergePatch target (JInt64 i) = JInt64 i"
| "mergePatch target (JGoInt i) = JInt64 i"
| "mergePatch target (JInt32 i) = JInt64 i"
| "mergePatch target (JFloat q) = JFloat q"
| "mergePatch target (JStr s) = JStr s"
| "mergePatch target (JArr xs) = JArr xs"
| "mergeMembers base [] = base"
| "mergeMembers base ((k, JNull) # ps) = mergeMembers (objDel k base) ps"
| "mergeMembers base ((k, v) # ps) =
     mergeMembers (objSet k (mergePatch (case map_of base k of None \<Rightarrow> JNull | Some c \<Rightarrow> c) v) base) ps"

text \<open>A typed object keeps string maps and integers of its own width.\<close>

definition mergeStrs :: "json option \<Rightarrow> strmap \<Rightarrow> strmap" where
  "mergeStrs po m =
     (case po of
        Some (JObj ps) \<Rightarrow>
          (\<lambda>k. case map_of ps k of None \<Rightarrow> m k | Some (JStr s) \<Rightarrow> Some s | Some _ \<Rightarrow> None)
      | _ \<Rightarrow> m)"

definition merge_meta :: "json \<Rightarrow> 'a kmeta_scheme \<Rightarrow> 'a kmeta_scheme" where
  "merge_meta patch o1 =
     o1\<lparr>obj_labels := mergeStrs (nestedField patch [''metadata'', ''labels'']) (obj_labels o1),
        obj_annotations := mergeStrs (nestedField patch [''metadata'', ''annotations'']) (obj_annotations o1)\<rparr>"

definition merge_workload :: "json \<Rightarrow> replica_workload \<Rightarrow> replica_workload" where
  "merge_workload patch o1 =
     (merge_meta patch o1)
       \<lparr>spec_replicas :=
          (case nestedField patch [''spec'', fieldReplicas] of
             None \<Rightarrow> spec_replicas o1
           | Some (JGoInt i) \<Rightarrow> Some (word_of_int i)
           | Some (JInt32 i) \<Rightarrow> Some (word_of_int i)
           | Some (JInt64 i) \<Rightarrow> Some (word_of_int i)
           | Some _ \<Rightarrow> None)\<rparr>"

definition merge_cronjob :: "json \<Rightarrow> cronjob \<Rightarrow> cronjob" where
  "merge_cronjob patch o1 =
     (merge_meta patch o1)
       \<lparr>spec_suspend :=
          (case nestedField patch [''spec'', fieldSuspend] of
             None \<Rightarrow> spec_suspend o1
           | Some (JBool b) \<Rightarrow> Some b
           | Some _ \<Rightarrow> None)\<rparr>"

text \<open>
  What the API server promises: the answer to a patch is the patch merged into the stored
  object, which is the object in hand as long as nobody else has written to it, except for
  what the server itself maintains. \<open>sameStored\<close> says which fields are compared.
\<close>

definition patchMerges ::
  "('o \<Rightarrow> json \<Rightarrow> 's \<Rightarrow> (string + 'o) \<times> 's) \<Rightarrow> (json \<Rightarrow> 'o \<Rightarrow> 'o) \<Rightarrow> ('o \<Rightarrow> 'o \<Rightarrow> bool) \<Rightarrow> bool" where
  "patchMerges send merge sameStored \<longleftrightarrow>
     (\<forall>obj patch s obj' s'. send obj patch s = (Inr obj', s') \<longrightarrow> sameStored obj' (merge patch obj))"

lemma patchMergesD: "patchMerges send merge same \<Longrightarrow> send obj patch s = (Inr obj', s') \<Longrightarrow> same obj' (merge patch obj)"
  unfolding patchMerges_def by blast

section \<open>What a patch does to each key\<close>

lemma map_of_fold_set:
  "map_of (fold (\<lambda>(k, v) m. objSet k (f v) m) kvs base) k =
     (case map_of (rev kvs) k of None \<Rightarrow> map_of base k | Some v \<Rightarrow> Some (f v))"
  by (induction kvs arbitrary: base) (auto split: option.splits simp: map_add_def)

lemma map_of_fold_null:
  "map_of (fold (\<lambda>k m. objSet k JNull m) ks base) k =
     (if k \<in> set ks then Some JNull else map_of base k)"
  by (induction ks arbitrary: base) auto

lemma map_of_mergeKeys:
  "map_of (mergeKeys kvs remove) k =
     (if k \<in> set remove then Some JNull else map_option JStr (map_of (rev kvs) k))"
  by (auto simp: mergeKeys_def map_of_fold_null map_of_fold_set [where f = JStr] split: option.splits)

lemma wfObj_fold_set: "wfObj base \<Longrightarrow> wfObj (fold (\<lambda>(k, v) m. objSet k (f v) m) kvs base)"
  by (induction kvs arbitrary: base) auto

lemma wfObj_fold_null: "wfObj base \<Longrightarrow> wfObj (fold (\<lambda>k m. objSet k JNull m) ks base)"
  by (induction ks arbitrary: base) auto

lemma wfObj_mergeKeys [simp]: "wfObj (mergeKeys kvs remove)"
  by (simp add: mergeKeys_def wfObj_fold_null wfObj_fold_set [where f = JStr])

lemma mergeKeys_Nil [simp]: "mergeKeys [] [] = []"
  by (simp add: mergeKeys_def)

lemma mergeKeys_empty_iff: "mergeKeys kvs remove = [] \<longleftrightarrow> kvs = [] \<and> remove = []"
proof -
  have "mergeKeys kvs remove = [] \<longleftrightarrow> (\<forall>k. map_of (mergeKeys kvs remove) k = None)"
    by (cases "mergeKeys kvs remove") (auto split: if_splits)
  also have "\<dots> \<longleftrightarrow> (\<forall>k. k \<notin> set remove \<and> k \<notin> fst ` set kvs)"
    by (intro iff_allI) (simp add: map_of_mergeKeys map_of_eq_None_iff)
  also have "\<dots> \<longleftrightarrow> kvs = [] \<and> remove = []"
    by (cases kvs; cases remove) auto
  finally show ?thesis .
qed

lemma build_fields [simp]:
  "nestedField (build p) [''metadata'', ''labels''] =
     (if SetLabels p = [] \<and> RemoveLabels p = [] then None
      else Some (JObj (mergeKeys (SetLabels p) (RemoveLabels p))))"
  "nestedField (build p) [''metadata'', ''annotations''] =
     (if SetAnnotations p = [] \<and> RemoveAnnotations p = [] then None
      else Some (JObj (mergeKeys (SetAnnotations p) (RemoveAnnotations p))))"
  "nestedField (build p) (''spec'' # ks) =
     (if Spec p = [] then None else nestedField (JObj (Spec p)) ks)"
  by (auto simp: build_def Let_def mergeKeys_empty_iff)

text \<open>The effect of a patch on a string map, without the JSON in between.\<close>

definition updKeys :: "(string \<times> string) list \<Rightarrow> string list \<Rightarrow> strmap \<Rightarrow> strmap" where
  "updKeys kvs remove m =
     (\<lambda>k. if k \<in> set remove then None else case map_of (rev kvs) k of None \<Rightarrow> m k | Some v \<Rightarrow> Some v)"

lemma mergeStrs_mergeKeys:
  "mergeStrs (Some (JObj (mergeKeys kvs remove))) m = updKeys kvs remove m"
  by (auto simp: mergeStrs_def updKeys_def map_of_mergeKeys fun_eq_iff split: option.splits)

lemma mergeStrs_None [simp]: "mergeStrs None m = m"
  by (simp add: mergeStrs_def)

lemma updKeys_Nil [simp]: "updKeys [] [] m = m"
  by (simp add: updKeys_def fun_eq_iff)

lemma updKeys_simps [simp]:
  "updKeys kvs (k # ks) m = (updKeys kvs ks m)(k := None)"
  "updKeys (kvs @ [(k, v)]) [] m = (updKeys kvs [] m)(k \<mapsto> v)"
  "updKeys [(k, v)] [] m = m(k \<mapsto> v)"
  "updKeys [(k, v), (k2, v2)] [] m = m(k \<mapsto> v, k2 \<mapsto> v2)"
  "updKeys [(k, v), (k2, v2), (k3, v3)] [] m = m(k \<mapsto> v, k2 \<mapsto> v2, k3 \<mapsto> v3)"
  by (auto simp: updKeys_def fun_eq_iff split: option.splits)

lemma merge_meta_build:
  "merge_meta (build p) o1 =
     o1\<lparr>obj_labels := updKeys (SetLabels p) (RemoveLabels p) (obj_labels o1),
        obj_annotations := updKeys (SetAnnotations p) (RemoveAnnotations p) (obj_annotations o1)\<rparr>"
  by (auto simp: merge_meta_def mergeStrs_mergeKeys simp del: nestedField.simps(2))

lemma merge_workload_build:
  "merge_workload (build p) o1 =
     o1\<lparr>obj_labels := updKeys (SetLabels p) (RemoveLabels p) (obj_labels o1),
        obj_annotations := updKeys (SetAnnotations p) (RemoveAnnotations p) (obj_annotations o1),
        spec_replicas :=
          (case map_of (Spec p) fieldReplicas of
             None \<Rightarrow> spec_replicas o1
           | Some (JGoInt i) \<Rightarrow> Some (word_of_int i)
           | Some (JInt32 i) \<Rightarrow> Some (word_of_int i)
           | Some (JInt64 i) \<Rightarrow> Some (word_of_int i)
           | Some _ \<Rightarrow> None)\<rparr>"
  unfolding merge_workload_def merge_meta_build build_fields
  by (auto split: option.splits json.splits)

lemma merge_cronjob_build:
  "merge_cronjob (build p) o1 =
     o1\<lparr>obj_labels := updKeys (SetLabels p) (RemoveLabels p) (obj_labels o1),
        obj_annotations := updKeys (SetAnnotations p) (RemoveAnnotations p) (obj_annotations o1),
        spec_suspend :=
          (case map_of (Spec p) fieldSuspend of
             None \<Rightarrow> spec_suspend o1
           | Some (JBool b) \<Rightarrow> Some b
           | Some _ \<Rightarrow> None)\<rparr>"
  unfolding merge_cronjob_def merge_meta_build build_fields
  by (auto split: option.splits json.splits)

section \<open>What a patch does to an unstructured object\<close>

lemma map_of_mergeMembers:
  "distinct (map fst p) \<Longrightarrow>
     map_of (mergeMembers base p) k =
       (case map_of p k of
          None \<Rightarrow> map_of base k
        | Some v \<Rightarrow> (if v = JNull then None
                     else Some (mergePatch (case map_of base k of None \<Rightarrow> JNull | Some c \<Rightarrow> c) v)))"
proof (induction p arbitrary: base)
  case (Cons kv p)
  obtain k' v where kv: "kv = (k', v)" by (cases kv)
  have nin: "map_of p k' = None" using Cons.prems kv by (simp add: map_of_eq_None_iff)
  show ?case
  proof (cases "v = JNull")
    case True
    then show ?thesis using Cons kv nin by (auto split: option.splits)
  next
    case False
    then have "mergeMembers base (kv # p) =
        mergeMembers (objSet k' (mergePatch (case map_of base k' of None \<Rightarrow> JNull | Some c \<Rightarrow> c) v) base) p"
      using kv by (cases v) auto
    then show ?thesis using Cons kv nin False by (auto split: option.splits)
  qed
qed simp

lemma wfObj_mergeMembers: "wfObj base \<Longrightarrow> wfObj (mergeMembers base p)"
proof (induction p arbitrary: base)
  case (Cons kv p)
  then show ?case by (cases kv; cases "snd kv") auto
qed simp

text \<open>Reading a member after a merge.\<close>

lemma nestedField_merge:
  "distinct (map fst p) \<Longrightarrow>
     nestedField (mergePatch d (JObj p)) (k # ks) =
       (case map_of p k of
          None \<Rightarrow> (case map_of (members d) k of None \<Rightarrow> None | Some c \<Rightarrow> nestedField c ks)
        | Some v \<Rightarrow> (if v = JNull then None
                     else nestedField (mergePatch (case map_of (members d) k of None \<Rightarrow> JNull | Some c \<Rightarrow> c) v) ks))"
  by (auto simp: map_of_mergeMembers split: option.splits)

definition patchMeta :: "objectPatch \<Rightarrow> (string \<times> json) list" where
  "patchMeta p =
     (let labels = mergeKeys (SetLabels p) (RemoveLabels p);
          annotations = mergeKeys (SetAnnotations p) (RemoveAnnotations p)
      in (if annotations = [] then [] else [(''annotations'', JObj annotations)]) @
         (if labels = [] then [] else [(''labels'', JObj labels)]))"

lemma build_eq:
  "build p = JObj ((if patchMeta p = [] then [] else [(''metadata'', JObj (patchMeta p))]) @
                   (if Spec p = [] then [] else [(''spec'', JObj (Spec p))]))"
  by (auto simp: build_def patchMeta_def Let_def)

lemma patchMeta_distinct [simp]: "distinct (map fst (patchMeta p))"
  by (auto simp: patchMeta_def Let_def)

lemma mergePatch_distinct: "distinct (map fst (mergeKeys kvs remove))"
  using wfObj_distinct [OF wfObj_mergeKeys] .

definition orNull :: "json option \<Rightarrow> json" where
  "orNull x = (case x of None \<Rightarrow> JNull | Some c \<Rightarrow> c)"

lemma orNull_simps [simp]: "orNull None = JNull" "orNull (Some c) = c"
  by (simp_all add: orNull_def)

lemma nestedField_Cons: "nestedField d (k # ks) =
    (case map_of (members d) k of None \<Rightarrow> None | Some c \<Rightarrow> nestedField c ks)"
  by (cases d) (simp_all add: members_def)

lemma nestedField_top_merge:
  "nestedField (mergePatch d (build p)) (k # ks) =
     (if k = ''metadata'' \<and> patchMeta p \<noteq> [] then
        nestedField (mergePatch (orNull (nestedField d [k])) (JObj (patchMeta p))) ks
      else if k = ''spec'' \<and> Spec p \<noteq> [] then
        nestedField (mergePatch (orNull (nestedField d [k])) (JObj (Spec p))) ks
      else nestedField d (k # ks))"
proof -
  let ?b = "(if patchMeta p = [] then [] else [(''metadata'', JObj (patchMeta p))]) @
            (if Spec p = [] then [] else [(''spec'', JObj (Spec p))])"
  have d: "distinct (map fst ?b)" by auto
  have m: "map_of ?b k =
      (if k = ''metadata'' \<and> patchMeta p \<noteq> [] then Some (JObj (patchMeta p))
       else if k = ''spec'' \<and> Spec p \<noteq> [] then Some (JObj (Spec p)) else None)"
    by auto
  have n: "nestedField d [k] = map_of (members d) k"
    by (simp add: nestedField_Cons nestedField.simps(1) del: nestedField.simps(2) split: option.split)
  show ?thesis
    unfolding build_eq nestedField_merge [OF d] m n
    by (simp add: nestedField_Cons orNull_def del: nestedField.simps split: if_split)
qed

lemma nestedField_merge_meta:
  fixes p :: objectPatch
  defines "A \<equiv> mergeKeys (SetAnnotations p) (RemoveAnnotations p)"
    and "L \<equiv> mergeKeys (SetLabels p) (RemoveLabels p)"
  shows "nestedField (mergePatch d (build p)) (''metadata'' # k # ks) =
     (if k = ''annotations'' \<and> A \<noteq> [] then
        nestedField (mergePatch (orNull (nestedField d [''metadata'', k])) (JObj A)) ks
      else if k = ''labels'' \<and> L \<noteq> [] then
        nestedField (mergePatch (orNull (nestedField d [''metadata'', k])) (JObj L)) ks
      else nestedField d (''metadata'' # k # ks))"
proof (cases "patchMeta p = []")
  case True
  then have "A = []" "L = []" by (auto simp: patchMeta_def Let_def A_def L_def split: if_splits)
  with True show ?thesis by (simp add: nestedField_top_merge del: nestedField.simps)
next
  case False
  have pm: "map_of (patchMeta p) k =
      (if k = ''annotations'' \<and> A \<noteq> [] then Some (JObj A)
       else if k = ''labels'' \<and> L \<noteq> [] then Some (JObj L) else None)"
    by (auto simp: patchMeta_def Let_def A_def L_def)
  let ?m = "orNull (nestedField d [''metadata''])"
  have mem: "members ?m = (case map_of (members d) ''metadata'' of None \<Rightarrow> [] | Some c \<Rightarrow> members c)"
    by (simp add: nestedField_Cons nestedField.simps(1) members_def del: nestedField.simps(2) split: option.split)
  have n: "nestedField d (''metadata'' # k # ks) =
      (case map_of (members ?m) k of None \<Rightarrow> None | Some c \<Rightarrow> nestedField c ks)" for ks
    unfolding mem by (simp add: nestedField_Cons del: nestedField.simps split: option.split)
  have n1: "nestedField d [''metadata'', k] = map_of (members ?m) k"
    unfolding n by (simp split: option.split)
  have e: "nestedField (mergePatch d (build p)) (''metadata'' # k # ks) =
      nestedField (mergePatch ?m (JObj (patchMeta p))) (k # ks)"
    using False by (simp add: nestedField_top_merge del: nestedField.simps)
  show ?thesis
    unfolding e nestedField_merge [OF patchMeta_distinct] pm n1 n [of ks]
    by (simp add: orNull_def del: nestedField.simps split: if_split)
qed

text \<open>The string map at a place of the document, as a typed object would hold it.\<close>

definition strMembers :: "json option \<Rightarrow> bool" where
  "strMembers x \<longleftrightarrow> (\<forall>kv \<in> set (members (orNull x)). isJStr (snd kv))"

lemma nestedStringMap_members:
  "strMembers (nestedField d ks) \<Longrightarrow>
     nestedStringMap d ks = map_option strOf \<circ> map_of (members (orNull (nestedField d ks)))"
  by (auto simp: nestedStringMap_def strMembers_def members_def orNull_def fun_eq_iff
      split: option.splits json.splits)

lemma isJStr_iff: "isJStr v \<longleftrightarrow> (\<exists>s. v = JStr s)"
  by (cases v) (auto simp: isJStr_def)

lemma strMembers_mergeMembers:
  "wfObj base \<Longrightarrow> \<forall>kv \<in> set base. isJStr (snd kv) \<Longrightarrow>
     \<forall>kv \<in> set (mergeMembers base (mergeKeys kvs remove)). isJStr (snd kv)"
proof
  fix kv assume base: "wfObj base" "\<forall>kv \<in> set base. isJStr (snd kv)"
    and kv: "kv \<in> set (mergeMembers base (mergeKeys kvs remove))"
  obtain k v where k: "kv = (k, v)" by (cases kv)
  have "map_of (mergeMembers base (mergeKeys kvs remove)) k = Some v"
    using kv k base(1) wfObj_mergeMembers [OF base(1)] by (simp add: wfObj_distinct)
  moreover have "isJStr c" if "map_of base k = Some c" for c
    using base(2) that by (force dest: map_of_SomeD)
  ultimately show "isJStr (snd kv)"
    unfolding map_of_mergeMembers [OF mergePatch_distinct] map_of_mergeKeys k
    by (auto simp: isJStr_iff split: option.splits if_splits)
qed

lemma nestedStringMap_mergeKeys:
  assumes "wfObj (members d)" and "\<forall>kv \<in> set (members d). isJStr (snd kv)"
  shows "nestedStringMap (mergePatch d (JObj (mergeKeys kvs remove))) [] =
    updKeys kvs remove (map_option strOf \<circ> map_of (members d))"
proof -
  have "nestedStringMap (mergePatch d (JObj (mergeKeys kvs remove))) [] =
      map_option strOf \<circ> map_of (mergeMembers (members d) (mergeKeys kvs remove))"
    using strMembers_mergeMembers [OF assms] by (auto simp: nestedStringMap_def)
  also have "\<dots> = updKeys kvs remove (map_option strOf \<circ> map_of (members d))"
    by (auto simp: fun_eq_iff map_of_mergeMembers [OF mergePatch_distinct] map_of_mergeKeys
        updKeys_def strOf_def split: option.splits)
  finally show ?thesis .
qed

text \<open>A document whose label and annotation maps are maps of strings, as the API demands.\<close>

definition stringMeta :: "json \<Rightarrow> bool" where
  "stringMeta d \<longleftrightarrow>
     (\<forall>f \<in> {''labels'', ''annotations''}.
        wfObj (members (orNull (nestedField d [''metadata'', f]))) \<and>
        strMembers (nestedField d [''metadata'', f]))"

lemma meta_build_aux:
  assumes "stringMeta d"
    and "f = ''labels'' \<and> kvs = SetLabels p \<and> ks = RemoveLabels p \<or>
         f = ''annotations'' \<and> kvs = SetAnnotations p \<and> ks = RemoveAnnotations p"
  shows "nestedStringMap (mergePatch d (build p)) [''metadata'', f] =
    updKeys kvs ks (nestedStringMap d [''metadata'', f])"
proof (cases "mergeKeys kvs ks = []")
  case True
  then have "nestedField (mergePatch d (build p)) [''metadata'', f] = nestedField d [''metadata'', f]"
    using assms(2) by (auto simp: nestedField_merge_meta simp del: nestedField.simps)
  with True show ?thesis
    by (simp add: nestedStringMap_def mergeKeys_empty_iff del: nestedField.simps)
next
  case False
  let ?c = "orNull (nestedField d [''metadata'', f])"
  have "nestedField (mergePatch d (build p)) [''metadata'', f] =
      Some (mergePatch ?c (JObj (mergeKeys kvs ks)))"
    using False assms(2) nestedField_merge_meta [of d p f "[]"]
    by (auto simp: nestedField.simps(1) simp del: nestedField.simps(2))
  then have "nestedStringMap (mergePatch d (build p)) [''metadata'', f] =
      nestedStringMap (mergePatch ?c (JObj (mergeKeys kvs ks))) []"
    by (simp add: nestedStringMap_def del: nestedField.simps(2))
  also have "\<dots> = updKeys kvs ks (map_option strOf \<circ> map_of (members ?c))"
    by (rule nestedStringMap_mergeKeys) (use assms in \<open>auto simp: stringMeta_def strMembers_def simp del: nestedField.simps\<close>)
  also have "map_option strOf \<circ> map_of (members ?c) = nestedStringMap d [''metadata'', f]"
    by (rule nestedStringMap_members [symmetric]) (use assms in \<open>auto simp: stringMeta_def\<close>)
  finally show ?thesis .
qed

lemma GetAnnotations_build:
  "stringMeta d \<Longrightarrow> GetAnnotations (mergePatch d (build p)) =
     updKeys (SetAnnotations p) (RemoveAnnotations p) (GetAnnotations d)"
  unfolding GetAnnotations_def by (rule meta_build_aux) auto

lemma GetLabels_build:
  "stringMeta d \<Longrightarrow> GetLabels (mergePatch d (build p)) =
     updKeys (SetLabels p) (RemoveLabels p) (GetLabels d)"
  unfolding GetLabels_def by (rule meta_build_aux) auto

text \<open>A patch leaves every other field of the metadata, and every other top-level field, alone.\<close>

lemma build_frame_meta:
  "k \<noteq> ''annotations'' \<Longrightarrow> k \<noteq> ''labels'' \<Longrightarrow>
     nestedField (mergePatch d (build p)) (''metadata'' # k # ks) = nestedField d (''metadata'' # k # ks)"
  by (simp add: nestedField_merge_meta del: nestedField.simps)

lemma build_frame_top:
  "k \<noteq> ''metadata'' \<Longrightarrow> k \<noteq> ''spec'' \<or> Spec p = [] \<Longrightarrow>
     nestedField (mergePatch d (build p)) (k # ks) = nestedField d (k # ks)"
  by (auto simp: nestedField_top_merge simp del: nestedField.simps)

section \<open>Properties\<close>

text \<open>
  A built patch, merged by the API server, sets exactly the keys it names, removes exactly
  the keys it names for removal (removal wins), and changes no other label, annotation,
  metadata field or top-level field of the object.
\<close>

theorem build_exact:
  assumes "stringMeta d"
  shows "GetAnnotations (mergePatch d (build p)) k =
      (if k \<in> set (RemoveAnnotations p) then None
       else case map_of (rev (SetAnnotations p)) k of None \<Rightarrow> GetAnnotations d k | Some v \<Rightarrow> Some v) \<and>
    GetLabels (mergePatch d (build p)) k =
      (if k \<in> set (RemoveLabels p) then None
       else case map_of (rev (SetLabels p)) k of None \<Rightarrow> GetLabels d k | Some v \<Rightarrow> Some v) \<and>
    (k \<notin> {''annotations'', ''labels''} \<longrightarrow>
       nestedField (mergePatch d (build p)) (''metadata'' # k # ks) = nestedField d (''metadata'' # k # ks)) \<and>
    (k \<notin> {''metadata'', ''spec''} \<longrightarrow>
       nestedField (mergePatch d (build p)) (k # ks) = nestedField d (k # ks))"
  using build_frame_meta [of k d p ks] build_frame_top [of k p d ks]
  unfolding GetAnnotations_build [OF assms] GetLabels_build [OF assms] updKeys_def
  by (simp del: nestedField.simps)

definition sampleDoc :: json where
  "sampleDoc = JObj
     [(''metadata'', JObj [(''annotations'', JObj [(''a'', JStr ''1''), (''b'', JStr ''2'')]), (''name'', JStr ''x'')]),
      (''spec'', JObj [(''suspend'', JBool False)])]"

lemma sampleDoc_stringMeta: "stringMeta sampleDoc"
  by (simp add: stringMeta_def strMembers_def sampleDoc_def members_def wfObj_def isJStr_def)

theorem build_exact_witness:
  "GetAnnotations (mergePatch sampleDoc (build (emptyPatch\<lparr>SetAnnotations := [(''b'', ''3'')], RemoveAnnotations := [''a'']\<rparr>))) ''a'' = None \<and>
   GetAnnotations (mergePatch sampleDoc (build (emptyPatch\<lparr>SetAnnotations := [(''b'', ''3'')], RemoveAnnotations := [''a'']\<rparr>))) ''b'' = Some ''3''"
  using build_exact [OF sampleDoc_stringMeta, of "emptyPatch\<lparr>SetAnnotations := [(''b'', ''3'')], RemoveAnnotations := [''a'']\<rparr>" "''a''"]
    build_exact [OF sampleDoc_stringMeta, of "emptyPatch\<lparr>SetAnnotations := [(''b'', ''3'')], RemoveAnnotations := [''a'']\<rparr>" "''b''"]
  by (simp add: emptyPatch_def)

end
