(* ===== verification/Metrics.thy ===== *)
theory Metrics
  imports Constants
begin

text \<open>
  The collectors that \<^verbatim>\<open>internal/controller/metrics.go\<close> declares and registers: kind, name and
  label names of each. The Prometheus client keeps one series per collector and list of label
  values. \<^verbatim>\<open>WithLabelValues\<close> of a vector panics unless it gets one value per label name.
\<close>

datatype collector =
    ScheduleState | NextTransitionSeconds | ScalingOperationsTotal | ScalingErrorsTotal
  | ManagedWorkloads | ScaledWorkloads | ManagedCustomResources | ScalingBatchesTotal
  | ScalingWorkloadsProcessed | ScalingDurationSeconds | StuckTerminatingPods | LastReconcileTime

datatype collectorKind = GaugeVec | CounterVec | HistogramVec

definition labelSchedule :: string where "labelSchedule = ''schedule''"
definition labelTransitionType :: string where "labelTransitionType = ''transition_type''"
definition labelNamespace :: string where "labelNamespace = ''namespace''"
definition labelWorkloadType :: string where "labelWorkloadType = ''workload_type''"
definition labelKind :: string where "labelKind = ''kind''"
definition labelOperation :: string where "labelOperation = ''operation''"
definition labelDirection :: string where "labelDirection = ''direction''"
definition labelResult :: string where "labelResult = ''result''"

fun collectorKindOf :: "collector \<Rightarrow> collectorKind" where
  "collectorKindOf ScheduleState = GaugeVec"
| "collectorKindOf NextTransitionSeconds = GaugeVec"
| "collectorKindOf ScalingOperationsTotal = CounterVec"
| "collectorKindOf ScalingErrorsTotal = CounterVec"
| "collectorKindOf ManagedWorkloads = GaugeVec"
| "collectorKindOf ScaledWorkloads = GaugeVec"
| "collectorKindOf ManagedCustomResources = GaugeVec"
| "collectorKindOf ScalingBatchesTotal = CounterVec"
| "collectorKindOf ScalingWorkloadsProcessed = CounterVec"
| "collectorKindOf ScalingDurationSeconds = HistogramVec"
| "collectorKindOf StuckTerminatingPods = GaugeVec"
| "collectorKindOf LastReconcileTime = GaugeVec"

fun collectorName :: "collector \<Rightarrow> string" where
  "collectorName ScheduleState = ''lightsout_schedule_state''"
| "collectorName NextTransitionSeconds = ''lightsout_next_transition_seconds''"
| "collectorName ScalingOperationsTotal = ''lightsout_scaling_operations_total''"
| "collectorName ScalingErrorsTotal = ''lightsout_scaling_errors_total''"
| "collectorName ManagedWorkloads = ''lightsout_managed_workloads''"
| "collectorName ScaledWorkloads = ''lightsout_scaled_workloads''"
| "collectorName ManagedCustomResources = ''lightsout_managed_custom_resources''"
| "collectorName ScalingBatchesTotal = ''lightsout_scaling_batches_total''"
| "collectorName ScalingWorkloadsProcessed = ''lightsout_scaling_workloads_processed_total''"
| "collectorName ScalingDurationSeconds = ''lightsout_scaling_duration_seconds''"
| "collectorName StuckTerminatingPods = ''lightsout_stuck_terminating_pods''"
| "collectorName LastReconcileTime = ''lightsout_last_reconcile_timestamp_seconds''"

fun labelNames :: "collector \<Rightarrow> string list" where
  "labelNames ScheduleState = [labelSchedule]"
| "labelNames NextTransitionSeconds = [labelSchedule, labelTransitionType]"
| "labelNames ScalingOperationsTotal = [labelSchedule, labelNamespace, labelWorkloadType, labelOperation]"
| "labelNames ScalingErrorsTotal = [labelSchedule, labelNamespace, labelWorkloadType]"
| "labelNames ManagedWorkloads = [labelSchedule, labelWorkloadType]"
| "labelNames ScaledWorkloads = [labelSchedule, labelWorkloadType]"
| "labelNames ManagedCustomResources = [labelSchedule, labelKind]"
| "labelNames ScalingBatchesTotal = [labelSchedule, labelDirection]"
| "labelNames ScalingWorkloadsProcessed = [labelSchedule, labelDirection, labelResult]"
| "labelNames ScalingDurationSeconds = [labelSchedule, labelDirection]"
| "labelNames StuckTerminatingPods = [labelSchedule, labelNamespace]"
| "labelNames LastReconcileTime = [labelSchedule]"

text \<open>The collectors in the order in which \<^verbatim>\<open>init\<close> registers them.\<close>

definition registered :: "collector list" where
  "registered =
     [ScheduleState, NextTransitionSeconds, ScalingOperationsTotal, ScalingErrorsTotal, ManagedWorkloads, ScaledWorkloads,
      ManagedCustomResources, ScalingBatchesTotal, ScalingWorkloadsProcessed, ScalingDurationSeconds,
      StuckTerminatingPods, LastReconcileTime]"

lemma registered_UNIV: "set registered = UNIV"
proof -
  have "c \<in> set registered" for c by (cases c) (simp_all add: registered_def)
  then show ?thesis by blast
qed

instantiation collector :: enum
begin

definition "enum_collector = registered"
definition "enum_all_collector P \<longleftrightarrow> (\<forall>c \<in> set registered. P c)"
definition "enum_ex_collector P \<longleftrightarrow> (\<exists>c \<in> set registered. P c)"

instance
proof
  show "(UNIV :: collector set) = set enum_class.enum" by (simp add: enum_collector_def registered_UNIV)
  show "distinct (enum_class.enum :: collector list)" by (simp add: enum_collector_def registered_def)
  show "enum_class.enum_all P \<longleftrightarrow> Ball UNIV P" for P :: "collector \<Rightarrow> bool"
    by (simp add: enum_all_collector_def registered_UNIV)
  show "enum_class.enum_ex P \<longleftrightarrow> Bex UNIV P" for P :: "collector \<Rightarrow> bool"
    by (simp add: enum_ex_collector_def registered_UNIV)
qed

end

text \<open>The names are distinct, so that registering all of them does not panic, and so are the labels of each.\<close>

lemma collectorName_inj: "collectorName c = collectorName c' \<Longrightarrow> c = c'"
  by (cases c; cases c') simp_all

lemma labelNames_ok: "distinct (labelNames c) \<and> hd (labelNames c) = labelSchedule \<and> labelNames c \<noteq> []"
  by (cases c) (simp_all add: labelSchedule_def labelTransitionType_def labelNamespace_def labelWorkloadType_def
      labelKind_def labelOperation_def labelDirection_def labelResult_def)

end
