(* ===== verification/Api_Types.thy ===== *)
theory Api_Types
  imports Patch Metrics
begin

text \<open>
  The custom resources of the operator, \<^verbatim>\<open>api/v1alpha1\<close>, and what the controllers leave to be
  observed besides the objects they write: metrics and Kubernetes events, as a log in the
  order of the calls. A label selector is data of the Kubernetes library; evaluating it is
  the library's business and a parameter wherever it is needed.
\<close>

section \<open>Label selectors\<close>

record LabelSelectorRequirement =
  req_Key :: string
  req_Operator :: string
  req_Values :: "string list"

record LabelSelector =
  MatchLabels :: "(string \<times> string) list"
  MatchExpressions :: "LabelSelectorRequirement list"

section \<open>The types of the API\<close>

definition WorkloadTypeDeployment :: string where "WorkloadTypeDeployment = ''Deployment''"
definition WorkloadTypeStatefulSet :: string where "WorkloadTypeStatefulSet = ''StatefulSet''"
definition WorkloadTypeCronJob :: string where "WorkloadTypeCronJob = ''CronJob''"

definition ScheduleStateUp :: string where "ScheduleStateUp = ''Up''"
definition ScheduleStateDown :: string where "ScheduleStateDown = ''Down''"
definition ScheduleStateUnknown :: string where "ScheduleStateUnknown = ''Unknown''"

record RateLimitConfig =
  BatchSize :: "int option"
  DelayBetweenBatches :: "duration option"

record ScalingProgress =
  sp_Total :: int
  sp_Completed :: int
  sp_Failed :: int
  sp_InProgress :: bool

record WaveProgress =
  Wave :: int
  Since :: time

record WorkloadStats =
  DeploymentsManaged :: int
  DeploymentsScaled :: int
  StatefulSetsManaged :: int
  StatefulSetsScaled :: int
  CronJobsManaged :: int
  CronJobsSuspended :: int

record ArgoCDConfig =
  argo_Namespace :: string
  argo_WarmupTimeout :: "duration option"
  SyncWaves :: bool

record FluxCDConfig =
  flux_Namespace :: string
  flux_WarmupTimeout :: "duration option"

text \<open>The value of a field patch or match is the JSON text of the manifest.\<close>

record FieldPatch =
  fp_Path :: string
  fp_Value :: string

record FieldMatch =
  fm_Path :: string
  fm_Value :: string

record CustomResourceConfig =
  cr_Group :: string
  cr_Version :: string
  cr_Kind :: string
  cr_Name :: string
  cr_MatchLabels :: "(string \<times> string) list"
  cr_SetFields :: "FieldPatch list"
  cr_ReadyWhen :: "FieldMatch list"
  cr_Delete :: bool

record LightsOutScheduleCore =
  Upscale :: string
  Downscale :: string
  Timezone :: string
  Suspend :: bool
  WorkloadTypes :: "string list"
  ExcludeLabels :: "LabelSelector option"
  IncludeOwnedWorkloads :: bool
  UpscaleRateLimit :: "RateLimitConfig option"
  DownscaleRateLimit :: "RateLimitConfig option"
  ArgoCD :: "ArgoCDConfig option"
  FluxCD :: "FluxCDConfig option"
  CustomResources :: "CustomResourceConfig list"
  CustomResourceWarmupTimeout :: "duration option"

record LightsOutScheduleSpec =
  Core :: LightsOutScheduleCore
  NamespaceSelector :: "LabelSelector option"
  Namespaces :: "string list"
  ExcludeNamespaces :: "string list"

record Condition =
  cond_Type :: string
  cond_Status :: string
  cond_Reason :: string
  cond_Message :: string
  cond_ObservedGeneration :: int

record LightsOutScheduleStatus =
  st_State :: string
  st_LastUpscaleTime :: "time option"
  st_LastDownscaleTime :: "time option"
  st_NextUpscaleTime :: "time option"
  st_NextDownscaleTime :: "time option"
  st_ObservedGeneration :: int
  st_Namespaces :: "string list"
  st_WorkloadStats :: WorkloadStats
  st_ScalingProgress :: "ScalingProgress option"
  st_WaveProgress :: "WaveProgress option"
  st_StuckTerminatingPods :: int
  st_Conditions :: "Condition list"

section \<open>What can be observed\<close>

text \<open>
  The calls on a collector with the label values and the amount. A gauge whose value is read off
  the wall clock is \<open>GaugeClock\<close>, without the value.
\<close>

datatype observation =
    CounterInc collector "string list"
  | CounterAdd collector "string list" int
  | GaugeSet collector "string list" int
  | GaugeClock collector "string list"
  | HistogramObserve collector "string list"
  | SeriesDropped collector string
  | EventRecorded string string string string string

text \<open>
  An event names the object it is about, its type, reason, action and message. A name is
  printed in quotes; the names of schedules have no character that would be escaped.
\<close>

definition goQuote :: "string \<Rightarrow> string" where
  "goQuote s = [CHR 0x22] @ s @ [CHR 0x22]"

definition rightArrow :: string where
  "rightArrow = map char_of [32, 226, 134, 146, 32 :: nat]"

definition emptyCore :: LightsOutScheduleCore where
  "emptyCore = \<lparr>Upscale = [], Downscale = [], Timezone = [], Suspend = False, WorkloadTypes = [],
     ExcludeLabels = None, IncludeOwnedWorkloads = False, UpscaleRateLimit = None,
     DownscaleRateLimit = None, ArgoCD = None, FluxCD = None, CustomResources = [],
     CustomResourceWarmupTimeout = None\<rparr>"

end
