(* ===== verification/Termination.thy ===== *)
theory Termination
  imports Api_Types
begin

text \<open>
  \<^verbatim>\<open>internal/controller/termination.go\<close>: counting the pods that are still there after a
  downscale, reporting those that outlive their grace period, and polling while there are
  any. The per-namespace counts are a map, kept sorted by namespace; the order in which Go
  walks a map to set gauges is not determined, and the gauges are different series.
\<close>

text \<open>A condition of a pod is its type and its status.\<close>

record pod =
  pod_name :: string
  pod_phase :: string
  pod_deletionTimestamp :: "time option"
  pod_deletionGracePeriodSeconds :: "int option"
  pod_ownerReferences :: "OwnerReference list"
  pod_conditions :: "(string \<times> string) list"

record terminationReport =
  Terminating :: int
  Stuck :: int
  StuckByNamespace :: "(string \<times> int) list"
  StuckNames :: "string list"

definition maxReportedStuckPods :: nat where
  "maxReportedStuckPods = 5"

text \<open>The grace period is a product of \<^verbatim>\<open>int64\<close> values, which wraps around.\<close>

definition wrap64 :: "int \<Rightarrow> int" where
  "wrap64 i = (i + 2 ^ 63) mod 2 ^ 64 - 2 ^ 63"

definition isTerminationOverdue :: "pod \<Rightarrow> time \<Rightarrow> time \<Rightarrow> bool" where
  "isTerminationOverdue p deletionTimestamp now \<longleftrightarrow>
     (let grace = (case pod_deletionGracePeriodSeconds p of None \<Rightarrow> 0 | Some secs \<Rightarrow> wrap64 (secs * second));
          deadline = deletionTimestamp + grace + TerminationGraceSlack
      in now > deadline)"

definition countPod :: "string \<Rightarrow> time \<Rightarrow> pod \<Rightarrow> terminationReport \<Rightarrow> terminationReport" where
  "countPod ns now p report =
     (case pod_deletionTimestamp p of
        None \<Rightarrow> report
      | Some deleted \<Rightarrow>
          if pod_phase p = ''Succeeded'' \<or> pod_phase p = ''Failed'' then report
          else
            (let report = report\<lparr>Terminating := Terminating report + 1\<rparr> in
             if \<not> isTerminationOverdue p deleted now then report
             else report\<lparr>Stuck := Stuck report + 1,
                         StuckByNamespace :=
                           objSet ns ((case map_of (StuckByNamespace report) ns of None \<Rightarrow> 0 | Some n \<Rightarrow> n) + 1)
                             (StuckByNamespace report),
                         StuckNames := StuckNames report @ [ns @ ''/'' @ pod_name p]\<rparr>))"

fun countNamespaces ::
  "(string \<Rightarrow> 's \<Rightarrow> string + pod list) \<Rightarrow> string list \<Rightarrow> time \<Rightarrow> 's \<Rightarrow> terminationReport \<Rightarrow>
     terminationReport \<times> string option" where
  "countNamespaces listPods [] now s report = (report, None)"
| "countNamespaces listPods (ns # rest) now s report =
     (let report = report\<lparr>StuckByNamespace := objSet ns 0 (StuckByNamespace report)\<rparr> in
      case listPods ns s of
        Inl e \<Rightarrow> (report, Some e)
      | Inr pods \<Rightarrow> countNamespaces listPods rest now s (fold (countPod ns now) pods report))"

definition countTerminatingPods ::
  "(string \<Rightarrow> 's \<Rightarrow> string + pod list) \<Rightarrow> string list \<Rightarrow> time \<Rightarrow> 's \<Rightarrow>
     terminationReport \<times> string option" where
  "countTerminatingPods listPods namespaces now s =
     (case countNamespaces listPods namespaces now s
             \<lparr>Terminating = 0, Stuck = 0, StuckByNamespace = [], StuckNames = []\<rparr> of
        (report, Some e) \<Rightarrow> (report, Some e)
      | (report, None) \<Rightarrow> (report\<lparr>StuckNames := sort (StuckNames report)\<rparr>, None))"

definition reportStuckTerminatingPods ::
  "bool \<Rightarrow> string option \<Rightarrow> string \<Rightarrow> terminationReport \<Rightarrow> observation list" where
  "reportStuckTerminatingPods recorder scheduleObj scheduleLabel report =
     map (\<lambda>(ns, count). GaugeSet StuckTerminatingPods [scheduleLabel, ns] count) (StuckByNamespace report) @
     (if Stuck report = 0 then []
      else
        (let many = length (StuckNames report) > maxReportedStuckPods;
             suffix = (if many then '', ...'' else []);
             names = (if many then take maxReportedStuckPods (StuckNames report) else StuckNames report)
         in case (recorder, scheduleObj) of
              (True, Some obj) \<Rightarrow>
                [EventRecorded obj ''Warning'' EventReasonPodsStuckTerminating EventActionScaleDown
                   (itoa (Stuck report) @
                    '' pod(s) are still running well past their termination grace period and keep their nodes alive: '' @
                    joinWith '', '' names @ suffix)]
            | _ \<Rightarrow> []))"

definition clearStuckTerminatingPods :: "string \<Rightarrow> string list \<Rightarrow> observation list" where
  "clearStuckTerminatingPods scheduleLabel namespaces =
     map (\<lambda>ns. GaugeSet StuckTerminatingPods [scheduleLabel, ns] 0) namespaces"

definition applyTerminationRequeue :: "duration \<Rightarrow> terminationReport \<Rightarrow> bool \<Rightarrow> duration" where
  "applyTerminationRequeue requeueAfter report justScaledDown =
     (if Terminating report = 0 \<and> \<not> justScaledDown then requeueAfter
      else min requeueAfter TerminationCheckInterval)"

section \<open>What is counted\<close>

text \<open>A pod that is being deleted and still runs; one of those past its deadline.\<close>

definition isTerminating :: "pod \<Rightarrow> bool" where
  "isTerminating p \<longleftrightarrow> pod_deletionTimestamp p \<noteq> None \<and> pod_phase p \<notin> {''Succeeded'', ''Failed''}"

definition isStuck :: "time \<Rightarrow> pod \<Rightarrow> bool" where
  "isStuck now p \<longleftrightarrow> isTerminating p \<and> isTerminationOverdue p (the (pod_deletionTimestamp p)) now"

lemma countPod_eq:
  "countPod ns now p report =
     (if isStuck now p then
        report\<lparr>Terminating := Terminating report + 1, Stuck := Stuck report + 1,
               StuckByNamespace := objSet ns ((case map_of (StuckByNamespace report) ns of None \<Rightarrow> 0 | Some n \<Rightarrow> n) + 1)
                                     (StuckByNamespace report),
               StuckNames := StuckNames report @ [ns @ ''/'' @ pod_name p]\<rparr>
      else if isTerminating p then report\<lparr>Terminating := Terminating report + 1\<rparr>
      else report)"
  by (auto simp: countPod_def isStuck_def isTerminating_def Let_def split: option.splits)

lemma countPods:
  "map_of (StuckByNamespace report) ns = Some k \<Longrightarrow> wfObj (StuckByNamespace report) \<Longrightarrow>
   fold (countPod ns now) pods report =
     report\<lparr>Terminating := Terminating report + int (length (filter isTerminating pods)),
            Stuck := Stuck report + int (length (filter (isStuck now) pods)),
            StuckByNamespace := objSet ns (k + int (length (filter (isStuck now) pods))) (StuckByNamespace report),
            StuckNames := StuckNames report @ map (\<lambda>p. ns @ ''/'' @ pod_name p) (filter (isStuck now) pods)\<rparr>"
proof (induction pods arbitrary: report k)
  case Nil
  then show ?case by (simp add: objSet_same)
next
  case (Cons p pods)
  have "isStuck now p \<Longrightarrow> isTerminating p" by (simp add: isStuck_def)
  then show ?case
    using Cons by (simp add: countPod_eq objSet_overwrite add.assoc)
qed

lemma countNamespaces_ok:
  assumes "distinct nss" and "\<forall>ns \<in> set nss. listPods ns s = Inr (pods ns)" and "wfObj (StuckByNamespace report)"
  shows "countNamespaces listPods nss now s report =
    (report\<lparr>Terminating := Terminating report + (\<Sum>ns\<leftarrow>nss. int (length (filter isTerminating (pods ns)))),
            Stuck := Stuck report + (\<Sum>ns\<leftarrow>nss. int (length (filter (isStuck now) (pods ns)))),
            StuckByNamespace := fold (\<lambda>ns m. objSet ns (int (length (filter (isStuck now) (pods ns)))) m) nss
                                  (StuckByNamespace report),
            StuckNames := StuckNames report @
              concat (map (\<lambda>ns. map (\<lambda>p. ns @ ''/'' @ pod_name p) (filter (isStuck now) (pods ns))) nss)\<rparr>, None)"
  using assms
proof (induction nss arbitrary: report)
  case (Cons ns nss)
  let ?r = "report\<lparr>StuckByNamespace := objSet ns 0 (StuckByNamespace report)\<rparr>"
  have "map_of (StuckByNamespace ?r) ns = Some 0" "wfObj (StuckByNamespace ?r)" using Cons.prems by simp_all
  note c = countPods [OF this, where now = now]
  show ?case
    using Cons by (simp add: c Let_def objSet_overwrite algebra_simps)
qed simp

lemma map_of_fold_counts:
  "map_of (fold (\<lambda>ns m. objSet ns (f ns) m) nss m) ns = (if ns \<in> set nss then Some (f ns) else map_of m ns)"
  by (induction nss arbitrary: m) auto

section \<open>Properties\<close>

text \<open>
  When every list succeeds, the report counts exactly the running pods with a deletion
  timestamp and, among them, those past the deadline; the counts per namespace include the
  zeros; the names are those of the stuck pods, sorted.
\<close>

theorem termination_report_exact:
  assumes "distinct nss" and "\<forall>ns \<in> set nss. listPods ns s = Inr (pods ns)"
  shows "\<exists>report. countTerminatingPods listPods nss now s = (report, None) \<and>
    Terminating report = (\<Sum>ns\<leftarrow>nss. int (length (filter isTerminating (pods ns)))) \<and>
    Stuck report = int (length (StuckNames report)) \<and> Stuck report \<le> Terminating report \<and>
    map_of (StuckByNamespace report) =
      (\<lambda>ns. if ns \<in> set nss then Some (int (length (filter (isStuck now) (pods ns)))) else None) \<and>
    sorted (StuckNames report) \<and>
    mset (StuckNames report) =
      mset (concat (map (\<lambda>ns. map (\<lambda>p. ns @ ''/'' @ pod_name p) (filter (isStuck now) (pods ns))) nss))"
proof -
  have "length (filter (isStuck now) ps) \<le> length (filter isTerminating ps)" for ps
    by (induction ps) (auto simp: isStuck_def)
  then have le: "(\<Sum>ns\<leftarrow>nss. int (length (filter (isStuck now) (pods ns)))) \<le>
      (\<Sum>ns\<leftarrow>nss. int (length (filter isTerminating (pods ns))))"
    by (intro sum_list_mono) simp
  have len: "int (length (concat (map (\<lambda>ns. map (\<lambda>p. ns @ ''/'' @ pod_name p) (filter (isStuck now) (pods ns))) nss))) =
      (\<Sum>ns\<leftarrow>nss. int (length (filter (isStuck now) (pods ns))))"
    by (induction nss) auto
  let ?r0 = "\<lparr>Terminating = 0, Stuck = 0, StuckByNamespace = [], StuckNames = []\<rparr>"
  obtain report where run: "countNamespaces listPods nss now s ?r0 = (report, None)"
    and report: "Terminating report = (\<Sum>ns\<leftarrow>nss. int (length (filter isTerminating (pods ns))))"
      "Stuck report = (\<Sum>ns\<leftarrow>nss. int (length (filter (isStuck now) (pods ns))))"
      "StuckByNamespace report = fold (\<lambda>ns m. objSet ns (int (length (filter (isStuck now) (pods ns)))) m) nss []"
      "StuckNames report = concat (map (\<lambda>ns. map (\<lambda>p. ns @ ''/'' @ pod_name p) (filter (isStuck now) (pods ns))) nss)"
  proof -
    have "wfObj (StuckByNamespace ?r0)" by simp
    from countNamespaces_ok [where listPods = listPods and pods = pods and s = s, OF assms this]
    show ?thesis by (rule that) simp_all
  qed
  have "countTerminatingPods listPods nss now s = (report\<lparr>StuckNames := sort (StuckNames report)\<rparr>, None)"
    by (simp add: countTerminatingPods_def run)
  then show ?thesis
    using le len by (simp add: report map_of_fold_counts fun_eq_iff)
qed

definition samplePod :: "string \<Rightarrow> time option \<Rightarrow> pod" where
  "samplePod n d = \<lparr>pod_name = n, pod_phase = ''Running'', pod_deletionTimestamp = d,
     pod_deletionGracePeriodSeconds = Some 30, pod_ownerReferences = [], pod_conditions = []\<rparr>"

theorem termination_report_exact_witness:
  "\<exists>report. countTerminatingPods (\<lambda>ns s. Inr [samplePod ''b'' (Some 0), samplePod ''a'' (Some (3 * minute)), samplePod ''c'' None])
      [''shop''] (4 * minute) () = (report, None) \<and> Terminating report = 2 \<and> StuckNames report = [''shop/b'']"
proof -
  have b: "isStuck (4 * minute) (samplePod ''b'' (Some 0))" "\<not> isStuck (4 * minute) (samplePod ''a'' (Some (3 * minute)))"
    "\<not> isStuck (4 * minute) (samplePod ''c'' None)"
    by (simp_all add: isStuck_def isTerminating_def samplePod_def isTerminationOverdue_def wrap64_def
        TerminationGraceSlack_def minute_def second_def)
  have t: "isTerminating (samplePod ''b'' (Some 0))" "isTerminating (samplePod ''a'' (Some (3 * minute)))"
    "\<not> isTerminating (samplePod ''c'' None)"
    by (simp_all add: isTerminating_def samplePod_def)
  show ?thesis
    using termination_report_exact [of "[''shop'']" "\<lambda>ns s. Inr [samplePod ''b'' (Some 0), samplePod ''a'' (Some (3 * minute)), samplePod ''c'' None]"
      "()" "\<lambda>ns. [samplePod ''b'' (Some 0), samplePod ''a'' (Some (3 * minute)), samplePod ''c'' None]" "4 * minute"]
    by (auto simp: b t) (auto simp: samplePod_def)
qed

text \<open>
  While pods are terminating, or right after a downscale, the next reconcile is at most
  five minutes away; the requeue is never made longer, and a settled schedule keeps its own.
\<close>

theorem termination_requeue_bounds:
  "applyTerminationRequeue d report just \<le> d \<and>
   (Terminating report \<noteq> 0 \<or> just \<longrightarrow> applyTerminationRequeue d report just \<le> 5 * minute) \<and>
   (Terminating report = 0 \<and> \<not> just \<longrightarrow> applyTerminationRequeue d report just = d) \<and>
   (0 < d \<longrightarrow> 0 < applyTerminationRequeue d report just)"
  by (auto simp: applyTerminationRequeue_def TerminationCheckInterval_def minute_def second_def)

theorem termination_requeue_bounds_witness:
  "applyTerminationRequeue (2 * hour) \<lparr>Terminating = 1, Stuck = 0, StuckByNamespace = [], StuckNames = []\<rparr> False \<le> 5 * minute"
  using termination_requeue_bounds [of "2 * hour" "\<lparr>Terminating = 1, Stuck = 0, StuckByNamespace = [], StuckNames = []\<rparr>" False]
  by simp

end
