(* ===== verification/Hpa.thy ===== *)
theory Hpa
  imports Patch
begin

text \<open>
  \<^verbatim>\<open>internal/controller/hpa.go\<close>: while a workload is scaled down its autoscaler is kept from
  scaling it up again. HPAs are unstructured objects. The list of a namespace's HPAs is
  fetched once per pass and may be absent; a successful patch overwrites the item of the
  list it was made for. The API server's answer to a patch is the parameter \<open>send\<close>.
\<close>

type_synonym 's json_patcher = "json \<Rightarrow> json \<Rightarrow> 's \<Rightarrow> (string + json) \<times> 's"

definition hpaScaleUpDisabled :: string where
  "hpaScaleUpDisabled = ''Disabled''"

text \<open>
  The error of a \<^verbatim>\<open>List\<close> call that the code tells apart is the one for an API the cluster
  does not have. The type stamped on the items is left out: it addresses the request.
\<close>

datatype list_error = NoMatch | ListFailed string

definition listHPAs :: "(string \<Rightarrow> 's \<Rightarrow> list_error + json list) \<Rightarrow> string \<Rightarrow> 's \<Rightarrow> string + json list option" where
  "listHPAs lister namespace s =
     (case lister namespace s of
        Inl NoMatch \<Rightarrow> Inr None
      | Inl (ListFailed e) \<Rightarrow> Inl e
      | Inr items \<Rightarrow> Inr (Some items))"

definition hpaTargets :: "json \<Rightarrow> string \<Rightarrow> string \<Rightarrow> bool" where
  "hpaTargets hpa kind name \<longleftrightarrow>
     nestedString hpa [''spec'', ''scaleTargetRef'', ''kind''] = kind \<and>
     nestedString hpa [''spec'', ''scaleTargetRef'', ''name''] = name"

text \<open>The position of the first HPA that scales the workload.\<close>

fun findFrom :: "nat \<Rightarrow> json list \<Rightarrow> string \<Rightarrow> string \<Rightarrow> nat option" where
  "findFrom i [] kind name = None"
| "findFrom i (hpa # rest) kind name =
     (if hpaTargets hpa kind name then Some i else findFrom (Suc i) rest kind name)"

definition findHPA :: "json list option \<Rightarrow> string \<Rightarrow> string \<Rightarrow> nat option" where
  "findHPA lst kind name = (case lst of None \<Rightarrow> None | Some items \<Rightarrow> findFrom 0 items kind name)"

definition scaleUpPolicySpec :: "json \<Rightarrow> (string \<times> json) list" where
  "scaleUpPolicySpec policy =
     [(''behavior'', JObj [(''scaleUp'', JObj [(''selectPolicy'', policy)])])]"

definition policyPath :: "string list" where
  "policyPath = [''spec'', ''behavior'', ''scaleUp'', ''selectPolicy'']"

text \<open>The patch one HPA gets, if any; then the call on the list.\<close>

definition downscalePatch :: "json \<Rightarrow> string \<Rightarrow> objectPatch option" where
  "downscalePatch hpa scheduleName =
     (let managedBy = mget (GetAnnotations hpa) ManagedByAnnotation;
          currentPolicy = nestedString hpa policyPath
      in if managedBy \<noteq> [] \<and> managedBy \<noteq> scheduleName then None
         else if managedBy = scheduleName then None
         else if currentPolicy = hpaScaleUpDisabled then None
         else Some (emptyPatch\<lparr>
                SetAnnotations := [(OriginalHPAScaleUpPolicyAnnotation, currentPolicy),
                                   (ManagedByAnnotation, scheduleName)],
                Spec := scaleUpPolicySpec (JStr hpaScaleUpDisabled)\<rparr>))"

definition restorePatch :: "json \<Rightarrow> string \<Rightarrow> objectPatch option" where
  "restorePatch hpa scheduleName =
     (let annotations = GetAnnotations hpa;
          managedBy = mget annotations ManagedByAnnotation
      in if managedBy = [] then None
         else if managedBy \<noteq> scheduleName then None
         else (case annotations OriginalHPAScaleUpPolicyAnnotation of
                 None \<Rightarrow> None
               | Some origPolicy \<Rightarrow>
                   Some (emptyPatch\<lparr>
                     RemoveAnnotations := [OriginalHPAScaleUpPolicyAnnotation, ManagedByAnnotation],
                     Spec := scaleUpPolicySpec (if origPolicy \<noteq> [] then JStr origPolicy else JNull)\<rparr>)))"

definition patchListed ::
  "'s json_patcher \<Rightarrow> (json \<Rightarrow> objectPatch option) \<Rightarrow> json list option \<Rightarrow> string \<Rightarrow> string \<Rightarrow> 's \<Rightarrow>
     string option \<times> json list option \<times> 's" where
  "patchListed send patchOf hpas kind name s =
     (case (findHPA hpas kind name, hpas) of
        (Some i, Some items) \<Rightarrow>
          (case patchOf (items ! i) of
             None \<Rightarrow> (None, hpas, s)
           | Some p \<Rightarrow>
               (case applyMergePatch send (items ! i) p s of
                  (err, hpa', s') \<Rightarrow> (err, Some (items[i := hpa']), s')))
      | _ \<Rightarrow> (None, hpas, s))"

definition PatchHPAForDownscale ::
  "'s json_patcher \<Rightarrow> json list option \<Rightarrow> string \<Rightarrow> string \<Rightarrow> string \<Rightarrow> 's \<Rightarrow>
     string option \<times> json list option \<times> 's" where
  "PatchHPAForDownscale send hpas kind name scheduleName s =
     patchListed send (\<lambda>hpa. downscalePatch hpa scheduleName) hpas kind name s"

definition RestoreHPA ::
  "'s json_patcher \<Rightarrow> json list option \<Rightarrow> string \<Rightarrow> string \<Rightarrow> string \<Rightarrow> 's \<Rightarrow>
     string option \<times> json list option \<times> 's" where
  "RestoreHPA send hpas kind name scheduleName s =
     patchListed send (\<lambda>hpa. restorePatch hpa scheduleName) hpas kind name s"

section \<open>Which HPA is found\<close>

lemma findFrom_shift: "findFrom i items kind name = map_option (\<lambda>j. i + j) (findFrom 0 items kind name)"
proof (induction items arbitrary: i)
  case (Cons h t)
  have "findFrom (Suc i) t kind name = map_option (\<lambda>j. Suc i + j) (findFrom 0 t kind name)"
    by (rule Cons.IH)
  moreover have "findFrom (Suc 0) t kind name = map_option (\<lambda>j. Suc 0 + j) (findFrom 0 t kind name)"
    by (rule Cons.IH)
  ultimately show ?case by (simp add: option.map_comp o_def)
qed simp

lemma findHPA_Some:
  "findHPA (Some items) kind name = Some i \<longleftrightarrow>
     i < length items \<and> hpaTargets (items ! i) kind name \<and> (\<forall>j < i. \<not> hpaTargets (items ! j) kind name)"
proof (induction items arbitrary: i)
  case (Cons h t)
  have "findFrom (Suc 0) t kind name = Some i \<longleftrightarrow> (\<exists>j. i = Suc j \<and> findFrom 0 t kind name = Some j)"
    using findFrom_shift [of "Suc 0" t kind name] by auto
  with Cons.IH show ?case
    by (cases i) (auto simp: findHPA_def less_Suc_eq_0_disj)
qed (simp add: findHPA_def)

lemma findHPA_None:
  "findHPA (Some items) kind name = None \<longleftrightarrow> (\<forall>h \<in> set items. \<not> hpaTargets h kind name)"
proof (induction items)
  case (Cons h t)
  have "findFrom (Suc 0) t kind name = None \<longleftrightarrow> findFrom 0 t kind name = None"
    using findFrom_shift [of "Suc 0" t kind name] by auto
  with Cons.IH show ?case by (auto simp: findHPA_def)
qed (simp add: findHPA_def)

section \<open>One HPA, down and up\<close>

lemma downscalePatch_iff:
  "downscalePatch hpa sched = Some p \<longleftrightarrow>
     mget (GetAnnotations hpa) ManagedByAnnotation = [] \<and>
     sched \<noteq> [] \<and> nestedString hpa policyPath \<noteq> hpaScaleUpDisabled \<and>
     p = emptyPatch\<lparr>
           SetAnnotations := [(OriginalHPAScaleUpPolicyAnnotation, nestedString hpa policyPath),
                              (ManagedByAnnotation, sched)],
           Spec := scaleUpPolicySpec (JStr hpaScaleUpDisabled)\<rparr>"
  by (auto simp: downscalePatch_def Let_def)

lemma nestedField_merge1:
  "nestedField (mergePatch e (JObj [(k, w)])) (k' # ks) =
     (if k' \<noteq> k then nestedField e (k' # ks)
      else if w = JNull then None
      else nestedField (mergePatch (orNull (map_of (members e) k)) w) ks)"
  by (subst nestedField_merge) (auto simp: orNull_def nestedField_Cons simp del: nestedField.simps)

lemma members_nestedField: "map_of (members (orNull (nestedField d ks))) k = nestedField d (ks @ [k])"
proof (induction ks arbitrary: d)
  case Nil
  show ?case by (cases d) (simp_all add: members_def orNull_def split: option.split)
next
  case (Cons k' ks)
  then show ?case
    by (simp add: nestedField_Cons del: nestedField.simps split: option.split)
       (simp add: members_def)
qed

lemma nestedField_append:
  "nestedField (orNull (nestedField d ks)) (k # ks') = nestedField d (ks @ k # ks')"
proof (induction ks arbitrary: d)
  case (Cons k' ks)
  then show ?case
    by (simp add: nestedField_Cons del: nestedField.simps split: option.split)
       (simp add: members_def)
qed (simp add: orNull_def nestedField.simps(1) del: nestedField.simps(2))

lemma policy_after_merge:
  assumes "Spec p = scaleUpPolicySpec v"
  shows "nestedField (mergePatch d (build p)) policyPath =
    (if v = JNull then None else Some (mergePatch (orNull (nestedField d policyPath)) v))"
  using members_nestedField [of d "[''spec'']" "''behavior''"]
    members_nestedField [of d "[''spec'', ''behavior'']" "''scaleUp''"]
    members_nestedField [of d "[''spec'', ''behavior'', ''scaleUp'']" "''selectPolicy''"]
  by (simp add: policyPath_def nestedField_top_merge assms scaleUpPolicySpec_def nestedField_merge1
      nestedField.simps(1) del: nestedField.simps(2) mergePatch.simps)

lemma target_after_merge:
  assumes "Spec p = scaleUpPolicySpec v"
  shows "hpaTargets (mergePatch d (build p)) kind name = hpaTargets d kind name"
  using nestedField_append [of d "[''spec'']" "''scaleTargetRef''" "[''kind'']"]
    nestedField_append [of d "[''spec'']" "''scaleTargetRef''" "[''name'']"]
  by (simp add: hpaTargets_def nestedString_def nestedField_top_merge assms scaleUpPolicySpec_def
      nestedField_merge1 del: nestedField.simps mergePatch.simps)

text \<open>What the program reads of an HPA; the server may change anything else of it in its answer.\<close>

definition sameHPA :: "json \<Rightarrow> json \<Rightarrow> bool" where
  "sameHPA a b \<longleftrightarrow> stringMeta a \<and> GetAnnotations a = GetAnnotations b \<and>
     nestedField a policyPath = nestedField b policyPath \<and>
     (\<forall>kind name. hpaTargets a kind name = hpaTargets b kind name)"

lemma hpa_downscaled:
  assumes "patchMerges send (\<lambda>patch d. mergePatch d patch) sameHPA" and "stringMeta h"
    and "downscalePatch h sched = Some p" and "send h (build p) s = (Inr h', s')"
  shows "stringMeta h'"
    "GetAnnotations h' = (GetAnnotations h)
       (OriginalHPAScaleUpPolicyAnnotation \<mapsto> nestedString h policyPath, ManagedByAnnotation \<mapsto> sched)"
    "nestedField h' policyPath = Some (JStr hpaScaleUpDisabled)"
    "hpaTargets h' kind name = hpaTargets h kind name"
proof -
  from assms(3) have p: "p = emptyPatch\<lparr>
           SetAnnotations := [(OriginalHPAScaleUpPolicyAnnotation, nestedString h policyPath),
                              (ManagedByAnnotation, sched)],
           Spec := scaleUpPolicySpec (JStr hpaScaleUpDisabled)\<rparr>" by (simp add: downscalePatch_iff)
  have spec: "Spec p = scaleUpPolicySpec (JStr hpaScaleUpDisabled)" by (simp add: p)
  from assms(1,4) have same: "sameHPA h' (mergePatch h (build p))" by (rule patchMergesD)
  then show "stringMeta h'" by (simp add: sameHPA_def)
  show "nestedField h' policyPath = Some (JStr hpaScaleUpDisabled)"
    using same policy_after_merge [OF spec, of h] by (simp add: sameHPA_def)
  show "hpaTargets h' kind name = hpaTargets h kind name"
    using same target_after_merge [OF spec, of h] by (simp add: sameHPA_def)
  show "GetAnnotations h' = (GetAnnotations h)
       (OriginalHPAScaleUpPolicyAnnotation \<mapsto> nestedString h policyPath, ManagedByAnnotation \<mapsto> sched)"
    using same GetAnnotations_build [OF assms(2), of p] by (simp add: sameHPA_def p emptyPatch_def)
qed

lemma hpa_restored:
  assumes "patchMerges send (\<lambda>patch d. mergePatch d patch) sameHPA" and "stringMeta h"
    and "restorePatch h sched = Some p" and "send h (build p) s = (Inr h', s')"
    and "GetAnnotations h OriginalHPAScaleUpPolicyAnnotation = Some pol"
  shows "stringMeta h'"
    "GetAnnotations h' = (GetAnnotations h)
       (OriginalHPAScaleUpPolicyAnnotation := None, ManagedByAnnotation := None)"
    "nestedField h' policyPath = (if pol = [] then None else Some (JStr pol))"
    "hpaTargets h' kind name = hpaTargets h kind name"
proof -
  from assms(3,5) have p: "p = emptyPatch\<lparr>
           RemoveAnnotations := [OriginalHPAScaleUpPolicyAnnotation, ManagedByAnnotation],
           Spec := scaleUpPolicySpec (if pol \<noteq> [] then JStr pol else JNull)\<rparr>"
    by (auto simp: restorePatch_def Let_def split: if_splits)
  have spec: "Spec p = scaleUpPolicySpec (if pol \<noteq> [] then JStr pol else JNull)" by (simp add: p)
  from assms(1,4) have same: "sameHPA h' (mergePatch h (build p))" by (rule patchMergesD)
  then show "stringMeta h'" by (simp add: sameHPA_def)
  show "nestedField h' policyPath = (if pol = [] then None else Some (JStr pol))"
    using same policy_after_merge [OF spec, of h] by (simp add: sameHPA_def split: if_splits)
  show "hpaTargets h' kind name = hpaTargets h kind name"
    using same target_after_merge [OF spec, of h] by (simp add: sameHPA_def)
  show "GetAnnotations h' = (GetAnnotations h)
       (OriginalHPAScaleUpPolicyAnnotation := None, ManagedByAnnotation := None)"
    using same GetAnnotations_build [OF assms(2), of p]
    by (simp add: sameHPA_def p emptyPatch_def fun_upd_twist)
qed

text \<open>The call on the list: no HPA, no patch, a failed patch or a patched item.\<close>

lemma patchListed_cases:
  assumes "patchListed send f (Some items) kind name s = (err, hpas', s')"
  obtains (none) "err = None" "hpas' = Some items" "s' = s"
      "\<And>i. findHPA (Some items) kind name = Some i \<Longrightarrow> f (items ! i) = None"
    | (failed) i p e where "findHPA (Some items) kind name = Some i" "f (items ! i) = Some p"
      "send (items ! i) (build p) s = (Inl e, s')" "err = Some e" "hpas' = Some items"
    | (patched) i p h' where "findHPA (Some items) kind name = Some i" "f (items ! i) = Some p"
      "send (items ! i) (build p) s = (Inr h', s')" "err = None" "hpas' = Some (items[i := h'])"
  using assms
  by (auto simp: patchListed_def applyMergePatch_def split: option.splits prod.splits sum.splits)

lemma patchListed_None [simp]: "patchListed send f None kind name s = (None, None, s)"
  by (simp add: patchListed_def findHPA_def)

lemma findHPA_update:
  "findHPA (Some items) kind name = Some i \<Longrightarrow> hpaTargets h kind name = hpaTargets (items ! i) kind name \<Longrightarrow>
     findHPA (Some (items[i := h])) kind name = Some i"
  by (auto simp: findHPA_Some)

section \<open>Properties\<close>

text \<open>
  C31: Disabling the scale-up of a workload's HPA and restoring it later, with every patch
  answered by the server with the merged object, gives back the annotations and the policy
  the HPA had; in between the policy is \<open>Disabled\<close>, and no other HPA is touched. The
  policy was absent or a non-empty string, as the API demands, and the HPA was unmanaged.
\<close>

theorem HPA_roundtrip:
  assumes "patchMerges send (\<lambda>patch d. mergePatch d patch) sameHPA"
    and "findHPA (Some items) kind name = Some i" and "stringMeta (items ! i)"
    and "GetAnnotations (items ! i) ManagedByAnnotation = None"
    and "GetAnnotations (items ! i) OriginalHPAScaleUpPolicyAnnotation = None"
    and "nestedField (items ! i) policyPath = None \<or>
         (\<exists>c cs. nestedField (items ! i) policyPath = Some (JStr (c # cs)))"
    and "sched \<noteq> []"
    and "PatchHPAForDownscale send (Some items) kind name sched s = (None, Some items1, s1)"
    and "RestoreHPA send (Some items1) kind name sched s2 = (None, Some items2, s3)"
  shows "GetAnnotations (items2 ! i) = GetAnnotations (items ! i) \<and>
    nestedField (items2 ! i) policyPath = nestedField (items ! i) policyPath \<and>
    nestedField (items1 ! i) policyPath = Some (JStr hpaScaleUpDisabled) \<and>
    (\<forall>j. j \<noteq> i \<longrightarrow> items1 ! j = items ! j \<and> items2 ! j = items ! j)"
proof -
  have i: "i < length items" using assms(2) by (simp add: findHPA_Some)
  show ?thesis
  using assms(8) [unfolded PatchHPAForDownscale_def]
  proof (cases rule: patchListed_cases)
    case none
    from none(4) [OF assms(2)] have disabled: "nestedString (items ! i) policyPath = hpaScaleUpDisabled"
      using assms(4,7) by (auto simp: downscalePatch_def Let_def mget_def split: if_splits)
    then have pol: "nestedField (items ! i) policyPath = Some (JStr hpaScaleUpDisabled)"
      using assms(6) by (auto simp: nestedString_def hpaScaleUpDisabled_def)
    have "restorePatch (items ! i) sched = None" using assms(4) by (simp add: restorePatch_def mget_def)
    then have "items2 = items1"
      using assms(9) none(2) assms(2) by (simp add: RestoreHPA_def patchListed_def)
    with none pol show ?thesis by simp
  next
    case (patched i' p h')
    then have i': "i' = i" using assms(2) by simp
    note down = hpa_downscaled [OF assms(1) _ patched(2,3), unfolded i', OF assms(3)]
    have items1: "items1 = items[i := h']" using patched(5) i' by simp
    have h': "items1 ! i = h'" using items1 i by simp
    have found: "findHPA (Some items1) kind name = Some i"
      unfolding items1 using findHPA_update [OF assms(2) down(4)] .
    let ?old = "nestedString (items ! i) policyPath"
    have orig: "GetAnnotations h' OriginalHPAScaleUpPolicyAnnotation = Some ?old"
      using down(2) by simp
    obtain q where q: "restorePatch h' sched = Some q"
      using down(2) assms(7) by (simp add: restorePatch_def Let_def)
    from assms(9) [unfolded RestoreHPA_def] obtain h2 where h2: "send h' (build q) s2 = (Inr h2, s3)"
      and items2: "items2 = items1[i := h2]"
      by (cases rule: patchListed_cases) (use found q h' in auto)
    note up = hpa_restored [OF assms(1) down(1) q h2 orig]
    have "items2 ! i = h2" using items2 items1 i by simp
    moreover have "GetAnnotations h2 = GetAnnotations (items ! i)"
      using up(2) down(2) assms(4,5) by (auto simp: fun_eq_iff)
    moreover have "nestedField h2 policyPath = nestedField (items ! i) policyPath"
      using up(3) assms(6) by (auto simp: nestedString_def)
    ultimately show ?thesis using h' down(3) items1 items2 by simp
  qed simp
qed

text \<open>A server that answers with the merged object, and refuses metadata that is not text.\<close>

definition mergingServer :: "'s json_patcher" where
  "mergingServer obj patch s =
     (if stringMeta (mergePatch obj patch) then (Inr (mergePatch obj patch), s) else (Inl ''invalid'', s))"

lemma mergingServer_merges: "patchMerges mergingServer (\<lambda>patch d. mergePatch d patch) sameHPA"
  by (auto simp: patchMerges_def mergingServer_def sameHPA_def split: if_splits)

definition sampleHPA :: json where
  "sampleHPA = JObj
     [(''metadata'', JObj [(''annotations'', JObj [(''a'', JStr ''1'')])]),
      (''spec'', JObj [(''scaleTargetRef'', JObj [(''kind'', JStr ''Deployment''), (''name'', JStr ''web'')])])]"

definition downHPA :: json where
  "downHPA = mergePatch sampleHPA (build (the (downscalePatch sampleHPA ''night'')))"

definition upHPA :: json where
  "upHPA = mergePatch downHPA (build (the (restorePatch downHPA ''night'')))"

lemma sampleHPA_runs:
  "PatchHPAForDownscale mergingServer (Some [sampleHPA]) ''Deployment'' ''web'' ''night'' () = (None, Some [downHPA], ())"
  "RestoreHPA mergingServer (Some [downHPA]) ''Deployment'' ''web'' ''night'' () = (None, Some [upHPA], ())"
proof -
  have f: "findHPA (Some [sampleHPA]) ''Deployment'' ''web'' = Some 0"
    "findHPA (Some [downHPA]) ''Deployment'' ''web'' = Some 0" by code_simp+
  have "downscalePatch sampleHPA ''night'' \<noteq> None" "restorePatch downHPA ''night'' \<noteq> None" by code_simp+
  then obtain p q where p: "downscalePatch sampleHPA ''night'' = Some p" "restorePatch downHPA ''night'' = Some q"
    by blast
  have d: "downHPA = mergePatch sampleHPA (build p)" "upHPA = mergePatch downHPA (build q)"
    using p by (simp_all add: downHPA_def [symmetric] upHPA_def) (simp add: downHPA_def)
  have ok: "stringMeta downHPA" "stringMeta upHPA" by code_simp+
  show "PatchHPAForDownscale mergingServer (Some [sampleHPA]) ''Deployment'' ''web'' ''night'' () = (None, Some [downHPA], ())"
    using f(1) p(1) ok(1)
    by (simp add: PatchHPAForDownscale_def patchListed_def applyMergePatch_def mergingServer_def d(1))
  show "RestoreHPA mergingServer (Some [downHPA]) ''Deployment'' ''web'' ''night'' () = (None, Some [upHPA], ())"
    using f(2) p(2) ok(2)
    by (simp add: RestoreHPA_def patchListed_def applyMergePatch_def mergingServer_def d(2))
qed

theorem HPA_roundtrip_witness:
  "GetAnnotations upHPA = GetAnnotations sampleHPA \<and> nestedField upHPA policyPath = None \<and>
   nestedField downHPA policyPath = Some (JStr ''Disabled'')"
proof -
  have f: "findHPA (Some [sampleHPA]) ''Deployment'' ''web'' = Some 0" by code_simp
  have pol: "nestedField sampleHPA policyPath = None" and ok: "stringMeta sampleHPA"
    and ann: "GetAnnotations sampleHPA ManagedByAnnotation = None"
      "GetAnnotations sampleHPA OriginalHPAScaleUpPolicyAnnotation = None"
    by code_simp+
  from HPA_roundtrip [OF mergingServer_merges f _ _ _ _ _ sampleHPA_runs] pol ok ann
  show ?thesis by (simp add: hpaScaleUpDisabled_def)
qed

end
