(* ===== verification/Scaler.thy ===== *)
theory Scaler
  imports Hpa
begin

text \<open>
  \<^verbatim>\<open>internal/controller/scaler.go\<close>: scaling one workload down or up on behalf of a schedule.
  An operation reads the copy of the object in hand, may send one merge patch for it and at
  most one for its HPA, and returns a result or an error with the copy as the last patch
  left it. The server is the functions \<open>sendWorkload\<close>, \<open>sendCronJob\<close> and \<open>sendHPA\<close> with
  a state of its own.
\<close>

definition skipReasonDifferentSchedule :: string where
  "skipReasonDifferentSchedule = ''managed by different schedule''"
definition skipReasonNotManaged :: string where
  "skipReasonNotManaged = ''not managed by lightsout''"
definition skipReasonUserParked :: string where
  "skipReasonUserParked = ''already at 0 replicas''"

record ScaleResult =
  Skipped :: bool
  SkipReason :: string
  PreviousValue :: string
  NewValue :: string

definition skipped :: "string \<Rightarrow> ScaleResult" where
  "skipped reason = \<lparr>Skipped = True, SkipReason = reason, PreviousValue = [], NewValue = []\<rparr>"

definition scaled :: "string \<Rightarrow> string \<Rightarrow> ScaleResult" where
  "scaled previous new = \<lparr>Skipped = False, SkipReason = [], PreviousValue = previous, NewValue = new\<rparr>"

type_synonym ('o, 's) patcher = "'o \<Rightarrow> json \<Rightarrow> 's \<Rightarrow> (string + 'o) \<times> 's"

section \<open>Deployments and StatefulSets\<close>

text \<open>A workload without a replica count has one replica.\<close>

definition derefReplicas :: "int32 option \<Rightarrow> int32" where
  "derefReplicas r = (case r of None \<Rightarrow> 1 | Some n \<Rightarrow> n)"

type_synonym 's scale_outcome =
  "(string + ScaleResult) \<times> replica_workload \<times> json list option \<times> 's"

definition scaleReplicasDown ::
  "(replica_workload, 's) patcher \<Rightarrow> 's json_patcher \<Rightarrow> replica_workload \<Rightarrow> string \<Rightarrow>
     int32 option \<Rightarrow> string \<Rightarrow> string \<Rightarrow> string \<Rightarrow> json list option \<Rightarrow> 's \<Rightarrow> 's scale_outcome" where
  "scaleReplicasDown send sendHPA obj kind replicas scheduleName managedBy originalReplicas hpas s =
     (if managedBy \<noteq> [] \<and> managedBy \<noteq> scheduleName then
        (Inr (skipped skipReasonDifferentSchedule), obj, hpas, s)
      else if originalReplicas \<noteq> [] then
        (Inr (skipped ''already scaled down''), obj, hpas, s)
      else
        (let currentReplicas = derefReplicas replicas in
         if currentReplicas = 0 then (Inr (skipped skipReasonUserParked), obj, hpas, s)
         else
           (case PatchHPAForDownscale sendHPA hpas kind (obj_name obj) scheduleName s of
              (hpaErr, hpas', s1) \<Rightarrow>
                (case applyMergePatch send obj
                        (emptyPatch\<lparr>
                           SetAnnotations := [(OriginalReplicasAnnotation, itoa (sint currentReplicas)),
                                              (ManagedByAnnotation, scheduleName)],
                           SetLabels := [(ManagedByLabel, scheduleName)],
                           Spec := [(fieldReplicas, JGoInt 0)]\<rparr>) s1 of
                   (Some e, obj', s2) \<Rightarrow> (Inl e, obj', hpas', s2)
                 | (None, obj', s2) \<Rightarrow>
                     (Inr (scaled (itoa (sint currentReplicas)) ''0''), obj', hpas', s2)))))"

definition scaleReplicasUp ::
  "(replica_workload, 's) patcher \<Rightarrow> 's json_patcher \<Rightarrow> replica_workload \<Rightarrow> string \<Rightarrow>
     string \<Rightarrow> string \<Rightarrow> string \<Rightarrow> json list option \<Rightarrow> 's \<Rightarrow> 's scale_outcome" where
  "scaleReplicasUp send sendHPA obj kind scheduleName managedBy originalReplicas hpas s =
     (if originalReplicas = [] then
        (case RestoreHPA sendHPA hpas kind (obj_name obj) scheduleName s of
           (hpaErr, hpas', s1) \<Rightarrow> (Inr (skipped skipReasonNotManaged), obj, hpas', s1))
      else if managedBy \<noteq> [] \<and> managedBy \<noteq> scheduleName then
        (Inr (skipped skipReasonDifferentSchedule), obj, hpas, s)
      else
        (let replicas = (case parseInt 32 originalReplicas of None \<Rightarrow> 1 | Some r \<Rightarrow> r) in
         if replicas < - (2 ^ 31) \<or> replicas > 2 ^ 31 - 1 then
           (Inl (''original replicas value '' @ itoa replicas @ '' overflows int32''), obj, hpas, s)
         else
           (case applyMergePatch send obj
                   (emptyPatch\<lparr>
                      RemoveAnnotations := [OriginalReplicasAnnotation, ManagedByAnnotation],
                      RemoveLabels := [ManagedByLabel],
                      Spec := [(fieldReplicas, JInt32 replicas)]\<rparr>) s of
              (Some e, obj', s1) \<Rightarrow> (Inl e, obj', hpas, s1)
            | (None, obj', s1) \<Rightarrow>
                (case RestoreHPA sendHPA hpas kind (obj_name obj') scheduleName s1 of
                   (hpaErr, hpas', s2) \<Rightarrow> (Inr (scaled ''0'' (itoa replicas)), obj', hpas', s2)))))"

definition scaleReplicas ::
  "(replica_workload, 's) patcher \<Rightarrow> 's json_patcher \<Rightarrow> replica_workload \<Rightarrow> string \<Rightarrow>
     int32 option \<Rightarrow> string \<Rightarrow> bool \<Rightarrow> json list option \<Rightarrow> 's \<Rightarrow> 's scale_outcome" where
  "scaleReplicas send sendHPA obj kind replicas scheduleName scaleUp hpas s =
     (let managedBy = mget (obj_annotations obj) ManagedByAnnotation;
          originalReplicas = mget (obj_annotations obj) OriginalReplicasAnnotation
      in if scaleUp then scaleReplicasUp send sendHPA obj kind scheduleName managedBy originalReplicas hpas s
         else scaleReplicasDown send sendHPA obj kind replicas scheduleName managedBy originalReplicas hpas s)"

definition ScaleDeployment ::
  "(replica_workload, 's) patcher \<Rightarrow> 's json_patcher \<Rightarrow> replica_workload \<Rightarrow> string \<Rightarrow> bool \<Rightarrow>
     json list option \<Rightarrow> 's \<Rightarrow> 's scale_outcome" where
  "ScaleDeployment send sendHPA deploy scheduleName scaleUp hpas s =
     scaleReplicas send sendHPA deploy ''Deployment'' (spec_replicas deploy) scheduleName scaleUp hpas s"

definition ScaleStatefulSet ::
  "(replica_workload, 's) patcher \<Rightarrow> 's json_patcher \<Rightarrow> replica_workload \<Rightarrow> string \<Rightarrow> bool \<Rightarrow>
     json list option \<Rightarrow> 's \<Rightarrow> 's scale_outcome" where
  "ScaleStatefulSet send sendHPA sts scheduleName scaleUp hpas s =
     scaleReplicas send sendHPA sts ''StatefulSet'' (spec_replicas sts) scheduleName scaleUp hpas s"

section \<open>CronJobs\<close>

definition isSuspended :: "cronjob \<Rightarrow> bool" where
  "isSuspended cj \<longleftrightarrow> spec_suspend cj = Some True"

definition scaleCronJobDown ::
  "(cronjob, 's) patcher \<Rightarrow> cronjob \<Rightarrow> string \<Rightarrow> string \<Rightarrow> string \<Rightarrow> 's \<Rightarrow>
     (string + ScaleResult) \<times> cronjob \<times> 's" where
  "scaleCronJobDown send cj scheduleName managedBy originalSuspend s =
     (if managedBy \<noteq> [] \<and> managedBy \<noteq> scheduleName then
        (Inr (skipped skipReasonDifferentSchedule), cj, s)
      else if originalSuspend \<noteq> [] then (Inr (skipped ''already managed''), cj, s)
      else if isSuspended cj then (Inr (skipped ''suspended by user''), cj, s)
      else
        (case applyMergePatch send cj
                (emptyPatch\<lparr>
                   SetAnnotations := [(OriginalSuspendAnnotation, SuspendedByLightsOut),
                                      (ManagedByAnnotation, scheduleName)],
                   SetLabels := [(ManagedByLabel, scheduleName)],
                   Spec := [(fieldSuspend, JBool True)]\<rparr>) s of
           (Some e, cj', s') \<Rightarrow> (Inl e, cj', s')
         | (None, cj', s') \<Rightarrow> (Inr (scaled ''false'' ''true''), cj', s')))"

definition scaleCronJobUp ::
  "(cronjob, 's) patcher \<Rightarrow> cronjob \<Rightarrow> string \<Rightarrow> string \<Rightarrow> string \<Rightarrow> 's \<Rightarrow>
     (string + ScaleResult) \<times> cronjob \<times> 's" where
  "scaleCronJobUp send cj scheduleName managedBy originalSuspend s =
     (if isSuspended cj \<and> originalSuspend = [] then
        (case applyMergePatch send cj
                (emptyPatch\<lparr>SetAnnotations := [(OriginalSuspendAnnotation, SuspendedByUser)]\<rparr>) s of
           (Some e, cj', s') \<Rightarrow> (Inl e, cj', s')
         | (None, cj', s') \<Rightarrow> (Inr (skipped ''marked as user-suspended''), cj', s'))
      else if originalSuspend = SuspendedByUser then (Inr (skipped ''user-suspended''), cj, s)
      else if originalSuspend \<noteq> SuspendedByLightsOut then (Inr (skipped skipReasonNotManaged), cj, s)
      else if managedBy \<noteq> [] \<and> managedBy \<noteq> scheduleName then
        (Inr (skipped skipReasonDifferentSchedule), cj, s)
      else
        (case applyMergePatch send cj
                (emptyPatch\<lparr>
                   RemoveAnnotations := [OriginalSuspendAnnotation, ManagedByAnnotation],
                   RemoveLabels := [ManagedByLabel],
                   Spec := [(fieldSuspend, JBool False)]\<rparr>) s of
           (Some e, cj', s') \<Rightarrow> (Inl e, cj', s')
         | (None, cj', s') \<Rightarrow> (Inr (scaled ''true'' ''false''), cj', s')))"

definition ScaleCronJob ::
  "(cronjob, 's) patcher \<Rightarrow> cronjob \<Rightarrow> string \<Rightarrow> bool \<Rightarrow> 's \<Rightarrow>
     (string + ScaleResult) \<times> cronjob \<times> 's" where
  "ScaleCronJob send cj scheduleName scaleUp s =
     (let managedBy = mget (obj_annotations cj) ManagedByAnnotation;
          originalSuspend = mget (obj_annotations cj) OriginalSuspendAnnotation
      in if scaleUp then scaleCronJobUp send cj scheduleName managedBy originalSuspend s
         else scaleCronJobDown send cj scheduleName managedBy originalSuspend s)"

section \<open>Listing what a schedule manages\<close>

text \<open>The label selector of the request is evaluated by the server: \<open>lister\<close> gets it.\<close>

definition managedSelector :: "string \<Rightarrow> string \<times> string" where
  "managedSelector scheduleName = (ManagedByLabel, scheduleName)"

definition listManagedDeployments ::
  "(string \<Rightarrow> string \<times> string \<Rightarrow> 's \<Rightarrow> string + replica_workload list) \<Rightarrow> string \<Rightarrow> string \<Rightarrow> 's \<Rightarrow>
     string + replica_workload list" where
  "listManagedDeployments lister namespace scheduleName s = lister namespace (managedSelector scheduleName) s"

definition listManagedStatefulSets ::
  "(string \<Rightarrow> string \<times> string \<Rightarrow> 's \<Rightarrow> string + replica_workload list) \<Rightarrow> string \<Rightarrow> string \<Rightarrow> 's \<Rightarrow>
     string + replica_workload list" where
  "listManagedStatefulSets lister namespace scheduleName s = lister namespace (managedSelector scheduleName) s"

definition listManagedCronJobs ::
  "(string \<Rightarrow> string \<times> string \<Rightarrow> 's \<Rightarrow> string + cronjob list) \<Rightarrow> string \<Rightarrow> string \<Rightarrow> 's \<Rightarrow>
     string + cronjob list" where
  "listManagedCronJobs lister namespace scheduleName s = lister namespace (managedSelector scheduleName) s"

section \<open>What the server promises\<close>

text \<open>
  The answer to a patch is the merged object as far as the program reads it; generation and
  status are the server's own.
\<close>

definition sameWorkload :: "replica_workload \<Rightarrow> replica_workload \<Rightarrow> bool" where
  "sameWorkload a b \<longleftrightarrow>
     obj_name a = obj_name b \<and> obj_namespace a = obj_namespace b \<and>
     obj_labels a = obj_labels b \<and> obj_annotations a = obj_annotations b \<and>
     spec_replicas a = spec_replicas b"

definition sameCronJob :: "cronjob \<Rightarrow> cronjob \<Rightarrow> bool" where
  "sameCronJob a b \<longleftrightarrow>
     obj_name a = obj_name b \<and> obj_namespace a = obj_namespace b \<and>
     obj_labels a = obj_labels b \<and> obj_annotations a = obj_annotations b \<and>
     spec_suspend a = spec_suspend b"

abbreviation workloadServer :: "(replica_workload, 's) patcher \<Rightarrow> bool" where
  "workloadServer send \<equiv> patchMerges send merge_workload sameWorkload"

abbreviation cronJobServer :: "(cronjob, 's) patcher \<Rightarrow> bool" where
  "cronJobServer send \<equiv> patchMerges send merge_cronjob sameCronJob"

definition echoServer :: "(json \<Rightarrow> 'o \<Rightarrow> 'o) \<Rightarrow> ('o, 's) patcher" where
  "echoServer merge obj patch s = (Inr (merge patch obj), s)"

lemma echoServer_merges:
  "workloadServer (echoServer merge_workload)" "cronJobServer (echoServer merge_cronjob)"
  by (auto simp: patchMerges_def echoServer_def sameWorkload_def sameCronJob_def)

lemma patch_fields [simp]:
  "SetLabels emptyPatch = []" "SetAnnotations emptyPatch = []" "RemoveAnnotations emptyPatch = []"
  "RemoveLabels emptyPatch = []" "Spec emptyPatch = []"
  by (simp_all add: emptyPatch_def)

lemma mget_empty_iff: "mget m k = [] \<longleftrightarrow> m k = None \<or> m k = Some []"
  by (auto simp: mget_def split: option.splits)

section \<open>Effects of the operations on a replica workload\<close>

text \<open>A scale down either leaves everything as it is, or patches the workload and its HPA.\<close>

lemma scaleReplicas_down_cases:
  assumes "scaleReplicas send sendHPA obj kind (spec_replicas obj) sched False hpas s = (r, obj', hpas', s')"
  obtains (skip) sr where "r = Inr sr" "Skipped sr" "obj' = obj" "hpas' = hpas" "s' = s"
    | (call) hpaErr s1 where "mget (obj_annotations obj) ManagedByAnnotation \<in> {[], sched}"
        "mget (obj_annotations obj) OriginalReplicasAnnotation = []"
        "derefReplicas (spec_replicas obj) \<noteq> 0"
        "PatchHPAForDownscale sendHPA hpas kind (obj_name obj) sched s = (hpaErr, hpas', s1)"
        "applyMergePatch send obj (emptyPatch\<lparr>
           SetAnnotations := [(OriginalReplicasAnnotation, itoa (sint (derefReplicas (spec_replicas obj)))),
                              (ManagedByAnnotation, sched)],
           SetLabels := [(ManagedByLabel, sched)], Spec := [(fieldReplicas, JGoInt 0)]\<rparr>) s1
         = ((case r of Inl e \<Rightarrow> Some e | Inr _ \<Rightarrow> None), obj', s')"
        "\<And>sr. r = Inr sr \<Longrightarrow> sr = scaled (itoa (sint (derefReplicas (spec_replicas obj)))) ''0''"
  using assms
  by (auto simp: scaleReplicas_def scaleReplicasDown_def Let_def skipped_def
      split: if_splits prod.splits option.splits)

lemma scaleReplicas_up_cases:
  assumes "scaleReplicas send sendHPA obj kind (spec_replicas obj) sched True hpas s = (r, obj', hpas', s')"
  obtains (unmanaged) hpaErr where "mget (obj_annotations obj) OriginalReplicasAnnotation = []"
        "RestoreHPA sendHPA hpas kind (obj_name obj) sched s = (hpaErr, hpas', s')"
        "r = Inr (skipped skipReasonNotManaged)" "obj' = obj"
    | (different) "mget (obj_annotations obj) OriginalReplicasAnnotation \<noteq> []"
        "mget (obj_annotations obj) ManagedByAnnotation \<notin> {[], sched}"
        "r = Inr (skipped skipReasonDifferentSchedule)" "obj' = obj" "hpas' = hpas" "s' = s"
    | (call) n s1 where "mget (obj_annotations obj) OriginalReplicasAnnotation \<noteq> []"
        "mget (obj_annotations obj) ManagedByAnnotation \<in> {[], sched}"
        "n = (case parseInt 32 (mget (obj_annotations obj) OriginalReplicasAnnotation) of None \<Rightarrow> 1 | Some r \<Rightarrow> r)"
        "- (2 ^ 31) \<le> n" "n < 2 ^ 31"
        "applyMergePatch send obj (emptyPatch\<lparr>
           RemoveAnnotations := [OriginalReplicasAnnotation, ManagedByAnnotation],
           RemoveLabels := [ManagedByLabel], Spec := [(fieldReplicas, JInt32 n)]\<rparr>) s
         = ((case r of Inl e \<Rightarrow> Some e | Inr _ \<Rightarrow> None), obj', s1)"
        "\<And>sr. r = Inr sr \<Longrightarrow> sr = scaled ''0'' (itoa n)"
proof -
  let ?n = "case parseInt 32 (mget (obj_annotations obj) OriginalReplicasAnnotation) of None \<Rightarrow> 1 | Some r \<Rightarrow> r"
  have n: "- (2 ^ 31) \<le> ?n" "?n < 2 ^ 31"
    by (auto split: option.splits dest!: parseInt_range)
  show ?thesis
    using assms n unmanaged different call [of ?n]
    by (auto simp: scaleReplicas_def scaleReplicasUp_def Let_def
        split: if_splits prod.splits option.splits)
qed

lemma down_effect:
  assumes "workloadServer send"
    and "scaleReplicas send sendHPA obj kind (spec_replicas obj) sched False hpas s = (Inr r, obj', hpas', s')"
    and "\<not> Skipped r"
  shows "obj_annotations obj' = (obj_annotations obj)
      (OriginalReplicasAnnotation \<mapsto> itoa (sint (derefReplicas (spec_replicas obj))), ManagedByAnnotation \<mapsto> sched)"
    "obj_labels obj' = (obj_labels obj)(ManagedByLabel \<mapsto> sched)"
    "spec_replicas obj' = Some 0" "obj_name obj' = obj_name obj"
    "r = scaled (itoa (sint (derefReplicas (spec_replicas obj)))) ''0''"
    "mget (obj_annotations obj) ManagedByAnnotation \<in> {[], sched}"
    "mget (obj_annotations obj) OriginalReplicasAnnotation = []"
proof -
  let ?p = "emptyPatch\<lparr>
           SetAnnotations := [(OriginalReplicasAnnotation, itoa (sint (derefReplicas (spec_replicas obj)))),
                              (ManagedByAnnotation, sched)],
           SetLabels := [(ManagedByLabel, sched)], Spec := [(fieldReplicas, JGoInt 0)]\<rparr>"
  from assms(2) have "\<exists>s1. send obj (build ?p) s1 = (Inr obj', s') \<and>
      mget (obj_annotations obj) ManagedByAnnotation \<in> {[], sched} \<and>
      mget (obj_annotations obj) OriginalReplicasAnnotation = [] \<and>
      r = scaled (itoa (sint (derefReplicas (spec_replicas obj)))) ''0''"
    by (cases rule: scaleReplicas_down_cases)
       (use assms(3) in \<open>auto simp: applyMergePatch_def split: sum.splits prod.splits\<close>)
  then obtain s1 where send: "send obj (build ?p) s1 = (Inr obj', s')" and rest:
      "mget (obj_annotations obj) ManagedByAnnotation \<in> {[], sched}"
      "mget (obj_annotations obj) OriginalReplicasAnnotation = []"
      "r = scaled (itoa (sint (derefReplicas (spec_replicas obj)))) ''0''" by blast
  from patchMergesD [OF assms(1) send]
  show "obj_annotations obj' = (obj_annotations obj)
      (OriginalReplicasAnnotation \<mapsto> itoa (sint (derefReplicas (spec_replicas obj))), ManagedByAnnotation \<mapsto> sched)"
    "obj_labels obj' = (obj_labels obj)(ManagedByLabel \<mapsto> sched)"
    "spec_replicas obj' = Some 0" "obj_name obj' = obj_name obj"
    by (auto simp: sameWorkload_def merge_workload_build)
  show "r = scaled (itoa (sint (derefReplicas (spec_replicas obj)))) ''0''"
    "mget (obj_annotations obj) ManagedByAnnotation \<in> {[], sched}"
    "mget (obj_annotations obj) OriginalReplicasAnnotation = []" using rest by auto
qed

lemma up_effect:
  assumes "workloadServer send"
    and "scaleReplicas send sendHPA obj kind (spec_replicas obj) sched True hpas s = (Inr r, obj', hpas', s')"
    and "mget (obj_annotations obj) OriginalReplicasAnnotation \<noteq> []"
    and "mget (obj_annotations obj) ManagedByAnnotation \<in> {[], sched}"
    and "n = (case parseInt 32 (mget (obj_annotations obj) OriginalReplicasAnnotation) of None \<Rightarrow> 1 | Some r \<Rightarrow> r)"
  shows "obj_annotations obj' = (obj_annotations obj)(OriginalReplicasAnnotation := None, ManagedByAnnotation := None)"
    "obj_labels obj' = (obj_labels obj)(ManagedByLabel := None)"
    "spec_replicas obj' = Some (word_of_int n)" "r = scaled ''0'' (itoa n)"
proof -
  let ?p = "emptyPatch\<lparr>
           RemoveAnnotations := [OriginalReplicasAnnotation, ManagedByAnnotation],
           RemoveLabels := [ManagedByLabel], Spec := [(fieldReplicas, JInt32 n)]\<rparr>"
  from assms(2) have "\<exists>s1. send obj (build ?p) s = (Inr obj', s1) \<and> r = scaled ''0'' (itoa n)"
    by (cases rule: scaleReplicas_up_cases)
       (use assms(3-5) in \<open>auto simp: applyMergePatch_def split: sum.splits prod.splits\<close>)
  then obtain s1 where send: "send obj (build ?p) s = (Inr obj', s1)" and r: "r = scaled ''0'' (itoa n)"
    by blast
  show "r = scaled ''0'' (itoa n)" by (rule r)
  from patchMergesD [OF assms(1) send]
  show "obj_annotations obj' = (obj_annotations obj)(OriginalReplicasAnnotation := None, ManagedByAnnotation := None)"
    "obj_labels obj' = (obj_labels obj)(ManagedByLabel := None)"
    "spec_replicas obj' = Some (word_of_int n)"
    by (auto simp: sameWorkload_def merge_workload_build fun_upd_twist)
qed

section \<open>Ownership\<close>

definition scaleStep ::
  "(replica_workload, 's) patcher \<Rightarrow> 's json_patcher \<Rightarrow> string \<Rightarrow> string \<Rightarrow> bool \<Rightarrow>
     replica_workload \<times> json list option \<times> 's \<Rightarrow> replica_workload \<times> json list option \<times> 's" where
  "scaleStep send sendHPA kind sched up w =
     (case w of (obj, hpas, s) \<Rightarrow>
        snd (scaleReplicas send sendHPA obj kind (spec_replicas obj) sched up hpas s))"

text \<open>The schedule that holds a workload down.\<close>

definition workloadOwner :: "replica_workload \<times> 'h \<times> 's \<Rightarrow> string" where
  "workloadOwner w =
     (if mget (obj_annotations (fst w)) OriginalReplicasAnnotation = [] then []
      else mget (obj_annotations (fst w)) ManagedByAnnotation)"

interpretation workload_owner: owned_object "scaleStep send sendHPA kind" workloadOwner
  for send :: "(replica_workload, 's) patcher" and sendHPA kind
  by unfold_locales
     (auto simp: scaleStep_def workloadOwner_def scaleReplicas_def scaleReplicasUp_def
       scaleReplicasDown_def Let_def split: if_splits)

definition cronStep :: "(cronjob, 's) patcher \<Rightarrow> string \<Rightarrow> bool \<Rightarrow> cronjob \<times> 's \<Rightarrow> cronjob \<times> 's" where
  "cronStep send sched up w = (case w of (cj, s) \<Rightarrow> snd (ScaleCronJob send cj sched up s))"

definition cronOwner :: "cronjob \<times> 's \<Rightarrow> string" where
  "cronOwner w =
     (if mget (obj_annotations (fst w)) OriginalSuspendAnnotation = [] then []
      else mget (obj_annotations (fst w)) ManagedByAnnotation)"

interpretation cronjob_owner: owned_object "cronStep send" cronOwner
  for send :: "(cronjob, 's) patcher"
  by unfold_locales
     (auto simp: cronStep_def cronOwner_def ScaleCronJob_def scaleCronJobUp_def
       scaleCronJobDown_def Let_def split: if_splits)

text \<open>Running the operations of several schedules one after the other.\<close>

definition scaleAll ::
  "(replica_workload, 's) patcher \<Rightarrow> 's json_patcher \<Rightarrow> string \<Rightarrow> (string \<times> bool) list \<Rightarrow>
     replica_workload \<times> json list option \<times> 's \<Rightarrow> replica_workload \<times> json list option \<times> 's" where
  "scaleAll send sendHPA kind ops w = fold (\<lambda>(sched, up) w. scaleStep send sendHPA kind sched up w) ops w"

definition cronAll :: "(cronjob, 's) patcher \<Rightarrow> (string \<times> bool) list \<Rightarrow> cronjob \<times> 's \<Rightarrow> cronjob \<times> 's" where
  "cronAll send ops w = fold (\<lambda>(sched, up) w. cronStep send sched up w) ops w"

lemma scaleAll_runAll: "scaleAll send sendHPA kind = workload_owner.runAll send sendHPA kind"
  by (simp add: scaleAll_def workload_owner.runAll_def fun_eq_iff)

lemma cronAll_runAll: "cronAll send = cronjob_owner.runAll send"
  by (simp add: cronAll_def cronjob_owner.runAll_def fun_eq_iff)

section \<open>CronJobs\<close>

text \<open>A call either changes nothing or sends one of the three patches.\<close>

lemma cron_cases:
  assumes "ScaleCronJob send cj sched up s = (r, cj', s')"
  obtains (same) "cj' = cj"
    | (suspend) "\<not> up" "send cj (build (emptyPatch\<lparr>
           SetAnnotations := [(OriginalSuspendAnnotation, SuspendedByLightsOut), (ManagedByAnnotation, sched)],
           SetLabels := [(ManagedByLabel, sched)], Spec := [(fieldSuspend, JBool True)]\<rparr>)) s = (Inr cj', s')"
        "mget (obj_annotations cj) OriginalSuspendAnnotation = []" "\<not> isSuspended cj"
        "r = Inr (scaled ''false'' ''true'')"
    | (mark) "up" "send cj (build (emptyPatch\<lparr>
           SetAnnotations := [(OriginalSuspendAnnotation, SuspendedByUser)]\<rparr>)) s = (Inr cj', s')"
        "mget (obj_annotations cj) OriginalSuspendAnnotation = []" "isSuspended cj"
    | (resume) "up" "send cj (build (emptyPatch\<lparr>
           RemoveAnnotations := [OriginalSuspendAnnotation, ManagedByAnnotation],
           RemoveLabels := [ManagedByLabel], Spec := [(fieldSuspend, JBool False)]\<rparr>)) s = (Inr cj', s')"
        "mget (obj_annotations cj) OriginalSuspendAnnotation = SuspendedByLightsOut"
        "mget (obj_annotations cj) ManagedByAnnotation \<in> {[], sched}"
        "r = Inr (scaled ''true'' ''false'')"
  using assms
  by (auto simp: ScaleCronJob_def scaleCronJobUp_def scaleCronJobDown_def applyMergePatch_def Let_def
      split: if_splits sum.splits prod.splits option.splits)

text \<open>Suspended, and not by LightsOut.\<close>

definition userSuspended :: "cronjob \<Rightarrow> bool" where
  "userSuspended cj \<longleftrightarrow> isSuspended cj \<and>
     mget (obj_annotations cj) OriginalSuspendAnnotation \<noteq> SuspendedByLightsOut"

lemma userSuspended_step:
  assumes "cronJobServer send" and "userSuspended cj" and "ScaleCronJob send cj sched up s = (r, cj', s')"
  shows "userSuspended cj'"
  using assms(3)
proof (cases rule: cron_cases)
  case mark
  from patchMergesD [OF assms(1) mark(2)] assms(2) show ?thesis
    by (simp add: sameCronJob_def merge_cronjob_build userSuspended_def isSuspended_def
        SuspendedByUser_def SuspendedByLightsOut_def)
qed (use assms(2) in \<open>auto simp: userSuspended_def\<close>)

lemma userSuspended_all:
  "cronJobServer send \<Longrightarrow> userSuspended (fst w) \<Longrightarrow> userSuspended (fst (cronAll send ops w))"
proof (induction ops arbitrary: w)
  case (Cons x ops)
  obtain sched up where x: "x = (sched, up)" by (cases x)
  obtain cj s where w: "w = (cj, s)" by (cases w)
  obtain r cj' s' where e: "ScaleCronJob send cj sched up s = (r, cj', s')" by (rule prod_cases3)
  have "userSuspended (fst (cronStep send sched up w))"
    using userSuspended_step [OF Cons.prems(1) _ e] Cons.prems(2) w e by (simp add: cronStep_def)
  with Cons x show ?case by (simp add: cronAll_def)
qed (simp add: cronAll_def)

section \<open>Properties\<close>

text \<open>
  C7: A Deployment or StatefulSet that a schedule scaled down and later scales up again has
  the replica count it had (one, if it had none), and the labels and annotations it had. In
  between the count is zero. The upscale works on a later copy of the object: its
  annotations and labels are those the downscale left, its replica count may be anything.
\<close>

theorem replicas_roundtrip:
  assumes "workloadServer send"
    and "obj_annotations obj ManagedByAnnotation = None" and "obj_annotations obj OriginalReplicasAnnotation = None"
    and "obj_labels obj ManagedByLabel = None"
    and "scaleReplicas send sendHPA obj kind (spec_replicas obj) sched False hpas s = (Inr r, down, hpas1, s1)"
    and "\<not> Skipped r"
    and "obj_annotations copy = obj_annotations down" and "obj_labels copy = obj_labels down"
    and "scaleReplicas send sendHPA copy kind (spec_replicas copy) sched True hpas2 s2 = (Inr r', restored, hpas3, s3)"
  shows "spec_replicas down = Some 0 \<and>
    spec_replicas restored = Some (derefReplicas (spec_replicas obj)) \<and>
    obj_annotations restored = obj_annotations obj \<and> obj_labels restored = obj_labels obj \<and>
    \<not> Skipped r' \<and> NewValue r' = PreviousValue r"
proof -
  let ?n = "sint (derefReplicas (spec_replicas obj))"
  note d = down_effect [OF assms(1,5,6)]
  have ann: "mget (obj_annotations copy) OriginalReplicasAnnotation = itoa ?n"
    "mget (obj_annotations copy) ManagedByAnnotation = sched"
    by (simp_all add: assms(7) d(1))
  have "?n = (case parseInt 32 (mget (obj_annotations copy) OriginalReplicasAnnotation) of None \<Rightarrow> 1 | Some r \<Rightarrow> r)"
    by (simp only: ann parseInt32_sint option.simps)
  note u = up_effect [OF assms(1,9) _ _ this]
  have u: "obj_annotations restored = (obj_annotations copy)(OriginalReplicasAnnotation := None, ManagedByAnnotation := None)"
    "obj_labels restored = (obj_labels copy)(ManagedByLabel := None)"
    "spec_replicas restored = Some (word_of_int ?n)" "r' = scaled ''0'' (itoa ?n)"
    using u by (simp_all add: ann)
  show ?thesis
    using u d assms(2-4,7,8) by (auto simp: scaled_def fun_eq_iff)
qed

definition sampleWorkload :: "int32 option \<Rightarrow> replica_workload" where
  "sampleWorkload r = \<lparr>obj_name = ''web'', obj_namespace = ''shop'', obj_labels = Map.empty,
     obj_annotations = Map.empty, obj_generation = 1, obj_ownerReferences = [], spec_replicas = r,
     st_observedGeneration = 1, st_replicas = 3, st_readyReplicas = 3\<rparr>"

definition sampleDown :: replica_workload where
  "sampleDown = (sampleWorkload (Some 3))
     \<lparr>obj_labels := [ManagedByLabel \<mapsto> ''night''],
      obj_annotations := [OriginalReplicasAnnotation \<mapsto> ''3'', ManagedByAnnotation \<mapsto> ''night''],
      spec_replicas := Some 0\<rparr>"

lemma itoa_3: "itoa 3 = ''3''"
  by code_simp

lemma sampleDown_run:
  "scaleReplicas (echoServer merge_workload) sendHPA (sampleWorkload (Some 3)) ''Deployment'' (spec_replicas (sampleWorkload (Some 3))) ''night'' False None s
    = (Inr (scaled ''3'' ''0''), sampleDown, None, s)"
  by (simp add: scaleReplicas_def scaleReplicasDown_def Let_def sampleWorkload_def derefReplicas_def
      PatchHPAForDownscale_def applyMergePatch_def echoServer_def merge_workload_build itoa_3 sampleDown_def
      fun_upd_twist)

theorem replicas_roundtrip_witness:
  "\<exists>restored :: replica_workload. spec_replicas restored = Some 3 \<and> obj_annotations restored = Map.empty \<and>
     obj_labels restored = Map.empty"
proof -
  let ?copy = "sampleDown\<lparr>spec_replicas := Some 7\<rparr>"
  let ?up = "scaleReplicas (echoServer merge_workload) mergingServer ?copy ''Deployment'' (spec_replicas ?copy) ''night'' True None ()"
  have "\<exists>r. fst ?up = Inr r"
    by (simp add: scaleReplicas_def scaleReplicasUp_def Let_def sampleDown_def parseInt_def parseUnsigned_def
        digitVal_def applyMergePatch_def echoServer_def RestoreHPA_def)
  then obtain r' restored hpas s3 where up: "?up = (Inr r', restored, hpas, s3)"
    by (metis surjective_pairing)
  have "\<not> Skipped (scaled ''3'' ''0'')" by (simp add: scaled_def)
  from replicas_roundtrip [OF echoServer_merges(1) _ _ _ sampleDown_run [where s = "()"] this _ _ up]
  show ?thesis by (auto simp: sampleWorkload_def derefReplicas_def)
qed

text \<open>
  C28: Once a workload is held down by a schedule, no sequence of scale operations by other
  schedules, in whatever directions, changes it, its HPA or the server.
\<close>

theorem foreign_scaling_is_idle:
  assumes "mget (obj_annotations obj) OriginalReplicasAnnotation \<noteq> []"
    and "mget (obj_annotations obj) ManagedByAnnotation = owner" and "owner \<noteq> []"
    and "\<forall>(sched, up) \<in> set ops. sched \<noteq> owner"
  shows "scaleAll send sendHPA kind ops (obj, hpas, s) = (obj, hpas, s)"
  using workload_owner.runAll_foreign [of "(obj, hpas, s)" ops] assms
  by (simp add: scaleAll_runAll workloadOwner_def)

theorem foreign_scaling_is_idle_witness:
  "scaleAll (echoServer merge_workload) mergingServer ''Deployment'' [(''day'', True), (''week'', False)]
     (sampleDown, None, ()) = (sampleDown, None, ())"
proof (rule foreign_scaling_is_idle)
  show "mget (obj_annotations sampleDown) OriginalReplicasAnnotation \<noteq> []" by (simp add: sampleDown_def)
  show "mget (obj_annotations sampleDown) ManagedByAnnotation = ''night''" by (simp add: sampleDown_def)
qed simp_all

text \<open>
  A downscale pass over a workload it has already scaled down, or over one a user parked
  at zero replicas, sends nothing and changes nothing; so does every later one.
\<close>

theorem downscale_repeats_silently:
  assumes "workloadServer send"
    and "spec_replicas obj = Some 0 \<or>
         (\<exists>obj0 hpas0 s0 r hpas1 s1.
            scaleReplicas send sendHPA obj0 kind (spec_replicas obj0) sched False hpas0 s0 = (Inr r, obj, hpas1, s1) \<and>
            \<not> Skipped r)"
  shows "scaleAll send sendHPA kind (replicate n (sched, False)) (obj, hpas, s) = (obj, hpas, s) \<and>
    (\<exists>r. fst (scaleReplicas send sendHPA obj kind (spec_replicas obj) sched False hpas s) = Inr r \<and> Skipped r)"
proof -
  have "mget (obj_annotations obj) OriginalReplicasAnnotation \<noteq> [] \<or> spec_replicas obj = Some 0"
    using assms(2) down_effect(1) [OF assms(1)] by fastforce
  then have idle: "snd (scaleReplicas send sendHPA obj kind (spec_replicas obj) sched False hpas s) = (obj, hpas, s) \<and>
      (\<exists>r. fst (scaleReplicas send sendHPA obj kind (spec_replicas obj) sched False hpas s) = Inr r \<and> Skipped r)"
    by (auto simp: scaleReplicas_def scaleReplicasDown_def Let_def skipped_def derefReplicas_def)
  have "scaleAll send sendHPA kind (replicate n (sched, False)) (obj, hpas, s) = (obj, hpas, s)"
    by (induction n) (use idle in \<open>simp_all add: scaleAll_def scaleStep_def\<close>)
  with idle show ?thesis by blast
qed

theorem downscale_repeats_silently_witness:
  "scaleAll (echoServer merge_workload) mergingServer ''Deployment'' (replicate 3 (''night'', False))
     (sampleDown, None, ()) = (sampleDown, None, ())"
proof -
  have "\<not> Skipped (scaled ''3'' ''0'')" by (simp add: scaled_def)
  then have "\<exists>obj0 hpas0 s0 r hpas1 s1.
      scaleReplicas (echoServer merge_workload) mergingServer obj0 ''Deployment'' (spec_replicas obj0) ''night'' False hpas0 s0
        = (Inr r, sampleDown, hpas1, s1 :: unit) \<and> \<not> Skipped r"
    by (intro exI conjI) (rule sampleDown_run)
  from downscale_repeats_silently [OF echoServer_merges(1) disjI2, OF this] show ?thesis by (rule conjunct1)
qed

text \<open>
  A scale up of a workload the schedule holds fails only if the patch fails. The new
  count is the recorded one whenever that is a decimal number that fits \<open>int32\<close> and one
  otherwise: the overflow error the code tests for cannot occur.
\<close>

theorem upscale_total:
  assumes "workloadServer send"
    and "mget (obj_annotations obj) OriginalReplicasAnnotation \<noteq> []"
    and "mget (obj_annotations obj) ManagedByAnnotation \<in> {[], sched}"
    and "\<forall>patch. \<exists>obj' s'. send obj patch s = (Inr obj', s')"
  shows "\<exists>n r obj' hpas' s'.
    scaleReplicas send sendHPA obj kind (spec_replicas obj) sched True hpas s = (Inr r, obj', hpas', s') \<and>
    n = (case parseInt 32 (mget (obj_annotations obj) OriginalReplicasAnnotation) of None \<Rightarrow> 1 | Some n \<Rightarrow> n) \<and>
    NewValue r = itoa n \<and> spec_replicas obj' = Some (word_of_int n) \<and> sint (word_of_int n :: int32) = n"
proof -
  define n where "n = (case parseInt 32 (mget (obj_annotations obj) OriginalReplicasAnnotation) of None \<Rightarrow> 1 | Some n \<Rightarrow> n)"
  obtain r obj' hpas' s' where run:
    "scaleReplicas send sendHPA obj kind (spec_replicas obj) sched True hpas s = (r, obj', hpas', s')"
    by (rule prod_cases4)
  have "\<exists>sr. r = Inr sr"
    using run
  proof (cases rule: scaleReplicas_up_cases)
    case (call m s1)
    obtain o2 s2 where "send obj (build (emptyPatch\<lparr>
           RemoveAnnotations := [OriginalReplicasAnnotation, ManagedByAnnotation],
           RemoveLabels := [ManagedByLabel], Spec := [(fieldReplicas, JInt32 m)]\<rparr>)) s = (Inr o2, s2)"
      using assms(4) by blast
    with call(6) show ?thesis by (auto simp: applyMergePatch_def split: sum.splits)
  qed (use assms in auto)
  then obtain sr where r: "r = Inr sr" by blast
  note u = up_effect(3,4) [OF assms(1) run [unfolded r] assms(2,3) n_def]
  have range: "- (2 ^ 31) \<le> n \<and> n < 2 ^ 31"
    by (auto simp: n_def split: option.splits dest!: parseInt_range)
  have "sint (word_of_int n :: int32) = n"
    using range by (simp add: sint_sbintrunc' signed_take_bit_int_eq_self)
  with u run r show ?thesis
    unfolding n_def [symmetric] by (auto simp: scaled_def)
qed

theorem upscale_total_witness:
  "\<exists>r obj' hpas' s'.
     scaleReplicas (echoServer merge_workload) mergingServer sampleDown ''Deployment'' (spec_replicas sampleDown)
       ''night'' True None () = (Inr r, obj', hpas', s') \<and> spec_replicas obj' = Some 3"
proof -
  have "parseInt 32 ''3'' = Some 3" by code_simp
  moreover have "\<forall>patch. \<exists>obj' s'. echoServer merge_workload sampleDown patch () = (Inr obj', s')"
    by (simp add: echoServer_def)
  ultimately show ?thesis
    using upscale_total [OF echoServer_merges(1), of sampleDown "''night''" "()" mergingServer "''Deployment''" None]
    by (auto simp: sampleDown_def)
qed

text \<open>
  C32: A CronJob that LightsOut did not suspend stays suspended through every sequence of
  operations by any schedules in any directions.
\<close>

theorem user_suspension_respected:
  assumes "cronJobServer send" and "isSuspended cj"
    and "mget (obj_annotations cj) OriginalSuspendAnnotation \<noteq> SuspendedByLightsOut"
  shows "isSuspended (fst (cronAll send ops (cj, s)))"
  using userSuspended_all [OF assms(1), of "(cj, s)"] assms(2,3) by (simp add: userSuspended_def)

definition sampleCronJob :: "bool option \<Rightarrow> strmap \<Rightarrow> cronjob" where
  "sampleCronJob susp ann = \<lparr>obj_name = ''report'', obj_namespace = ''shop'', obj_labels = Map.empty,
     obj_annotations = ann, obj_generation = 1, obj_ownerReferences = [], spec_suspend = susp\<rparr>"

theorem user_suspension_respected_witness:
  "isSuspended (fst (cronAll (echoServer merge_cronjob) [(''a'', True), (''a'', False), (''b'', True)]
     (sampleCronJob (Some True) Map.empty, ())))"
  by (rule user_suspension_respected [OF echoServer_merges(2)])
     (simp_all add: sampleCronJob_def isSuspended_def SuspendedByLightsOut_def)

text \<open>
  A running CronJob suspended for the night is resumed in the morning with its labels and
  annotations as they were.
\<close>

theorem cronjob_roundtrip:
  assumes "cronJobServer send"
    and "obj_annotations cj ManagedByAnnotation = None" and "obj_annotations cj OriginalSuspendAnnotation = None"
    and "obj_labels cj ManagedByLabel = None"
    and "ScaleCronJob send cj sched False s = (Inr r, down, s1)" and "\<not> Skipped r"
    and "ScaleCronJob send down sched True s2 = (Inr r', up, s3)"
  shows "isSuspended down \<and> \<not> isSuspended up \<and> \<not> Skipped r' \<and>
    obj_annotations up = obj_annotations cj \<and> obj_labels up = obj_labels cj"
proof -
  let ?p = "emptyPatch\<lparr>
           SetAnnotations := [(OriginalSuspendAnnotation, SuspendedByLightsOut), (ManagedByAnnotation, sched)],
           SetLabels := [(ManagedByLabel, sched)], Spec := [(fieldSuspend, JBool True)]\<rparr>"
  let ?q = "emptyPatch\<lparr>
           RemoveAnnotations := [OriginalSuspendAnnotation, ManagedByAnnotation],
           RemoveLabels := [ManagedByLabel], Spec := [(fieldSuspend, JBool False)]\<rparr>"
  have "send cj (build ?p) s = (Inr down, s1)"
    using assms(2,3,5,6)
    by (auto simp: ScaleCronJob_def scaleCronJobDown_def applyMergePatch_def Let_def skipped_def mget_def
        split: if_splits sum.splits prod.splits)
  note d = patchMergesD [OF assms(1) this]
  have ann: "mget (obj_annotations down) OriginalSuspendAnnotation = SuspendedByLightsOut"
    "mget (obj_annotations down) ManagedByAnnotation = sched"
    using d by (simp_all add: sameCronJob_def merge_cronjob_build)
  have "send down (build ?q) s2 = (Inr up, s3) \<and> r' = scaled ''true'' ''false''"
    using assms(7) ann
    by (auto simp: ScaleCronJob_def scaleCronJobUp_def applyMergePatch_def Let_def
        SuspendedByUser_def SuspendedByLightsOut_def split: if_splits sum.splits prod.splits)
  then have "sameCronJob up (merge_cronjob (build ?q) down)" "\<not> Skipped r'"
    using patchMergesD [OF assms(1)] by (auto simp: scaled_def)
  with d assms(2-4) show ?thesis
    by (auto simp: sameCronJob_def merge_cronjob_build isSuspended_def fun_eq_iff)
qed

theorem cronjob_roundtrip_witness:
  "\<exists>r down s1 r' up s3.
     ScaleCronJob (echoServer merge_cronjob) (sampleCronJob None Map.empty) ''n'' False () = (Inr r, down, s1) \<and>
     ScaleCronJob (echoServer merge_cronjob) down ''n'' True () = (Inr r', up, s3) \<and>
     isSuspended down \<and> \<not> isSuspended up \<and> obj_annotations up = Map.empty"
proof -
  define down where "down = snd (ScaleCronJob (echoServer merge_cronjob) (sampleCronJob None Map.empty) ''n'' False ())"
  have d: "ScaleCronJob (echoServer merge_cronjob) (sampleCronJob None Map.empty) ''n'' False () =
      (Inr (scaled ''false'' ''true''), down)"
    by (simp add: down_def ScaleCronJob_def scaleCronJobDown_def Let_def sampleCronJob_def isSuspended_def
        applyMergePatch_def echoServer_def)
  have "mget (obj_annotations (fst down)) OriginalSuspendAnnotation = SuspendedByLightsOut"
    "mget (obj_annotations (fst down)) ManagedByAnnotation = ''n''"
    by (simp_all add: down_def ScaleCronJob_def scaleCronJobDown_def Let_def sampleCronJob_def isSuspended_def
        applyMergePatch_def echoServer_def merge_cronjob_build)
  then have "fst (ScaleCronJob (echoServer merge_cronjob) (fst down) ''n'' True ()) = Inr (scaled ''true'' ''false'')"
    by (simp add: ScaleCronJob_def scaleCronJobUp_def Let_def SuspendedByLightsOut_def SuspendedByUser_def
        applyMergePatch_def echoServer_def)
  then obtain r' up s3 where u: "ScaleCronJob (echoServer merge_cronjob) (fst down) ''n'' True () = (Inr r', up, s3)"
    by (metis prod_cases3 fst_conv)
  have d': "ScaleCronJob (echoServer merge_cronjob) (sampleCronJob None Map.empty) ''n'' False () =
      (Inr (scaled ''false'' ''true''), fst down, snd down)" using d by (simp add: prod_eq_iff)
  have "\<not> Skipped (scaled ''false'' ''true'')" by (simp add: scaled_def)
  from cronjob_roundtrip [OF echoServer_merges(2) _ _ _ d' this u] d' u show ?thesis
    by (auto simp: sampleCronJob_def)
qed

text \<open>
  The mark that a user suspended a CronJob is never taken off by LightsOut, and no
  operation touches a marked CronJob: one that its user has resumed since is never scaled
  down again.
\<close>

theorem user_mark_sticks:
  assumes "mget (obj_annotations cj) OriginalSuspendAnnotation = SuspendedByUser"
  shows "cronAll send ops (cj, s) = (cj, s)"
proof -
  have "cronStep send sched up (cj, s) = (cj, s)" for sched up
    using assms by (auto simp: cronStep_def ScaleCronJob_def scaleCronJobUp_def scaleCronJobDown_def Let_def
        SuspendedByUser_def)
  then show ?thesis by (induction ops) (auto simp: cronAll_def)
qed

theorem user_mark_sticks_witness:
  "cronAll (echoServer merge_cronjob) [(''n'', False)]
     (sampleCronJob (Some False) [OriginalSuspendAnnotation \<mapsto> SuspendedByUser], ()) =
   (sampleCronJob (Some False) [OriginalSuspendAnnotation \<mapsto> SuspendedByUser], ())"
  by (rule user_mark_sticks) (simp add: sampleCronJob_def)

end
