(* ===== verification/Rfc3339.thy ===== *)
theory Rfc3339
  imports Prelude
begin

text \<open>
  The time stamps the operator writes into annotations: \<^verbatim>\<open>t.UTC().Format(time.RFC3339)\<close> and
  \<^verbatim>\<open>time.Parse(time.RFC3339, s)\<close> of Go's package \<^verbatim>\<open>time\<close>. An instant is in nanoseconds since the
  epoch, so dates are those of the proleptic Gregorian calendar counted from 1970. The parser
  is the general one of the package: it also takes an hour of one digit, a fraction after a
  dot or a comma, and an offset in place of the letter Z.
\<close>

section \<open>Dates\<close>

definition leapYear :: "int \<Rightarrow> bool" where
  "leapYear y \<longleftrightarrow> y mod 4 = 0 \<and> (y mod 100 \<noteq> 0 \<or> y mod 400 = 0)"

definition yearLength :: "int \<Rightarrow> int" where
  "yearLength y = (if leapYear y then 366 else 365)"

text \<open>Days from the epoch to the first of January.\<close>

definition daysToYear :: "int \<Rightarrow> int" where
  "daysToYear y = 365 * y + (y - 1) div 4 - (y - 1) div 100 + (y - 1) div 400 - 719527"

definition monthLengths :: "int \<Rightarrow> int list" where
  "monthLengths y = [31, if leapYear y then 29 else 28, 31, 30, 31, 30, 31, 31, 30, 31, 30, 31]"

function yearSplit :: "int \<Rightarrow> int \<Rightarrow> int \<times> int" where
  "yearSplit y d =
     (if d < 0 then yearSplit (y - 1) (d + yearLength (y - 1))
      else if yearLength y \<le> d then yearSplit (y + 1) (d - yearLength y)
      else (y, d))"
  by pat_completeness auto
termination
  by (relation "measure (\<lambda>(y, d). if d < 0 then nat (1000 - d) else nat d)")
    (auto simp: yearLength_def split: if_splits)

declare yearSplit.simps [simp del]

fun monthSplit :: "nat \<Rightarrow> int list \<Rightarrow> int \<Rightarrow> nat \<times> int" where
  "monthSplit m [] d = (m, d)"
| "monthSplit m (l # ls) d = (if d < l then (m, d) else monthSplit (Suc m) ls (d - l))"

section \<open>Printing\<close>

definition padText :: "nat \<Rightarrow> int \<Rightarrow> string" where
  "padText w i =
     (let s = natText (nat \<bar>i\<bar>)
      in (if i < 0 then ''-'' else []) @ replicate (w - length s) CHR ''0'' @ s)"

definition formatRFC3339 :: "time \<Rightarrow> string" where
  "formatRFC3339 t =
     (let secs = t div second;
          sod = secs mod 86400;
          (y, yday) = yearSplit 1970 (secs div 86400);
          (mon, mday) = monthSplit 1 (monthLengths y) yday
      in padText 4 y @ ''-'' @ padText 2 (int mon) @ ''-'' @ padText 2 (mday + 1) @ ''T'' @
         padText 2 (sod div 3600) @ '':'' @ padText 2 (sod div 60 mod 60) @ '':'' @ padText 2 (sod mod 60) @ ''Z'')"

section \<open>Parsing\<close>

text \<open>A number of two digits, or of one digit where that is allowed, and what follows.\<close>

definition getnum :: "string \<Rightarrow> bool \<Rightarrow> (int \<times> string) option" where
  "getnum s fixedWidth =
     (case s of
        [] \<Rightarrow> None
      | a # s1 \<Rightarrow>
          (case digitVal a of
             None \<Rightarrow> None
           | Some m \<Rightarrow>
               (case s1 of
                  [] \<Rightarrow> if fixedWidth then None else Some (int m, s1)
                | b # s2 \<Rightarrow>
                    (case digitVal b of
                       None \<Rightarrow> if fixedWidth then None else Some (int m, s1)
                     | Some n \<Rightarrow> Some (10 * int m + int n, s2)))))"

definition getyear :: "string \<Rightarrow> (int \<times> string) option" where
  "getyear s =
     (if length s < 4 then None
      else (case parseUnsigned (take 4 s) of None \<Rightarrow> None | Some n \<Rightarrow> Some (int n, drop 4 s)))"

definition skipByte :: "char \<Rightarrow> string \<Rightarrow> string option" where
  "skipByte c s = (case s of [] \<Rightarrow> None | x # xs \<Rightarrow> if x = c then Some xs else None)"

text \<open>At most nine digits of the fraction count.\<close>

definition getfraction :: "string \<Rightarrow> int \<times> string" where
  "getfraction s =
     (case s of
        c # d # rest \<Rightarrow>
          if (c = CHR ''.'' \<or> c = CHR '','') \<and> digitVal d \<noteq> None then
            (let ds = takeWhile (\<lambda>x. digitVal x \<noteq> None) (d # rest);
                 used = take 9 ds
             in (int (case parseDigits 0 used of None \<Rightarrow> 0 | Some n \<Rightarrow> n) * 10 ^ (9 - length used),
                 drop (length ds) (d # rest)))
          else (0, s)
      | _ \<Rightarrow> (0, s))"

text \<open>The offset of the zone in seconds; an offset of 24 hours or 60 minutes is let through.\<close>

definition getzone :: "string \<Rightarrow> (int \<times> string) option" where
  "getzone s =
     (case s of
        [] \<Rightarrow> None
      | c # rest \<Rightarrow>
          if c = CHR ''Z'' then Some (0, rest)
          else if length s < 6 \<or> s ! 3 \<noteq> CHR '':'' then None
          else
            (case (getnum (take 2 rest) True, getnum (take 2 (drop 4 s)) True) of
               (Some (hh, _), Some (mm, _)) \<Rightarrow>
                 if hh > 24 \<or> mm > 60 then None
                 else if c = CHR ''+'' then Some (hh * 3600 + mm * 60, drop 6 s)
                 else if c = CHR ''-'' then Some (- (hh * 3600 + mm * 60), drop 6 s)
                 else None
             | _ \<Rightarrow> None))"

definition instant :: "int \<Rightarrow> int \<Rightarrow> int \<Rightarrow> int \<Rightarrow> int \<Rightarrow> int \<Rightarrow> int \<Rightarrow> int \<Rightarrow> time" where
  "instant y mon mday h mi sec nsec zoneOffset =
     ((daysToYear y + sum_list (take (nat (mon - 1)) (monthLengths y)) + (mday - 1)) * 86400
        + h * 3600 + mi * 60 + sec - zoneOffset) * second + nsec"

text \<open>A number in a range followed by a byte, with the rest of the parser.\<close>

definition field2 ::
  "bool \<Rightarrow> int \<Rightarrow> int \<Rightarrow> string \<Rightarrow> (int \<Rightarrow> string \<Rightarrow> 'a option) \<Rightarrow> 'a option" where
  "field2 fixedWidth lo hi s k =
     (case getnum s fixedWidth of
        None \<Rightarrow> None
      | Some (n, s1) \<Rightarrow> if n < lo \<or> hi < n then None else k n s1)"

definition expect :: "char \<Rightarrow> string \<Rightarrow> (string \<Rightarrow> 'a option) \<Rightarrow> 'a option" where
  "expect c s k = (case skipByte c s of None \<Rightarrow> None | Some s1 \<Rightarrow> k s1)"

definition parseRFC3339 :: "string \<Rightarrow> time option" where
  "parseRFC3339 s =
     (case getyear s of
        None \<Rightarrow> None
      | Some (y, s1) \<Rightarrow>
          expect CHR ''-'' s1 (\<lambda>s2. field2 True 1 12 s2 (\<lambda>mon s3.
          expect CHR ''-'' s3 (\<lambda>s4. field2 True 0 99 s4 (\<lambda>mday s5.
          expect CHR ''T'' s5 (\<lambda>s6. field2 False 0 23 s6 (\<lambda>h s7.
          expect CHR '':'' s7 (\<lambda>s8. field2 True 0 59 s8 (\<lambda>mi s9.
          expect CHR '':'' s9 (\<lambda>s10. field2 True 0 59 s10 (\<lambda>sec s11.
            (case getfraction s11 of
               (nsec, s12) \<Rightarrow>
                 (case getzone s12 of
                    Some (zoneOffset, []) \<Rightarrow>
                      if mday < 1 \<or> monthLengths y ! nat (mon - 1) < mday then None
                      else Some (instant y mon mday h mi sec nsec zoneOffset)
                  | _ \<Rightarrow> None)))))))))))))"

section \<open>A stamp is read back\<close>

lemma div_step:
  fixes y n :: int
  assumes "0 < n"
  shows "y div n = (y - 1) div n + (if y mod n = 0 then 1 else 0)"
proof (cases "y mod n = 0")
  case True
  have "y - 1 = n * (y div n - 1) + (n - 1)"
    using True mult_div_mod_eq [of n y] by (simp add: algebra_simps)
  then have "(y - 1) div n = y div n - 1"
    using assms int_div_pos_eq [of "y - 1" n "y div n - 1" "n - 1"] by linarith
  with True show ?thesis by simp
next
  case False
  have "y - 1 = n * (y div n) + (y mod n - 1)" using mult_div_mod_eq [of n y] by simp
  moreover have "0 \<le> y mod n - 1" "y mod n - 1 < n"
    using False assms pos_mod_sign [of n y] pos_mod_bound [of n y] by linarith+
  ultimately have "(y - 1) div n = y div n" by (intro int_div_pos_eq)
  with False show ?thesis by simp
qed

lemma daysToYear_step: "daysToYear (y + 1) = daysToYear y + yearLength y"
proof -
  have "y mod 400 = 0 \<Longrightarrow> y mod 100 = 0"
    using dvd_trans [of 100 400 y] by (simp add: mod_eq_0_iff_dvd)
  moreover have "y mod 100 = 0 \<Longrightarrow> y mod 4 = 0"
    using dvd_trans [of 4 100 y] by (simp add: mod_eq_0_iff_dvd)
  moreover have "daysToYear (y + 1) - daysToYear y =
      365 + (if y mod 4 = 0 then 1 else 0) - (if y mod 100 = 0 then 1 else 0) + (if y mod 400 = 0 then 1 else 0)"
    unfolding daysToYear_def add_diff_cancel_right'
    by (simp only: div_step [OF zero_less_numeral, where y = y] algebra_simps)
  ultimately show ?thesis
    by (cases "y mod 4 = 0"; cases "y mod 100 = 0"; cases "y mod 400 = 0")
      (simp_all add: yearLength_def leapYear_def)
qed

lemma yearSplit_spec:
  "yearSplit y d = (y', d') \<Longrightarrow>
     daysToYear y' + d' = daysToYear y + d \<and> 0 \<le> d' \<and> d' < yearLength y'"
proof (induction y d rule: yearSplit.induct)
  case (1 y d)
  have "yearSplit y d =
      (if d < 0 then yearSplit (y - 1) (d + yearLength (y - 1))
       else if yearLength y \<le> d then yearSplit (y + 1) (d - yearLength y) else (y, d))"
    by (subst yearSplit.simps) simp
  with 1 daysToYear_step [of y] daysToYear_step [of "y - 1"] show ?case
    by (auto split: if_splits)
qed

lemma monthSplit_spec:
  "monthSplit m ls d = (m', d') \<Longrightarrow> 0 \<le> d \<Longrightarrow> d < sum_list ls \<Longrightarrow>
     m \<le> m' \<and> m' - m < length ls \<and> d = sum_list (take (m' - m) ls) + d' \<and> 0 \<le> d' \<and> d' < ls ! (m' - m)"
proof (induction m ls d rule: monthSplit.induct)
  case (2 m l ls d)
  show ?case
  proof (cases "d < l")
    case True
    with 2 show ?thesis by auto
  next
    case False
    with 2 have "Suc m \<le> m' \<and> m' - Suc m < length ls \<and> d - l = sum_list (take (m' - Suc m) ls) + d' \<and>
        0 \<le> d' \<and> d' < ls ! (m' - Suc m)" by auto
    moreover from this have "m' - m = Suc (m' - Suc m)" by arith
    ultimately show ?thesis by simp
  qed
qed simp

lemma sum_monthLengths: "sum_list (monthLengths y) = yearLength y"
  by (simp add: monthLengths_def yearLength_def)

lemma daysToYear_mono: "y \<le> y' \<Longrightarrow> daysToYear y \<le> daysToYear y'"
proof (induction y' rule: int_ge_induct)
  case (step i)
  have "0 \<le> yearLength i" by (simp add: yearLength_def)
  with step daysToYear_step [of i] show ?case by linarith
qed simp

lemma natText_length: "0 < k \<Longrightarrow> n < 10 ^ k \<Longrightarrow> length (natText n) \<le> k"
proof (induction n arbitrary: k rule: natText.induct)
  case (1 n)
  show ?case
  proof (cases "n < 10")
    case True
    with 1 show ?thesis by (subst natText.simps) simp
  next
    case False
    obtain j where j: "k = Suc j" using "1.prems"(1) by (cases k) auto
    have "0 < j" using False "1.prems"(2) j by (cases j) auto
    moreover have "n div 10 < 10 ^ j" using "1.prems"(2) j by (simp add: div_less_iff_less_mult)
    ultimately have "length (natText (n div 10)) \<le> j" using "1.IH" False by blast
    with False j show ?thesis by (subst natText.simps) simp
  qed
qed

lemma parseDigits_zeros: "parseDigits 0 (replicate k CHR ''0'' @ s) = parseDigits 0 s"
  by (induction k) (simp_all add: digitVal_def)

lemma padText_parse:
  assumes "0 \<le> i" "i < 10 ^ w" "0 < w"
  shows "length (padText w i) = w" "parseDigits 0 (padText w i) = Some (nat i)"
proof -
  have "nat i < 10 ^ w" using assms by (simp add: nat_less_iff)
  then show "length (padText w i) = w"
    using natText_length [OF assms(3)] assms(1) by (simp add: padText_def Let_def)
  show "parseDigits 0 (padText w i) = Some (nat i)"
    using assms(1) by (simp add: padText_def Let_def parseDigits_zeros parseDigits_natText)
qed

lemma getyear_padText:
  assumes "0 \<le> y" "y \<le> 9999"
  shows "getyear (padText 4 y @ s) = Some (y, s)"
proof -
  have "length (padText 4 y) = 4" "parseDigits 0 (padText 4 y) = Some (nat y)"
    using padText_parse [of y 4] assms by simp_all
  then show ?thesis using assms by (auto simp: getyear_def parseUnsigned_def)
qed

lemma getnum_padText:
  assumes "0 \<le> i" "i \<le> 99"
  shows "getnum (padText 2 i @ s) b = Some (i, s)"
proof -
  have l: "length (padText 2 i) = 2" and p: "parseDigits 0 (padText 2 i) = Some (nat i)"
    using padText_parse [of i 2] assms by simp_all
  from l obtain a c where ac: "padText 2 i = [a, c]"
    by (cases "padText 2 i") (auto simp: length_Suc_conv)
  with p obtain m n where "digitVal a = Some m" "digitVal c = Some n" "10 * m + n = nat i"
    by (auto split: option.splits)
  with ac assms show ?thesis by (simp add: getnum_def)
qed

lemma field2_padText [simp]:
  "0 \<le> i \<Longrightarrow> i \<le> 99 \<Longrightarrow> lo \<le> i \<Longrightarrow> i \<le> hi \<Longrightarrow> field2 b lo hi (padText 2 i @ s) k = k i s"
  by (simp add: field2_def getnum_padText)

lemma expect_Cons [simp]: "expect c (c # s) k = k s"
  by (simp add: expect_def skipByte_def)

text \<open>The stamps of the years 0 to 9999, which print with four digits.\<close>

definition stampable :: "time \<Rightarrow> bool" where
  "stampable t \<longleftrightarrow> - 62167219200 \<le> t div second \<and> t div second < 253402300800"

lemma stampable_year:
  assumes "stampable t" and "yearSplit 1970 (t div second div 86400) = (y, d)"
  shows "0 \<le> y \<and> y \<le> 9999"
proof -
  define days where "days = t div second div 86400"
  have "86400 * q + r = x \<Longrightarrow> 0 \<le> r \<Longrightarrow> r < 86400 \<Longrightarrow> - 62167219200 \<le> x \<Longrightarrow> x < 253402300800 \<Longrightarrow>
      - 719528 \<le> q \<and> q < 2932897" for q r x :: int by linarith
  from this [OF mult_div_mod_eq, of "t div second"] have b: "- 719528 \<le> days" "days < 2932897"
    using assms(1) unfolding stampable_def days_def by simp_all
  have "daysToYear y + d = days \<and> 0 \<le> d \<and> d < yearLength y"
    using yearSplit_spec [OF assms(2)] by (simp add: days_def daysToYear_def)
  moreover have "daysToYear (y + 1) \<le> - 719528" if "y < 0"
    using daysToYear_mono [of "y + 1" 0] that by (simp add: daysToYear_def)
  moreover have "2932897 \<le> daysToYear y" if "9999 < y"
    using daysToYear_mono [of 10000 y] that by (simp add: daysToYear_def)
  ultimately show ?thesis using b daysToYear_step [of y] by force
qed

definition stampText :: "int \<Rightarrow> int \<Rightarrow> int \<Rightarrow> int \<Rightarrow> int \<Rightarrow> int \<Rightarrow> string" where
  "stampText y mon mday h mi sec =
     padText 4 y @ CHR ''-'' # padText 2 mon @ CHR ''-'' # padText 2 mday @ CHR ''T'' #
     padText 2 h @ CHR '':'' # padText 2 mi @ CHR '':'' # padText 2 sec @ ''Z''"

lemma fraction_zone_Z: "getfraction ''Z'' = (0, ''Z'')" "getzone ''Z'' = Some (0, [])"
  by (simp_all add: getfraction_def getzone_def)

lemma parse_stampText:
  assumes "0 \<le> y" "y \<le> 9999" "1 \<le> mon" "mon \<le> 12" "1 \<le> mday" "mday \<le> 31"
    "mday \<le> monthLengths y ! nat (mon - 1)" "0 \<le> h" "h \<le> 23" "0 \<le> mi" "mi \<le> 59" "0 \<le> sec" "sec \<le> 59"
  shows "parseRFC3339 (stampText y mon mday h mi sec) = Some (instant y mon mday h mi sec 0 0)"
  unfolding stampText_def parseRFC3339_def getyear_padText [OF assms(1,2)]
  using assms by simp (simp add: fraction_zone_Z)

lemma parse_format:
  assumes "stampable t"
  shows "parseRFC3339 (formatRFC3339 t) = Some (t div second * second)"
proof -
  define secs where "secs = t div second"
  define sod where "sod = secs mod 86400"
  obtain y yday where y: "yearSplit 1970 (secs div 86400) = (y, yday)" by fastforce
  obtain mon mday where m: "monthSplit 1 (monthLengths y) yday = (mon, mday)" by fastforce
  have yr: "0 \<le> y" "y \<le> 9999" using stampable_year [OF assms y [unfolded secs_def]] by simp_all
  have yd: "daysToYear y + yday = secs div 86400" "0 \<le> yday" "yday < sum_list (monthLengths y)"
    using yearSplit_spec [OF y] by (simp_all add: sum_monthLengths daysToYear_def)
  note ms = monthSplit_spec [OF m yd(2,3)]
  have mon: "1 \<le> mon" "mon \<le> 12" using ms by (auto simp: monthLengths_def)
  have "\<forall>l \<in> set (monthLengths y). l \<le> 31" "length (monthLengths y) = 12"
    by (simp_all add: monthLengths_def)
  then have short: "monthLengths y ! (mon - 1) \<le> 31" using mon by simp
  have md: "0 \<le> mday" "mday + 1 \<le> 31" "mday < monthLengths y ! (mon - 1)"
    "yday = sum_list (take (mon - 1) (monthLengths y)) + mday"
    using ms mon short by auto
  have nm: "nat (int mon - 1) = mon - 1" using mon by simp
  have sod: "0 \<le> sod" "sod < 86400" by (simp_all add: sod_def)
  have parts: "sod div 3600 * 3600 + sod div 60 mod 60 * 60 + sod mod 60 = sod"
  proof -
    have "60 * q + r = x \<Longrightarrow> 60 * k + m = q \<Longrightarrow> k * 3600 + m * 60 + r = x" for q r x k m :: int by linarith
    from this [OF mult_div_mod_eq mult_div_mod_eq] show ?thesis
      using zdiv_zmult2_eq [of 60 sod 60] by simp
  qed
  have "formatRFC3339 t = stampText y (int mon) (mday + 1) (sod div 3600) (sod div 60 mod 60) (sod mod 60)"
    unfolding formatRFC3339_def stampText_def Let_def secs_def [symmetric] sod_def [symmetric] y prod.case m
    by (simp only: append_Cons append_Nil)
  moreover have "0 \<le> sod div 3600" "sod div 3600 \<le> 23"
    using sod zdiv_mono1 [of sod 86399 3600] by (simp_all add: pos_imp_zdiv_nonneg_iff)
  ultimately have "parseRFC3339 (formatRFC3339 t) =
      Some (instant y (int mon) (mday + 1) (sod div 3600) (sod div 60 mod 60) (sod mod 60) 0 0)"
    using yr mon md nm by (simp add: parse_stampText)
  also have "instant y (int mon) (mday + 1) (sod div 3600) (sod div 60 mod 60) (sod mod 60) 0 0 = secs * second"
  proof -
    have "daysToYear y + sum_list (take (mon - 1) (monthLengths y)) + mday = secs div 86400"
      using yd(1) md(4) by simp
    moreover have "secs div 86400 * 86400 + sod = secs" by (simp add: sod_def)
    moreover have "x = q \<Longrightarrow> q * 86400 + u = v \<Longrightarrow> k + l + n = u \<Longrightarrow> x * 86400 + k + l + n = v"
      for x q u v k l n :: int by simp
    ultimately have "(daysToYear y + sum_list (take (mon - 1) (monthLengths y)) + mday) * 86400 +
        sod div 3600 * 3600 + sod div 60 mod 60 * 60 + sod mod 60 = secs"
      using parts by blast
    then show ?thesis by (simp add: instant_def nm)
  qed
  finally show ?thesis by (simp add: secs_def)
qed

lemma stamp_floor: "t div second * second \<le> t" "t < t div second * second + second"
  by (simp_all add: second_def)

end
