(* ===== verification/Readiness.thy ===== *)
theory Readiness
  imports Termination Hpa Scaler Rfc3339
begin

text \<open>
  The API server as the integrations see it, and \<^verbatim>\<open>CheckWorkloadReadiness\<close> of
  \<^verbatim>\<open>internal/controller/argocd.go\<close>: whether the workloads of a namespace are up. Objects of
  other operators are unstructured documents, listed by kind. A namespace of \<open>None\<close> is a list
  over the whole cluster; the labels of the request are evaluated by the server.
\<close>

record gvk =
  gvk_Group :: string
  gvk_Version :: string
  gvk_Kind :: string

definition listGVK :: "gvk \<Rightarrow> gvk" where
  "listGVK g = g\<lparr>gvk_Kind := gvk_Kind g @ ''List''\<rparr>"

datatype delete_error = NotFound | DeleteFailed string

record 's api =
  api_listDeployments :: "string \<Rightarrow> 's \<Rightarrow> string + replica_workload list"
  api_listStatefulSets :: "string \<Rightarrow> 's \<Rightarrow> string + replica_workload list"
  api_listPods :: "string \<Rightarrow> 's \<Rightarrow> string + pod list"
  api_list :: "gvk \<Rightarrow> string option \<Rightarrow> (string \<times> string) list \<Rightarrow> 's \<Rightarrow> list_error + json list"
  api_patch :: "'s json_patcher"
  api_update :: "json \<Rightarrow> 's \<Rightarrow> (string + json) \<times> 's"
  api_delete :: "json \<Rightarrow> 's \<Rightarrow> delete_error option \<times> 's"

definition GetName :: "json \<Rightarrow> string" where "GetName d = nestedString d [''metadata'', ''name'']"
definition GetNamespace :: "json \<Rightarrow> string" where "GetNamespace d = nestedString d [''metadata'', ''namespace'']"
definition GetKind :: "json \<Rightarrow> string" where "GetKind d = nestedString d [''kind'']"

section \<open>Pods\<close>

text \<open>\<^verbatim>\<open>metav1.GetControllerOf\<close> is the first reference that is marked as the controller.\<close>

fun GetControllerOf :: "OwnerReference list \<Rightarrow> OwnerReference option" where
  "GetControllerOf [] = None"
| "GetControllerOf (r # rs) = (if or_Controller r = Some True then Some r else GetControllerOf rs)"

definition podCountsForReadiness :: "pod \<Rightarrow> bool" where
  "podCountsForReadiness p \<longleftrightarrow>
     (if pod_deletionTimestamp p \<noteq> None then False
      else if pod_phase p = ''Succeeded'' \<or> pod_phase p = ''Failed'' then False
      else (case GetControllerOf (pod_ownerReferences p) of
              None \<Rightarrow> True
            | Some owner \<Rightarrow> or_Kind owner \<notin> {''ReplicaSet'', ''StatefulSet'', ''Job''}))"

fun readyCondition :: "(string \<times> string) list \<Rightarrow> bool" where
  "readyCondition [] = False"
| "readyCondition ((ty, status) # cs) = (if ty = ''Ready'' then status = ''True'' else readyCondition cs)"

definition isPodReady :: "pod \<Rightarrow> bool" where
  "isPodReady p = readyCondition (pod_conditions p)"

section \<open>A namespace\<close>

text \<open>
  One of the three loops: objects that do not count are skipped, the first one that counts
  and is not ready ends the whole check (\<open>None\<close>), and otherwise the loop says whether any
  object so far has counted.
\<close>

fun readyLoop :: "('o \<Rightarrow> bool) \<Rightarrow> ('o \<Rightarrow> bool) \<Rightarrow> 'o list \<Rightarrow> bool \<Rightarrow> bool option" where
  "readyLoop counts isReady [] observed = Some observed"
| "readyLoop counts isReady (x # xs) observed =
     (if \<not> counts x then readyLoop counts isReady xs observed
      else if \<not> isReady x then None
      else readyLoop counts isReady xs True)"

definition replicasWanted :: "replica_workload \<Rightarrow> bool" where
  "replicasWanted d \<longleftrightarrow> derefReplicas (spec_replicas d) \<noteq> 0"

definition replicasReady :: "replica_workload \<Rightarrow> bool" where
  "replicasReady d \<longleftrightarrow> \<not> sint (st_readyReplicas d) < sint (derefReplicas (spec_replicas d))"

definition CheckWorkloadReadiness :: "'s api \<Rightarrow> string \<Rightarrow> 's \<Rightarrow> string + (bool \<times> bool)" where
  "CheckWorkloadReadiness api namespace s =
     (case api_listDeployments api namespace s of
        Inl e \<Rightarrow> Inl e
      | Inr deployments \<Rightarrow>
     (case readyLoop replicasWanted replicasReady deployments False of
        None \<Rightarrow> Inr (False, True)
      | Some observed1 \<Rightarrow>
     (case api_listStatefulSets api namespace s of
        Inl e \<Rightarrow> Inl e
      | Inr statefulsets \<Rightarrow>
     (case readyLoop replicasWanted replicasReady statefulsets observed1 of
        None \<Rightarrow> Inr (False, True)
      | Some observed2 \<Rightarrow>
     (case api_listPods api namespace s of
        Inl e \<Rightarrow> Inl e
      | Inr pods \<Rightarrow>
     (case readyLoop podCountsForReadiness isPodReady pods observed2 of
        None \<Rightarrow> Inr (False, True)
      | Some observed3 \<Rightarrow> Inr (True, observed3)))))))"

lemma readyLoop_eq:
  "readyLoop counts isReady xs observed =
     (if \<forall>x \<in> set xs. counts x \<longrightarrow> isReady x then Some (observed \<or> (\<exists>x \<in> set xs. counts x)) else None)"
  by (induction counts isReady xs observed rule: readyLoop.induct) auto

section \<open>Properties\<close>

text \<open>
  C25: When the lists succeed, a namespace is ready exactly if every Deployment and StatefulSet
  that wants replicas has them ready and every live pod that none of the built-in controllers
  owns is ready; it was observed exactly if there was anything to judge by. A namespace with
  nothing in it is ready but not observed.
\<close>

theorem CheckWorkloadReadiness_exact:
  assumes "api_listDeployments api ns s = Inr ds" and "api_listStatefulSets api ns s = Inr ss"
    and "api_listPods api ns s = Inr ps"
  shows "CheckWorkloadReadiness api ns s = Inr
    ((\<forall>d \<in> set (ds @ ss). derefReplicas (spec_replicas d) \<noteq> 0 \<longrightarrow>
        sint (derefReplicas (spec_replicas d)) \<le> sint (st_readyReplicas d)) \<and>
     (\<forall>p \<in> set ps. podCountsForReadiness p \<longrightarrow> isPodReady p),
     (\<exists>d \<in> set (ds @ ss). derefReplicas (spec_replicas d) \<noteq> 0) \<or> (\<exists>p \<in> set ps. podCountsForReadiness p))"
proof -
  let ?up = "\<lambda>xs. \<forall>d \<in> set xs. replicasWanted d \<longrightarrow> replicasReady d"
  have "CheckWorkloadReadiness api ns s = Inr
      (?up ds \<and> ?up ss \<and> (\<forall>p \<in> set ps. podCountsForReadiness p \<longrightarrow> isPodReady p),
       (\<exists>d \<in> set ds. replicasWanted d) \<or> (\<exists>d \<in> set ss. replicasWanted d) \<or> (\<exists>p \<in> set ps. podCountsForReadiness p))"
    unfolding CheckWorkloadReadiness_def assms sum.case readyLoop_eq
    by (cases "?up ds"; cases "?up ss"; cases "\<forall>p \<in> set ps. podCountsForReadiness p \<longrightarrow> isPodReady p") auto
  then show ?thesis by (simp add: replicasWanted_def replicasReady_def not_less ball_Un bex_Un conj_assoc disj_assoc)
qed

definition emptyApi :: "'s api" where
  "emptyApi = \<lparr>api_listDeployments = (\<lambda>ns s. Inr []), api_listStatefulSets = (\<lambda>ns s. Inr []),
     api_listPods = (\<lambda>ns s. Inr []), api_list = (\<lambda>g ns ls s. Inr []), api_patch = mergingServer,
     api_update = (\<lambda>d s. (Inr d, s)), api_delete = (\<lambda>d s. (None, s))\<rparr>"

definition databasePod :: "string \<Rightarrow> pod" where
  "databasePod status = \<lparr>pod_name = ''db-1'', pod_phase = ''Running'', pod_deletionTimestamp = None,
     pod_deletionGracePeriodSeconds = None,
     pod_ownerReferences = [\<lparr>or_Kind = ''Cluster'', or_Controller = Some True\<rparr>],
     pod_conditions = [(''Initialized'', ''True''), (''Ready'', status)]\<rparr>"

theorem CheckWorkloadReadiness_exact_witness:
  "CheckWorkloadReadiness (emptyApi\<lparr>api_listPods := (\<lambda>ns s. Inr [databasePod ''False''])\<rparr>) ''shop'' () = Inr (False, True) \<and>
   CheckWorkloadReadiness emptyApi ''shop'' () = Inr (True, False)"
  using CheckWorkloadReadiness_exact [of "emptyApi\<lparr>api_listPods := (\<lambda>ns s. Inr [databasePod ''False''])\<rparr>" "''shop''" "()" "[]" "[]" "[databasePod ''False'']"]
    CheckWorkloadReadiness_exact [of emptyApi "''shop''" "()" "[]" "[]" "[]"]
  by (simp add: emptyApi_def databasePod_def podCountsForReadiness_def isPodReady_def)

end
