(* ===== verification/Warmup.thy ===== *)
theory Warmup
  imports Readiness Api_Types
begin

text \<open>
  What the ArgoCD and the FluxCD integration share: an object of a GitOps controller is held
  down under a label, put into a warming-up state with a time stamp when the schedule turns,
  and released when its workloads are ready or the timeout has passed. The two files of the
  operator repeat this code; here the parts that are the same are defined once, and the
  locale \<open>gitops\<close> says what a downscale of either may do to an object.
\<close>

section \<open>Patches\<close>

definition markDown :: "(string \<times> json) list \<Rightarrow> string \<Rightarrow> objectPatch" where
  "markDown spec scheduleName =
     emptyPatch\<lparr>SetLabels := [(StateLabel, StateDown), (ManagedByLabel, scheduleName)],
                RemoveAnnotations := [WarmingUpSinceAnnotation], Spec := spec\<rparr>"

definition markWarmingUp :: "string \<Rightarrow> time \<Rightarrow> objectPatch" where
  "markWarmingUp scheduleName now =
     emptyPatch\<lparr>SetLabels := [(StateLabel, StateWarmingUp), (ManagedByLabel, scheduleName)],
                SetAnnotations := [(WarmingUpSinceAnnotation, formatRFC3339 now)]\<rparr>"

definition unmark :: "(string \<times> json) list \<Rightarrow> objectPatch" where
  "unmark spec =
     emptyPatch\<lparr>RemoveAnnotations := [WarmingUpSinceAnnotation],
                RemoveLabels := [StateLabel, ManagedByLabel], Spec := spec\<rparr>"

definition managedByOther :: "string \<Rightarrow> json \<Rightarrow> bool" where
  "managedByOther scheduleName obj \<longleftrightarrow>
     (case GetLabels obj ManagedByLabel of None \<Rightarrow> False | Some managedBy \<Rightarrow> managedBy \<noteq> scheduleName)"

definition inState :: "string \<Rightarrow> string \<Rightarrow> json \<Rightarrow> bool" where
  "inState st scheduleName obj \<longleftrightarrow>
     mget (GetLabels obj) StateLabel = st \<and> mget (GetLabels obj) ManagedByLabel = scheduleName"

definition warmingPatch :: "string \<Rightarrow> time \<Rightarrow> json \<Rightarrow> objectPatch option" where
  "warmingPatch scheduleName now obj =
     (if managedByOther scheduleName obj then None
      else if inState StateWarmingUp scheduleName obj then None
      else Some (markWarmingUp scheduleName now))"

text \<open>
  An operation on one object: nothing and \<open>Inr True\<close> for skipped, or a patch. The object in
  hand afterwards is the server's answer.
\<close>

definition patchIf :: "'s api \<Rightarrow> objectPatch option \<Rightarrow> json \<Rightarrow> 's \<Rightarrow> (string + bool) \<times> json \<times> 's" where
  "patchIf api po obj s =
     (case po of
        None \<Rightarrow> (Inr True, obj, s)
      | Some p \<Rightarrow>
          (case applyMergePatch (api_patch api) obj p s of
             (Some e, obj', s') \<Rightarrow> (Inl e, obj', s')
           | (None, obj', s') \<Rightarrow> (Inr False, obj', s')))"

section \<open>The warm-up of one object\<close>

text \<open>A missing or malformed time stamp counts as now, so the wait starts over.\<close>

definition warmingUpSince :: "json \<Rightarrow> time \<Rightarrow> time" where
  "warmingUpSince obj now =
     (case GetAnnotations obj WarmingUpSinceAnnotation of
        None \<Rightarrow> now
      | Some ts \<Rightarrow> (case parseRFC3339 ts of Some parsed \<Rightarrow> parsed | None \<Rightarrow> now))"

definition warmupTimedOut :: "json \<Rightarrow> time \<Rightarrow> duration \<Rightarrow> bool" where
  "warmupTimedOut obj now warmupTimeout \<longleftrightarrow> timeSub now (warmingUpSince obj now) \<ge> warmupTimeout"

definition warmupTimeoutOf :: "duration option \<Rightarrow> duration" where
  "warmupTimeoutOf d = (case d of None \<Rightarrow> DefaultWarmupTimeout | Some t \<Rightarrow> t)"

text \<open>
  The end of the wait: on timeout, or when the namespace to check (if there is one) is ready.
  The first component says that the object is still warming up.
\<close>

definition warmupReady :: "'s api \<Rightarrow> string option \<Rightarrow> bool \<Rightarrow> 's \<Rightarrow> string + bool" where
  "warmupReady api ns timedOut s =
     (if timedOut then Inr True
      else
        (case ns of
           None \<Rightarrow> Inr False
         | Some n \<Rightarrow>
             (case CheckWorkloadReadiness api n s of
                Inl e \<Rightarrow> Inl e
              | Inr (ready, observed) \<Rightarrow> Inr ready)))"

definition finishWarmup ::
  "'s api \<Rightarrow> objectPatch \<Rightarrow> string option \<Rightarrow> bool \<Rightarrow> json \<Rightarrow> 's \<Rightarrow> bool \<times> json \<times> 's" where
  "finishWarmup api completion ns timedOut obj s =
     (case warmupReady api ns timedOut s of
        Inr True \<Rightarrow>
          (case applyMergePatch (api_patch api) obj completion s of
             (Some e, obj', s') \<Rightarrow> (True, obj', s')
           | (None, obj', s') \<Rightarrow> (False, obj', s'))
      | _ \<Rightarrow> (True, obj, s))"

text \<open>A handler over all objects; the objects in hand are kept for the statements below.\<close>

fun driveAll ::
  "(json \<Rightarrow> 's \<Rightarrow> bool \<times> json \<times> 's) \<Rightarrow> json list \<Rightarrow> 's \<Rightarrow> bool \<times> json list \<times> 's" where
  "driveAll one [] s = (False, [], s)"
| "driveAll one (obj # rest) s =
     (case one obj s of
        (warming, obj', s1) \<Rightarrow>
          (case driveAll one rest s1 of
             (warmingRest, rest', s2) \<Rightarrow> (warming \<or> warmingRest, obj' # rest', s2)))"

fun forAll :: "(json \<Rightarrow> 's \<Rightarrow> (string + bool) \<times> json \<times> 's) \<Rightarrow> json list \<Rightarrow> 's \<Rightarrow> json list \<times> 's" where
  "forAll one [] s = ([], s)"
| "forAll one (obj # rest) s =
     (case one obj s of
        (_, obj', s1) \<Rightarrow> (case forAll one rest s1 of (rest', s2) \<Rightarrow> (obj' # rest', s2)))"

section \<open>What the server promises\<close>

definition sameIntegration :: "json \<Rightarrow> json \<Rightarrow> bool" where
  "sameIntegration a b \<longleftrightarrow>
     stringMeta a \<and> GetAnnotations a = GetAnnotations b \<and> GetLabels a = GetLabels b \<and>
     (\<forall>k ks. k \<noteq> ''metadata'' \<and> k \<noteq> ''status'' \<longrightarrow> nestedField a (k # ks) = nestedField b (k # ks)) \<and>
     GetName a = GetName b \<and> GetNamespace a = GetNamespace b"

abbreviation integrationServer :: "'s api \<Rightarrow> bool" where
  "integrationServer api \<equiv> patchMerges (api_patch api) (\<lambda>patch d. mergePatch d patch) sameIntegration"

lemma patched_object:
  assumes "integrationServer api" and "stringMeta obj"
    and "applyMergePatch (api_patch api) obj p s = (None, obj', s')"
  shows "stringMeta obj'"
    "GetAnnotations obj' = updKeys (SetAnnotations p) (RemoveAnnotations p) (GetAnnotations obj)"
    "GetLabels obj' = updKeys (SetLabels p) (RemoveLabels p) (GetLabels obj)"
    "k \<noteq> ''metadata'' \<Longrightarrow> k \<noteq> ''status'' \<Longrightarrow> nestedField obj' (k # ks) = nestedField (mergePatch obj (build p)) (k # ks)"
    "GetName obj' = GetName obj" "GetNamespace obj' = GetNamespace obj"
proof -
  from assms(3) have "api_patch api obj (build p) s = (Inr obj', s')"
    by (auto simp: applyMergePatch_def split: prod.splits sum.splits)
  with assms(1) have same: "sameIntegration obj' (mergePatch obj (build p))" by (rule patchMergesD)
  then show "stringMeta obj'" by (simp add: sameIntegration_def)
  show "GetAnnotations obj' = updKeys (SetAnnotations p) (RemoveAnnotations p) (GetAnnotations obj)"
    "GetLabels obj' = updKeys (SetLabels p) (RemoveLabels p) (GetLabels obj)"
    using same GetAnnotations_build [OF assms(2), of p] GetLabels_build [OF assms(2), of p]
    by (simp_all add: sameIntegration_def)
  show "nestedField obj' (k # ks) = nestedField (mergePatch obj (build p)) (k # ks)"
    if "k \<noteq> ''metadata''" "k \<noteq> ''status''" using same that unfolding sameIntegration_def by blast
  show "GetName obj' = GetName obj" "GetNamespace obj' = GetNamespace obj"
    using same build_frame_meta [of "''name''" obj p "[]"] build_frame_meta [of "''namespace''" obj p "[]"]
    by (simp_all add: sameIntegration_def GetName_def GetNamespace_def nestedString_def del: nestedField.simps)
qed

lemma patchIf_cases:
  assumes "patchIf api po obj s = (r, obj', s')"
  obtains (skipped) "po = None" "r = Inr True" "obj' = obj" "s' = s"
    | (failed) p e where "po = Some p" "r = Inl e" "obj' = obj"
    | (patched) p where "po = Some p" "r = Inr False" "applyMergePatch (api_patch api) obj p s = (None, obj', s')"
  using assms
  by (auto simp: patchIf_def applyMergePatch_def split: option.splits prod.splits sum.splits)

section \<open>Phases\<close>

text \<open>
  What a schedule sees of an object. The warming-up phase keeps the time stamp, so that the
  length of the wait is part of the abstract state.
\<close>

datatype phase = Free | Foreign string | HeldDown | WarmingUp "string option" | Limbo

definition phaseOf :: "string \<Rightarrow> strmap \<Rightarrow> strmap \<Rightarrow> phase" where
  "phaseOf sched labels annotations =
     (case labels ManagedByLabel of
        None \<Rightarrow> Free
      | Some m \<Rightarrow>
          if m \<noteq> sched then Foreign m
          else if labels StateLabel = Some StateDown then HeldDown
          else if labels StateLabel = Some StateWarmingUp then WarmingUp (annotations WarmingUpSinceAnnotation)
          else Limbo)"

abbreviation phaseFor :: "string \<Rightarrow> json \<Rightarrow> phase" where
  "phaseFor sched obj \<equiv> phaseOf sched (GetLabels obj) (GetAnnotations obj)"

lemma state_values [simp]: "StateDown \<noteq> StateWarmingUp" "StateWarmingUp \<noteq> StateDown" "StateDown \<noteq> []" "StateWarmingUp \<noteq> []"
  "[] \<noteq> StateDown" "[] \<noteq> StateWarmingUp"
  by (simp_all add: StateDown_def StateWarmingUp_def)

lemma managedByOther_iff: "managedByOther sched obj \<longleftrightarrow> (\<exists>m. phaseFor sched obj = Foreign m)"
  by (auto simp: managedByOther_def phaseOf_def split: option.splits)

lemma inState_phase:
  assumes "sched \<noteq> []"
  shows "inState StateDown sched obj \<longleftrightarrow> phaseFor sched obj = HeldDown"
    and "inState StateWarmingUp sched obj \<longleftrightarrow> (\<exists>ts. phaseFor sched obj = WarmingUp ts)"
  using assms by (auto simp: inState_def phaseOf_def mget_def split: option.splits)

lemma phase_after:
  "phaseOf sched (updKeys (SetLabels (markDown spec sched)) (RemoveLabels (markDown spec sched)) ls)
     (updKeys (SetAnnotations (markDown spec sched)) (RemoveAnnotations (markDown spec sched)) as) = HeldDown"
  "phaseOf sched (updKeys (SetLabels (markWarmingUp sched now)) (RemoveLabels (markWarmingUp sched now)) ls)
     (updKeys (SetAnnotations (markWarmingUp sched now)) (RemoveAnnotations (markWarmingUp sched now)) as) =
     WarmingUp (Some (formatRFC3339 now))"
  "phaseOf sched (updKeys (SetLabels (unmark spec)) (RemoveLabels (unmark spec)) ls)
     (updKeys (SetAnnotations (unmark spec)) (RemoveAnnotations (unmark spec)) as) = Free"
  by (simp_all add: phaseOf_def markDown_def markWarmingUp_def unmark_def emptyPatch_def)

text \<open>A patch of one field of the spec leaves the others alone.\<close>

lemma spec_after_merge:
  assumes "Spec p = [(f, JBool b)]"
  shows "nestedField (mergePatch d (build p)) (''spec'' # k # ks) =
    (if k = f then nestedField (JBool b) ks else nestedField d (''spec'' # k # ks))"
proof -
  have "nestedField (mergePatch d (build p)) (''spec'' # k # ks) =
      nestedField (mergePatch (orNull (nestedField d [''spec''])) (JObj [(f, JBool b)])) (k # ks)"
    by (simp add: nestedField_top_merge assms del: nestedField.simps)
  also have "\<dots> = (if k = f then nestedField (JBool b) ks
      else case map_of (members (orNull (nestedField d [''spec'']))) k of None \<Rightarrow> None | Some c \<Rightarrow> nestedField c ks)"
    by (simp add: nestedField_Cons members_def del: nestedField.simps(2))
  also have "(case map_of (members (orNull (nestedField d [''spec'']))) k of None \<Rightarrow> None | Some c \<Rightarrow> nestedField c ks) =
      nestedField d (''spec'' # k # ks)"
    by (simp add: nestedField_Cons [of d] nestedField_Cons nestedField.simps(1) members_def
        del: nestedField.simps(2) split: option.split)
  finally show ?thesis .
qed

section \<open>The contract of an integration\<close>

text \<open>
  A downscale decides on a patch for an object or skips it. It skips what another schedule
  holds; what it patches, it marks as down; and it skips nothing else but what it holds down
  already or what a user has stopped.
\<close>

locale gitops =
  fixes downPatch :: "string \<Rightarrow> json \<Rightarrow> objectPatch option"
    and downSpec doneSpec :: "(string \<times> json) list"
    and userHeld :: "json \<Rightarrow> bool"
  assumes down_foreign: "managedByOther sched obj \<Longrightarrow> downPatch sched obj = None"
    and down_marks: "downPatch sched obj = Some p \<Longrightarrow> p = markDown downSpec sched"
    and down_skips: "sched \<noteq> [] \<Longrightarrow> downPatch sched obj = None \<Longrightarrow>
      managedByOther sched obj \<or> inState StateDown sched obj \<or> userHeld obj"
begin

text \<open>The phase after a downscale that met no error.\<close>

lemma down_phase:
  assumes "integrationServer api" and "stringMeta obj" and "sched \<noteq> []" and "\<not> userHeld obj"
    and "patchIf api (downPatch sched obj) obj s = (Inr sk, obj', s')"
  shows "phaseFor sched obj' =
    (case phaseFor sched obj of Foreign m \<Rightarrow> Foreign m | _ \<Rightarrow> HeldDown)"
  using assms(5)
proof (cases rule: patchIf_cases)
  case skipped
  with down_skips [OF assms(3), of obj] assms(3,4) show ?thesis
    by (auto simp: managedByOther_iff inState_phase)
next
  case (patched p)
  then have "\<not> managedByOther sched obj" using down_foreign by fastforce
  moreover have "phaseFor sched obj' = HeldDown"
    using patched_object(2,3) [OF assms(1,2) patched(3)] down_marks [OF patched(1)]
    by (simp add: phase_after)
  ultimately show ?thesis by (auto simp: managedByOther_iff split: phase.split)
qed simp

text \<open>An object held by another schedule is the same object after the downscale.\<close>

lemma down_idle: "managedByOther sched obj \<Longrightarrow> patchIf api (downPatch sched obj) obj s = (Inr True, obj, s)"
  by (simp add: patchIf_def down_foreign)

text \<open>A night and a morning leave no trace in the metadata of an object nobody held.\<close>

lemma cycle:
  assumes "integrationServer api" and "stringMeta obj"
    and free: "GetLabels obj ManagedByLabel = None" "GetLabels obj StateLabel = None"
      "GetAnnotations obj WarmingUpSinceAnnotation = None"
    and down: "patchIf api (downPatch sched obj) obj s = (Inr False, obj1, s1)"
    and warm: "patchIf api (warmingPatch sched now obj1) obj1 s2 = (Inr sk, obj2, s3)"
    and finish: "applyMergePatch (api_patch api) obj2 (unmark doneSpec) s4 = (None, obj3, s5)"
  shows "GetLabels obj3 = GetLabels obj" "GetAnnotations obj3 = GetAnnotations obj"
    "stringMeta obj3" "phaseFor sched obj1 = HeldDown" "phaseFor sched obj2 = WarmingUp (Some (formatRFC3339 now))"
    "sk = False"
proof -
  from down obtain p where p: "downPatch sched obj = Some p"
    "applyMergePatch (api_patch api) obj p s = (None, obj1, s1)"
    by (cases rule: patchIf_cases) auto
  note o1 = patched_object [OF assms(1,2) p(2), unfolded down_marks [OF p(1)]]
  show ph1: "phaseFor sched obj1 = HeldDown" by (simp add: o1 phase_after)
  have "\<not> managedByOther sched obj1" by (auto simp: managedByOther_iff ph1)
  moreover have "\<not> inState StateWarmingUp sched obj1"
    by (simp add: inState_def o1(3) markDown_def emptyPatch_def)
  ultimately have w: "warmingPatch sched now obj1 = Some (markWarmingUp sched now)"
    by (simp add: warmingPatch_def)
  with warm have sk: "sk = False" and a: "applyMergePatch (api_patch api) obj1 (markWarmingUp sched now) s2 = (None, obj2, s3)"
    by (cases rule: patchIf_cases; simp)+
  show "sk = False" by (rule sk)
  note o2 = patched_object [OF assms(1) o1(1) a]
  show "phaseFor sched obj2 = WarmingUp (Some (formatRFC3339 now))" by (simp add: o2 phase_after)
  note o3 = patched_object [OF assms(1) o2(1) finish]
  show "stringMeta obj3" by (rule o3(1))
  show "GetLabels obj3 = GetLabels obj" "GetAnnotations obj3 = GetAnnotations obj"
    using free by (auto simp: o3 o2 o1 markDown_def markWarmingUp_def unmark_def emptyPatch_def fun_eq_iff)
qed

end

section \<open>The wait ends\<close>

text \<open>
  A stamp is cut to the second, so a wait that started at \<open>t0\<close> ends at \<open>t0 + timeout\<close> or up
  to a second earlier, whatever the readiness of the workloads.
\<close>

lemma timed_out:
  assumes "GetAnnotations obj WarmingUpSinceAnnotation = Some (formatRFC3339 t0)" and "stampable t0"
    and "t0 + timeout \<le> now" and "timeout \<le> maxDuration"
  shows "warmupTimedOut obj now timeout"
proof -
  have "warmingUpSince obj now \<le> t0"
    using assms(1,2) stamp_floor(1) [of t0] by (simp add: warmingUpSince_def parse_format)
  then show ?thesis using assms(3,4) by (simp add: warmupTimedOut_def timeSub_ge)
qed

lemma not_timed_out:
  assumes "GetAnnotations obj WarmingUpSinceAnnotation = Some (formatRFC3339 t0)" and "stampable t0"
    and "now < t0 - second + timeout" and "now - t0 < maxDuration - second" and "minDuration \<le> timeout - 1"
  shows "\<not> warmupTimedOut obj now timeout"
proof -
  have "t0 - second < warmingUpSince obj now"
    using assms(1,2) stamp_floor(2) [of t0] by (simp add: warmingUpSince_def parse_format)
  then show ?thesis using assms(3-5) by (auto simp: warmupTimedOut_def timeSub_def)
qed

lemma finish_on_timeout:
  "finishWarmup api completion ns True obj s =
     (case applyMergePatch (api_patch api) obj completion s of
        (Some e, obj', s') \<Rightarrow> (True, obj', s')
      | (None, obj', s') \<Rightarrow> (False, obj', s'))"
  by (simp add: finishWarmup_def warmupReady_def)

lemma finishWarmup_done:
  assumes "finishWarmup api completion ns t obj s = (False, obj', s')"
  shows "applyMergePatch (api_patch api) obj completion s = (None, obj', s')"
  using assms by (auto simp: finishWarmup_def split: sum.splits bool.splits prod.splits option.splits)

text \<open>What one step establishes between an object and what it leaves of it, the drive establishes for all.\<close>

lemma driveAll_done:
  assumes "driveAll one objs s = (False, objs', s')"
    and "\<And>obj s obj' s'. obj \<in> set objs \<Longrightarrow> one obj s = (False, obj', s') \<Longrightarrow> P obj obj'"
  shows "list_all2 P objs objs'"
  using assms
proof (induction objs arbitrary: s objs' s')
  case (Cons obj rest)
  obtain w obj1 s1 where one: "one obj s = (w, obj1, s1)" by (cases "one obj s") auto
  obtain wr rest1 s2 where r: "driveAll one rest s1 = (wr, rest1, s2)" by (cases "driveAll one rest s1") auto
  from Cons.prems(1) one r have e: "\<not> w" "\<not> wr" "objs' = obj1 # rest1" by auto
  have "P obj obj1" using Cons.prems(2) one e(1) by (metis list.set_intros(1))
  moreover have "list_all2 P rest rest1"
    using Cons.IH [of s1 rest1 s2] r e(2) Cons.prems(2) by auto
  ultimately show ?case using e(3) by simp
qed simp

lemma sampleApi_merges: "integrationServer (emptyApi :: 's api)"
  by (auto simp: patchMerges_def emptyApi_def mergingServer_def sameIntegration_def split: if_splits)

end
