(* ===== verification/Argocd.thy ===== *)
theory Argocd
  imports Warmup
begin

text \<open>
  \<^verbatim>\<open>internal/controller/argocd.go\<close>: the Applications of ArgoCD whose destination is a managed
  namespace are labelled as down before the workloads are scaled, and warm up after. The
  handlers log errors and go on; the log is left out, the events are kept.
\<close>

definition argoCDAppGVK :: gvk where
  "argoCDAppGVK = \<lparr>gvk_Group = ''argoproj.io'', gvk_Version = ''v1alpha1'', gvk_Kind = ''Application''\<rparr>"

definition destinationPath :: "string list" where
  "destinationPath = [''spec'', ''destination'', ''namespace'']"

text \<open>An Application without a destination namespace, or with one that is not text, matches nothing.\<close>

definition argoMatches :: "string list \<Rightarrow> json \<Rightarrow> bool" where
  "argoMatches targetNamespaces app \<longleftrightarrow>
     (case nestedField app destinationPath of
        Some (JStr destNS) \<Rightarrow> destNS \<in> set targetNamespaces
      | _ \<Rightarrow> False)"

definition DiscoverArgoCDApps ::
  "'s api \<Rightarrow> ArgoCDConfig \<Rightarrow> string list \<Rightarrow> 's \<Rightarrow> string + json list" where
  "DiscoverArgoCDApps api cfg targetNamespaces s =
     (let ns = (if argo_Namespace cfg = [] then DefaultArgoCDNamespace else argo_Namespace cfg) in
      case api_list api (listGVK argoCDAppGVK) (Some ns) [] s of
        Inl NoMatch \<Rightarrow> Inr []
      | Inl (ListFailed e) \<Rightarrow> Inl e
      | Inr items \<Rightarrow> Inr (filter (argoMatches targetNamespaces) items))"

section \<open>One Application\<close>

definition argoDownPatch :: "string \<Rightarrow> json \<Rightarrow> objectPatch option" where
  "argoDownPatch scheduleName app =
     (if managedByOther scheduleName app then None
      else if inState StateDown scheduleName app then None
      else Some (markDown [] scheduleName))"

definition LabelArgoCDAppDown :: "'s api \<Rightarrow> json \<Rightarrow> string \<Rightarrow> 's \<Rightarrow> (string + bool) \<times> json \<times> 's" where
  "LabelArgoCDAppDown api app scheduleName s = patchIf api (argoDownPatch scheduleName app) app s"

definition argoRemovePatch :: "string \<Rightarrow> json \<Rightarrow> objectPatch option" where
  "argoRemovePatch scheduleName app =
     (case GetLabels app ManagedByLabel of
        None \<Rightarrow> None
      | Some managedBy \<Rightarrow>
          if managedBy \<noteq> scheduleName then None
          else Some (emptyPatch\<lparr>RemoveLabels := [StateLabel, ManagedByLabel]\<rparr>))"

definition RemoveArgoCDAppLabels :: "'s api \<Rightarrow> json \<Rightarrow> string \<Rightarrow> 's \<Rightarrow> (string + bool) \<times> json \<times> 's" where
  "RemoveArgoCDAppLabels api app scheduleName s = patchIf api (argoRemovePatch scheduleName app) app s"

definition LabelArgoCDAppWarmingUp ::
  "'s api \<Rightarrow> json \<Rightarrow> string \<Rightarrow> time \<Rightarrow> 's \<Rightarrow> (string + bool) \<times> json \<times> 's" where
  "LabelArgoCDAppWarmingUp api app scheduleName now s = patchIf api (warmingPatch scheduleName now app) app s"

definition CompleteArgoCDWarmup :: "'s api \<Rightarrow> json \<Rightarrow> 's \<Rightarrow> string option \<times> json \<times> 's" where
  "CompleteArgoCDWarmup api app s = applyMergePatch (api_patch api) app (unmark []) s"

section \<open>All Applications of a schedule\<close>

definition discoveryFailed :: "bool \<Rightarrow> string \<Rightarrow> string \<Rightarrow> string \<Rightarrow> string \<Rightarrow> string \<Rightarrow> observation list" where
  "discoveryFailed recorder scheduleObj reason action text e =
     (if recorder then [EventRecorded scheduleObj ''Warning'' reason action (text @ e)] else [])"

definition labelArgoCDAppsDown ::
  "'s api \<Rightarrow> bool \<Rightarrow> string \<Rightarrow> ArgoCDConfig \<Rightarrow> string \<Rightarrow> string list \<Rightarrow> 's \<Rightarrow> json list \<times> observation list \<times> 's" where
  "labelArgoCDAppsDown api recorder scheduleObj argoCDSpec scheduleName namespaces s =
     (case DiscoverArgoCDApps api argoCDSpec namespaces s of
        Inl e \<Rightarrow> ([], discoveryFailed recorder scheduleObj ''ArgoCDDiscoveryFailed'' ''ArgoCD''
                       ''Failed to discover ArgoCD apps: '' e, s)
      | Inr apps \<Rightarrow>
          (case forAll (\<lambda>app. LabelArgoCDAppDown api app scheduleName) apps s of
             (apps', s') \<Rightarrow> (apps', [], s')))"

definition argoDestination :: "json \<Rightarrow> string option" where
  "argoDestination app =
     (let destNS = nestedString app destinationPath in if destNS = [] then None else Some destNS)"

text \<open>One turn of the loop, by the state label of the Application alone.\<close>

definition argoWarmupOne ::
  "'s api \<Rightarrow> string \<Rightarrow> duration \<Rightarrow> time \<Rightarrow> json \<Rightarrow> 's \<Rightarrow> bool \<times> json \<times> 's" where
  "argoWarmupOne api scheduleName warmupTimeout now app s =
     (let st = mget (GetLabels app) StateLabel in
      if st = StateDown then
        (case LabelArgoCDAppWarmingUp api app scheduleName now s of (r, app', s') \<Rightarrow> (True, app', s'))
      else if st = StateWarmingUp then
        finishWarmup api (unmark []) (argoDestination app) (warmupTimedOut app now warmupTimeout) app s
      else (False, app, s))"

definition handleArgoCDWarmup ::
  "'s api \<Rightarrow> bool \<Rightarrow> string \<Rightarrow> ArgoCDConfig \<Rightarrow> string \<Rightarrow> string list \<Rightarrow> time \<Rightarrow> 's \<Rightarrow>
     bool \<times> json list \<times> observation list \<times> 's" where
  "handleArgoCDWarmup api recorder scheduleObj argoCDSpec scheduleName namespaces now s =
     (case DiscoverArgoCDApps api argoCDSpec namespaces s of
        Inl e \<Rightarrow> (False, [], discoveryFailed recorder scheduleObj ''ArgoCDDiscoveryFailed'' ''ArgoCD''
                       ''Failed to discover ArgoCD apps: '' e, s)
      | Inr apps \<Rightarrow>
          (case driveAll (argoWarmupOne api scheduleName (warmupTimeoutOf (argo_WarmupTimeout argoCDSpec)) now) apps s of
             (warming, apps', s') \<Rightarrow> (warming, apps', [], s')))"

interpretation argo: gitops argoDownPatch "[]" "[]" "\<lambda>_. False"
  by unfold_locales (auto simp: argoDownPatch_def split: if_splits)

section \<open>Properties\<close>

text \<open>
  C22: An Application that carries none of LightsOut's marks goes through down, warming-up and
  released, and then has exactly the labels and annotations it had, when the server answers
  each patch with the merged object. The stamp of the warming-up state is the current time.
\<close>

theorem argo_cycle_roundtrip:
  assumes "integrationServer api" and "stringMeta app"
    and "GetLabels app ManagedByLabel = None" and "GetLabels app StateLabel = None"
    and "GetAnnotations app WarmingUpSinceAnnotation = None"
    and "LabelArgoCDAppDown api app sched s = (Inr False, app1, s1)"
    and "LabelArgoCDAppWarmingUp api app1 sched now s2 = (Inr sk, app2, s3)"
    and "CompleteArgoCDWarmup api app2 s4 = (None, app3, s5)"
  shows "phaseFor sched app1 = HeldDown \<and> phaseFor sched app2 = WarmingUp (Some (formatRFC3339 now)) \<and>
    GetLabels app3 = GetLabels app \<and> GetAnnotations app3 = GetAnnotations app"
  using argo.cycle [OF assms(1-5) assms(6) [unfolded LabelArgoCDAppDown_def]
      assms(7) [unfolded LabelArgoCDAppWarmingUp_def] assms(8) [unfolded CompleteArgoCDWarmup_def]]
  by simp

definition sampleApp :: json where
  "sampleApp = JObj
     [(''metadata'', JObj [(''annotations'', JObj [(''team'', JStr ''a'')]), (''labels'', JObj [(''app'', JStr ''web'')]),
        (''name'', JStr ''web'')]),
      (''spec'', JObj [(''destination'', JObj [(''namespace'', JStr ''shop'')])])]"

definition appDown :: json where "appDown = mergePatch sampleApp (build (markDown [] ''night''))"
definition appWarming :: json where "appWarming = mergePatch appDown (build (markWarmingUp ''night'' (100 * second)))"
definition appDone :: json where "appDone = mergePatch appWarming (build (unmark []))"

lemma sampleApp_facts:
  "stringMeta sampleApp" "GetLabels sampleApp ManagedByLabel = None" "GetLabels sampleApp StateLabel = None"
  "GetAnnotations sampleApp WarmingUpSinceAnnotation = None"
  "stringMeta appDown" "stringMeta appWarming" "stringMeta appDone"
  "argoDownPatch ''night'' sampleApp = Some (markDown [] ''night'')"
  "warmingPatch ''night'' (100 * second) appDown = Some (markWarmingUp ''night'' (100 * second))"
  by code_simp+

lemma stamp100: "formatRFC3339 (100 * second) = ''1970-01-01T00:01:40Z''"
  by code_simp

lemma appWarming_state:
  "mget (GetLabels appWarming) StateLabel = StateWarmingUp"
  "GetAnnotations appWarming WarmingUpSinceAnnotation = Some (formatRFC3339 (100 * second))"
  "phaseFor ''night'' appWarming = WarmingUp (Some (formatRFC3339 (100 * second)))"
  unfolding appWarming_def markWarmingUp_def stamp100 by code_simp+

lemma sampleApp_runs:
  "LabelArgoCDAppDown emptyApi sampleApp ''night'' () = (Inr False, appDown, ())"
  "LabelArgoCDAppWarmingUp emptyApi appDown ''night'' (100 * second) () = (Inr False, appWarming, ())"
  "CompleteArgoCDWarmup emptyApi appWarming () = (None, appDone, ())"
  using sampleApp_facts
  by (simp_all add: LabelArgoCDAppDown_def LabelArgoCDAppWarmingUp_def CompleteArgoCDWarmup_def patchIf_def
      applyMergePatch_def emptyApi_def mergingServer_def appDown_def appWarming_def appDone_def)

theorem argo_cycle_roundtrip_witness:
  "GetLabels appDone = GetLabels sampleApp \<and> GetAnnotations appDone = GetAnnotations sampleApp \<and>
   phaseFor ''night'' appWarming = WarmingUp (Some ''1970-01-01T00:01:40Z'')"
proof -
  show ?thesis
    using argo_cycle_roundtrip [OF sampleApi_merges sampleApp_facts(1-4) sampleApp_runs] by (simp add: stamp100)
qed

text \<open>
  C23: A warm-up ends. From the timeout on, counted from the instant that was stamped, the
  handler releases the Application whether or not its workloads are ready; more than a second
  before it, it does so only if the destination namespace is known and ready.
\<close>

theorem argo_warmup_bounded:
  assumes "mget (GetLabels app) StateLabel = StateWarmingUp"
    and "GetAnnotations app WarmingUpSinceAnnotation = Some (formatRFC3339 t0)" and "stampable t0"
    and "t0 \<le> now" and "0 < timeout" and "timeout \<le> maxDuration"
    and "argoWarmupOne api sched timeout now app s = (warming, app', s')"
  shows "(t0 + timeout \<le> now \<longrightarrow>
      (warming \<longleftrightarrow> fst (CompleteArgoCDWarmup api app s) \<noteq> None) \<and> (app', s') = snd (CompleteArgoCDWarmup api app s)) \<and>
    (now < t0 - second + timeout \<and> \<not> warming \<longrightarrow>
      (\<exists>ns observed. argoDestination app = Some ns \<and> CheckWorkloadReadiness api ns s = Inr (True, observed)))"
proof -
  have run: "finishWarmup api (unmark []) (argoDestination app) (warmupTimedOut app now timeout) app s = (warming, app', s')"
    using assms(1,7) by (simp add: argoWarmupOne_def Let_def)
  have "(warming \<longleftrightarrow> fst (CompleteArgoCDWarmup api app s) \<noteq> None) \<and> (app', s') = snd (CompleteArgoCDWarmup api app s)"
    if "t0 + timeout \<le> now"
    using run timed_out [OF assms(2,3) that assms(6)]
    by (auto simp: finish_on_timeout CompleteArgoCDWarmup_def split: prod.splits option.splits)
  moreover have "\<exists>ns observed. argoDestination app = Some ns \<and> CheckWorkloadReadiness api ns s = Inr (True, observed)"
    if "now < t0 - second + timeout" "\<not> warming"
  proof -
    have "\<not> warmupTimedOut app now timeout"
      using not_timed_out [OF assms(2,3) that(1)] that(1) assms(4-6)
      by (simp add: maxDuration_def minDuration_def second_def)
    with run that(2) show ?thesis
      by (auto simp: finishWarmup_def warmupReady_def split: option.splits sum.splits prod.splits bool.splits)
  qed
  ultimately show ?thesis by blast
qed

theorem argo_warmup_bounded_witness:
  "\<not> fst (argoWarmupOne (emptyApi\<lparr>api_listPods := (\<lambda>ns s. Inr [databasePod ''False''])\<rparr>) ''night'' (10 * minute)
      (100 * second + 10 * minute) appWarming ())"
proof -
  let ?api = "emptyApi\<lparr>api_listPods := (\<lambda>ns s. Inr [databasePod ''False''])\<rparr> :: unit api"
  obtain w a s where run: "argoWarmupOne ?api ''night'' (10 * minute) (100 * second + 10 * minute) appWarming () = (w, a, s)"
    by (cases "argoWarmupOne ?api ''night'' (10 * minute) (100 * second + 10 * minute) appWarming ()") auto
  note st = appWarming_state(1,2)
  have "fst (CompleteArgoCDWarmup ?api appWarming ()) = None"
    using sampleApp_runs(3) by (simp add: CompleteArgoCDWarmup_def applyMergePatch_def emptyApi_def)
  with argo_warmup_bounded [OF st _ _ _ _ run] have "\<not> w"
    by (simp add: stampable_def second_def minute_def maxDuration_def)
  then show ?thesis unfolding run by simp
qed

text \<open>
  When the handler reports that nothing is warming up any more, every Application it
  discovered is out of both states: the schedule does not turn to serving with an
  Application still marked.
\<close>

theorem argo_warmup_settles:
  assumes "integrationServer api" and "\<forall>app \<in> set apps. stringMeta app"
    and "DiscoverArgoCDApps api cfg namespaces s = Inr apps"
    and "handleArgoCDWarmup api recorder obj cfg sched namespaces now s = (False, apps', obs, s')"
  shows "length apps' = length apps \<and>
    (\<forall>app' \<in> set apps'. mget (GetLabels app') StateLabel \<noteq> StateDown \<and>
       mget (GetLabels app') StateLabel \<noteq> StateWarmingUp)"
proof -
  let ?one = "argoWarmupOne api sched (warmupTimeoutOf (argo_WarmupTimeout cfg)) now"
  from assms(3,4) have run: "driveAll ?one apps s = (False, apps', s')"
    by (auto simp: handleArgoCDWarmup_def split: prod.splits)
  let ?P = "\<lambda>app app'. mget (GetLabels app') StateLabel \<noteq> StateDown \<and> mget (GetLabels app') StateLabel \<noteq> StateWarmingUp"
  have step: "?P app app'"
    if "app \<in> set apps" "?one app u = (False, app', u')" for app u app' u'
  proof (cases "mget (GetLabels app) StateLabel = StateWarmingUp")
    case True
    then have "finishWarmup api (unmark []) (argoDestination app)
        (warmupTimedOut app now (warmupTimeoutOf (argo_WarmupTimeout cfg))) app u = (False, app', u')"
      using that(2) by (simp add: argoWarmupOne_def Let_def)
    from patched_object(3) [OF assms(1) _ finishWarmup_done [OF this]] that(1) assms(2)
    show ?thesis by (simp add: unmark_def emptyPatch_def)
  next
    case False
    with that(2) show ?thesis by (auto simp: argoWarmupOne_def Let_def split: if_splits prod.splits)
  qed
  have "list_all2 ?P apps apps'" by (rule driveAll_done [OF run]) (rule step)
  then show ?thesis
    by (auto simp: list_all2_conv_all_nth in_set_conv_nth)
qed

text \<open>
  C24: The downscale, the start of a warm-up and the cleanup of a schedule leave an Application
  that carries the label of another schedule as it is, whatever state it is in. So does the handler of the
  warm-up, if the Application is held down or in no state, or is warming up and has neither timed out nor a
  destination that is ready. But the end of a warm-up does not look at the owner: on an Application
  in warm-up the handler does for any schedule exactly what it does for the owner, and from the timeout
  on it takes the marks of the owner off, if the server accepts the patch.
\<close>

theorem argo_owner_respected_except_at_release:
  assumes "integrationServer api" and "stringMeta app" and "GetLabels app ManagedByLabel = Some other" and "other \<noteq> sched"
  shows "LabelArgoCDAppDown api app sched s = (Inr True, app, s) \<and>
    LabelArgoCDAppWarmingUp api app sched now s = (Inr True, app, s) \<and>
    RemoveArgoCDAppLabels api app sched s = (Inr True, app, s) \<and>
    (GetLabels app StateLabel = Some StateDown \<longrightarrow> argoWarmupOne api sched timeout now app s = (True, app, s)) \<and>
    (GetLabels app StateLabel \<notin> {Some StateDown, Some StateWarmingUp} \<longrightarrow>
       argoWarmupOne api sched timeout now app s = (False, app, s)) \<and>
    (GetLabels app StateLabel = Some StateWarmingUp \<longrightarrow>
       argoWarmupOne api sched timeout now app s = argoWarmupOne api other timeout now app s \<and>
       (\<not> warmupTimedOut app now timeout \<and>
          \<not> (\<exists>ns observed. argoDestination app = Some ns \<and> CheckWorkloadReadiness api ns s = Inr (True, observed)) \<longrightarrow>
        argoWarmupOne api sched timeout now app s = (True, app, s)) \<and>
       (warmupTimedOut app now timeout \<and> fst (CompleteArgoCDWarmup api app s) = None \<longrightarrow>
        (\<exists>app' s'. argoWarmupOne api sched timeout now app s = (False, app', s') \<and>
           GetLabels app' = (GetLabels app)(StateLabel := None, ManagedByLabel := None) \<and>
           GetAnnotations app' = (GetAnnotations app)(WarmingUpSinceAnnotation := None))))"
proof (intro conjI impI)
  have f: "managedByOther sched app" using assms(3,4) by (simp add: managedByOther_def)
  show "LabelArgoCDAppDown api app sched s = (Inr True, app, s)"
    using argo.down_idle [OF f] by (simp add: LabelArgoCDAppDown_def)
  show idle: "LabelArgoCDAppWarmingUp api app sched now s = (Inr True, app, s)"
    using f by (simp add: LabelArgoCDAppWarmingUp_def warmingPatch_def patchIf_def)
  show "RemoveArgoCDAppLabels api app sched s = (Inr True, app, s)"
    using assms(3,4) by (simp add: RemoveArgoCDAppLabels_def argoRemovePatch_def patchIf_def)
  show "argoWarmupOne api sched timeout now app s = (True, app, s)" if "GetLabels app StateLabel = Some StateDown"
    using that idle by (simp add: argoWarmupOne_def mget_def)
  show "argoWarmupOne api sched timeout now app s = (False, app, s)"
    if "GetLabels app StateLabel \<notin> {Some StateDown, Some StateWarmingUp}"
    using that by (cases "GetLabels app StateLabel") (auto simp: argoWarmupOne_def mget_def)
  assume w: "GetLabels app StateLabel = Some StateWarmingUp"
  have one: "argoWarmupOne api any timeout now app s =
      finishWarmup api (unmark []) (argoDestination app) (warmupTimedOut app now timeout) app s" for any
    using w by (simp add: argoWarmupOne_def mget_def)
  show "argoWarmupOne api sched timeout now app s = argoWarmupOne api other timeout now app s" by (simp add: one)
  show "argoWarmupOne api sched timeout now app s = (True, app, s)"
    if "\<not> warmupTimedOut app now timeout \<and>
      \<not> (\<exists>ns observed. argoDestination app = Some ns \<and> CheckWorkloadReadiness api ns s = Inr (True, observed))"
    using that by (auto simp: one finishWarmup_def warmupReady_def split: option.split sum.split bool.split)
  assume t: "warmupTimedOut app now timeout \<and> fst (CompleteArgoCDWarmup api app s) = None"
  then obtain app' s' where fin: "CompleteArgoCDWarmup api app s = (None, app', s')" by (metis prod.collapse)
  with t fin have "argoWarmupOne api sched timeout now app s = (False, app', s')"
    by (simp add: one finish_on_timeout CompleteArgoCDWarmup_def)
  moreover note patched_object(2,3) [OF assms(1,2) fin [unfolded CompleteArgoCDWarmup_def]]
  ultimately show "\<exists>app' s'. argoWarmupOne api sched timeout now app s = (False, app', s') \<and>
      GetLabels app' = (GetLabels app)(StateLabel := None, ManagedByLabel := None) \<and>
      GetAnnotations app' = (GetAnnotations app)(WarmingUpSinceAnnotation := None)"
    by (intro exI [of _ app'] exI [of _ s']) (simp add: unmark_def emptyPatch_def fun_upd_twist)
qed

theorem argo_owner_respected_except_at_release_witness:
  "argoWarmupOne emptyApi ''day'' (10 * minute) (1000 * second) appDown () = (True, appDown, ()) \<and>
   (\<exists>app'. argoWarmupOne emptyApi ''day'' (10 * minute) (1000 * second) appWarming () = (False, app', ()) \<and>
      GetLabels app' ManagedByLabel = None)"
proof -
  have l: "GetLabels appDown ManagedByLabel = Some ''night''" "GetLabels appDown StateLabel = Some StateDown"
    by code_simp+
  have m: "GetLabels appWarming ManagedByLabel = Some ''night''" "GetLabels appWarming StateLabel = Some StateWarmingUp"
    using appWarming_state(3) by (auto simp: phaseOf_def split: option.splits if_splits)
  have t: "warmupTimedOut appWarming (1000 * second) (10 * minute)"
    by (rule timed_out [OF appWarming_state(2)]) (simp_all add: stampable_def second_def minute_def maxDuration_def)
  note down = argo_owner_respected_except_at_release [OF sampleApi_merges sampleApp_facts(5) l(1), where sched = "''day''" and s = "()" and timeout = "10 * minute" and now = "1000 * second"]
    and warming = argo_owner_respected_except_at_release [OF sampleApi_merges sampleApp_facts(6) m(1), where sched = "''day''" and s = "()" and timeout = "10 * minute" and now = "1000 * second"]
  have accepted: "fst (CompleteArgoCDWarmup emptyApi appWarming ()) = None" using sampleApp_runs(3) by simp
  have "argoWarmupOne emptyApi ''day'' (10 * minute) (1000 * second) appDown () = (True, appDown, ())"
    using down l(2) by simp
  moreover have "\<exists>app' s'. argoWarmupOne emptyApi ''day'' (10 * minute) (1000 * second) appWarming () = (False, app', s') \<and>
      GetLabels app' = (GetLabels appWarming)(StateLabel := None, ManagedByLabel := None)"
    using warming m(2) t accepted by blast
  ultimately show ?thesis by fastforce
qed

end
