(* ===== verification/Fluxcd.thy ===== *)
theory Fluxcd
  imports Argocd
begin

text \<open>
  \<^verbatim>\<open>internal/controller/fluxcd.go\<close>: the Kustomizations and HelmReleases of Flux that deploy to
  a managed namespace are suspended before the workloads are scaled, and resumed when the
  workloads are back. Discovery looks in two places for each of the two kinds and keeps the
  first object of each namespace and name.
\<close>

definition fluxKustomizationGVK :: gvk where
  "fluxKustomizationGVK =
     \<lparr>gvk_Group = ''kustomize.toolkit.fluxcd.io'', gvk_Version = ''v1'', gvk_Kind = ''Kustomization''\<rparr>"

definition fluxHelmReleaseGVK :: gvk where
  "fluxHelmReleaseGVK =
     \<lparr>gvk_Group = ''helm.toolkit.fluxcd.io'', gvk_Version = ''v2'', gvk_Kind = ''HelmRelease''\<rparr>"

section \<open>Discovery\<close>

definition fluxKey :: "json \<Rightarrow> string" where
  "fluxKey item = GetNamespace item @ ''/'' @ GetName item"

definition targetNamespaceOf :: "json \<Rightarrow> string" where
  "targetNamespaceOf item = nestedString item [''spec'', ''targetNamespace'']"

text \<open>The matched objects so far; the keys seen are those of the matched objects.\<close>

definition addUnseen :: "(json \<Rightarrow> bool) \<Rightarrow> json \<Rightarrow> json list \<Rightarrow> json list" where
  "addUnseen wanted item matched =
     (if \<not> wanted item then matched
      else if fluxKey item \<in> fluxKey ` set matched then matched
      else matched @ [item])"

text \<open>The lists of one kind: an API the cluster does not have ends the whole discovery.\<close>

fun colocated ::
  "'s api \<Rightarrow> gvk \<Rightarrow> string \<Rightarrow> string list \<Rightarrow> 's \<Rightarrow> json list \<Rightarrow> list_error + json list" where
  "colocated api g fluxNS [] s matched = Inr matched"
| "colocated api g fluxNS (ns # nss) s matched =
     (if ns = fluxNS then colocated api g fluxNS nss s matched
      else
        (case api_list api (listGVK g) (Some ns) [] s of
           Inl e \<Rightarrow> Inl e
         | Inr items \<Rightarrow>
             colocated api g fluxNS nss s (fold (addUnseen (\<lambda>i. targetNamespaceOf i = [])) items matched)))"

definition discoverKind ::
  "'s api \<Rightarrow> string \<Rightarrow> string list \<Rightarrow> gvk \<Rightarrow> 's \<Rightarrow> json list \<Rightarrow> list_error + json list" where
  "discoverKind api fluxNS targetNamespaces g s matched =
     (case api_list api (listGVK g) None [] s of
        Inl e \<Rightarrow> Inl e
      | Inr items \<Rightarrow>
          colocated api g fluxNS targetNamespaces s
            (fold (addUnseen (\<lambda>i. targetNamespaceOf i \<noteq> [] \<and> targetNamespaceOf i \<in> set targetNamespaces)) items matched))"

definition DiscoverFluxResources ::
  "'s api \<Rightarrow> FluxCDConfig \<Rightarrow> string list \<Rightarrow> 's \<Rightarrow> string + json list" where
  "DiscoverFluxResources api cfg targetNamespaces s =
     (let fluxNS = (if flux_Namespace cfg = [] then DefaultFluxCDNamespace else flux_Namespace cfg);
          found = (case discoverKind api fluxNS targetNamespaces fluxKustomizationGVK s [] of
                     Inl e \<Rightarrow> Inl e
                   | Inr matched \<Rightarrow> discoverKind api fluxNS targetNamespaces fluxHelmReleaseGVK s matched)
      in case found of
           Inl NoMatch \<Rightarrow> Inr []
         | Inl (ListFailed e) \<Rightarrow> Inl e
         | Inr matched \<Rightarrow> Inr matched)"

section \<open>One resource\<close>

definition suspendPath :: "string list" where "suspendPath = [''spec'', fieldSuspend]"

definition fluxSuspended :: "json \<Rightarrow> bool" where
  "fluxSuspended obj \<longleftrightarrow> nestedField obj suspendPath = Some (JBool True)"

definition fluxDownPatch :: "string \<Rightarrow> json \<Rightarrow> objectPatch option" where
  "fluxDownPatch scheduleName obj =
     (if managedByOther scheduleName obj then None
      else if fluxSuspended obj \<and> mget (GetLabels obj) ManagedByLabel = [] then None
      else if fluxSuspended obj \<and> inState StateDown scheduleName obj then None
      else Some (markDown [(fieldSuspend, JBool True)] scheduleName))"

definition SuspendFluxResource :: "'s api \<Rightarrow> json \<Rightarrow> string \<Rightarrow> 's \<Rightarrow> (string + bool) \<times> json \<times> 's" where
  "SuspendFluxResource api obj scheduleName s = patchIf api (fluxDownPatch scheduleName obj) obj s"

definition TransitionFluxResourceToWarmingUp ::
  "'s api \<Rightarrow> json \<Rightarrow> string \<Rightarrow> time \<Rightarrow> 's \<Rightarrow> (string + bool) \<times> json \<times> 's" where
  "TransitionFluxResourceToWarmingUp api obj scheduleName now s =
     patchIf api (warmingPatch scheduleName now obj) obj s"

definition resumeSpec :: "(string \<times> json) list" where
  "resumeSpec = [(fieldSuspend, JBool False)]"

definition CompleteFluxWarmup :: "'s api \<Rightarrow> json \<Rightarrow> 's \<Rightarrow> string option \<times> json \<times> 's" where
  "CompleteFluxWarmup api obj s = applyMergePatch (api_patch api) obj (unmark resumeSpec) s"

definition fluxResumePatch :: "string \<Rightarrow> json \<Rightarrow> objectPatch option" where
  "fluxResumePatch scheduleName obj =
     (case GetLabels obj ManagedByLabel of
        None \<Rightarrow> None
      | Some managedBy \<Rightarrow> if managedBy \<noteq> scheduleName then None else Some (unmark resumeSpec))"

definition ResumeFluxResource :: "'s api \<Rightarrow> json \<Rightarrow> string \<Rightarrow> 's \<Rightarrow> (string + bool) \<times> json \<times> 's" where
  "ResumeFluxResource api obj scheduleName s = patchIf api (fluxResumePatch scheduleName obj) obj s"

section \<open>All resources of a schedule\<close>

definition labelFluxResourcesDown ::
  "'s api \<Rightarrow> bool \<Rightarrow> string \<Rightarrow> FluxCDConfig \<Rightarrow> string \<Rightarrow> string list \<Rightarrow> 's \<Rightarrow> json list \<times> observation list \<times> 's" where
  "labelFluxResourcesDown api recorder scheduleObj fluxCDSpec scheduleName namespaces s =
     (case DiscoverFluxResources api fluxCDSpec namespaces s of
        Inl e \<Rightarrow> ([], discoveryFailed recorder scheduleObj ''FluxCDDiscoveryFailed'' ''FluxCD''
                       ''Failed to discover Flux resources: '' e, s)
      | Inr resources \<Rightarrow>
          (case forAll (\<lambda>obj. SuspendFluxResource api obj scheduleName) resources s of
             (resources', s') \<Rightarrow> (resources', [], s')))"

definition fluxNamespaceToCheck :: "json \<Rightarrow> string" where
  "fluxNamespaceToCheck obj =
     (let targetNS = targetNamespaceOf obj in if targetNS = [] then GetNamespace obj else targetNS)"

text \<open>Only resources of this schedule; an unknown state starts the warm-up.\<close>

definition fluxWarmupOne ::
  "'s api \<Rightarrow> string \<Rightarrow> duration \<Rightarrow> time \<Rightarrow> json \<Rightarrow> 's \<Rightarrow> bool \<times> json \<times> 's" where
  "fluxWarmupOne api scheduleName warmupTimeout now obj s =
     (if mget (GetLabels obj) ManagedByLabel \<noteq> scheduleName then (False, obj, s)
      else
        (let st = mget (GetLabels obj) StateLabel in
         if st = StateWarmingUp then
           finishWarmup api (unmark resumeSpec) (Some (fluxNamespaceToCheck obj))
             (warmupTimedOut obj now warmupTimeout) obj s
         else
           (case TransitionFluxResourceToWarmingUp api obj scheduleName now s of (r, obj', s') \<Rightarrow> (True, obj', s'))))"

definition handleFluxCDWarmup ::
  "'s api \<Rightarrow> bool \<Rightarrow> string \<Rightarrow> FluxCDConfig \<Rightarrow> string \<Rightarrow> string list \<Rightarrow> time \<Rightarrow> 's \<Rightarrow>
     bool \<times> json list \<times> observation list \<times> 's" where
  "handleFluxCDWarmup api recorder scheduleObj fluxCDSpec scheduleName namespaces now s =
     (case DiscoverFluxResources api fluxCDSpec namespaces s of
        Inl e \<Rightarrow> (False, [], discoveryFailed recorder scheduleObj ''FluxCDDiscoveryFailed'' ''FluxCD''
                       ''Failed to discover Flux resources: '' e, s)
      | Inr resources \<Rightarrow>
          (case driveAll (fluxWarmupOne api scheduleName (warmupTimeoutOf (flux_WarmupTimeout fluxCDSpec)) now) resources s of
             (warming, resources', s') \<Rightarrow> (warming, resources', [], s')))"

interpretation flux: gitops fluxDownPatch "[(fieldSuspend, JBool True)]" resumeSpec
    "\<lambda>obj. fluxSuspended obj \<and> mget (GetLabels obj) ManagedByLabel = []"
  by unfold_locales (auto simp: fluxDownPatch_def split: if_splits)

section \<open>Facts about discovery\<close>

lemma addUnseen_keys:
  "distinct (map fluxKey matched) \<Longrightarrow> distinct (map fluxKey (fold (addUnseen w) items matched))"
  by (induction items arbitrary: matched) (auto simp: addUnseen_def)

lemma addUnseen_set: "set (fold (addUnseen w) items matched) \<subseteq> set matched \<union> {i \<in> set items. w i}"
proof (induction items arbitrary: matched)
  case (Cons i items)
  show ?case using Cons [of "addUnseen w i matched"] by (auto simp: addUnseen_def split: if_splits)
qed simp

lemma addUnseen_covers:
  "set matched \<subseteq> set (fold (addUnseen w) items matched) \<and>
   (\<forall>i \<in> set items. w i \<longrightarrow> fluxKey i \<in> fluxKey ` set (fold (addUnseen w) items matched))"
proof (induction items arbitrary: matched)
  case (Cons i items)
  have a: "set matched \<subseteq> set (addUnseen w i matched)" "w i \<Longrightarrow> fluxKey i \<in> fluxKey ` set (addUnseen w i matched)"
    by (auto simp: addUnseen_def)
  from Cons.IH [of "addUnseen w i matched"] a show ?case by auto
qed simp

text \<open>What each step of discovery keeps: keys stay distinct, and only objects in scope come in.\<close>

definition fluxInScope :: "string \<Rightarrow> string list \<Rightarrow> json \<Rightarrow> bool" where
  "fluxInScope fluxNS targets i \<longleftrightarrow>
     (targetNamespaceOf i \<noteq> [] \<and> targetNamespaceOf i \<in> set targets) \<or> targetNamespaceOf i = []"

lemma colocated_result:
  assumes "colocated api g fluxNS nss s matched = Inr r" and "distinct (map fluxKey matched)"
  shows "distinct (map fluxKey r) \<and> set matched \<subseteq> set r \<and>
    (\<forall>i \<in> set r - set matched. targetNamespaceOf i = [] \<and>
       (\<exists>ns items. ns \<in> set nss - {fluxNS} \<and> api_list api (listGVK g) (Some ns) [] s = Inr items \<and> i \<in> set items)) \<and>
    (\<forall>ns \<in> set nss - {fluxNS}. \<exists>items. api_list api (listGVK g) (Some ns) [] s = Inr items \<and>
       (\<forall>i \<in> set items. targetNamespaceOf i = [] \<longrightarrow> fluxKey i \<in> fluxKey ` set r))"
  using assms
proof (induction api g fluxNS nss s matched rule: colocated.induct)
  case (2 api g fluxNS ns nss s matched)
  show ?case
  proof (cases "ns = fluxNS")
    case True
    with 2 show ?thesis by auto
  next
    case False
    let ?w = "\<lambda>i. targetNamespaceOf i = []"
    obtain items where items: "api_list api (listGVK g) (Some ns) [] s = Inr items"
      and run: "colocated api g fluxNS nss s (fold (addUnseen ?w) items matched) = Inr r"
      using "2.prems"(1) False by (auto split: sum.splits)
    let ?m = "fold (addUnseen ?w) items matched"
    note IH = "2.IH"(2) [OF False items run addUnseen_keys [OF "2.prems"(2)]]
    have cov: "set matched \<subseteq> set ?m" "\<forall>i \<in> set items. ?w i \<longrightarrow> fluxKey i \<in> fluxKey ` set ?m"
      using addUnseen_covers [of matched ?w items] by auto
    have sub: "set ?m \<subseteq> set matched \<union> {i \<in> set items. ?w i}" by (rule addUnseen_set)
    show ?thesis
    proof (intro conjI ballI)
      show "distinct (map fluxKey r)" "set matched \<subseteq> set r" using IH cov(1) by auto
    next
      fix i assume i: "i \<in> set r - set matched"
      show "targetNamespaceOf i = []" using IH i sub by blast
      show "\<exists>n its. n \<in> set (ns # nss) - {fluxNS} \<and> api_list api (listGVK g) (Some n) [] s = Inr its \<and> i \<in> set its"
      proof (cases "i \<in> set ?m")
        case True
        with sub i have "i \<in> set items" by blast
        with items False show ?thesis by auto
      next
        case False
        with IH i have "\<exists>n its. n \<in> set nss - {fluxNS} \<and> api_list api (listGVK g) (Some n) [] s = Inr its \<and> i \<in> set its"
          by blast
        then show ?thesis by auto
      qed
    next
      fix n assume "n \<in> set (ns # nss) - {fluxNS}"
      then consider "n = ns" | "n \<in> set nss - {fluxNS}" by auto
      then show "\<exists>items. api_list api (listGVK g) (Some n) [] s = Inr items \<and>
          (\<forall>i \<in> set items. targetNamespaceOf i = [] \<longrightarrow> fluxKey i \<in> fluxKey ` set r)"
      proof cases
        case 1
        then show ?thesis using items cov(2) IH by (meson image_mono subsetD)
      next
        case 2
        then show ?thesis using IH by blast
      qed
    qed
  qed
qed simp

lemma discoverKind_result:
  assumes "discoverKind api fluxNS targets g s matched = Inr r" and "distinct (map fluxKey matched)"
    and "api_list api (listGVK g) None [] s = Inr all"
  shows "distinct (map fluxKey r) \<and> set matched \<subseteq> set r \<and>
    (\<forall>i \<in> set all. targetNamespaceOf i \<in> set targets - {[]} \<longrightarrow> fluxKey i \<in> fluxKey ` set r) \<and>
    (\<forall>ns \<in> set targets - {fluxNS}. \<exists>items. api_list api (listGVK g) (Some ns) [] s = Inr items \<and>
       (\<forall>i \<in> set items. targetNamespaceOf i = [] \<longrightarrow> fluxKey i \<in> fluxKey ` set r))"
proof -
  let ?w = "\<lambda>i. targetNamespaceOf i \<noteq> [] \<and> targetNamespaceOf i \<in> set targets"
  let ?m = "fold (addUnseen ?w) all matched"
  have run: "colocated api g fluxNS targets s ?m = Inr r" using assms(1,3) by (simp add: discoverKind_def)
  note c = colocated_result [OF run addUnseen_keys [OF assms(2)]]
  have cov: "set matched \<subseteq> set ?m" "\<forall>i \<in> set all. ?w i \<longrightarrow> fluxKey i \<in> fluxKey ` set ?m"
    using addUnseen_covers [of matched ?w all] by auto
  have "\<forall>i \<in> set all. targetNamespaceOf i \<in> set targets - {[]} \<longrightarrow> fluxKey i \<in> fluxKey ` set r"
  proof -
    have "fluxKey ` set ?m \<subseteq> fluxKey ` set r" using c by (blast intro: image_mono)
    with cov(2) show ?thesis by auto
  qed
  with c cov(1) show ?thesis by blast
qed

section \<open>Properties\<close>

text \<open>
  C20: A running resource that carries none of LightsOut's marks is suspended at night and
  resumed at the end of the warm-up, with exactly the labels, annotations and other spec
  fields it had. Its \<^verbatim>\<open>spec.suspend\<close> is then \<^verbatim>\<open>false\<close>, also where the field was absent.
\<close>

theorem flux_cycle_roundtrip:
  assumes "integrationServer api" and "stringMeta obj" and "\<not> fluxSuspended obj"
    and "GetLabels obj ManagedByLabel = None" and "GetLabels obj StateLabel = None"
    and "GetAnnotations obj WarmingUpSinceAnnotation = None"
    and "SuspendFluxResource api obj sched s = (Inr False, obj1, s1)"
    and "TransitionFluxResourceToWarmingUp api obj1 sched now s2 = (Inr sk, obj2, s3)"
    and "CompleteFluxWarmup api obj2 s4 = (None, obj3, s5)"
  shows "GetLabels obj3 = GetLabels obj \<and> GetAnnotations obj3 = GetAnnotations obj \<and>
    fluxSuspended obj1 \<and> fluxSuspended obj2 \<and> nestedField obj3 suspendPath = Some (JBool False) \<and>
    (k \<noteq> fieldSuspend \<longrightarrow> nestedField obj3 (''spec'' # k # ks) = nestedField obj (''spec'' # k # ks))"
proof -
  note c = flux.cycle [OF assms(1,2,4-6) assms(7) [unfolded SuspendFluxResource_def]
      assms(8) [unfolded TransitionFluxResourceToWarmingUp_def] assms(9) [unfolded CompleteFluxWarmup_def]]
  obtain p where p: "fluxDownPatch sched obj = Some p" "applyMergePatch (api_patch api) obj p s = (None, obj1, s1)"
    using assms(7) [unfolded SuspendFluxResource_def] by (cases rule: patchIf_cases) auto
  obtain q where q: "warmingPatch sched now obj1 = Some q" "applyMergePatch (api_patch api) obj1 q s2 = (None, obj2, s3)"
    using assms(8) [unfolded TransitionFluxResourceToWarmingUp_def c(6)] by (cases rule: patchIf_cases) auto
  have sp: "Spec p = [(fieldSuspend, JBool True)]" using flux.down_marks [OF p(1)] by (simp add: markDown_def)
  have sq: "Spec q = []" using q(1) by (auto simp: warmingPatch_def markWarmingUp_def emptyPatch_def split: if_splits)
  have ne: "''spec'' \<noteq> ''metadata''" "''spec'' \<noteq> ''status''" by simp_all
  have ok1: "stringMeta obj1" by (rule patched_object(1) [OF assms(1,2) p(2)])
  have ok2: "stringMeta obj2" by (rule patched_object(1) [OF assms(1) ok1 q(2)])
  have 1: "nestedField obj1 (''spec'' # k # ks) =
      (if k = fieldSuspend then nestedField (JBool True) ks else nestedField obj (''spec'' # k # ks))" for k ks
    unfolding patched_object(4) [OF assms(1,2) p(2) ne] spec_after_merge [OF sp] ..
  have 2: "nestedField obj2 (''spec'' # ks) = nestedField obj1 (''spec'' # ks)" for ks
    unfolding patched_object(4) [OF assms(1) ok1 q(2) ne]
    by (rule build_frame_top) (simp_all add: sq)
  have 3: "nestedField obj3 (''spec'' # k # ks) =
      (if k = fieldSuspend then nestedField (JBool False) ks else nestedField obj2 (''spec'' # k # ks))" for k ks
    unfolding patched_object(4) [OF assms(1) ok2 assms(9) [unfolded CompleteFluxWarmup_def] ne]
    by (rule spec_after_merge) (simp add: unmark_def resumeSpec_def)
  show ?thesis
    using c(1,2) by (simp add: fluxSuspended_def suspendPath_def 1 2 3 nestedField.simps(1) del: nestedField.simps(2))
qed

definition sampleRelease :: json where
  "sampleRelease = JObj
     [(''metadata'', JObj [(''labels'', JObj [(''team'', JStr ''a'')]), (''name'', JStr ''web''), (''namespace'', JStr ''shop'')]),
      (''spec'', JObj [(''chart'', JStr ''web'')])]"

definition releaseDown :: json where
  "releaseDown = mergePatch sampleRelease (build (markDown [(fieldSuspend, JBool True)] ''night''))"
definition releaseWarming :: json where
  "releaseWarming = mergePatch releaseDown (build (markWarmingUp ''night'' (100 * second)))"
definition releaseDone :: json where
  "releaseDone = mergePatch releaseWarming (build (unmark resumeSpec))"

lemma sampleRelease_facts:
  "stringMeta sampleRelease" "\<not> fluxSuspended sampleRelease" "GetLabels sampleRelease ManagedByLabel = None"
  "GetLabels sampleRelease StateLabel = None" "GetAnnotations sampleRelease WarmingUpSinceAnnotation = None"
  "stringMeta releaseDown" "stringMeta releaseDone"
  "fluxDownPatch ''night'' sampleRelease = Some (markDown [(fieldSuspend, JBool True)] ''night'')"
  "\<not> managedByOther ''night'' releaseDown" "\<not> inState StateWarmingUp ''night'' releaseDown"
  by code_simp+

lemma releaseWarming_ok: "stringMeta releaseWarming"
  unfolding releaseWarming_def markWarmingUp_def stamp100 by code_simp

lemma sampleRelease_runs:
  "SuspendFluxResource emptyApi sampleRelease ''night'' () = (Inr False, releaseDown, ())"
  "TransitionFluxResourceToWarmingUp emptyApi releaseDown ''night'' (100 * second) () = (Inr False, releaseWarming, ())"
  "CompleteFluxWarmup emptyApi releaseWarming () = (None, releaseDone, ())"
  using sampleRelease_facts releaseWarming_ok
  by (simp_all add: SuspendFluxResource_def TransitionFluxResourceToWarmingUp_def CompleteFluxWarmup_def patchIf_def
      warmingPatch_def applyMergePatch_def emptyApi_def mergingServer_def releaseDown_def releaseWarming_def releaseDone_def)

theorem flux_cycle_roundtrip_witness:
  "GetLabels releaseDone = GetLabels sampleRelease \<and> fluxSuspended releaseDown \<and>
   nestedField releaseDone [''spec'', ''chart''] = Some (JStr ''web'')"
proof -
  have "nestedField sampleRelease [''spec'', ''chart''] = Some (JStr ''web'')" "''chart'' \<noteq> fieldSuspend"
    by code_simp+
  with flux_cycle_roundtrip [OF sampleApi_merges sampleRelease_facts(1-5) sampleRelease_runs, of "''chart''" "[]"]
  show ?thesis by simp
qed

text \<open>
  C21: When the handler reports that nothing is warming up any more, every discovered resource
  this schedule held is running and unmarked, and every other one was left alone.
\<close>

theorem flux_warmup_settles:
  assumes "integrationServer api" and "\<forall>obj \<in> set resources. stringMeta obj" and "sched \<noteq> []"
    and "DiscoverFluxResources api cfg namespaces s = Inr resources"
    and "handleFluxCDWarmup api recorder ref cfg sched namespaces now s = (False, resources', obs, s')"
  shows "list_all2 (\<lambda>obj obj'. if mget (GetLabels obj) ManagedByLabel = sched
      then phaseFor sched obj' = Free \<and> nestedField obj' suspendPath = Some (JBool False) else obj' = obj)
    resources resources'"
proof -
  let ?t = "warmupTimeoutOf (flux_WarmupTimeout cfg)"
  let ?P = "\<lambda>obj obj'. if mget (GetLabels obj) ManagedByLabel = sched
      then phaseFor sched obj' = Free \<and> nestedField obj' suspendPath = Some (JBool False) else obj' = obj"
  from assms(4,5) have run: "driveAll (fluxWarmupOne api sched ?t now) resources s = (False, resources', s')"
    by (auto simp: handleFluxCDWarmup_def split: prod.splits)
  have step: "?P obj obj'" if "obj \<in> set resources" "fluxWarmupOne api sched ?t now obj u = (False, obj', u')" for obj u obj' u'
  proof (cases "mget (GetLabels obj) ManagedByLabel = sched")
    case True
    with that(2) have "finishWarmup api (unmark resumeSpec) (Some (fluxNamespaceToCheck obj))
        (warmupTimedOut obj now ?t) obj u = (False, obj', u')"
      by (auto simp: fluxWarmupOne_def Let_def split: if_splits prod.splits)
    note fin = finishWarmup_done [OF this]
    have ok: "stringMeta obj" using assms(2) that(1) by blast
    have "nestedField obj' suspendPath = Some (JBool False)"
      unfolding suspendPath_def
      using patched_object(4) [OF assms(1) ok fin, of "''spec''" "[fieldSuspend]"]
        spec_after_merge [of "unmark resumeSpec" fieldSuspend False obj fieldSuspend "[]"]
      by (simp add: unmark_def resumeSpec_def del: nestedField.simps(2))
    moreover have "phaseFor sched obj' = Free"
      using patched_object(2,3) [OF assms(1) ok fin] by (simp add: phase_after)
    ultimately show ?thesis using True by simp
  next
    case False
    with that(2) show ?thesis by (auto simp: fluxWarmupOne_def)
  qed
  show ?thesis by (rule driveAll_done [OF run]) (rule step)
qed

definition shopFlux :: "json \<Rightarrow> json \<Rightarrow> unit api" where
  "shopFlux kustomization release = emptyApi\<lparr>api_list := (\<lambda>g ns ls s. Inr
     (if gvk_Kind g = ''HelmReleaseList'' then [release]
      else if gvk_Kind g = ''KustomizationList'' then [kustomization] else []))\<rparr>"

definition fluxDefaults :: FluxCDConfig where
  "fluxDefaults = \<lparr>flux_Namespace = [], flux_WarmupTimeout = None\<rparr>"

lemma shopFlux_merges: "integrationServer (shopFlux k r)"
  using sampleApi_merges by (simp add: shopFlux_def emptyApi_def)

lemma shopFlux_lists:
  "api_list (shopFlux k r) (listGVK fluxKustomizationGVK) ns [] s = Inr [k]"
  "api_list (shopFlux k r) (listGVK fluxHelmReleaseGVK) ns [] s = Inr [r]"
  "api_list (shopFlux k r) g ns [] s \<noteq> Inl NoMatch"
  by (simp_all add: shopFlux_def listGVK_def fluxKustomizationGVK_def fluxHelmReleaseGVK_def)

text \<open>Two objects of one name, without a target namespace, in the managed namespace.\<close>

lemma shopFlux_discovery:
  assumes "targetNamespaceOf k = []" "targetNamespaceOf r = []" "fluxKey k = fluxKey r"
  shows "DiscoverFluxResources (shopFlux k r) fluxDefaults [''shop''] () = Inr [k]"
  using assms
  by (simp add: DiscoverFluxResources_def discoverKind_def Let_def fluxDefaults_def DefaultFluxCDNamespace_def
      shopFlux_lists addUnseen_def)

theorem flux_warmup_settles_witness:
  "handleFluxCDWarmup (shopFlux releaseWarming releaseWarming) True ''s'' fluxDefaults ''night'' [''shop'']
     (100 * second + 10 * minute) () = (False, [releaseDone], [], ()) \<and>
   phaseFor ''night'' releaseDone = Free"
proof -
  have st: "mget (GetLabels releaseWarming) ManagedByLabel = ''night''"
    "mget (GetLabels releaseWarming) StateLabel = StateWarmingUp"
    "GetAnnotations releaseWarming WarmingUpSinceAnnotation = Some (formatRFC3339 (100 * second))"
    "targetNamespaceOf releaseWarming = []"
    unfolding releaseWarming_def markWarmingUp_def stamp100 by code_simp+
  have t: "warmupTimedOut releaseWarming (100 * second + 10 * minute) (10 * minute)"
    by (rule timed_out [OF st(3)]) (simp_all add: stampable_def second_def minute_def maxDuration_def)
  note found = shopFlux_discovery [OF st(4,4) refl]
  have patch: "applyMergePatch (api_patch (shopFlux releaseWarming releaseWarming)) releaseWarming (unmark resumeSpec) () =
      (None, releaseDone, ())"
    using sampleRelease_runs(3) by (simp add: CompleteFluxWarmup_def shopFlux_def emptyApi_def)
  have run: "handleFluxCDWarmup (shopFlux releaseWarming releaseWarming) True ''s'' fluxDefaults ''night'' [''shop'']
     (100 * second + 10 * minute) () = (False, [releaseDone], [], ())"
    using st(1,2) t patch
    unfolding handleFluxCDWarmup_def found
    by (simp add: fluxWarmupOne_def finish_on_timeout fluxDefaults_def warmupTimeoutOf_def DefaultWarmupTimeout_def)
  have "list_all2 (\<lambda>obj obj'. if mget (GetLabels obj) ManagedByLabel = ''night''
      then phaseFor ''night'' obj' = Free \<and> nestedField obj' suspendPath = Some (JBool False) else obj' = obj)
    [releaseWarming] [releaseDone]"
    by (rule flux_warmup_settles [OF shopFlux_merges _ _ found run]) (simp_all add: releaseWarming_ok)
  with run st(1) show ?thesis by simp
qed

text \<open>
  When the cluster has both kinds and every list succeeds, each resource of either kind
  that deploys to a managed namespace is represented in the result by the first one of its
  namespace and name. Since the kind is not part of that key, a HelmRelease with the namespace
  and name of a Kustomization is left out.
\<close>

theorem flux_discovery_one_per_name:
  assumes "DiscoverFluxResources api cfg targets s = Inr r" and "\<forall>g ns. api_list api g ns [] s \<noteq> Inl NoMatch"
    and "api_list api (listGVK fluxKustomizationGVK) None [] s = Inr ks"
    and "api_list api (listGVK fluxHelmReleaseGVK) None [] s = Inr hs"
  shows "(\<forall>i \<in> set (ks @ hs). targetNamespaceOf i \<in> set targets - {[]} \<longrightarrow> (\<exists>j \<in> set r. fluxKey j = fluxKey i)) \<and>
    (\<forall>i \<in> set r. \<forall>j \<in> set r. fluxKey i = fluxKey j \<longrightarrow> i = j)"
proof -
  let ?ns = "if flux_Namespace cfg = [] then DefaultFluxCDNamespace else flux_Namespace cfg"
  have no: "discoverKind api ?ns targets g s m \<noteq> Inl NoMatch" for g m
  proof -
    have c: "colocated api g ?ns nss s m \<noteq> Inl NoMatch" for nss m
      using assms(2) by (induction nss arbitrary: m) (auto split: sum.splits)
    then show ?thesis using assms(2) by (auto simp: discoverKind_def split: sum.splits)
  qed
  obtain m where m: "discoverKind api ?ns targets fluxKustomizationGVK s [] = Inr m"
    and r: "discoverKind api ?ns targets fluxHelmReleaseGVK s m = Inr r"
    using assms(1) no unfolding DiscoverFluxResources_def Let_def
    by (auto split: sum.splits list_error.splits)
  note k = discoverKind_result [OF m _ assms(3)]
  then have dm: "distinct (map fluxKey m)" by simp
  note h = discoverKind_result [OF r dm assms(4)]
  have "fluxKey ` set m \<subseteq> fluxKey ` set r" using h by (blast intro: image_mono)
  then have "\<forall>i \<in> set (ks @ hs). targetNamespaceOf i \<in> set targets - {[]} \<longrightarrow> fluxKey i \<in> fluxKey ` set r"
    using k h by auto
  moreover have "inj_on fluxKey (set r)" using h by (simp add: distinct_map)
  ultimately show ?thesis by (force dest: inj_onD)
qed

definition sampleKustomization :: json where
  "sampleKustomization = JObj
     [(''kind'', JStr ''Kustomization''),
      (''metadata'', JObj [(''name'', JStr ''web''), (''namespace'', JStr ''shop'')]), (''spec'', JObj [])]"

theorem flux_discovery_one_per_name_witness:
  "DiscoverFluxResources (shopFlux sampleKustomization sampleRelease) fluxDefaults [''shop''] () = Inr [sampleKustomization] \<and>
   fluxKey sampleRelease = fluxKey sampleKustomization \<and> sampleRelease \<noteq> sampleKustomization"
proof -
  have f: "targetNamespaceOf sampleKustomization = []" "targetNamespaceOf sampleRelease = []"
    "fluxKey sampleKustomization = fluxKey sampleRelease" "sampleRelease \<noteq> sampleKustomization" by code_simp+
  note found = shopFlux_discovery [OF f(1-3)]
  from flux_discovery_one_per_name [OF found _ shopFlux_lists(1,2)] shopFlux_lists(3)
  have "\<forall>i \<in> set [sampleKustomization]. \<forall>j \<in> set [sampleKustomization]. fluxKey i = fluxKey j \<longrightarrow> i = j" by blast
  with found f show ?thesis by simp
qed

end
