(* ===== verification/Customresource.thy ===== *)
theory Customresource
  imports Warmup
begin

text \<open>
  \<^verbatim>\<open>internal/controller/customresource.go\<close>: turning arbitrary custom resources off by setting
  fields, keeping what the fields held in an annotation, and putting it back. The text format
  of \<^verbatim>\<open>encoding/json\<close> is the record \<open>json_codec\<close>; \<open>jc_unmarshalCaptured\<close> gives the captured
  fields in the order in which the range over the map visits them, which Go leaves open.
  In Go one decoded value may be shared by several fields. A configuration with a path below a
  value that was set at several places would write through that sharing; the model has values.
\<close>

record capturedField =
  cap_Present :: bool
  cap_Value :: json

type_synonym captured = "(string \<times> capturedField) list"

record json_codec =
  jc_unmarshal :: "string \<Rightarrow> string + json"
  jc_marshalCaptured :: "captured \<Rightarrow> string + string"
  jc_unmarshalCaptured :: "string \<Rightarrow> string + captured"
  jc_wide :: int

section \<open>Errors\<close>

datatype cr_error =
    FieldError string ptr_error
  | FieldDecode string string
  | EncodeFailed string
  | DecodeFailed string
  | CapturedError string ptr_error
  | RestoringError string ptr_error
  | RemovingError string ptr_error
  | ServerError string
  | Deleting string string string string

definition pointerErrorText :: "ptr_error \<Rightarrow> string" where
  "pointerErrorText e =
     (case e of
        EmptyPointer \<Rightarrow> ''empty JSON Pointer''
      | NoLeadingSlash p \<Rightarrow> ''JSON Pointer '' @ goQuote p @ '' must start with '' @ goQuote ''/''
      | EmptySegment p \<Rightarrow> ''JSON Pointer '' @ goQuote p @ '' has an empty segment''
      | CannotSetRoot \<Rightarrow> ''cannot set the document root''
      | CannotDeleteRoot \<Rightarrow> ''cannot delete the document root''
      | NotAnIndex t p \<Rightarrow> ''segment '' @ goQuote t @ '' at '' @ p @ '' is not an array index''
      | IndexOutOfRange i p \<Rightarrow> ''array index '' @ itoa i @ '' at '' @ p @ '' is out of range''
      | CannotDescend p \<Rightarrow> ''cannot descend into '' @ p @ '': not an object or array''
      | ParentNotContainer p \<Rightarrow> ''cannot set '' @ p @ '': parent is not an object or array''
      | ParentNotObject p \<Rightarrow> ''cannot delete '' @ p @ '': parent is not an object'')"

definition crErrorText :: "cr_error \<Rightarrow> string" where
  "crErrorText e =
     (case e of
        FieldError p pe \<Rightarrow> ''field '' @ goQuote p @ '': '' @ pointerErrorText pe
      | FieldDecode p t \<Rightarrow> ''field '' @ goQuote p @ '': decoding value: '' @ t
      | EncodeFailed t \<Rightarrow> ''encoding captured fields: '' @ t
      | DecodeFailed t \<Rightarrow> ''decoding captured fields: '' @ t
      | CapturedError p pe \<Rightarrow> ''captured field '' @ goQuote p @ '': '' @ pointerErrorText pe
      | RestoringError p pe \<Rightarrow> ''restoring '' @ goQuote p @ '': '' @ pointerErrorText pe
      | RemovingError p pe \<Rightarrow> ''removing '' @ goQuote p @ '': '' @ pointerErrorText pe
      | ServerError t \<Rightarrow> t
      | Deleting kind ns name t \<Rightarrow> ''deleting '' @ kind @ '' '' @ ns @ ''/'' @ name @ '': '' @ t)"

section \<open>Discovery\<close>

definition customResourceGVK :: "CustomResourceConfig \<Rightarrow> gvk" where
  "customResourceGVK cfg = \<lparr>gvk_Group = cr_Group cfg, gvk_Version = cr_Version cfg, gvk_Kind = cr_Kind cfg\<rparr>"

fun discoverIn ::
  "'s api \<Rightarrow> CustomResourceConfig \<Rightarrow> string list \<Rightarrow> 's \<Rightarrow> list_error + json list" where
  "discoverIn api cfg [] s = Inr []"
| "discoverIn api cfg (ns # nss) s =
     (case api_list api (listGVK (customResourceGVK cfg)) (Some ns) (cr_MatchLabels cfg) s of
        Inl e \<Rightarrow> Inl e
      | Inr items \<Rightarrow>
          (case discoverIn api cfg nss s of
             Inl e \<Rightarrow> Inl e
           | Inr rest \<Rightarrow> Inr (filter (\<lambda>i. cr_Name cfg = [] \<or> GetName i = cr_Name cfg) items @ rest)))"

definition DiscoverCustomResources ::
  "'s api \<Rightarrow> CustomResourceConfig \<Rightarrow> string list \<Rightarrow> 's \<Rightarrow> string + json list" where
  "DiscoverCustomResources api cfg namespaces s =
     (case discoverIn api cfg namespaces s of
        Inl NoMatch \<Rightarrow> Inr []
      | Inl (ListFailed e) \<Rightarrow> Inl e
      | Inr matched \<Rightarrow> Inr matched)"

section \<open>Labels and annotations of an unstructured object\<close>

text \<open>
  \<^verbatim>\<open>GetLabels\<close> and \<^verbatim>\<open>GetAnnotations\<close> with their entries, and \<^verbatim>\<open>SetLabels\<close> and
  \<^verbatim>\<open>SetAnnotations\<close>, which replace the whole map and do nothing when the metadata is not an
  object.
\<close>

definition stringEntries :: "json \<Rightarrow> string list \<Rightarrow> (string \<times> string) list" where
  "stringEntries d ks =
     (case nestedField d ks of
        Some (JObj m) \<Rightarrow> (if \<forall>kv \<in> set m. isJStr (snd kv) then map (\<lambda>(k, v). (k, strOf v)) m else [])
      | _ \<Rightarrow> [])"

definition setMetaStrings :: "string \<Rightarrow> (string \<times> string) list \<Rightarrow> json \<Rightarrow> json" where
  "setMetaStrings f entries d =
     (let encoded = JObj (map (\<lambda>(k, v). (k, JStr v)) entries) in
      case d of
        JObj m \<Rightarrow>
          (case map_of m ''metadata'' of
             None \<Rightarrow> JObj (objSet ''metadata'' (JObj [(f, encoded)]) m)
           | Some (JObj md) \<Rightarrow> JObj (objSet ''metadata'' (JObj (objSet f encoded md)) m)
           | Some _ \<Rightarrow> d)
      | _ \<Rightarrow> d)"

definition updateAnnotations :: "((string \<times> string) list \<Rightarrow> (string \<times> string) list) \<Rightarrow> json \<Rightarrow> json" where
  "updateAnnotations f obj =
     setMetaStrings ''annotations'' (f (stringEntries obj [''metadata'', ''annotations''])) obj"

definition updateLabels :: "((string \<times> string) list \<Rightarrow> (string \<times> string) list) \<Rightarrow> json \<Rightarrow> json" where
  "updateLabels f obj = setMetaStrings ''labels'' (f (stringEntries obj [''metadata'', ''labels''])) obj"

section \<open>Down\<close>

text \<open>The loop over the expanded paths of a field, and the loop over the fields.\<close>

fun capturePaths :: "json \<Rightarrow> string list list \<Rightarrow> json \<Rightarrow> captured \<Rightarrow> cr_error + (json \<times> captured)" where
  "capturePaths v [] obj cap = Inr (obj, cap)"
| "capturePaths v (path # paths) obj cap =
     (let previous = GetValue obj path;
          entry = \<lparr>cap_Present = previous \<noteq> None, cap_Value = orNull previous\<rparr>
      in case SetValue obj path v of
           Inl e \<Rightarrow> Inl (FieldError (Format path) e)
         | Inr obj' \<Rightarrow> capturePaths v paths obj' (objSet (Format path) entry cap))"

fun captureFields ::
  "json_codec \<Rightarrow> FieldPatch list \<Rightarrow> json \<Rightarrow> captured \<Rightarrow> cr_error + (json \<times> captured)" where
  "captureFields jc [] obj cap = Inr (obj, cap)"
| "captureFields jc (f # fs) obj cap =
     (case Parse (fp_Path f) of
        Inl e \<Rightarrow> Inl (FieldError (fp_Path f) e)
      | Inr tokens \<Rightarrow>
     (case jc_unmarshal jc (fp_Value f) of
        Inl e \<Rightarrow> Inl (FieldDecode (fp_Path f) e)
      | Inr v \<Rightarrow>
     (case capturePaths (NormalizeValue (jc_wide jc) v) (Expand obj tokens) obj cap of
        Inl e \<Rightarrow> Inl e
      | Inr (obj', cap') \<Rightarrow> captureFields jc fs obj' cap')))"

definition update :: "'s api \<Rightarrow> json \<Rightarrow> 's \<Rightarrow> (cr_error + bool) \<times> json \<times> 's" where
  "update api obj s =
     (case api_update api obj s of
        (Inl e, s') \<Rightarrow> (Inl (ServerError e), obj, s')
      | (Inr obj', s') \<Rightarrow> (Inr False, obj', s'))"

text \<open>
  After an error in the loop the caller reads only the name and the namespace of the copy in
  hand; the model returns the object as it came.
\<close>

definition markTurnedDown :: "string \<Rightarrow> string \<Rightarrow> json \<Rightarrow> json" where
  "markTurnedDown scheduleName encoded obj =
     updateLabels (\<lambda>ls. objSet ManagedByLabel scheduleName (objSet StateLabel StateDown ls))
       (updateAnnotations (\<lambda>as. objDel WarmingUpSinceAnnotation (objSet OriginalFieldsAnnotation encoded as)) obj)"

definition TurnCustomResourceDown ::
  "json_codec \<Rightarrow> 's api \<Rightarrow> json \<Rightarrow> CustomResourceConfig \<Rightarrow> string \<Rightarrow> 's \<Rightarrow> (cr_error + bool) \<times> json \<times> 's" where
  "TurnCustomResourceDown jc api obj cfg scheduleName s =
     (if managedByOther scheduleName obj then (Inr True, obj, s)
      else if inState StateDown scheduleName obj then (Inr True, obj, s)
      else
        (case captureFields jc (cr_SetFields cfg) obj [] of
           Inl e \<Rightarrow> (Inl e, obj, s)
         | Inr (obj1, captured) \<Rightarrow>
             if captured = [] then (Inr True, obj1, s)
             else
               (case jc_marshalCaptured jc captured of
                  Inl e \<Rightarrow> (Inl (EncodeFailed e), obj1, s)
                | Inr encoded \<Rightarrow> update api (markTurnedDown scheduleName encoded obj1) s)))"

section \<open>Up\<close>

fun restoreFields :: "json_codec \<Rightarrow> captured \<Rightarrow> json \<Rightarrow> cr_error + json" where
  "restoreFields jc [] obj = Inr obj"
| "restoreFields jc ((pointer, field) # rest) obj =
     (case Parse pointer of
        Inl e \<Rightarrow> Inl (CapturedError pointer e)
      | Inr tokens \<Rightarrow>
          if cap_Present field then
            (case SetValue obj tokens (NormalizeValue (jc_wide jc) (cap_Value field)) of
               Inl e \<Rightarrow> Inl (RestoringError pointer e)
             | Inr obj' \<Rightarrow> restoreFields jc rest obj')
          else
            (case DeleteValue obj tokens of
               Inl e \<Rightarrow> Inl (RemovingError pointer e)
             | Inr obj' \<Rightarrow> restoreFields jc rest obj'))"

definition clearPatch :: objectPatch where
  "clearPatch = emptyPatch\<lparr>RemoveAnnotations := [OriginalFieldsAnnotation, WarmingUpSinceAnnotation],
                           RemoveLabels := [StateLabel, ManagedByLabel]\<rparr>"

definition clearCustomResourceState :: "'s api \<Rightarrow> json \<Rightarrow> 's \<Rightarrow> string option \<times> json \<times> 's" where
  "clearCustomResourceState api obj s = applyMergePatch (api_patch api) obj clearPatch s"

definition markRestored :: "time \<Rightarrow> json \<Rightarrow> json" where
  "markRestored now obj =
     updateLabels (objSet StateLabel StateWarmingUp)
       (updateAnnotations
          (\<lambda>as. objSet WarmingUpSinceAnnotation (formatRFC3339 now) (objDel OriginalFieldsAnnotation as)) obj)"

definition RestoreCustomResourceFields ::
  "json_codec \<Rightarrow> 's api \<Rightarrow> json \<Rightarrow> string \<Rightarrow> time \<Rightarrow> 's \<Rightarrow> (cr_error + bool) \<times> json \<times> 's" where
  "RestoreCustomResourceFields jc api obj scheduleName now s =
     (if mget (GetLabels obj) ManagedByLabel \<noteq> scheduleName then (Inr True, obj, s)
      else if mget (GetLabels obj) StateLabel \<noteq> StateDown then (Inr True, obj, s)
      else
        (let encoded = mget (GetAnnotations obj) OriginalFieldsAnnotation in
         if encoded = [] then
           (case clearCustomResourceState api obj s of
              (Some e, obj', s') \<Rightarrow> (Inl (ServerError e), obj', s')
            | (None, obj', s') \<Rightarrow> (Inr True, obj', s'))
         else
           (case jc_unmarshalCaptured jc encoded of
              Inl e \<Rightarrow> (Inl (DecodeFailed e), obj, s)
            | Inr captured \<Rightarrow>
                (case restoreFields jc captured obj of
                   Inl e \<Rightarrow> (Inl e, obj, s)
                 | Inr obj1 \<Rightarrow> update api (markRestored now obj1) s))))"

section \<open>Deletion\<close>

fun deleteLoop ::
  "'s api \<Rightarrow> CustomResourceConfig \<Rightarrow> json list \<Rightarrow> int \<Rightarrow> 's \<Rightarrow> int \<times> cr_error option \<times> 's" where
  "deleteLoop api cfg [] deleted s = (deleted, None, s)"
| "deleteLoop api cfg (obj # rest) deleted s =
     (case api_delete api obj s of
        (None, s') \<Rightarrow> deleteLoop api cfg rest (deleted + 1) s'
      | (Some NotFound, s') \<Rightarrow> deleteLoop api cfg rest deleted s'
      | (Some (DeleteFailed e), s') \<Rightarrow>
          (deleted, Some (Deleting (cr_Kind cfg) (GetNamespace obj) (GetName obj) e), s'))"

definition DeleteCustomResources ::
  "'s api \<Rightarrow> CustomResourceConfig \<Rightarrow> string list \<Rightarrow> 's \<Rightarrow> int \<times> cr_error option \<times> 's" where
  "DeleteCustomResources api cfg namespaces s =
     (case DiscoverCustomResources api cfg namespaces s of
        Inl e \<Rightarrow> (0, Some (ServerError e), s)
      | Inr resources \<Rightarrow> deleteLoop api cfg resources 0 s)"

section \<open>All custom resources of a schedule\<close>

definition emitCustomResourceWarning :: "bool \<Rightarrow> string \<Rightarrow> string \<Rightarrow> string \<Rightarrow> observation list" where
  "emitCustomResourceWarning recorder scheduleObj reason note =
     (if \<not> recorder then []
      else [EventRecorded scheduleObj ''Warning'' reason ''CustomResource'' note])"

definition crPath :: "CustomResourceConfig \<Rightarrow> json \<Rightarrow> string" where
  "crPath cfg obj = cr_Kind cfg @ '' '' @ GetNamespace obj @ ''/'' @ GetName obj"

definition crDiscoveryFailed :: "bool \<Rightarrow> string \<Rightarrow> CustomResourceConfig \<Rightarrow> string \<Rightarrow> observation list" where
  "crDiscoveryFailed recorder scheduleObj cfg e =
     emitCustomResourceWarning recorder scheduleObj ''CustomResourceDiscoveryFailed''
       (''Failed to discover '' @ cr_Kind cfg @ '' resources: '' @ e)"

definition managedCount :: "string \<Rightarrow> CustomResourceConfig \<Rightarrow> int \<Rightarrow> observation" where
  "managedCount scheduleLabel cfg n = GaugeSet ManagedCustomResources [scheduleLabel, cr_Kind cfg] n"

text \<open>
  The loop over the resources of one entry, the same in both directions: the operation on
  one object says whether it was skipped, an error is reported and the loop goes on. The
  first component says whether any object was changed.
\<close>

fun scaleEach ::
  "(json \<Rightarrow> 's \<Rightarrow> (cr_error + bool) \<times> json \<times> 's) \<Rightarrow> (json \<Rightarrow> cr_error \<Rightarrow> observation list) \<Rightarrow>
     (json \<Rightarrow> observation list) \<Rightarrow> json list \<Rightarrow> 's \<Rightarrow> bool \<times> observation list \<times> 's" where
  "scaleEach scale failed done [] s = (False, [], s)"
| "scaleEach scale failed done (obj # rest) s =
     (case scale obj s of
        (r, obj', s1) \<Rightarrow>
          (case scaleEach scale failed done rest s1 of
             (transitioned, obs, s2) \<Rightarrow>
               (case r of
                  Inl e \<Rightarrow> (transitioned, failed obj' e @ obs, s2)
                | Inr True \<Rightarrow> (transitioned, obs, s2)
                | Inr False \<Rightarrow> (True, done obj' @ obs, s2))))"

definition crFailed ::
  "bool \<Rightarrow> string \<Rightarrow> string \<Rightarrow> CustomResourceConfig \<Rightarrow> string \<Rightarrow> string \<Rightarrow> json \<Rightarrow> cr_error \<Rightarrow> observation list" where
  "crFailed recorder scheduleObj scheduleLabel cfg reason text obj e =
     CounterInc ScalingErrorsTotal [scheduleLabel, GetNamespace obj, cr_Kind cfg] #
     emitCustomResourceWarning recorder scheduleObj reason (text @ crPath cfg obj @ '': '' @ crErrorText e)"

definition crScaled :: "string \<Rightarrow> CustomResourceConfig \<Rightarrow> string \<Rightarrow> json \<Rightarrow> observation list" where
  "crScaled scheduleLabel cfg operation obj =
     [CounterInc ScalingOperationsTotal [scheduleLabel, GetNamespace obj, cr_Kind cfg, operation]]"

definition downEntry ::
  "json_codec \<Rightarrow> 's api \<Rightarrow> bool \<Rightarrow> string \<Rightarrow> string \<Rightarrow> string \<Rightarrow> string list \<Rightarrow> CustomResourceConfig \<Rightarrow> 's \<Rightarrow>
     observation list \<times> 's" where
  "downEntry jc api recorder scheduleObj scheduleName scheduleLabel namespaces cfg s =
     (if cr_Delete cfg then
        (case DeleteCustomResources api cfg namespaces s of
           (deleted, Some e, s') \<Rightarrow>
             (emitCustomResourceWarning recorder scheduleObj ''CustomResourceDeleteFailed''
                (''Failed to delete '' @ cr_Kind cfg @ '' resources: '' @ crErrorText e), s')
         | (deleted, None, s') \<Rightarrow>
             ((if deleted > 0 then
                 [CounterAdd ScalingOperationsTotal [scheduleLabel, [], cr_Kind cfg, OperationDownscale] deleted]
               else []) @ [managedCount scheduleLabel cfg 0], s'))
      else
        (case DiscoverCustomResources api cfg namespaces s of
           Inl e \<Rightarrow> (crDiscoveryFailed recorder scheduleObj cfg e, s)
         | Inr resources \<Rightarrow>
             (case scaleEach (\<lambda>obj. TurnCustomResourceDown jc api obj cfg scheduleName)
                     (crFailed recorder scheduleObj scheduleLabel cfg ''CustomResourceDownFailed'' ''Failed to turn down '')
                     (crScaled scheduleLabel cfg OperationDownscale) resources s of
                (transitioned, obs, s') \<Rightarrow>
                  (managedCount scheduleLabel cfg (int (length resources)) # obs, s'))))"

fun customResourcesDown ::
  "json_codec \<Rightarrow> 's api \<Rightarrow> bool \<Rightarrow> string \<Rightarrow> string \<Rightarrow> string \<Rightarrow> string list \<Rightarrow> CustomResourceConfig list \<Rightarrow> 's \<Rightarrow>
     observation list \<times> 's" where
  "customResourcesDown jc api recorder scheduleObj scheduleName scheduleLabel namespaces [] s = ([], s)"
| "customResourcesDown jc api recorder scheduleObj scheduleName scheduleLabel namespaces (cfg # cfgs) s =
     (case downEntry jc api recorder scheduleObj scheduleName scheduleLabel namespaces cfg s of
        (obs1, s1) \<Rightarrow>
          (case customResourcesDown jc api recorder scheduleObj scheduleName scheduleLabel namespaces cfgs s1 of
             (obs2, s2) \<Rightarrow> (obs1 @ obs2, s2)))"

text \<open>On the way up a deleted entry is only counted.\<close>

definition upEntry ::
  "json_codec \<Rightarrow> 's api \<Rightarrow> bool \<Rightarrow> string \<Rightarrow> string \<Rightarrow> string \<Rightarrow> string list \<Rightarrow> time \<Rightarrow> CustomResourceConfig \<Rightarrow> 's \<Rightarrow>
     bool \<times> observation list \<times> 's" where
  "upEntry jc api recorder scheduleObj scheduleName scheduleLabel namespaces now cfg s =
     (case DiscoverCustomResources api cfg namespaces s of
        Inl e \<Rightarrow> (False, crDiscoveryFailed recorder scheduleObj cfg e, s)
      | Inr resources \<Rightarrow>
          (let gauge = managedCount scheduleLabel cfg (int (length resources)) in
           if cr_Delete cfg then (False, [gauge], s)
           else
             (case scaleEach (\<lambda>obj. RestoreCustomResourceFields jc api obj scheduleName now)
                     (crFailed recorder scheduleObj scheduleLabel cfg ''CustomResourceUpFailed'' ''Failed to restore '')
                     (crScaled scheduleLabel cfg OperationUpscale) resources s of
                (transitioned, obs, s') \<Rightarrow> (transitioned, gauge # obs, s'))))"

fun customResourcesUp ::
  "json_codec \<Rightarrow> 's api \<Rightarrow> bool \<Rightarrow> string \<Rightarrow> string \<Rightarrow> string \<Rightarrow> string list \<Rightarrow> time \<Rightarrow> CustomResourceConfig list \<Rightarrow> 's \<Rightarrow>
     bool \<times> observation list \<times> 's" where
  "customResourcesUp jc api recorder scheduleObj scheduleName scheduleLabel namespaces now [] s = (False, [], s)"
| "customResourcesUp jc api recorder scheduleObj scheduleName scheduleLabel namespaces now (cfg # cfgs) s =
     (case upEntry jc api recorder scheduleObj scheduleName scheduleLabel namespaces now cfg s of
        (t1, obs1, s1) \<Rightarrow>
          (case customResourcesUp jc api recorder scheduleObj scheduleName scheduleLabel namespaces now cfgs s1 of
             (t2, obs2, s2) \<Rightarrow> (t1 \<or> t2, obs1 @ obs2, s2)))"

section \<open>Readiness of a restored resource\<close>

definition matchHolds :: "json_codec \<Rightarrow> json \<Rightarrow> FieldMatch \<Rightarrow> bool" where
  "matchHolds jc obj match =
     (case Parse (fm_Path match) of
        Inl _ \<Rightarrow> False
      | Inr tokens \<Rightarrow>
     (case jc_unmarshal jc (fm_Value match) of
        Inl _ \<Rightarrow> False
      | Inr v \<Rightarrow>
          (let want = NormalizeValue (jc_wide jc) v; paths = Expand obj tokens in
           paths \<noteq> [] \<and> (\<forall>path \<in> set paths. GetValue obj path = Some want))))"

definition matchesReadyWhen :: "json_codec \<Rightarrow> json \<Rightarrow> FieldMatch list \<Rightarrow> bool" where
  "matchesReadyWhen jc obj matches \<longleftrightarrow> (\<forall>match \<in> set matches. matchHolds jc obj match)"

definition NestedInt64 :: "json \<Rightarrow> string list \<Rightarrow> int option" where
  "NestedInt64 d ks = (case nestedField d ks of Some (JInt64 i) \<Rightarrow> Some i | _ \<Rightarrow> None)"

definition GetGeneration :: "json \<Rightarrow> int" where
  "GetGeneration d = (case NestedInt64 d [''metadata'', ''generation''] of None \<Rightarrow> 0 | Some i \<Rightarrow> i)"

text \<open>The first condition of type Ready decides; \<open>None\<close> when there is none.\<close>

fun readyVerdict :: "json list \<Rightarrow> bool option" where
  "readyVerdict [] = None"
| "readyVerdict (entry # rest) =
     (case entry of
        JObj condition \<Rightarrow>
          (if map_of condition ''type'' \<noteq> Some (JStr ''Ready'') then readyVerdict rest
           else Some (map_of condition ''status'' = Some (JStr ''True'')))
      | _ \<Rightarrow> readyVerdict rest)"

definition customResourceReady :: "json_codec \<Rightarrow> json \<Rightarrow> CustomResourceConfig \<Rightarrow> bool option" where
  "customResourceReady jc obj cfg =
     (if cr_ReadyWhen cfg \<noteq> [] then Some (matchesReadyWhen jc obj (cr_ReadyWhen cfg))
      else if (case NestedInt64 obj [''status'', ''observedGeneration''] of
                 None \<Rightarrow> False
               | Some observedGen \<Rightarrow> observedGen < GetGeneration obj) then Some False
      else
        (case nestedField obj [''status'', ''conditions''] of
           Some (JArr conditions) \<Rightarrow> readyVerdict conditions
         | _ \<Rightarrow> None))"

section \<open>The warm-up of custom resources\<close>

text \<open>
  Readiness of a namespace is looked up once per pass. A namespace where the check fails is
  not remembered.
\<close>

definition namespaceReady ::
  "'s api \<Rightarrow> string \<Rightarrow> (string \<Rightarrow> bool option) \<Rightarrow> 's \<Rightarrow> string + (bool \<times> (string \<Rightarrow> bool option))" where
  "namespaceReady api ns readiness s =
     (case readiness ns of
        Some nsReady \<Rightarrow> Inr (nsReady, readiness)
      | None \<Rightarrow>
          (case CheckWorkloadReadiness api ns s of
             Inl e \<Rightarrow> Inl e
           | Inr (ready, observed) \<Rightarrow> Inr (ready \<and> observed, readiness(ns \<mapsto> (ready \<and> observed)))))"

record 's cr_pass =
  pass_warming :: bool
  pass_readiness :: "string \<Rightarrow> bool option"
  pass_obs :: "observation list"
  pass_state :: 's

definition verdict :: "json_codec \<Rightarrow> CustomResourceConfig \<Rightarrow> json \<Rightarrow> bool \<Rightarrow> bool" where
  "verdict jc cfg obj nsReady \<longleftrightarrow>
     (case customResourceReady jc obj cfg of None \<Rightarrow> nsReady | Some crReady \<Rightarrow> nsReady \<and> crReady)"

definition crWarmupOne ::
  "json_codec \<Rightarrow> 's api \<Rightarrow> bool \<Rightarrow> string \<Rightarrow> string \<Rightarrow> duration \<Rightarrow> time \<Rightarrow> CustomResourceConfig \<Rightarrow>
     json \<Rightarrow> 's cr_pass \<Rightarrow> 's cr_pass" where
  "crWarmupOne jc api recorder scheduleObj scheduleName warmupTimeout now cfg obj p =
     (if mget (GetLabels obj) ManagedByLabel \<noteq> scheduleName then p
      else if mget (GetLabels obj) StateLabel \<noteq> StateWarmingUp then p
      else
        (let timedOut = warmupTimedOut obj now warmupTimeout in
         case namespaceReady api (GetNamespace obj) (pass_readiness p) (pass_state p) of
           Inl e \<Rightarrow> p\<lparr>pass_warming := True\<rparr>
         | Inr (nsReady, readiness) \<Rightarrow>
             (let ready = verdict jc cfg obj nsReady; p = p\<lparr>pass_readiness := readiness\<rparr> in
              if \<not> ready \<and> \<not> timedOut then p\<lparr>pass_warming := True\<rparr>
              else
                (case clearCustomResourceState api obj (pass_state p) of
                   (Some e, obj', s') \<Rightarrow> p\<lparr>pass_warming := True, pass_state := s'\<rparr>
                 | (None, obj', s') \<Rightarrow>
                     (if timedOut \<and> \<not> ready then
                        p\<lparr>pass_state := s',
                          pass_obs := pass_obs p @
                            emitCustomResourceWarning recorder scheduleObj ''CustomResourceWarmupTimeout''
                              (GetKind obj' @ '' '' @ GetNamespace obj' @ ''/'' @ GetName obj' @
                               '' did not become ready within '' @ durationString warmupTimeout @
                               '', scaling workloads up anyway'')\<rparr>
                      else p\<lparr>pass_state := s'\<rparr>)))))"

definition crWarmupEntry ::
  "json_codec \<Rightarrow> 's api \<Rightarrow> bool \<Rightarrow> string \<Rightarrow> string \<Rightarrow> duration \<Rightarrow> string list \<Rightarrow> time \<Rightarrow> CustomResourceConfig \<Rightarrow>
     's cr_pass \<Rightarrow> 's cr_pass" where
  "crWarmupEntry jc api recorder scheduleObj scheduleName warmupTimeout namespaces now cfg p =
     (if cr_Delete cfg then p
      else
        (case DiscoverCustomResources api cfg namespaces (pass_state p) of
           Inl e \<Rightarrow> p\<lparr>pass_obs := pass_obs p @ crDiscoveryFailed recorder scheduleObj cfg e\<rparr>
         | Inr resources \<Rightarrow>
             fold (crWarmupOne jc api recorder scheduleObj scheduleName warmupTimeout now cfg) resources p))"

definition handleCustomResourceWarmup ::
  "json_codec \<Rightarrow> 's api \<Rightarrow> bool \<Rightarrow> string \<Rightarrow> LightsOutScheduleCore \<Rightarrow> string \<Rightarrow> string list \<Rightarrow> time \<Rightarrow> 's \<Rightarrow>
     bool \<times> observation list \<times> 's" where
  "handleCustomResourceWarmup jc api recorder scheduleObj core scheduleName namespaces now s =
     (let p = fold (crWarmupEntry jc api recorder scheduleObj scheduleName
                      (warmupTimeoutOf (CustomResourceWarmupTimeout core)) namespaces now)
                (CustomResources core)
                \<lparr>pass_warming = False, pass_readiness = Map.empty, pass_obs = [], pass_state = s\<rparr>
      in (pass_warming p, pass_obs p, pass_state p))"

section \<open>Restoring everything at once\<close>

definition restoreOne ::
  "json_codec \<Rightarrow> 's api \<Rightarrow> string \<Rightarrow> time \<Rightarrow> CustomResourceConfig \<Rightarrow> json \<Rightarrow> string list \<times> 's \<Rightarrow> string list \<times> 's" where
  "restoreOne jc api scheduleName now cfg obj = (\<lambda>(errs, s).
     (if mget (GetLabels obj) ManagedByLabel \<noteq> scheduleName then (errs, s)
      else
        (case RestoreCustomResourceFields jc api obj scheduleName now s of
           (Inl e, obj1, s1) \<Rightarrow> (errs @ [crPath cfg obj1 @ '': '' @ crErrorText e], s1)
         | (Inr _, obj1, s1) \<Rightarrow>
             (case clearCustomResourceState api obj1 s1 of
                (Some e, obj2, s2) \<Rightarrow> (errs @ [crPath cfg obj2 @ '': '' @ e], s2)
              | (None, obj2, s2) \<Rightarrow> (errs, s2)))))"

definition restoreEntry ::
  "json_codec \<Rightarrow> 's api \<Rightarrow> string \<Rightarrow> string list \<Rightarrow> time \<Rightarrow> CustomResourceConfig \<Rightarrow> string list \<times> 's \<Rightarrow> string list \<times> 's" where
  "restoreEntry jc api scheduleName namespaces now cfg = (\<lambda>(errs, s).
     (if cr_Delete cfg then (errs, s)
      else
        (case DiscoverCustomResources api cfg namespaces s of
           Inl e \<Rightarrow> (errs @ [''list '' @ cr_Kind cfg @ '': '' @ e], s)
         | Inr resources \<Rightarrow> fold (restoreOne jc api scheduleName now cfg) resources (errs, s))))"

definition restoreAllCustomResources ::
  "json_codec \<Rightarrow> 's api \<Rightarrow> LightsOutScheduleCore \<Rightarrow> string \<Rightarrow> string list \<Rightarrow> time \<Rightarrow> 's \<Rightarrow> string list \<times> 's" where
  "restoreAllCustomResources jc api core scheduleName namespaces now s =
     fold (restoreEntry jc api scheduleName namespaces now) (CustomResources core) ([], s)"

end
