(* ===== verification/Customresource_Facts.thy ===== *)
theory Customresource_Facts
  imports Customresource
begin

text \<open>
  What \<^verbatim>\<open>customresource.go\<close> promises: the fields that a downscale captured are put back, in
  whatever order the captured map is visited, and the applications wait for the resources.
  The captured fields are fields of the store \<open>pointer_store\<close>, so the round trip is an
  instance of \<open>writeAll_restore\<close>.
\<close>

section \<open>The body of a resource\<close>

text \<open>Everything but the metadata, which LightsOut marks, and the status, which the operator writes.\<close>

definition reserved :: "string set" where "reserved = {''metadata'', ''status''}"

definition sameBody :: "json \<Rightarrow> json \<Rightarrow> bool" where
  "sameBody a b \<longleftrightarrow>
     (\<exists>m n. a = JObj m \<and> b = JObj n \<and> (\<forall>k. k \<notin> reserved \<longrightarrow> map_of m k = map_of n k))"

definition inBody :: "string list \<Rightarrow> bool" where
  "inBody p \<longleftrightarrow> p \<noteq> [] \<and> hd p \<notin> reserved"

lemma sameBody_refl [simp]: "sameBody (JObj m) (JObj m)"
  by (auto simp: sameBody_def)

lemma sameBody_trans: "sameBody a b \<Longrightarrow> sameBody b c \<Longrightarrow> sameBody a c"
  by (auto simp: sameBody_def)

lemma sameBody_sym: "sameBody a b \<Longrightarrow> sameBody b a"
  by (auto simp: sameBody_def)

lemma sameBody_writeAt:
  assumes "sameBody a b" and "inBody p" and "writeAt a p w = Some a'"
  shows "\<exists>b'. writeAt b p w = Some b' \<and> sameBody a' b'"
proof -
  obtain t q where p: "p = t # q" "t \<notin> reserved" using assms(2) by (cases p) (auto simp: inBody_def)
  obtain m n where a: "a = JObj m" "b = JObj n" and eq: "\<And>k. k \<notin> reserved \<Longrightarrow> map_of m k = map_of n k"
    using assms(1) by (auto simp: sameBody_def)
  let ?upd = "\<lambda>m. case w of Some v \<Rightarrow> objSet t v m | None \<Rightarrow> objDel t m"
  show ?thesis
  proof (cases "q = []")
    case True
    have "writeAt b p w = Some (JObj (?upd n))" using p(1) a True by simp
    moreover have "a' = JObj (?upd m)" using assms(3) p(1) a True by simp
    moreover have "map_of (?upd m) k = map_of (?upd n) k" if "k \<notin> reserved" for k
      using eq [OF that] by (cases w) auto
    ultimately show ?thesis unfolding sameBody_def by blast
  next
    case False
    then obtain c c' where c: "map_of m t = Some c" "writeAt c q w = Some c'" "a' = JObj (objSet t c' m)"
      using assms(3) a p by (auto simp: writeAt_obj simp del: writeAt.simps)
    then have "writeAt b p w = Some (JObj (objSet t c' n))"
      using a p False eq [OF p(2)] by (auto simp: writeAt_obj simp del: writeAt.simps)
    moreover have "sameBody a' (JObj (objSet t c' n))"
      using c(3) eq unfolding sameBody_def by fastforce
    ultimately show ?thesis by blast
  qed
qed

lemma sameBody_writeAll:
  "sameBody a b \<Longrightarrow> \<forall>(p, w) \<in> set ps. inBody p \<Longrightarrow> writeAll writeAt a ps = Some a' \<Longrightarrow>
     \<exists>b'. writeAll writeAt b ps = Some b' \<and> sameBody a' b'"
proof (induction ps arbitrary: a b)
  case (Cons x ps)
  obtain p w where x: "x = (p, w)" by (cases x)
  from Cons.prems(3) x obtain a1 where a1: "writeAt a p w = Some a1" "writeAll writeAt a1 ps = Some a'"
    by (auto split: option.splits)
  from sameBody_writeAt [OF Cons.prems(1) _ a1(1)] Cons.prems(2) x
  obtain b1 where b1: "writeAt b p w = Some b1" "sameBody a1 b1" by auto
  from Cons.IH [OF b1(2) _ a1(2)] Cons.prems(2) b1(1) x show ?case by auto
qed simp

section \<open>Writing below existing parents\<close>

lemma writeAt_SetValue:
  assumes "writeAt d p (Some v) = Some d'"
  shows "SetValue d p v = Inr d'"
proof -
  obtain q leaf where p: "p = q @ [leaf]" using assms by (cases p rule: rev_cases) auto
  from writeAt_container [OF assms [unfolded p]] have "hasParent d p" by (auto simp: hasParent_def p)
  then show ?thesis using SetValue_writeAt assms by blast
qed

lemma not_prefix_index:
  "\<not> sameStep a b \<Longrightarrow> arrayIndex a xs = Some i \<Longrightarrow> arrayIndex b (xs[i := c]) = Some j \<Longrightarrow> xs[i := c] ! j = xs ! j"
  by (auto dest: not_sameStep_index)

text \<open>A write at a path apart from \<open>q\<close> keeps the parent of \<open>q\<close>, also when they share it.\<close>

lemma writeAt_parent:
  "apart p q \<Longrightarrow> writeAt d p (Some v) = Some d' \<Longrightarrow> GetValue d (butlast q) \<notin> {None, Some JNull} \<Longrightarrow>
     GetValue d' (butlast q) \<notin> {None, Some JNull}"
proof (induction p arbitrary: d d' q)
  case (Cons t p)
  obtain b r where q: "q = b # r" using Cons.prems(1) by (cases q) auto
  show ?case
  proof (cases "r = []")
    case True
    from writeAt_other [OF Cons.prems(2)] Cons.prems(2) have "d' \<noteq> JNull"
      by (auto simp: writeAt_obj writeAt_arr simp del: writeAt.simps split: if_splits)
    with True q show ?thesis by simp
  next
    case False
    note bl = q False
    from writeAt_other [OF Cons.prems(2)] show ?thesis
    proof (elim disjE exE)
      fix m assume d: "d = JObj m"
      show ?thesis
      proof (cases "p = [] \<or> t \<noteq> b")
        case True
        then have "t \<noteq> b" using Cons.prems(1) q by (auto simp: sameStep_def)
        with Cons.prems(2,3) d bl show ?thesis
          by (auto simp: writeAt_obj simp del: writeAt.simps split: if_splits)
      next
        case False
        then obtain k c where k: "map_of m t = Some k" "writeAt k p (Some v) = Some c" "d' = JObj (objSet t c m)"
          using Cons.prems(2) d by (auto simp: writeAt_obj simp del: writeAt.simps)
        have "apart p r" using Cons.prems(1) q False by (auto simp: sameStep_def)
        from Cons.IH [OF this k(2)] k d bl False Cons.prems(3) show ?thesis by auto
      qed
    next
      fix xs assume d: "d = JArr xs"
      then obtain i c where i: "arrayIndex t xs = Some i" "d' = JArr (xs[i := c])"
        "(if p = [] then Some v else writeAt (xs ! i) p (Some v)) = Some c"
        using Cons.prems(2) by (auto simp: writeAt_arr simp del: writeAt.simps)
      obtain j where j: "arrayIndex b xs = Some j" using Cons.prems(3) d bl by (auto split: option.splits)
      show ?thesis
      proof (cases "sameStep t b")
        case True
        then have ap: "apart p r" using Cons.prems(1) q by auto
        then have w: "writeAt (xs ! i) p (Some v) = Some c" using i(3) by (cases p) auto
        show ?thesis
        proof (cases "i = j")
          case True
          with Cons.IH [OF ap w] Cons.prems(3) d i j bl show ?thesis by (auto simp: arrayIndex_bound)
        next
          case False
          with Cons.prems(3) d i j bl show ?thesis by auto
        qed
      next
        case False
        with Cons.prems(3) d i j bl show ?thesis by (auto dest: not_sameStep_index)
      qed
    qed
  qed
qed simp

lemma hasParent_writeAt:
  "hasParent d q \<Longrightarrow> apart p q \<Longrightarrow> writeAt d p (Some v) = Some d' \<Longrightarrow> hasParent d' q"
  using writeAt_parent unfolding hasParent_def by blast

section \<open>What a downscale writes and captures\<close>

text \<open>The writes of a downscale in order, and the paths they go to.\<close>

fun capturedWrites :: "json_codec \<Rightarrow> FieldPatch list \<Rightarrow> json \<Rightarrow> (string list \<times> json) list" where
  "capturedWrites jc [] obj = []"
| "capturedWrites jc (f # fs) obj =
     (case (Parse (fp_Path f), jc_unmarshal jc (fp_Value f)) of
        (Inr tokens, Inr v) \<Rightarrow>
          (let v' = NormalizeValue (jc_wide jc) v; paths = Expand obj tokens in
           case capturePaths v' paths obj [] of
             Inl _ \<Rightarrow> []
           | Inr (obj', _) \<Rightarrow> map (\<lambda>p. (p, v')) paths @ capturedWrites jc fs obj')
      | _ \<Rightarrow> [])"

abbreviation setWrites :: "(string list \<times> json) list \<Rightarrow> (string list \<times> json option) list" where
  "setWrites ps \<equiv> map (\<lambda>(p, v). (p, Some v)) ps"

definition entryOf :: "json option \<Rightarrow> capturedField" where
  "entryOf w = \<lparr>cap_Present = w \<noteq> None, cap_Value = orNull w\<rparr>"

definition entriesAt :: "json \<Rightarrow> string list list \<Rightarrow> captured" where
  "entriesAt obj ps = map (\<lambda>p. (Format p, entryOf (GetValue obj p))) ps"

text \<open>Paths a configuration may address together: they part ways and each has a parent.\<close>

definition goodPaths :: "json \<Rightarrow> string list list \<Rightarrow> bool" where
  "goodPaths obj ps \<longleftrightarrow>
     distinct ps \<and> pairwise apart (set ps) \<and> (\<forall>p \<in> set ps. hasParent obj p \<and> inBody p \<and> [] \<notin> set p)"

lemma goodPaths_append: "goodPaths obj (ps @ qs) \<Longrightarrow> goodPaths obj ps \<and> goodPaths obj qs"
  by (auto simp: goodPaths_def pairwise_def)

lemma goodPaths_after:
  assumes "goodPaths obj (p # ps)" and "writeAt obj p (Some v) = Some obj'"
  shows "goodPaths obj' ps"
proof -
  have "hasParent obj' q" if "q \<in> set ps" for q
    using assms hasParent_writeAt that unfolding goodPaths_def
    by (metis distinct.simps(2) list.set_intros(1,2) pairwiseD)
  then show ?thesis using assms(1) by (auto simp: goodPaths_def pairwise_insert)
qed

lemma Parse_Format_good: "hasParent obj p \<Longrightarrow> [] \<notin> set p \<Longrightarrow> Parse (Format p) = Inr p"
  by (simp add: Parse_Format_iff hasParent_def)

lemma Format_inj: "p \<noteq> [] \<Longrightarrow> [] \<notin> set p \<Longrightarrow> q \<noteq> [] \<Longrightarrow> [] \<notin> set q \<Longrightarrow> Format p = Format q \<Longrightarrow> p = q"
  by (metis Parse_Format_iff Inr_inject)

lemma mset_objSet: "k \<notin> fst ` set m \<Longrightarrow> mset (objSet k v m) = add_mset (k, v) (mset m)"
  by (induction k v m rule: objSet.induct) auto

lemma entriesAt_frame:
  assumes "writeAt obj p (Some v) = Some obj'" and "\<forall>q \<in> set ps. apart p q"
  shows "entriesAt obj' ps = entriesAt obj ps"
  using assms writeAt_frame [OF _ assms(1)] by (auto simp: entriesAt_def)

lemma capturePaths_Cons:
  "capturePaths v (p # ps) obj cap =
     (case SetValue obj p v of
        Inl e \<Rightarrow> Inl (FieldError (Format p) e)
      | Inr obj' \<Rightarrow> capturePaths v ps obj' (objSet (Format p) (entryOf (GetValue obj p)) cap))"
  by (simp add: Let_def entryOf_def cong: sum.case_cong)

declare capturePaths.simps(2) [simp del]

lemma capturePaths_cap:
  "capturePaths v ps obj cap = Inr (obj', cap') \<Longrightarrow> \<exists>c. capturePaths v ps obj cap0 = Inr (obj', c)"
proof (induction ps arbitrary: obj cap cap0)
  case (Cons p ps)
  then show ?case by (cases "SetValue obj p v") (auto simp: capturePaths_Cons)
qed simp

text \<open>One field: the object is written at each path, and each path is captured as it was.\<close>

lemma capturePaths_writes:
  assumes "capturePaths v ps obj cap = Inr (obj', cap')" and "goodPaths obj (ps @ rest)"
    and "\<forall>p \<in> set ps. Format p \<notin> fst ` set cap"
  shows "writeAll writeAt obj (map (\<lambda>p. (p, Some v)) ps) = Some obj' \<and> goodPaths obj' rest \<and>
    entriesAt obj' rest = entriesAt obj rest \<and>
    mset cap' = mset cap + mset (entriesAt obj ps)"
  using assms
proof (induction ps arbitrary: obj cap)
  case (Cons p ps)
  let ?entry = "entryOf (GetValue obj p)"
  obtain obj1 where set: "SetValue obj p v = Inr obj1"
    and run: "capturePaths v ps obj1 (objSet (Format p) ?entry cap) = Inr (obj', cap')"
    using Cons.prems(1) by (auto simp: capturePaths_Cons split: sum.splits)
  have good: "hasParent obj p" "[] \<notin> set p" using Cons.prems(2) by (auto simp: goodPaths_def)
  have w: "writeAt obj p (Some v) = Some obj1" using SetValue_writeAt [OF good(1)] set by blast
  have after: "goodPaths obj1 (ps @ rest)" using goodPaths_after Cons.prems(2) w by simp
  have ap: "\<forall>q \<in> set (ps @ rest). apart p q"
    using Cons.prems(2) by (auto simp: goodPaths_def pairwise_insert)
  have fresh: "\<forall>q \<in> set ps. Format q \<notin> fst ` set (objSet (Format p) ?entry cap)"
  proof
    fix q assume q: "q \<in> set ps"
    then have "q \<noteq> p" "q \<noteq> []" "[] \<notin> set q"
      using Cons.prems(2) by (auto simp: goodPaths_def hasParent_def)
    then have "Format q \<noteq> Format p" using Format_inj good by (auto simp: hasParent_def)
    with Cons.prems(3) q show "Format q \<notin> fst ` set (objSet (Format p) ?entry cap)"
      using keys_objSet [of "Format p" ?entry cap] by auto
  qed
  have new: "mset (objSet (Format p) ?entry cap) = add_mset (Format p, ?entry) (mset cap)"
    using Cons.prems(3) by (intro mset_objSet) auto
  note IH = Cons.IH [OF run after fresh]
  have "entriesAt obj (p # ps) = (Format p, ?entry) # entriesAt obj ps" by (simp add: entriesAt_def)
  then show ?case
    using IH w new entriesAt_frame [OF w, of ps] entriesAt_frame [OF w, of rest] ap by simp
qed (simp add: entriesAt_def)

lemma mset_keys_entriesAt: "fst ` set (entriesAt obj ps) = Format ` set ps"
  by (auto simp: entriesAt_def image_image)

text \<open>All fields.\<close>

lemma captureFields_writes:
  assumes "captureFields jc fs obj cap = Inr (obj', cap')"
    and "goodPaths obj (map fst (capturedWrites jc fs obj))"
    and "\<forall>p \<in> set (map fst (capturedWrites jc fs obj)). Format p \<notin> fst ` set cap"
  shows "writeAll writeAt obj (setWrites (capturedWrites jc fs obj)) = Some obj' \<and>
    mset cap' = mset cap + mset (entriesAt obj (map fst (capturedWrites jc fs obj)))"
  using assms
proof (induction jc fs obj cap rule: captureFields.induct)
  case (2 jc f fs obj cap)
  obtain tokens v obj1 cap1 where tokens: "Parse (fp_Path f) = Inr tokens"
    and v: "jc_unmarshal jc (fp_Value f) = Inr v"
    and c: "capturePaths (NormalizeValue (jc_wide jc) v) (Expand obj tokens) obj cap = Inr (obj1, cap1)"
    and run: "captureFields jc fs obj1 cap1 = Inr (obj', cap')"
    using "2.prems"(1) by (auto split: sum.splits)
  let ?v = "NormalizeValue (jc_wide jc) v" and ?ps = "Expand obj tokens"
  let ?rest = "map fst (capturedWrites jc fs obj1)"
  from capturePaths_cap [OF c, of "[]"] tokens v
  have ws: "capturedWrites jc (f # fs) obj = map (\<lambda>p. (p, ?v)) ?ps @ capturedWrites jc fs obj1"
    by (auto simp: Let_def)
  then have fsts: "map fst (capturedWrites jc (f # fs) obj) = ?ps @ ?rest" by (simp add: o_def)
  have good: "goodPaths obj (?ps @ ?rest)" using "2.prems"(2) unfolding fsts .
  have fr: "\<forall>p \<in> set ?ps. Format p \<notin> fst ` set cap" using "2.prems"(3) unfolding fsts by simp
  note step = capturePaths_writes [OF c good fr]
  have keys: "fst ` set cap1 = fst ` set cap \<union> Format ` set ?ps"
  proof -
    have "set_mset (mset cap1) = set_mset (mset cap + mset (entriesAt obj ?ps))" using step by simp
    then have "set cap1 = set cap \<union> set (entriesAt obj ?ps)" by simp
    then show ?thesis by (simp add: image_Un mset_keys_entriesAt)
  qed
  have fresh: "\<forall>p \<in> set ?rest. Format p \<notin> fst ` set cap1"
  proof
    fix p assume p: "p \<in> set ?rest"
    have "Format p \<noteq> Format q" if "q \<in> set ?ps" for q
    proof -
      have "p \<noteq> q" using good p that by (auto simp: goodPaths_def)
      moreover have "p \<noteq> []" "[] \<notin> set p" "q \<noteq> []" "[] \<notin> set q"
        using good p that by (auto simp: goodPaths_def inBody_def)
      ultimately show ?thesis using Format_inj by blast
    qed
    with "2.prems"(3) p show "Format p \<notin> fst ` set cap1" unfolding fsts keys by auto
  qed
  have IH: "writeAll writeAt obj1 (setWrites (capturedWrites jc fs obj1)) = Some obj' \<and>
      mset cap' = mset cap1 + mset (entriesAt obj1 ?rest)"
    using "2.IH" [OF tokens v c refl run] step fresh by blast
  have "entriesAt obj (?ps @ ?rest) = entriesAt obj ?ps @ entriesAt obj ?rest" by (simp add: entriesAt_def)
  then show ?case
    using IH step unfolding ws by (simp add: writeAll_append o_def)
qed (simp add: entriesAt_def)

section \<open>The marks on a custom resource\<close>

text \<open>An object as the API server serves it.\<close>

definition crObject :: "json \<Rightarrow> bool" where
  "crObject d \<longleftrightarrow> wfJson d \<and> stringMeta d \<and>
     (\<exists>m md. d = JObj m \<and> map_of m ''metadata'' = Some (JObj md))"

lemma crObjectE:
  assumes "crObject d"
  obtains m md where "d = JObj m" "map_of m ''metadata'' = Some (JObj md)" "wfObj m" "wfObj md"
    "wfJson (JObj m)" "wfJson (JObj md)"
  using assms wfJson_map_of unfolding crObject_def by fastforce

lemma wfObj_map_values [simp]: "wfObj (map (\<lambda>(k, v). (k, g v)) m) = wfObj m"
proof -
  have "map fst (map (\<lambda>(k, v). (k, g v)) m) = map fst m" by (induction m) auto
  then show ?thesis unfolding wfObj_def by (rule arg_cong)
qed

lemma stringEntries_ok:
  assumes "crObject d" and "f \<in> {''labels'', ''annotations''}"
  shows "wfObj (stringEntries d [''metadata'', f]) \<and>
    map_of (stringEntries d [''metadata'', f]) = nestedStringMap d [''metadata'', f]"
proof (cases "nestedField d [''metadata'', f]")
  case (Some c)
  show ?thesis
  proof (cases c)
    case (JObj m)
    have "wfObj m" using assms Some JObj by (auto simp: crObject_def stringMeta_def members_def)
    moreover have "map_of (map (\<lambda>(k, v). (k, strOf v)) m) = map_option strOf \<circ> map_of m"
      by (simp add: map_of_map)
    ultimately show ?thesis using Some JObj
      by (simp add: stringEntries_def nestedStringMap_def del: nestedField.simps)
  qed (use Some in \<open>simp_all add: stringEntries_def nestedStringMap_def del: nestedField.simps\<close>)
qed (simp add: stringEntries_def nestedStringMap_def del: nestedField.simps)

lemma wfJson_strings: "wfObj es \<Longrightarrow> wfJson (JObj (map (\<lambda>(k, v). (k, JStr v)) es))"
  by auto

lemma setMetaStrings_ok:
  assumes "crObject d" and "f \<in> {''labels'', ''annotations''}" and "wfObj es"
  shows "crObject (setMetaStrings f es d)" "sameBody (setMetaStrings f es d) d"
    "nestedStringMap (setMetaStrings f es d) [''metadata'', f] = map_of es"
    "g \<noteq> f \<Longrightarrow> nestedField (setMetaStrings f es d) (''metadata'' # g # ks) = nestedField d (''metadata'' # g # ks)"
proof -
  obtain m md where d: "d = JObj m" "map_of m ''metadata'' = Some (JObj md)" "wfObj m" "wfObj md"
    "wfJson (JObj m)" "wfJson (JObj md)" using assms(1) by (rule crObjectE)
  let ?enc = "JObj (map (\<lambda>(k, v). (k, JStr v)) es)"
  let ?md = "objSet f ?enc md"
  have e: "setMetaStrings f es d = JObj (objSet ''metadata'' (JObj ?md) m)"
    using d by (simp add: setMetaStrings_def Let_def)
  have "wfJson (JObj ?md)" by (rule wfJson_objSet [OF d(6) wfJson_strings [OF assms(3)]])
  then have wf: "wfJson (setMetaStrings f es d)" unfolding e by (rule wfJson_objSet [OF d(5)])
  have str: "nestedField (setMetaStrings f es d) [''metadata'', f] = Some ?enc" unfolding e by simp
  show other: "nestedField (setMetaStrings f es d) (''metadata'' # g # ks) = nestedField d (''metadata'' # g # ks)"
    if "g \<noteq> f" for g ks using that d unfolding e by simp
  have "stringMeta (setMetaStrings f es d)"
    unfolding stringMeta_def
  proof
    fix g :: string assume g: "g \<in> {''labels'', ''annotations''}"
    show "wfObj (members (orNull (nestedField (setMetaStrings f es d) [''metadata'', g]))) \<and>
        strMembers (nestedField (setMetaStrings f es d) [''metadata'', g])"
    proof (cases "g = f")
      case True
      then show ?thesis using str assms(3)
        by (auto simp: members_def strMembers_def isJStr_def simp del: nestedField.simps)
    next
      case False
      then show ?thesis using other [OF False, of "[]"] assms(1) g
        unfolding crObject_def stringMeta_def by metis
    qed
  qed
  then show "crObject (setMetaStrings f es d)" using wf unfolding crObject_def by (auto simp: e)
  show "sameBody (setMetaStrings f es d) d" unfolding sameBody_def e using d by (auto simp: reserved_def)
  have "map_option strOf \<circ> map_of (map (\<lambda>(k, v). (k, JStr v)) es) = map_of es"
    by (auto simp: map_of_map fun_eq_iff strOf_def option.map_comp o_def option.map_ident)
  then show "nestedStringMap (setMetaStrings f es d) [''metadata'', f] = map_of es"
    using str by (auto simp: nestedStringMap_def isJStr_def simp del: nestedField.simps)
qed

lemma nestedStringMap_cong: "nestedField a ks = nestedField b ks \<Longrightarrow> nestedStringMap a ks = nestedStringMap b ks"
  by (simp add: nestedStringMap_def)

lemma updateAnnotations_ok:
  assumes "crObject d" and "\<And>es. wfObj es \<Longrightarrow> wfObj (f es) \<and> map_of (f es) = h (map_of es)"
  shows "crObject (updateAnnotations f d)" "sameBody (updateAnnotations f d) d"
    "GetAnnotations (updateAnnotations f d) = h (GetAnnotations d)" "GetLabels (updateAnnotations f d) = GetLabels d"
proof -
  note es = stringEntries_ok [OF assms(1), of "''annotations''", simplified]
  note ok = setMetaStrings_ok [OF assms(1), of "''annotations''", OF _ conjunct1 [OF assms(2) [OF conjunct1 [OF es]]]]
  from ok assms(2) [OF conjunct1 [OF es]] es
  show "crObject (updateAnnotations f d)" "sameBody (updateAnnotations f d) d"
    "GetAnnotations (updateAnnotations f d) = h (GetAnnotations d)"
    by (simp_all add: updateAnnotations_def GetAnnotations_def del: nestedField.simps)
  show "GetLabels (updateAnnotations f d) = GetLabels d"
    unfolding updateAnnotations_def GetLabels_def by (rule nestedStringMap_cong) (simp add: ok(4) del: nestedField.simps)
qed

lemma updateLabels_ok:
  assumes "crObject d" and "\<And>es. wfObj es \<Longrightarrow> wfObj (f es) \<and> map_of (f es) = h (map_of es)"
  shows "crObject (updateLabels f d)" "sameBody (updateLabels f d) d"
    "GetLabels (updateLabels f d) = h (GetLabels d)" "GetAnnotations (updateLabels f d) = GetAnnotations d"
proof -
  note es = stringEntries_ok [OF assms(1), of "''labels''", simplified]
  note ok = setMetaStrings_ok [OF assms(1), of "''labels''", OF _ conjunct1 [OF assms(2) [OF conjunct1 [OF es]]]]
  from ok assms(2) [OF conjunct1 [OF es]] es
  show "crObject (updateLabels f d)" "sameBody (updateLabels f d) d"
    "GetLabels (updateLabels f d) = h (GetLabels d)"
    by (simp_all add: updateLabels_def GetLabels_def del: nestedField.simps)
  show "GetAnnotations (updateLabels f d) = GetAnnotations d"
    unfolding updateLabels_def GetAnnotations_def by (rule nestedStringMap_cong) (simp add: ok(4) del: nestedField.simps)
qed

section \<open>Well-formed documents\<close>










section \<open>The round trip\<close>

text \<open>
  What is relied on of \<^verbatim>\<open>encoding/json\<close>: decoded documents are well-formed, and the captured
  fields come back from the annotation, normalised, in some order. The second holds as long as
  the numbers survive \<^verbatim>\<open>float64\<close>: integers up to \<open>2 ^ 53\<close>, and floats that are not whole.
\<close>

definition normEntry :: "json_codec \<Rightarrow> string \<times> capturedField \<Rightarrow> string \<times> capturedField" where
  "normEntry jc = (\<lambda>(k, f). (k, f\<lparr>cap_Value := NormalizeValue (jc_wide jc) (cap_Value f)\<rparr>))"

definition codecKeeps :: "json_codec \<Rightarrow> captured \<Rightarrow> bool" where
  "codecKeeps jc captured \<longleftrightarrow>
     (\<forall>t v. jc_unmarshal jc t = Inr v \<longrightarrow> wfJson (NormalizeValue (jc_wide jc) v)) \<and>
     (\<forall>t. jc_marshalCaptured jc captured = Inr t \<longrightarrow> t \<noteq> [] \<and>
        (\<exists>captured'. jc_unmarshalCaptured jc t = Inr captured' \<and> mset (map (normEntry jc) captured') = mset captured))"

lemma capturedWrites_wf:
  assumes "\<And>t v. jc_unmarshal jc t = Inr v \<Longrightarrow> wfJson (NormalizeValue (jc_wide jc) v)"
  shows "(p, v) \<in> set (capturedWrites jc fs ob) \<Longrightarrow> wfJson v"
proof (induction fs arbitrary: ob)
  case (Cons f fs)
  from Cons.prems obtain tokens u where u: "Parse (fp_Path f) = Inr tokens" "jc_unmarshal jc (fp_Value f) = Inr u"
    by (cases "Parse (fp_Path f)"; cases "jc_unmarshal jc (fp_Value f)") auto
  with Cons show ?case using assms [OF u(2)] by (auto simp: Let_def split: sum.splits)
qed simp

text \<open>What is relied on of the server: an update stores the metadata maps and the body it is given.\<close>

definition servedFrom :: "json \<Rightarrow> json \<Rightarrow> bool" where
  "servedFrom a b \<longleftrightarrow> crObject a \<and> sameBody a b \<and> GetLabels a = GetLabels b \<and> GetAnnotations a = GetAnnotations b"

definition updateStores :: "'s api \<Rightarrow> bool" where
  "updateStores api \<longleftrightarrow>
     (\<forall>obj s obj' s'. crObject obj \<longrightarrow> api_update api obj s = (Inr obj', s') \<longrightarrow> servedFrom obj' obj)"

definition putBack :: "string \<times> capturedField \<Rightarrow> string list \<times> json option" where
  "putBack = (\<lambda>(k, f). (case Parse k of Inl _ \<Rightarrow> [] | Inr p \<Rightarrow> p,
     if cap_Present f then Some (cap_Value f) else None))"

lemma restoreFields_writes:
  "\<forall>kf \<in> set cap. \<exists>p. Parse (fst kf) = Inr p \<Longrightarrow> wfJson d \<Longrightarrow>
     \<forall>(p, w) \<in> set (map (putBack \<circ> normEntry jc) cap). pred_option wfJson w \<Longrightarrow>
     writeAll writeAt d (map (putBack \<circ> normEntry jc) cap) = Some d' \<Longrightarrow> restoreFields jc cap d = Inr d'"
proof (induction cap arbitrary: d)
  case (Cons x cap)
  obtain k f where x: "x = (k, f)" by (cases x)
  obtain p where p: "Parse k = Inr p" using Cons.prems(1) x by auto
  let ?w = "if cap_Present f then Some (NormalizeValue (jc_wide jc) (cap_Value f)) else None"
  have pb: "(putBack \<circ> normEntry jc) x = (p, ?w)" using x p by (simp add: putBack_def normEntry_def)
  obtain d1 where d1: "writeAt d p ?w = Some d1" "writeAll writeAt d1 (map (putBack \<circ> normEntry jc) cap) = Some d'"
    using Cons.prems(4) unfolding list.map pb by (auto split: option.splits)
  have wf: "wfJson d1" using writeAt_ok [OF Cons.prems(2) _ d1(1)] Cons.prems(3) unfolding list.map pb by auto
  have rest: "restoreFields jc cap d1 = Inr d'"
    using Cons.IH [OF _ wf _ d1(2)] Cons.prems(1,3) by simp
  show ?case
  proof (cases "cap_Present f")
    case True
    with d1(1) have "SetValue d p (NormalizeValue (jc_wide jc) (cap_Value f)) = Inr d1"
      by (intro writeAt_SetValue) simp
    with rest x p True show ?thesis by simp
  next
    case False
    with d1(1) have "DeleteValue d p = Inr d1" by (intro DeleteValue_writeAt [OF Cons.prems(2)]) simp
    with rest x p False show ?thesis by simp
  qed
qed simp

lemma putBack_entriesAt:
  "\<forall>p \<in> set ps. hasParent obj p \<and> [] \<notin> set p \<Longrightarrow> map putBack (entriesAt obj ps) = map (\<lambda>p. (p, GetValue obj p)) ps"
  by (auto simp: putBack_def entriesAt_def entryOf_def Parse_Format_good orNull_def split: option.split)

lemma wfJson_entry: "wfJson d \<Longrightarrow> pred_option wfJson (GetValue d p)"
  by (cases "GetValue d p") (auto dest: wfJson_GetValue)

text \<open>Writes in the body leave the metadata alone.\<close>

lemma writeAt_meta:
  assumes "crObject d" and "inBody p" and "pred_option wfJson w" and "writeAt d p w = Some d'"
  shows "crObject d' \<and> GetLabels d' = GetLabels d \<and> GetAnnotations d' = GetAnnotations d"
proof -
  obtain m md where d: "d = JObj m" "map_of m ''metadata'' = Some (JObj md)" "wfJson (JObj m)"
    using assms(1) by (rule crObjectE)
  obtain t q where p: "p = t # q" "t \<notin> reserved" using assms(2) by (cases p) (auto simp: inBody_def)
  obtain m' where d': "d' = JObj m'" "map_of m' ''metadata'' = map_of m ''metadata''"
    using assms(4) d(1) p by (auto simp: writeAt_obj reserved_def split: if_splits option.splits simp del: writeAt.simps)
  have f: "nestedField d' (''metadata'' # ks) = nestedField d (''metadata'' # ks)" for ks using d d' by simp
  have "wfJson d'" using writeAt_ok [OF _ assms(3,4)] d(1,3) by simp
  then have "crObject d'" using assms(1) d d' unfolding crObject_def stringMeta_def f by auto
  then show ?thesis by (simp add: GetLabels_def GetAnnotations_def nestedStringMap_cong [OF f])
qed

lemma writeAll_meta:
  "crObject d \<Longrightarrow> \<forall>(p, w) \<in> set ps. inBody p \<and> pred_option wfJson w \<Longrightarrow> writeAll writeAt d ps = Some d' \<Longrightarrow>
     crObject d' \<and> GetLabels d' = GetLabels d \<and> GetAnnotations d' = GetAnnotations d"
proof (induction ps arbitrary: d)
  case (Cons x ps)
  obtain p w where x: "x = (p, w)" by (cases x)
  from Cons.prems(3) x obtain d1 where d1: "writeAt d p w = Some d1" "writeAll writeAt d1 ps = Some d'"
    by (auto split: option.splits)
  have "inBody p" "pred_option wfJson w" using Cons.prems(2) x by auto
  from writeAt_meta [OF Cons.prems(1) this d1(1)] Cons.IH [OF _ _ d1(2)] Cons.prems(2) show ?case by auto
qed simp

text \<open>Restoring what was captured, on any object with the body that the downscale produced.\<close>

lemma capture_restore:
  assumes wf: "wfJson obj" and cap: "captureFields jc fs obj [] = Inr (down, captured)"
    and good: "goodPaths obj (map fst (capturedWrites jc fs obj))"
    and vals: "\<forall>(p, v) \<in> set (capturedWrites jc fs obj). wfJson v"
    and kept: "mset (map (normEntry jc) captured') = mset captured"
    and night: "sameBody night down" "crObject night"
  shows "\<exists>d. restoreFields jc captured' night = Inr d \<and> sameBody d obj \<and> crObject d \<and>
    GetLabels d = GetLabels night \<and> GetAnnotations d = GetAnnotations night"
proof -
  let ?ws = "capturedWrites jc fs obj"
  let ?ps = "map fst ?ws"
  let ?olds = "map (putBack \<circ> normEntry jc) captured'"
  from captureFields_writes [OF cap good]
  have w: "writeAll writeAt obj (setWrites ?ws) = Some down" and m: "mset captured = mset (entriesAt obj ?ps)" by auto
  have entries: "mset (map (normEntry jc) captured') = mset (entriesAt obj ?ps)" using kept m by simp
  have "mset ?olds = image_mset putBack (mset (map (normEntry jc) captured'))" by (simp add: multiset.map_comp)
  also have "\<dots> = mset (map putBack (entriesAt obj ?ps))" unfolding entries by simp
  also have "map putBack (entriesAt obj ?ps) = map (\<lambda>(p, _). (p, GetValue obj p)) ?ws"
    using putBack_entriesAt [of ?ps obj] good by (auto simp: goodPaths_def o_def case_prod_unfold)
  finally have olds: "mset ?olds = mset (map (\<lambda>(p, _). (p, GetValue obj p)) ?ws)" .
  have "writeAll writeAt down ?olds = Some obj"
    using pointer_store.writeAll_restore [OF wf vals _ _ w olds] good by (auto simp: goodPaths_def)
  moreover have set_olds: "set ?olds = (\<lambda>p. (p, GetValue obj p)) ` set ?ps"
    using arg_cong [OF olds, of set_mset] by (auto simp: image_image case_prod_unfold)
  then have body: "\<forall>(p, w) \<in> set ?olds. inBody p" using good by (auto simp: goodPaths_def)
  ultimately obtain d where d: "writeAll writeAt night ?olds = Some d" "sameBody obj d"
    using sameBody_writeAll [OF sameBody_sym [OF night(1)]] by blast
  have vok: "\<forall>(p, w) \<in> set ?olds. pred_option wfJson w"
    using set_olds wfJson_entry [OF wf] by auto
  have "\<forall>kf \<in> set captured'. \<exists>p. Parse (fst kf) = Inr p"
  proof
    fix kf assume "kf \<in> set captured'"
    then have "normEntry jc kf \<in> set (map (normEntry jc) captured')" by simp
    then have "normEntry jc kf \<in> set (entriesAt obj ?ps)" using entries by (metis set_mset_mset)
    then obtain p where "p \<in> set ?ps" "fst (normEntry jc kf) = Format p"
      unfolding entriesAt_def set_map [of _ ?ps] by fastforce
    moreover from this have "hasParent obj p" "[] \<notin> set p" using good by (auto simp: goodPaths_def)
    ultimately show "\<exists>p. Parse (fst kf) = Inr p"
      using Parse_Format_good by (auto simp: normEntry_def case_prod_unfold)
  qed
  from restoreFields_writes [OF this _ vok d(1)] night(2)
  have "restoreFields jc captured' night = Inr d" by (simp add: crObject_def)
  moreover have "crObject d \<and> GetLabels d = GetLabels night \<and> GetAnnotations d = GetAnnotations night"
    using body vok by (intro writeAll_meta [OF night(2) _ d(1)]) auto
  ultimately show ?thesis using sameBody_sym [OF d(2)] by blast
qed

lemma markTurnedDown_ok:
  assumes "crObject d"
  shows "crObject (markTurnedDown sched encoded d)" "sameBody (markTurnedDown sched encoded d) d"
    "GetLabels (markTurnedDown sched encoded d) = (GetLabels d)(StateLabel \<mapsto> StateDown, ManagedByLabel \<mapsto> sched)"
    "GetAnnotations (markTurnedDown sched encoded d) =
       ((GetAnnotations d)(OriginalFieldsAnnotation \<mapsto> encoded))(WarmingUpSinceAnnotation := None)"
proof -
  note a = updateAnnotations_ok [OF assms,
      of "\<lambda>as. objDel WarmingUpSinceAnnotation (objSet OriginalFieldsAnnotation encoded as)"
         "\<lambda>m. (m(OriginalFieldsAnnotation \<mapsto> encoded))(WarmingUpSinceAnnotation := None)", OF conjI]
  let ?d = "updateAnnotations (\<lambda>as. objDel WarmingUpSinceAnnotation (objSet OriginalFieldsAnnotation encoded as)) d"
  have l: "crObject (updateLabels (\<lambda>ls. objSet ManagedByLabel sched (objSet StateLabel StateDown ls)) ?d)"
    "sameBody (updateLabels (\<lambda>ls. objSet ManagedByLabel sched (objSet StateLabel StateDown ls)) ?d) ?d"
    "GetLabels (updateLabels (\<lambda>ls. objSet ManagedByLabel sched (objSet StateLabel StateDown ls)) ?d) =
       (GetLabels ?d)(StateLabel \<mapsto> StateDown, ManagedByLabel \<mapsto> sched)"
    "GetAnnotations (updateLabels (\<lambda>ls. objSet ManagedByLabel sched (objSet StateLabel StateDown ls)) ?d) = GetAnnotations ?d"
    by (rule updateLabels_ok [where h = "\<lambda>m. m(StateLabel \<mapsto> StateDown, ManagedByLabel \<mapsto> sched)"]; simp add: a(1))+
  show "crObject (markTurnedDown sched encoded d)" "sameBody (markTurnedDown sched encoded d) d"
    "GetLabels (markTurnedDown sched encoded d) = (GetLabels d)(StateLabel \<mapsto> StateDown, ManagedByLabel \<mapsto> sched)"
    "GetAnnotations (markTurnedDown sched encoded d) =
       ((GetAnnotations d)(OriginalFieldsAnnotation \<mapsto> encoded))(WarmingUpSinceAnnotation := None)"
    using l a sameBody_trans [OF l(2) a(2)] by (simp_all add: markTurnedDown_def)
qed

lemma markRestored_ok:
  assumes "crObject d"
  shows "crObject (markRestored now d)" "sameBody (markRestored now d) d"
    "GetLabels (markRestored now d) = (GetLabels d)(StateLabel \<mapsto> StateWarmingUp)"
    "GetAnnotations (markRestored now d) =
       ((GetAnnotations d)(OriginalFieldsAnnotation := None))(WarmingUpSinceAnnotation \<mapsto> formatRFC3339 now)"
proof -
  note a = updateAnnotations_ok [OF assms,
      of "\<lambda>as. objSet WarmingUpSinceAnnotation (formatRFC3339 now) (objDel OriginalFieldsAnnotation as)"
         "\<lambda>m. (m(OriginalFieldsAnnotation := None))(WarmingUpSinceAnnotation \<mapsto> formatRFC3339 now)", OF conjI]
  let ?d = "updateAnnotations (\<lambda>as. objSet WarmingUpSinceAnnotation (formatRFC3339 now) (objDel OriginalFieldsAnnotation as)) d"
  have l: "crObject (updateLabels (objSet StateLabel StateWarmingUp) ?d)"
    "sameBody (updateLabels (objSet StateLabel StateWarmingUp) ?d) ?d"
    "GetLabels (updateLabels (objSet StateLabel StateWarmingUp) ?d) = (GetLabels ?d)(StateLabel \<mapsto> StateWarmingUp)"
    "GetAnnotations (updateLabels (objSet StateLabel StateWarmingUp) ?d) = GetAnnotations ?d"
    by (rule updateLabels_ok [where h = "\<lambda>m. m(StateLabel \<mapsto> StateWarmingUp)"]; simp add: a(1))+
  show "crObject (markRestored now d)" "sameBody (markRestored now d) d"
    "GetLabels (markRestored now d) = (GetLabels d)(StateLabel \<mapsto> StateWarmingUp)"
    "GetAnnotations (markRestored now d) =
       ((GetAnnotations d)(OriginalFieldsAnnotation := None))(WarmingUpSinceAnnotation \<mapsto> formatRFC3339 now)"
    using l a sameBody_trans [OF l(2) a(2)] by (simp_all add: markRestored_def)
qed

section \<open>Properties\<close>


text \<open>
  C10: What a downscale wrote into a custom resource is undone in the morning, whatever the
  operator has written to the status in between and in whatever order the captured fields are
  visited: the restore can fail only at the server, and otherwise leaves every field outside
  the metadata and the status as it was, removed again where it was missing, the resource
  warming up and nothing captured any more. The paths must part ways and have a parent.
\<close>

theorem custom_resource_roundtrip:
  assumes "updateStores api" and "crObject obj"
    and "goodPaths obj (map fst (capturedWrites jc (cr_SetFields cfg) obj))"
    and "captureFields jc (cr_SetFields cfg) obj [] = Inr (down, captured)" and "codecKeeps jc captured"
    and "TurnCustomResourceDown jc api obj cfg sched s = (Inr False, obj1, s1)"
    and "servedFrom night obj1"
  shows "case RestoreCustomResourceFields jc api night sched now s2 of
      (Inl e, obj2, s3) \<Rightarrow> (\<exists>t. e = ServerError t)
    | (Inr sk, obj2, s3) \<Rightarrow> \<not> sk \<and> sameBody obj2 obj \<and>
        phaseFor sched obj2 = WarmingUp (Some (formatRFC3339 now)) \<and>
        GetAnnotations obj2 OriginalFieldsAnnotation = None"
proof -
  have mark: "\<not> managedByOther sched obj" using assms(6) by (auto simp: TurnCustomResourceDown_def split: if_splits)
  from assms(4,6) obtain encoded where encoded: "jc_marshalCaptured jc captured = Inr encoded"
    and upd: "update api (markTurnedDown sched encoded down) s = (Inr False, obj1, s1)"
    by (auto simp: TurnCustomResourceDown_def split: if_splits sum.splits)
  have wf: "wfJson obj" using assms(2) by (simp add: crObject_def)
  have vals: "\<forall>(p, v) \<in> set (capturedWrites jc fs ob). wfJson v" for fs ob
    using assms(5) capturedWrites_wf by (fastforce simp: codecKeeps_def)
  have w: "writeAll writeAt obj (setWrites (capturedWrites jc (cr_SetFields cfg) obj)) = Some down"
    using captureFields_writes [OF assms(4,3)] by simp
  have down: "crObject down"
    using assms(3) vals [of "cr_SetFields cfg" obj]
    by (intro conjunct1 [OF writeAll_meta [OF assms(2) _ w]]) (fastforce simp: goodPaths_def)
  note marked = markTurnedDown_ok [OF down, of sched encoded]
  from upd have "api_update api (markTurnedDown sched encoded down) s = (Inr obj1, s1)"
    by (auto simp: update_def split: prod.splits sum.splits)
  with assms(1) marked(1) have "servedFrom obj1 (markTurnedDown sched encoded down)"
    unfolding updateStores_def by blast
  with assms(7) marked have night: "crObject night" "sameBody night down"
    "GetLabels night = (GetLabels down)(StateLabel \<mapsto> StateDown, ManagedByLabel \<mapsto> sched)"
    "GetAnnotations night = ((GetAnnotations down)(OriginalFieldsAnnotation \<mapsto> encoded))(WarmingUpSinceAnnotation := None)"
    unfolding servedFrom_def by (auto intro: sameBody_trans)
  obtain captured' where un: "jc_unmarshalCaptured jc encoded = Inr captured'" "encoded \<noteq> []"
    "mset (map (normEntry jc) captured') = mset captured"
    using assms(5) encoded unfolding codecKeeps_def by blast
  obtain d where d: "restoreFields jc captured' night = Inr d" "sameBody d obj" "crObject d"
    "GetLabels d = GetLabels night" "GetAnnotations d = GetAnnotations night"
    using capture_restore [OF wf assms(4,3) vals un(3) night(2,1)] by blast
  have keys: "mget (GetLabels night) ManagedByLabel = sched" "mget (GetLabels night) StateLabel = StateDown"
    "mget (GetAnnotations night) OriginalFieldsAnnotation = encoded"
    unfolding night by (simp_all add: mget_def)
  have run: "RestoreCustomResourceFields jc api night sched now s2 = update api (markRestored now d) s2"
    using keys un d(1) by (simp add: RestoreCustomResourceFields_def)
  note m = markRestored_ok [OF d(3), of now]
  show ?thesis
  proof (cases "api_update api (markRestored now d) s2")
    case (Pair r s3)
    show ?thesis
    proof (cases r)
      case (Inr obj2)
      with assms(1) m(1) Pair have sf: "servedFrom obj2 (markRestored now d)" unfolding updateStores_def by blast
      then have "sameBody obj2 obj" using m(2) d(2) unfolding servedFrom_def by (blast intro: sameBody_trans)
      moreover have "GetLabels obj2 ManagedByLabel = Some sched" "GetLabels obj2 StateLabel = Some StateWarmingUp"
        "GetAnnotations obj2 WarmingUpSinceAnnotation = Some (formatRFC3339 now)"
        "GetAnnotations obj2 OriginalFieldsAnnotation = None"
        using sf m(3,4) d(4,5) night(3,4) unfolding servedFrom_def by simp_all
      ultimately show ?thesis using Pair Inr unfolding run by (simp add: update_def phaseOf_def)
    qed (use Pair run in \<open>simp add: update_def\<close>)
  qed
qed

definition sampleResource :: json where
  "sampleResource = JObj
     [(''kind'', JStr ''Cluster''),
      (''metadata'', JObj [(''name'', JStr ''db''), (''namespace'', JStr ''shop'')]),
      (''spec'', JObj [(''instances'', JInt64 3)])]"

definition sampleEntry :: CustomResourceConfig where
  "sampleEntry = \<lparr>cr_Group = ''postgresql.cnpg.io'', cr_Version = ''v1'', cr_Kind = ''Cluster'', cr_Name = [],
     cr_MatchLabels = [],
     cr_SetFields = [\<lparr>fp_Path = ''/spec/instances'', fp_Value = ''0''\<rparr>, \<lparr>fp_Path = ''/spec/paused'', fp_Value = ''true''\<rparr>],
     cr_ReadyWhen = [], cr_Delete = False\<rparr>"

definition sampleCaptured :: captured where
  "sampleCaptured = [(''/spec/instances'', \<lparr>cap_Present = True, cap_Value = JInt64 3\<rparr>),
     (''/spec/paused'', \<lparr>cap_Present = False, cap_Value = JNull\<rparr>)]"

text \<open>A codec for the sample; the captured fields come back as floats, in the other order.\<close>

definition sampleCodec :: json_codec where
  "sampleCodec = \<lparr>
     jc_unmarshal = (\<lambda>t. if t = ''0'' then Inr (JFloat 0) else if t = ''true'' then Inr (JBool True) else Inl ''invalid''),
     jc_marshalCaptured = (\<lambda>c. Inr ''captured''),
     jc_unmarshalCaptured = (\<lambda>t. Inr [(''/spec/paused'', \<lparr>cap_Present = False, cap_Value = JNull\<rparr>),
        (''/spec/instances'', \<lparr>cap_Present = True, cap_Value = JFloat 3\<rparr>)]),
     jc_wide = - (2 ^ 63)\<rparr>"

definition databaseDown :: json where
  "databaseDown = JObj
     [(''kind'', JStr ''Cluster''),
      (''metadata'', JObj [(''name'', JStr ''db''), (''namespace'', JStr ''shop'')]),
      (''spec'', JObj [(''instances'', JInt64 0), (''paused'', JBool True)])]"

lemma sampleResource_ok: "crObject sampleResource"
  by (auto simp: crObject_def sampleResource_def wfObj_def stringMeta_def strMembers_def members_def orNull_def)

lemma emptyApi_updates: "updateStores emptyApi"
  by (auto simp: updateStores_def emptyApi_def servedFrom_def crObject_def)

lemma sampleCodec_keeps: "codecKeeps sampleCodec sampleCaptured"
  by (simp add: codecKeeps_def sampleCodec_def sampleCaptured_def normEntry_def convertFloat_def)

lemma sampleResource_captured:
  "captureFields sampleCodec (cr_SetFields sampleEntry) sampleResource [] = Inr (databaseDown, sampleCaptured)"
  "map fst (capturedWrites sampleCodec (cr_SetFields sampleEntry) sampleResource) =
     [[''spec'', ''instances''], [''spec'', ''paused'']]"
  by code_simp+

theorem custom_resource_roundtrip_witness:
  "GetValue (markTurnedDown ''night'' ''captured'' databaseDown) [''spec'', ''instances''] = Some (JInt64 0) \<and>
   (case RestoreCustomResourceFields sampleCodec emptyApi (markTurnedDown ''night'' ''captured'' databaseDown) ''night'' 0 () of
      (Inl e, obj2, s3) \<Rightarrow> (\<exists>t. e = ServerError t)
    | (Inr sk, obj2, s3) \<Rightarrow> \<not> sk \<and> sameBody obj2 sampleResource \<and>
        phaseFor ''night'' obj2 = WarmingUp (Some (formatRFC3339 0)) \<and>
        GetAnnotations obj2 OriginalFieldsAnnotation = None)"
proof -
  let ?obj1 = "markTurnedDown ''night'' ''captured'' databaseDown"
  have good: "goodPaths sampleResource (map fst (capturedWrites sampleCodec (cr_SetFields sampleEntry) sampleResource))"
  proof -
    have "apart [''spec'', ''instances''] [''spec'', ''paused'']" "apart [''spec'', ''paused''] [''spec'', ''instances'']"
      by code_simp+
    then show ?thesis unfolding sampleResource_captured(2)
      by (simp add: goodPaths_def pairwise_insert hasParent_def inBody_def reserved_def sampleResource_def del: apart.simps)
  qed
  have run: "TurnCustomResourceDown sampleCodec emptyApi sampleResource sampleEntry ''night'' () = (Inr False, ?obj1, ())"
    using sampleResource_captured(1)
    by (simp add: TurnCustomResourceDown_def managedByOther_def inState_def GetLabels_def nestedStringMap_def
        sampleResource_def sampleCaptured_def sampleCodec_def update_def emptyApi_def)
  have down: "crObject databaseDown"
    by (auto simp: crObject_def databaseDown_def wfObj_def stringMeta_def strMembers_def members_def orNull_def)
  then have "servedFrom ?obj1 ?obj1"
    using markTurnedDown_ok(1) [OF down, of "''night''" "''captured''"] sameBody_refl
    unfolding servedFrom_def crObject_def by metis
  from custom_resource_roundtrip [OF emptyApi_updates sampleResource_ok good sampleResource_captured(1) sampleCodec_keeps run this]
  have "case RestoreCustomResourceFields sampleCodec emptyApi ?obj1 ''night'' 0 () of
      (Inl e, obj2, s3) \<Rightarrow> (\<exists>t. e = ServerError t)
    | (Inr sk, obj2, s3) \<Rightarrow> \<not> sk \<and> sameBody obj2 sampleResource \<and>
        phaseFor ''night'' obj2 = WarmingUp (Some (formatRFC3339 0)) \<and>
        GetAnnotations obj2 OriginalFieldsAnnotation = None" .
  moreover have "GetValue ?obj1 [''spec'', ''instances''] = Some (JInt64 0)" by code_simp
  ultimately show ?thesis by blast
qed


section \<open>The gate in front of the applications\<close>

text \<open>
  A pass in which nothing that is read changes: the reads come from the cache of the client,
  which lags behind the writes.
\<close>

definition stableReads :: "'s api \<Rightarrow> bool" where
  "stableReads api \<longleftrightarrow>
     (\<forall>ns s s'. CheckWorkloadReadiness api ns s = CheckWorkloadReadiness api ns s') \<and>
     (\<forall>cfg nss s s'. DiscoverCustomResources api cfg nss s = DiscoverCustomResources api cfg nss s')"

text \<open>What the pass remembers of a namespace is what a check of it says.\<close>

definition readinessOk :: "'s api \<Rightarrow> 's \<Rightarrow> (string \<Rightarrow> bool option) \<Rightarrow> bool" where
  "readinessOk api s0 readiness \<longleftrightarrow>
     (\<forall>ns r. readiness ns = Some r \<longrightarrow>
        (\<exists>a b. CheckWorkloadReadiness api ns s0 = Inr (a, b) \<and> r = (a \<and> b)))"

definition crReleased ::
  "json_codec \<Rightarrow> 's api \<Rightarrow> string \<Rightarrow> duration \<Rightarrow> time \<Rightarrow> 's \<Rightarrow> CustomResourceConfig \<Rightarrow> json \<Rightarrow> bool" where
  "crReleased jc api scheduleName warmupTimeout now s0 cfg obj \<longleftrightarrow>
     (inState StateWarmingUp scheduleName obj \<longrightarrow>
        CheckWorkloadReadiness api (GetNamespace obj) s0 = Inr (True, True) \<and> customResourceReady jc obj cfg \<noteq> Some False \<or>
        warmupTimedOut obj now warmupTimeout)"

lemma namespaceReady_ok:
  assumes "stableReads api" and "readinessOk api s0 readiness"
    and "namespaceReady api ns readiness s = Inr (r, readiness')"
  shows "readinessOk api s0 readiness' \<and> (r \<longrightarrow> CheckWorkloadReadiness api ns s0 = Inr (True, True))"
proof (cases "readiness ns")
  case None
  with assms(3) obtain a b where ab: "CheckWorkloadReadiness api ns s = Inr (a, b)"
    "r = (a \<and> b)" "readiness' = readiness(ns \<mapsto> (a \<and> b))"
    by (auto simp: namespaceReady_def split: sum.splits)
  have "CheckWorkloadReadiness api ns s0 = Inr (a, b)" using assms(1) ab(1) unfolding stableReads_def by metis
  with ab assms(2) show ?thesis by (auto simp: readinessOk_def)
next
  case (Some x)
  with assms(2,3) show ?thesis unfolding readinessOk_def namespaceReady_def by fastforce
qed

lemma crWarmupOne_gate:
  assumes "stableReads api" and "readinessOk api s0 (pass_readiness p)"
    and p'_def: "p' = crWarmupOne jc api rec ref sched t now cfg obj p"
  shows "readinessOk api s0 (pass_readiness p') \<and> (pass_warming p \<longrightarrow> pass_warming p') \<and>
    (\<not> pass_warming p' \<longrightarrow> crReleased jc api sched t now s0 cfg obj)"
proof (cases "inState StateWarmingUp sched obj")
  case True
  let ?n = "namespaceReady api (GetNamespace obj) (pass_readiness p) (pass_state p)"
  show ?thesis
  proof (cases ?n)
    case (Inl e)
    with True assms(2) show ?thesis by (simp add: p'_def crWarmupOne_def inState_def Let_def)
  next
    case (Inr x)
    obtain r readiness where x: "x = (r, readiness)" by (cases x)
    note ok = namespaceReady_ok [OF assms(1,2) Inr [unfolded x]]
    obtain res obj' s' where c: "clearCustomResourceState api obj (pass_state p) = (res, obj', s')"
      by (cases "clearCustomResourceState api obj (pass_state p)") auto
    show ?thesis using True Inr x ok c
      by (cases res) (auto simp: p'_def crWarmupOne_def inState_def Let_def crReleased_def verdict_def split: option.splits)
  qed
next
  case False
  then have "p' = p" by (auto simp: p'_def crWarmupOne_def inState_def)
  with False assms(2) show ?thesis by (simp add: crReleased_def)
qed

text \<open>A loop over passes keeps what each turn keeps, and its end settles every turn.\<close>

lemma fold_gate:
  assumes "\<And>x p. I p \<Longrightarrow> x \<in> set xs \<Longrightarrow> I (f x p) \<and> (warm p \<longrightarrow> warm (f x p)) \<and> (\<not> warm (f x p) \<longrightarrow> Q x)"
    and "I p"
  shows "I (fold f xs p) \<and> (warm p \<longrightarrow> warm (fold f xs p)) \<and> (\<not> warm (fold f xs p) \<longrightarrow> (\<forall>x \<in> set xs. Q x))"
  using assms
proof (induction xs arbitrary: p)
  case (Cons x xs)
  have one: "I (f x p) \<and> (warm p \<longrightarrow> warm (f x p)) \<and> (\<not> warm (f x p) \<longrightarrow> Q x)" using Cons.prems by simp
  have rest: "I (fold f xs (f x p)) \<and> (warm (f x p) \<longrightarrow> warm (fold f xs (f x p))) \<and>
      (\<not> warm (fold f xs (f x p)) \<longrightarrow> (\<forall>y \<in> set xs. Q y))"
    using Cons.IH [of "f x p"] Cons.prems(1) one by simp
  have "fold f (x # xs) p = fold f xs (f x p)" by simp
  with one rest show ?case by (metis set_ConsD)
qed simp

lemma crWarmupEntry_gate:
  assumes "stableReads api" and "readinessOk api s0 (pass_readiness p)"
    and p'_def: "p' = crWarmupEntry jc api rec ref sched t nss now cfg p"
  shows "readinessOk api s0 (pass_readiness p') \<and> (pass_warming p \<longrightarrow> pass_warming p') \<and>
    (\<not> pass_warming p' \<longrightarrow> \<not> cr_Delete cfg \<longrightarrow>
       (\<forall>objs. DiscoverCustomResources api cfg nss s0 = Inr objs \<longrightarrow>
          (\<forall>obj \<in> set objs. crReleased jc api sched t now s0 cfg obj)))"
proof (cases "cr_Delete cfg \<or> (\<exists>e. DiscoverCustomResources api cfg nss s0 = Inl e)")
  case True
  moreover have "DiscoverCustomResources api cfg nss (pass_state p) = DiscoverCustomResources api cfg nss s0"
    using assms(1) unfolding stableReads_def by blast
  ultimately show ?thesis using assms(2) by (auto simp: p'_def crWarmupEntry_def)
next
  case False
  then obtain objs where objs: "DiscoverCustomResources api cfg nss s0 = Inr objs"
    by (cases "DiscoverCustomResources api cfg nss s0") auto
  then have "DiscoverCustomResources api cfg nss (pass_state p) = Inr objs"
    using assms(1) unfolding stableReads_def by metis
  then have p': "p' = fold (crWarmupOne jc api rec ref sched t now cfg) objs p"
    using False by (simp add: p'_def crWarmupEntry_def)
  have "readinessOk api s0 (pass_readiness p') \<and> (pass_warming p \<longrightarrow> pass_warming p') \<and>
      (\<not> pass_warming p' \<longrightarrow> (\<forall>obj \<in> set objs. crReleased jc api sched t now s0 cfg obj))"
    unfolding p'
  proof (rule fold_gate [where I = "\<lambda>p. readinessOk api s0 (pass_readiness p)"])
    show "readinessOk api s0 (pass_readiness p)" by (fact assms(2))
  qed (rule crWarmupOne_gate [OF assms(1) _ refl])
  then show ?thesis using objs by auto
qed

text \<open>
  C15: The handler lets the applications through only when each custom resource it discovered
  in its warm-up has been waited for: the workloads of its namespace are there and ready and
  the operator has not said otherwise, or the timeout has passed.
\<close>

theorem custom_resource_gate:
  assumes "stableReads api"
    and "handleCustomResourceWarmup jc api rec ref core sched nss now s = (False, obs, s')"
    and "cfg \<in> set (CustomResources core)" and "\<not> cr_Delete cfg"
    and "DiscoverCustomResources api cfg nss s = Inr objs" and "obj \<in> set objs"
    and "inState StateWarmingUp sched obj"
  shows "CheckWorkloadReadiness api (GetNamespace obj) s = Inr (True, True) \<and> customResourceReady jc obj cfg \<noteq> Some False \<or>
    warmupTimedOut obj now (warmupTimeoutOf (CustomResourceWarmupTimeout core))"
proof -
  let ?t = "warmupTimeoutOf (CustomResourceWarmupTimeout core)"
  let ?p = "\<lparr>pass_warming = False, pass_readiness = Map.empty, pass_obs = [], pass_state = s\<rparr>"
  let ?p' = "fold (crWarmupEntry jc api rec ref sched ?t nss now) (CustomResources core) ?p"
  let ?Q = "\<lambda>cfg. \<not> cr_Delete cfg \<longrightarrow> (\<forall>objs. DiscoverCustomResources api cfg nss s = Inr objs \<longrightarrow>
      (\<forall>obj \<in> set objs. crReleased jc api sched ?t now s cfg obj))"
  have "readinessOk api s (pass_readiness ?p') \<and> (pass_warming ?p \<longrightarrow> pass_warming ?p') \<and>
      (\<not> pass_warming ?p' \<longrightarrow> (\<forall>cfg \<in> set (CustomResources core). ?Q cfg))"
  proof (rule fold_gate [where I = "\<lambda>p. readinessOk api s (pass_readiness p)"])
    show "readinessOk api s (pass_readiness ?p)" by (simp add: readinessOk_def)
  qed (rule crWarmupEntry_gate [OF assms(1) _ refl])
  moreover have "\<not> pass_warming ?p'" using assms(2) by (simp add: handleCustomResourceWarmup_def Let_def)
  ultimately have "crReleased jc api sched ?t now s cfg obj" using assms(3-6) by blast
  with assms(7) show ?thesis by (simp add: crReleased_def)
qed

definition warmingDatabase :: json where
  "warmingDatabase = JObj
     [(''kind'', JStr ''Cluster''),
      (''metadata'', JObj [(''labels'', JObj [(ManagedByLabel, JStr ''night''), (StateLabel, JStr StateWarmingUp)]),
         (''name'', JStr ''db''), (''namespace'', JStr ''shop'')]),
      (''spec'', JObj [(''instances'', JInt64 3)]),
      (''status'', JObj [(''conditions'', JArr [JObj [(''status'', JStr ''True''), (''type'', JStr ''Ready'')]])])]"

definition databaseApi :: "unit api" where
  "databaseApi = emptyApi\<lparr>api_list := (\<lambda>g ns ls s. Inr [warmingDatabase]),
     api_listPods := (\<lambda>ns s. Inr [databasePod ''True''])\<rparr>"

theorem custom_resource_gate_witness:
  "handleCustomResourceWarmup sampleCodec databaseApi True ''s'' (emptyCore\<lparr>CustomResources := [sampleEntry]\<rparr>)
     ''night'' [''shop''] 0 () = (False, [], ()) \<and>
   (CheckWorkloadReadiness databaseApi ''shop'' () = Inr (True, True) \<and>
      customResourceReady sampleCodec warmingDatabase sampleEntry \<noteq> Some False \<or>
    warmupTimedOut warmingDatabase 0 DefaultWarmupTimeout)"
proof -
  let ?core = "emptyCore\<lparr>CustomResources := [sampleEntry]\<rparr>"
  have run: "handleCustomResourceWarmup sampleCodec databaseApi True ''s'' ?core ''night'' [''shop''] 0 () = (False, [], ())"
    "DiscoverCustomResources databaseApi sampleEntry [''shop''] () = Inr [warmingDatabase]"
    "inState StateWarmingUp ''night'' warmingDatabase" "GetNamespace warmingDatabase = ''shop''"
    by code_simp+
  have "stableReads databaseApi" unfolding stableReads_def by simp
  from custom_resource_gate [OF this run(1) _ _ run(2) _ run(3)] run
  show ?thesis by (simp add: emptyCore_def sampleEntry_def warmupTimeoutOf_def)
qed

end
