(* ===== verification/Syncwave.thy ===== *)
theory Syncwave
  imports Scaler Api_Types
begin

text \<open>
  \<^verbatim>\<open>internal/controller/syncwave.go\<close> and the type \<^verbatim>\<open>Workload\<close> of \<^verbatim>\<open>batcher.go\<close>: the order in
  which workloads are scaled when a schedule follows the sync waves of ArgoCD, and the gate
  between two waves. A workload holds one of three kinds of object; its name and namespace
  are those of the object.
\<close>

datatype workload =
    WDeployment replica_workload
  | WStatefulSet replica_workload
  | WCronJob cronjob

definition WorkloadFromDeployment :: "replica_workload \<Rightarrow> workload" where
  "WorkloadFromDeployment d = WDeployment d"
definition WorkloadFromStatefulSet :: "replica_workload \<Rightarrow> workload" where
  "WorkloadFromStatefulSet s = WStatefulSet s"
definition WorkloadFromCronJob :: "cronjob \<Rightarrow> workload" where
  "WorkloadFromCronJob c = WCronJob c"

fun workloadType :: "workload \<Rightarrow> string" where
  "workloadType (WDeployment d) = WorkloadTypeDeployment"
| "workloadType (WStatefulSet s) = WorkloadTypeStatefulSet"
| "workloadType (WCronJob c) = WorkloadTypeCronJob"

fun workloadName :: "workload \<Rightarrow> string" where
  "workloadName (WDeployment d) = obj_name d"
| "workloadName (WStatefulSet s) = obj_name s"
| "workloadName (WCronJob c) = obj_name c"

fun workloadNamespace :: "workload \<Rightarrow> string" where
  "workloadNamespace (WDeployment d) = obj_namespace d"
| "workloadNamespace (WStatefulSet s) = obj_namespace s"
| "workloadNamespace (WCronJob c) = obj_namespace c"

fun workloadAnnotations :: "workload \<Rightarrow> strmap" where
  "workloadAnnotations (WDeployment d) = obj_annotations d"
| "workloadAnnotations (WStatefulSet s) = obj_annotations s"
| "workloadAnnotations (WCronJob c) = obj_annotations c"

section \<open>Waves\<close>

definition syncWaveSettings :: "LightsOutScheduleCore \<Rightarrow> bool \<times> duration" where
  "syncWaveSettings core =
     (case ArgoCD core of
        None \<Rightarrow> (False, 0)
      | Some a \<Rightarrow>
          if \<not> SyncWaves a then (False, 0)
          else (True, case argo_WarmupTimeout a of None \<Rightarrow> DefaultWarmupTimeout | Some d \<Rightarrow> d))"

definition syncWave :: "workload \<Rightarrow> int" where
  "syncWave w =
     (case atoi (trimSpace (mget (workloadAnnotations w) ArgoCDSyncWaveAnnotation)) of
        None \<Rightarrow> 0
      | Some wave \<Rightarrow> wave)"

definition waveBefore :: "int \<Rightarrow> int \<Rightarrow> bool \<Rightarrow> bool" where
  "waveBefore a b scaleUp \<longleftrightarrow> (if scaleUp then a < b else a > b)"

definition cmpWorkload :: "bool \<Rightarrow> workload \<Rightarrow> workload \<Rightarrow> int" where
  "cmpWorkload scaleUp a b =
     (let wa = syncWave a; wb = syncWave b in
      if wa \<noteq> wb then (if waveBefore wa wb scaleUp then - 1 else 1)
      else
        (let c = goCompare (workloadNamespace a) (workloadNamespace b) in
         if c \<noteq> 0 then c else goCompare (workloadName a) (workloadName b)))"

definition sortWorkloadsByWave :: "workload list \<Rightarrow> bool \<Rightarrow> workload list" where
  "sortWorkloadsByWave workloads scaleUp = stableSort (cmpWorkload scaleUp) workloads"

section \<open>Settling\<close>

definition replicasSettled :: "replica_workload \<Rightarrow> bool \<Rightarrow> bool" where
  "replicasSettled d scaleUp \<longleftrightarrow>
     (if st_observedGeneration d < obj_generation d then False
      else if \<not> scaleUp then st_replicas d = 0
      else sint (derefReplicas (spec_replicas d)) \<le> sint (st_readyReplicas d))"

fun workloadSettled :: "workload \<Rightarrow> bool \<Rightarrow> bool" where
  "workloadSettled (WDeployment d) scaleUp \<longleftrightarrow> replicasSettled d scaleUp"
| "workloadSettled (WStatefulSet s) scaleUp \<longleftrightarrow> replicasSettled s scaleUp"
| "workloadSettled (WCronJob c) scaleUp \<longleftrightarrow> True"

definition waveGates :: "workload \<Rightarrow> ScaleResult \<Rightarrow> bool" where
  "waveGates w result \<longleftrightarrow>
     (if workloadType w = WorkloadTypeCronJob then False
      else if \<not> Skipped result then True
      else SkipReason result \<notin> {skipReasonDifferentSchedule, skipReasonNotManaged, skipReasonUserParked})"

fun waveSettled :: "workload list \<Rightarrow> bool \<Rightarrow> bool \<times> string" where
  "waveSettled [] scaleUp = (True, [])"
| "waveSettled (w # ws) scaleUp =
     (if \<not> workloadSettled w scaleUp
      then (False, workloadType w @ '' '' @ workloadNamespace w @ ''/'' @ workloadName w)
      else waveSettled ws scaleUp)"

text \<open>
  The gate at the end of a wave: the progress to keep, whether to hold, and the warning
  recorded on \<open>scheduleObj\<close> when the wait is given up (if there is a recorder).
\<close>

definition waveGate ::
  "bool \<Rightarrow> string \<Rightarrow> WaveProgress option \<Rightarrow> int \<Rightarrow> workload list \<Rightarrow> bool \<Rightarrow> duration \<Rightarrow> time \<Rightarrow>
     WaveProgress option \<times> bool \<times> observation list" where
  "waveGate recorder scheduleObj prev wave gated scaleUp timeout now =
     (if (case prev of None \<Rightarrow> False | Some p \<Rightarrow> waveBefore wave (Wave p) scaleUp) then (prev, False, [])
      else
        (let since = (case prev of None \<Rightarrow> now | Some p \<Rightarrow> if Wave p = wave then Since p else now);
             progress = Some \<lparr>Wave = wave, Since = since\<rparr>
         in case waveSettled gated scaleUp of
              (settled, blocker) \<Rightarrow>
                if settled then (progress, False, [])
                else if timeSub now since \<ge> timeout then
                  (progress, False,
                   if recorder then
                     [EventRecorded scheduleObj ''Warning'' EventReasonSyncWaveTimeout ''SyncWave''
                        (''Sync wave '' @ itoa wave @ '' did not settle within '' @ durationString timeout @
                         '' (waiting on '' @ blocker @ ''), continuing with the next wave'')]
                   else [])
                else (progress, True, [])))"

section \<open>The order of the waves\<close>

lemma goCompare_simps [simp]:
  "goCompare a b < 0 \<longleftrightarrow> a < b" "goCompare a b = 0 \<longleftrightarrow> a = b" "goCompare a b \<le> 0 \<longleftrightarrow> a \<le> b"
  "0 < goCompare a b \<longleftrightarrow> b < a"
  by (auto simp: goCompare_def)

lemma waveBefore_irrefl [simp]: "\<not> waveBefore a a up"
  by (simp add: waveBefore_def)

lemma waveBefore_total: "a \<noteq> b \<Longrightarrow> waveBefore a b up \<longleftrightarrow> \<not> waveBefore b a up"
  by (auto simp: waveBefore_def)

text \<open>The key a workload is sorted by, with waves negated for a downscale.\<close>

definition waveKey :: "bool \<Rightarrow> workload \<Rightarrow> int" where
  "waveKey up w = (if up then syncWave w else - syncWave w)"

lemma cmpWorkload_le:
  "cmpWorkload up a b \<le> 0 \<longleftrightarrow>
     waveKey up a < waveKey up b \<or> waveKey up a = waveKey up b \<and>
       (workloadNamespace a < workloadNamespace b \<or>
        workloadNamespace a = workloadNamespace b \<and> workloadName a \<le> workloadName b)"
  by (auto simp: cmpWorkload_def waveKey_def waveBefore_def Let_def)

lemma cmpWorkload_less:
  "cmpWorkload up a b < 0 \<longleftrightarrow>
     waveKey up a < waveKey up b \<or> waveKey up a = waveKey up b \<and>
       (workloadNamespace a < workloadNamespace b \<or>
        workloadNamespace a = workloadNamespace b \<and> workloadName a < workloadName b)"
  by (auto simp: cmpWorkload_def waveKey_def waveBefore_def Let_def)

interpretation wave_order: comparison "cmpWorkload up" for up
proof
  fix x y z :: workload
  have "0 < cmpWorkload up x y \<longleftrightarrow> \<not> cmpWorkload up x y \<le> 0" by linarith
  then show "cmpWorkload up y x < 0 \<longleftrightarrow> 0 < cmpWorkload up x y"
    unfolding cmpWorkload_le cmpWorkload_less
    by (metis linorder_less_linear linorder_not_le order_less_imp_not_less)
  show "cmpWorkload up x y \<le> 0 \<Longrightarrow> cmpWorkload up y z \<le> 0 \<Longrightarrow> cmpWorkload up x z \<le> 0"
    unfolding cmpWorkload_le by (elim disjE conjE) (simp_all, blast intro: less_trans)
qed

lemma sorted_waveKey: "sorted (map (waveKey up) (sortWorkloadsByWave ws up))"
  using wave_order.sorted_stableSort [of up ws]
  by (auto simp: sortWorkloadsByWave_def sorted_map cmpWorkload_le elim!: sorted_wrt_mono_rel [rotated])

text \<open>Nothing comes after a workload of a later wave.\<close>

lemma sorted_waves:
  "sorted_wrt (\<lambda>a b. \<not> waveBefore (syncWave b) (syncWave a) up) (sortWorkloadsByWave ws up)"
  using sorted_waveKey [of up ws]
  by (auto simp: sorted_map waveKey_def waveBefore_def elim!: sorted_wrt_mono_rel [rotated] split: if_splits)

lemma waves_reversed:
  "map syncWave (sortWorkloadsByWave ws False) = rev (map syncWave (sortWorkloadsByWave ws True))"
proof -
  let ?d = "map syncWave (sortWorkloadsByWave ws False)" and ?u = "map syncWave (sortWorkloadsByWave ws True)"
  have "waveKey True = syncWave" by (simp add: waveKey_def fun_eq_iff)
  then have "sorted ?u" using sorted_waveKey [of True ws] by metis
  moreover have "sorted (rev ?d)"
    using sorted_waves [of False ws] by (simp add: sorted_wrt_rev sorted_wrt_map waveBefore_def not_less)
  moreover have "mset (rev ?d) = mset ?u" by (simp add: sortWorkloadsByWave_def)
  ultimately have "rev ?d = ?u" by (metis properties_for_sort)
  then show ?thesis by (metis rev_rev_ident)
qed

text \<open>Within a wave the workloads are in the order of namespace and name, whatever the direction.\<close>

definition tieKey :: "workload \<Rightarrow> string list" where
  "tieKey w = [workloadNamespace w, workloadName w]"

lemma wave_sorted_by_tie:
  "filter (\<lambda>w. syncWave w = wave) (sortWorkloadsByWave ws up) = sort_key tieKey (filter (\<lambda>w. syncWave w = wave) ws)"
proof (rule properties_for_sort_key [symmetric])
  let ?s = "sortWorkloadsByWave ws up" and ?W = "\<lambda>w. syncWave w = wave"
  show "mset (filter ?W ?s) = mset (filter ?W ws)" by (simp add: sortWorkloadsByWave_def mset_filter)
  show "filter (\<lambda>w. tieKey k = tieKey w) (filter ?W ?s) = filter (\<lambda>w. tieKey k = tieKey w) (filter ?W ws)"
    if "k \<in> set (filter ?W ?s)" for k
  proof -
    have e: "syncWave w = wave \<and> tieKey k = tieKey w \<longleftrightarrow> cmpWorkload up k w = 0" for w
      using that by (auto simp: cmpWorkload_def tieKey_def Let_def)
    show ?thesis using wave_order.filter_stableSort [of up k ws] by (simp add: e sortWorkloadsByWave_def)
  qed
  have "sorted_wrt (\<lambda>a b. cmpWorkload up a b \<le> 0) (filter ?W ?s)"
    using wave_order.sorted_stableSort [of up ws] by (simp add: sorted_wrt_filter sortWorkloadsByWave_def)
  then show "sorted (map tieKey (filter ?W ?s))"
    unfolding sorted_map by (rule sorted_wrt_mono_rel [rotated]) (auto simp: cmpWorkload_le waveKey_def tieKey_def split: if_splits)
qed

section \<open>The gate\<close>

lemma waveGate_cases:
  assumes "waveGate rec obj prev wave ms up timeout now = (prog, hold, events)"
  obtains (passed) p where "prev = Some p" "waveBefore wave (Wave p) up" "prog = prev" "\<not> hold" "events = []"
    | (here) since where "\<forall>p. prev = Some p \<longrightarrow> \<not> waveBefore wave (Wave p) up"
        "since = (case prev of None \<Rightarrow> now | Some p \<Rightarrow> if Wave p = wave then Since p else now)"
        "prog = Some \<lparr>Wave = wave, Since = since\<rparr>"
        "hold \<longleftrightarrow> \<not> fst (waveSettled ms up) \<and> timeSub now since < timeout"
  using assms
  by (cases prev) (auto simp: waveGate_def Let_def not_le split: if_splits prod.splits)

lemma waveSettled_iff: "fst (waveSettled ms up) \<longleftrightarrow> (\<forall>w \<in> set ms. workloadSettled w up)"
  by (induction ms) auto

text \<open>Reconciling again and again at the same boundary, with what is carried in the status.\<close>

fun gateRun ::
  "bool \<Rightarrow> string \<Rightarrow> int \<Rightarrow> bool \<Rightarrow> duration \<Rightarrow> WaveProgress option \<Rightarrow> (workload list \<times> time) list \<Rightarrow>
     WaveProgress option" where
  "gateRun rec obj wave up timeout prog [] = prog"
| "gateRun rec obj wave up timeout prog ((ms, now) # rest) =
     gateRun rec obj wave up timeout (fst (waveGate rec obj prog wave ms up timeout now)) rest"

lemma gateRun_same:
  "gateRun rec obj wave up timeout (Some \<lparr>Wave = wave, Since = t\<rparr>) passes = Some \<lparr>Wave = wave, Since = t\<rparr>"
proof (induction passes)
  case (Cons x passes)
  obtain ms now where x: "x = (ms, now)" by (cases x)
  have "fst (waveGate rec obj (Some \<lparr>Wave = wave, Since = t\<rparr>) wave ms up timeout now) =
      Some \<lparr>Wave = wave, Since = t\<rparr>"
    by (simp add: waveGate_def Let_def split: prod.split)
  with Cons x show ?case by simp
qed simp

section \<open>Properties\<close>

text \<open>
  C29: Sorting by wave keeps exactly the workloads it was given and puts them in the order of wave,
  namespace and name, where the order of the waves depends on the direction and the others do not;
  workloads that agree in all three stay in the order they came in. Each wave holds the same workloads
  in the same order on the way down and on the way up, and the waves come in reverse.
\<close>

theorem wave_order_exact:
  "mset (sortWorkloadsByWave ws up) = mset ws \<and>
   sorted_wrt (\<lambda>a b. waveBefore (syncWave a) (syncWave b) up \<or> syncWave a = syncWave b \<and>
       (workloadNamespace a < workloadNamespace b \<or>
        workloadNamespace a = workloadNamespace b \<and> workloadName a \<le> workloadName b)) (sortWorkloadsByWave ws up) \<and>
   filter (\<lambda>w. syncWave w = wave \<and> workloadNamespace w = ns \<and> workloadName w = name) (sortWorkloadsByWave ws up) =
     filter (\<lambda>w. syncWave w = wave \<and> workloadNamespace w = ns \<and> workloadName w = name) ws \<and>
   filter (\<lambda>w. syncWave w = wave) (sortWorkloadsByWave ws False) = filter (\<lambda>w. syncWave w = wave) (sortWorkloadsByWave ws True) \<and>
   map syncWave (sortWorkloadsByWave ws False) = rev (map syncWave (sortWorkloadsByWave ws True))"
proof (intro conjI)
  show "sorted_wrt (\<lambda>a b. waveBefore (syncWave a) (syncWave b) up \<or> syncWave a = syncWave b \<and>
       (workloadNamespace a < workloadNamespace b \<or>
        workloadNamespace a = workloadNamespace b \<and> workloadName a \<le> workloadName b)) (sortWorkloadsByWave ws up)"
    using wave_order.sorted_stableSort [of up ws] unfolding sortWorkloadsByWave_def
    by (rule sorted_wrt_mono_rel [rotated]) (auto simp: cmpWorkload_le waveKey_def waveBefore_def split: if_splits)
  let ?P = "\<lambda>w. tieKey w = [ns, name]"
  have P: "(\<lambda>w. syncWave w = wave \<and> workloadNamespace w = ns \<and> workloadName w = name) = (\<lambda>w. syncWave w = wave \<and> ?P w)"
    by (simp add: tieKey_def fun_eq_iff)
  have stable: "filter ?P (sort_key tieKey xs) = filter ?P xs" for xs
    by (rule sort_key_stable)
  then show "filter (\<lambda>w. syncWave w = wave \<and> workloadNamespace w = ns \<and> workloadName w = name) (sortWorkloadsByWave ws up) =
     filter (\<lambda>w. syncWave w = wave \<and> workloadNamespace w = ns \<and> workloadName w = name) ws"
    using arg_cong [OF wave_sorted_by_tie [of wave ws up], of "filter ?P"] unfolding P by (simp only: filter_filter stable)
qed (simp_all add: sortWorkloadsByWave_def wave_sorted_by_tie [unfolded sortWorkloadsByWave_def]
    waves_reversed [unfolded sortWorkloadsByWave_def])

text \<open>Two workloads of the wave 0 that come in against their order, and one of the wave 1.\<close>

definition wavesSample :: "workload list" where
  "wavesSample =
     [WDeployment ((sampleWorkload None)\<lparr>obj_name := ''web'', obj_annotations := [ArgoCDSyncWaveAnnotation \<mapsto> ''1'']\<rparr>),
      WDeployment ((sampleWorkload None)\<lparr>obj_name := ''queue''\<rparr>), WDeployment ((sampleWorkload None)\<lparr>obj_name := ''db''\<rparr>)]"

theorem wave_order_exact_witness:
  "map workloadName (sortWorkloadsByWave wavesSample True) = [''db'', ''queue'', ''web''] \<and>
   map workloadName (sortWorkloadsByWave wavesSample False) = [''web'', ''db'', ''queue''] \<and>
   map syncWave (sortWorkloadsByWave wavesSample False) = [1, 0, 0]"
proof -
  have "map workloadName (sortWorkloadsByWave wavesSample True) = [''db'', ''queue'', ''web'']"
    "map workloadName (sortWorkloadsByWave wavesSample False) = [''web'', ''db'', ''queue'']"
    "map syncWave (sortWorkloadsByWave wavesSample True) = [0, 0, 1]" by code_simp+
  with wave_order_exact [of wavesSample True] show ?thesis by simp
qed

text \<open>
  The gate never goes back: the progress it returns is for the given wave or, if scaling
  has passed that one, the progress it was given; the clock of a wave is not restarted; and
  it holds exactly if the wave is not passed, some gated workload has not settled and the
  timeout has not elapsed.
\<close>

theorem waveGate_monotone:
  assumes "waveGate rec obj prev wave ms up timeout now = (prog, hold, events)"
  shows "\<exists>q. prog = Some q \<and>
    (\<forall>p. prev = Some p \<longrightarrow> \<not> waveBefore (Wave q) (Wave p) up \<and> (Wave q = Wave p \<longrightarrow> Since q = Since p)) \<and>
    (hold \<longleftrightarrow> \<not> waveBefore wave (Wave q) up \<and> (\<exists>w \<in> set ms. \<not> workloadSettled w up) \<and>
              timeSub now (Since q) < timeout)"
  using assms by (cases rule: waveGate_cases) (auto simp: waveSettled_iff)

definition sampleMember :: workload where
  "sampleMember = WDeployment (sampleWorkload (Some 3))\<comment> \<open>three pods still running\<close>"

theorem waveGate_monotone_witness:
  "snd (waveGate False ''s'' (Some \<lparr>Wave = 1, Since = 5\<rparr>) 0 [sampleMember] False (10 * minute) 7) = (True, []) \<and>
   fst (waveGate False ''s'' (Some \<lparr>Wave = 1, Since = 5\<rparr>) 0 [sampleMember] False (10 * minute) 7) = Some \<lparr>Wave = 0, Since = 7\<rparr>"
proof -
  have run: "waveGate False ''s'' (Some \<lparr>Wave = 1, Since = 5\<rparr>) 0 [sampleMember] False (10 * minute) 7 =
      (Some \<lparr>Wave = 0, Since = 7\<rparr>, True, [])"
    by (simp add: waveGate_def waveBefore_def sampleMember_def sampleWorkload_def replicasSettled_def timeSub_def
        minute_def second_def maxDuration_def minDuration_def)
  from waveGate_monotone [OF run] run show ?thesis by simp
qed

text \<open>
  A wave is waited for no longer than the timeout: from the first reconcile at its
  boundary on, whatever reconciles come in between, one that comes a timeout later does not
  hold, settled or not.
\<close>

theorem wave_wait_bounded:
  assumes "\<forall>p. prev = Some p \<longrightarrow> waveBefore (Wave p) wave up"
    and "start + timeout \<le> now" and "timeout \<le> maxDuration"
  shows "fst (snd (waveGate rec obj (gateRun rec obj wave up timeout prev ((ms0, start) # passes))
    wave ms up timeout now)) = False"
proof -
  have "fst (waveGate rec obj prev wave ms0 up timeout start) = Some \<lparr>Wave = wave, Since = start\<rparr>"
    using assms(1) by (auto simp: waveGate_def waveBefore_def Let_def split: option.splits prod.splits if_splits)
  then have run: "gateRun rec obj wave up timeout prev ((ms0, start) # passes) = Some \<lparr>Wave = wave, Since = start\<rparr>"
    by (simp add: gateRun_same)
  have "timeout \<le> timeSub now start" using assms(2,3) by (intro timeSub_ge) simp_all
  then show ?thesis unfolding run by (simp add: waveGate_def Let_def split: prod.split)
qed

theorem wave_wait_bounded_witness:
  "fst (snd (waveGate False ''s'' (gateRun False ''s'' 0 False minute None [([sampleMember], 0), ([sampleMember], 30 * second)])
     0 [sampleMember] False minute minute)) = False"
  by (rule wave_wait_bounded) (simp_all add: minute_def second_def maxDuration_def)

end
