(* ===== verification/Events.thy ===== *)
theory Events
  imports Syncwave
begin

text \<open>
  \<^verbatim>\<open>internal/controller/events.go\<close> and \<^verbatim>\<open>clearScheduleMetrics\<close> of \<^verbatim>\<open>metrics.go\<close>: what is
  recorded about scaling. Without a recorder nothing is. The arrow of the messages is the
  three bytes of its UTF-8 encoding.
\<close>

definition workloadObject :: "workload \<Rightarrow> string" where
  "workloadObject w = workloadType w @ '' '' @ workloadNamespace w @ ''/'' @ workloadName w"

definition recordWorkloadEvent ::
  "bool \<Rightarrow> workload \<Rightarrow> string \<Rightarrow> string \<Rightarrow> bool \<Rightarrow> ScaleResult \<Rightarrow> observation list" where
  "recordWorkloadEvent recorder w scheduleName scheduleKind scaleUp result =
     (if \<not> recorder \<or> Skipped result then []
      else
        (let who = '' by LightsOut '' @ scheduleKind @ '' '' @ goQuote scheduleName;
             change = '': replicas '' @ PreviousValue result @ rightArrow @ NewValue result
         in case w of
              WCronJob c \<Rightarrow>
                if scaleUp then [EventRecorded (workloadObject w) ''Normal'' ''Resumed'' ''Resume'' (''Resumed'' @ who)]
                else [EventRecorded (workloadObject w) ''Normal'' ''Suspended'' ''Suspend'' (''Suspended'' @ who)]
            | _ \<Rightarrow>
                if scaleUp then
                  [EventRecorded (workloadObject w) ''Normal'' EventReasonScaledUp EventActionScaleUp
                     (''Scaled up'' @ who @ change)]
                else
                  [EventRecorded (workloadObject w) ''Normal'' EventReasonScaledDown EventActionScaleDown
                     (''Scaled down'' @ who @ change)]))"

definition recordScalingEvents ::
  "bool \<Rightarrow> string \<Rightarrow> bool \<Rightarrow> WorkloadStats \<Rightarrow> string list \<Rightarrow> observation list" where
  "recordScalingEvents recorder scheduleObj scaleUp stats namespaces =
     (if \<not> recorder then []
      else
        (if \<not> scaleUp \<and> DeploymentsScaled stats + StatefulSetsScaled stats + CronJobsSuspended stats > 0 then
           [EventRecorded scheduleObj ''Normal'' EventReasonScaledDown EventActionScaleDown
              (''Scaled down '' @ itoa (DeploymentsScaled stats) @ '' deployments, '' @
               itoa (StatefulSetsScaled stats) @ '' statefulsets, suspended '' @
               itoa (CronJobsSuspended stats) @ '' cronjobs across '' @ itoa (int (length namespaces)) @ '' namespaces'')]
         else []) @
        (if scaleUp \<and> DeploymentsManaged stats + StatefulSetsManaged stats + CronJobsManaged stats > 0 then
           [EventRecorded scheduleObj ''Normal'' EventReasonScaledUp EventActionScaleUp
              (''Scaled up workloads across '' @ itoa (int (length namespaces)) @ '' namespaces (managing '' @
               itoa (DeploymentsManaged stats) @ '' deployments, '' @ itoa (StatefulSetsManaged stats) @
               '' statefulsets, '' @ itoa (CronJobsManaged stats) @ '' cronjobs)'')]
         else []))"

definition scheduleSeries :: "collector list" where
  "scheduleSeries =
     [ScheduleState, NextTransitionSeconds, ScalingOperationsTotal, ScalingErrorsTotal,
      ManagedWorkloads, ScaledWorkloads, ManagedCustomResources, ScalingBatchesTotal,
      ScalingWorkloadsProcessed, ScalingDurationSeconds, StuckTerminatingPods, LastReconcileTime]"

definition clearScheduleMetrics :: "string \<Rightarrow> observation list" where
  "clearScheduleMetrics scheduleLabel = map (\<lambda>m. SeriesDropped m scheduleLabel) scheduleSeries"

end
