(* ===== verification/Namespaces.thy ===== *)
theory Namespaces
  imports Api_Types
begin

text \<open>
  \<^verbatim>\<open>internal/controller/namespace.go\<close>: which namespaces a cluster schedule works on, which
  workloads its exclusion labels leave out, and which namespaces it cedes to a namespace
  schedule. Label selectors are converted and evaluated by the Kubernetes library:
  \<open>selectors\<close>. The API server's lists are functions that get the request.
\<close>

record 'sel selectors =
  sel_of :: "LabelSelector \<Rightarrow> string + 'sel"
  sel_matches :: "'sel \<Rightarrow> strmap \<Rightarrow> bool"

definition SystemNamespaces :: "string list" where
  "SystemNamespaces = [''kube-system'', ''kube-public'', ''kube-node-lease'']"

definition selectedNamespaces ::
  "'sel selectors \<Rightarrow> ('sel \<Rightarrow> 's \<Rightarrow> string + string list) \<Rightarrow> LabelSelector option \<Rightarrow> 's \<Rightarrow> string + string set" where
  "selectedNamespaces sels listNamespaces sel s =
     (case sel of
        None \<Rightarrow> Inr {}
      | Some ls \<Rightarrow>
          (case sel_of sels ls of
             Inl e \<Rightarrow> Inl e
           | Inr selector \<Rightarrow>
               (case listNamespaces selector s of
                  Inl e \<Rightarrow> Inl e
                | Inr items \<Rightarrow> Inr (set items))))"

definition DiscoverNamespaces ::
  "'sel selectors \<Rightarrow> ('sel \<Rightarrow> 's \<Rightarrow> string + string list) \<Rightarrow> LightsOutScheduleSpec \<Rightarrow> 's \<Rightarrow>
     string + string list" where
  "DiscoverNamespaces sels listNamespaces spec s =
     (case selectedNamespaces sels listNamespaces (NamespaceSelector spec) s of
        Inl e \<Rightarrow> Inl e
      | Inr fromSelector \<Rightarrow>
          (let withExplicit = fromSelector \<union> set (Namespaces spec);
               withoutExcluded = withExplicit - set (ExcludeNamespaces spec);
               withoutSystem = withoutExcluded - set SystemNamespaces
           in Inr (sorted_list_of_set withoutSystem)))"

definition ShouldExcludeWorkload ::
  "'sel selectors \<Rightarrow> strmap \<Rightarrow> LabelSelector option \<Rightarrow> string + bool" where
  "ShouldExcludeWorkload sels workloadLabels excludeSelector =
     (case excludeSelector of
        None \<Rightarrow> Inr False
      | Some ls \<Rightarrow>
          (case sel_of sels ls of
             Inl e \<Rightarrow> Inl e
           | Inr selector \<Rightarrow> Inr (sel_matches sels selector workloadLabels)))"

text \<open>\<open>listLocal ns n s\<close> lists at most \<open>n\<close> of the namespace schedules in \<open>ns\<close>.\<close>

fun FilterNamespacesWithLocalSchedules ::
  "(string \<Rightarrow> nat \<Rightarrow> 's \<Rightarrow> string + 'sched list) \<Rightarrow> string list \<Rightarrow> 's \<Rightarrow> string + string list" where
  "FilterNamespacesWithLocalSchedules listLocal [] s = Inr []"
| "FilterNamespacesWithLocalSchedules listLocal (ns # rest) s =
     (case listLocal ns 1 s of
        Inl e \<Rightarrow> Inl (''listing LightsOutNamespaceSchedule in '' @ ns @ '': '' @ e)
      | Inr items \<Rightarrow>
          (case FilterNamespacesWithLocalSchedules listLocal rest s of
             Inl e \<Rightarrow> Inl e
           | Inr result \<Rightarrow> Inr (if items = [] then ns # result else result)))"

lemma FilterNamespaces_subset: "FilterNamespacesWithLocalSchedules lst nss s = Inr kept \<Longrightarrow> set kept \<subseteq> set nss"
  by (induction nss arbitrary: kept) (auto split: sum.splits if_splits)

section \<open>Properties\<close>

text \<open>
  Discovery returns, in ascending order and without repetition, the namespaces the
  selector matches or the list names that are neither excluded nor one of the three system
  namespaces; naming a namespace does not override its exclusion.
\<close>

lemma DiscoverNamespaces_exact:
  assumes "selectedNamespaces sels listNamespaces (NamespaceSelector spec) s = Inr selected"
  shows "\<exists>r. DiscoverNamespaces sels listNamespaces spec s = Inr r \<and> sorted_wrt (<) r \<and>
    set r = (selected \<union> set (Namespaces spec)) - set (ExcludeNamespaces spec)
              - {''kube-system'', ''kube-public'', ''kube-node-lease''}"
proof -
  have "finite selected"
    using assms by (auto simp: selectedNamespaces_def split: option.splits sum.splits)
  then show ?thesis
    using assms by (auto simp: DiscoverNamespaces_def SystemNamespaces_def Let_def)
qed

definition sampleSelectors :: "string selectors" where
  "sampleSelectors = \<lparr>sel_of = (\<lambda>ls. case MatchLabels ls of [(k, v)] \<Rightarrow> Inr v | _ \<Rightarrow> Inl ''unsupported''),
     sel_matches = (\<lambda>v labels. labels ''env'' = Some v)\<rparr>"

text \<open>
  A namespace is ceded exactly if it has a namespace schedule; the others keep their
  order. A failing list makes the whole filter fail with the error of the first namespace
  it failed for, so no namespace is ceded or kept by mistake.
\<close>

theorem FilterNamespaces_exact:
  "(case FilterNamespacesWithLocalSchedules listLocal nss s of
      Inr r \<Rightarrow> r = filter (\<lambda>ns. listLocal ns 1 s = Inr []) nss \<and> (\<forall>ns \<in> set nss. \<not> isl (listLocal ns 1 s))
    | Inl e \<Rightarrow> \<exists>pre ns post e1. nss = pre @ ns # post \<and> (\<forall>n \<in> set pre. \<not> isl (listLocal n 1 s)) \<and>
        listLocal ns 1 s = Inl e1 \<and> e = ''listing LightsOutNamespaceSchedule in '' @ ns @ '': '' @ e1)"
proof (induction nss)
  case (Cons ns nss)
  show ?case
  proof (cases "listLocal ns 1 s")
    case (Inl e1)
    then show ?thesis by simp (rule exI [of _ "[]"], simp)
  next
    case (Inr items)
    show ?thesis
    proof (cases "FilterNamespacesWithLocalSchedules listLocal nss s")
      case (Inl e)
      with Cons.IH obtain pre n post e1 where "nss = pre @ n # post" "\<forall>m \<in> set pre. \<not> isl (listLocal m 1 s)"
        "listLocal n 1 s = Inl e1" "e = ''listing LightsOutNamespaceSchedule in '' @ n @ '': '' @ e1" by auto
      then have split: "ns # nss = (ns # pre) @ n # post" "\<forall>m \<in> set (ns # pre). \<not> isl (listLocal m 1 s)"
        "listLocal n 1 s = Inl e1" "e = ''listing LightsOutNamespaceSchedule in '' @ n @ '': '' @ e1"
        using Inr by simp_all
      have "FilterNamespacesWithLocalSchedules listLocal (ns # nss) s = Inl e" using Inl Inr by simp
      then show ?thesis using split by (simp only: sum.case) blast
    next
      case (Inr r)
      with \<open>listLocal ns 1 s = Inr items\<close> Cons.IH show ?thesis by auto
    qed
  qed
qed simp

theorem FilterNamespaces_exact_witness:
  "FilterNamespacesWithLocalSchedules (\<lambda>ns n s. if ns = ''shop'' then Inr [()] else Inr []) [''shop'', ''lab''] () =
     Inr [''lab'']"
  using FilterNamespaces_exact [where listLocal = "\<lambda>ns n s. if ns = ''shop'' then Inr [()] else Inr []" and nss = "[''shop'', ''lab'']" and s = "()"]
  by simp

end
