(* ===== verification/Batcher.thy ===== *)
theory Batcher
  imports Events Namespaces
begin

text \<open>
  \<^verbatim>\<open>internal/controller/batcher.go\<close>: collecting the workloads of a schedule and scaling them
  in one pass under a budget and the wave gates. The API server is \<open>cluster\<close>, a record of
  the calls the pass makes, over a server state of its own. The Go code holds pointers to
  the listed objects, so a workload that was patched is the patched object from then on.
  The loop is split into the step for one workload and the recursion over the list; the
  step also extends a trace of what was attempted (the workload before, after, and the
  outcome), which the code does not keep.
\<close>

record ('s, 'sel) cluster =
  cl_selectors :: "'sel selectors"
  cl_listDeployments :: "string \<Rightarrow> 's \<Rightarrow> string + replica_workload list"
  cl_listStatefulSets :: "string \<Rightarrow> 's \<Rightarrow> string + replica_workload list"
  cl_listCronJobs :: "string \<Rightarrow> 's \<Rightarrow> string + cronjob list"
  cl_listHPAs :: "string \<Rightarrow> 's \<Rightarrow> list_error + json list"
  cl_patchDeployment :: "(replica_workload, 's) patcher"
  cl_patchStatefulSet :: "(replica_workload, 's) patcher"
  cl_patchCronJob :: "(cronjob, 's) patcher"
  cl_patchHPA :: "'s json_patcher"
  cl_cancelled :: "nat \<Rightarrow> 's \<Rightarrow> string option"

record scaleWorkloadsResult =
  r_stats :: WorkloadStats
  totalProcessed :: int
  totalFailed :: int
  totalSkipped :: int
  totalWorkloads :: int
  batchLimitReached :: bool
  waveGateReached :: bool
  r_waveProgress :: "WaveProgress option"

definition stoppedEarly :: "scaleWorkloadsResult \<Rightarrow> bool" where
  "stoppedEarly r \<longleftrightarrow> batchLimitReached r \<or> waveGateReached r"

record scaleWorkloadsConfig =
  cfg_ScheduleName :: string
  cfg_ScheduleLabel :: string
  cfg_ScheduleKind :: string
  cfg_Namespaces :: "string list"
  cfg_ScaleUp :: bool
  cfg_RateLimit :: "RateLimitConfig option"
  cfg_TransferOwnership :: bool
  cfg_ScheduleObj :: string
  cfg_WaveProgress :: "WaveProgress option"
  cfg_Now :: time

definition emptyStats :: WorkloadStats where
  "emptyStats = \<lparr>DeploymentsManaged = 0, DeploymentsScaled = 0, StatefulSetsManaged = 0,
     StatefulSetsScaled = 0, CronJobsManaged = 0, CronJobsSuspended = 0\<rparr>"

definition emptyResult :: scaleWorkloadsResult where
  "emptyResult = \<lparr>r_stats = emptyStats, totalProcessed = 0, totalFailed = 0, totalSkipped = 0,
     totalWorkloads = 0, batchLimitReached = False, waveGateReached = False, r_waveProgress = None\<rparr>"

section \<open>Counting\<close>

definition hasControllerOwner :: "OwnerReference list \<Rightarrow> bool" where
  "hasControllerOwner refs \<longleftrightarrow> (\<exists>r \<in> set refs. or_Controller r = Some True)"

fun countManaged1 :: "workload \<Rightarrow> WorkloadStats \<Rightarrow> WorkloadStats" where
  "countManaged1 (WDeployment d) stats = stats\<lparr>DeploymentsManaged := DeploymentsManaged stats + 1\<rparr>"
| "countManaged1 (WStatefulSet d) stats = stats\<lparr>StatefulSetsManaged := StatefulSetsManaged stats + 1\<rparr>"
| "countManaged1 (WCronJob c) stats = stats\<lparr>CronJobsManaged := CronJobsManaged stats + 1\<rparr>"

definition countManagedWorkloads :: "workload list \<Rightarrow> WorkloadStats" where
  "countManagedWorkloads workloads = fold countManaged1 workloads emptyStats"

fun isScaledDownByLightsOut :: "workload \<Rightarrow> bool" where
  "isScaledDownByLightsOut (WDeployment d) \<longleftrightarrow> mget (obj_annotations d) OriginalReplicasAnnotation \<noteq> []"
| "isScaledDownByLightsOut (WStatefulSet d) \<longleftrightarrow> mget (obj_annotations d) OriginalReplicasAnnotation \<noteq> []"
| "isScaledDownByLightsOut (WCronJob c) \<longleftrightarrow>
     mget (obj_annotations c) OriginalSuspendAnnotation = SuspendedByLightsOut"

fun recordScaledWorkload :: "WorkloadStats \<Rightarrow> workload \<Rightarrow> WorkloadStats" where
  "recordScaledWorkload stats (WDeployment d) = stats\<lparr>DeploymentsScaled := DeploymentsScaled stats + 1\<rparr>"
| "recordScaledWorkload stats (WStatefulSet d) = stats\<lparr>StatefulSetsScaled := StatefulSetsScaled stats + 1\<rparr>"
| "recordScaledWorkload stats (WCronJob c) = stats\<lparr>CronJobsSuspended := CronJobsSuspended stats + 1\<rparr>"

section \<open>Collecting\<close>

definition shouldProcessWorkloadType :: "string list \<Rightarrow> string \<Rightarrow> bool" where
  "shouldProcessWorkloadType types target \<longleftrightarrow> types = [] \<or> target \<in> set types"

text \<open>
  The three loops over the objects of a namespace are the same but for the type of object:
  \<open>send\<close> patches one and \<open>wrap\<close> makes a workload of it. An object whose exclusion cannot be
  decided, and one whose ownership cannot be transferred, is left out.
\<close>

fun collectItems ::
  "'sel selectors \<Rightarrow> LightsOutScheduleCore \<Rightarrow> string \<Rightarrow> bool \<Rightarrow> ('a kmeta_scheme, 's) patcher \<Rightarrow>
     ('a kmeta_scheme \<Rightarrow> workload) \<Rightarrow> 'a kmeta_scheme list \<Rightarrow> 's \<Rightarrow> workload list \<times> 's" where
  "collectItems sels core scheduleName transfer send wrap [] s = ([], s)"
| "collectItems sels core scheduleName transfer send wrap (obj # rest) s =
     (case ShouldExcludeWorkload sels (obj_labels obj) (ExcludeLabels core) of
        Inl e \<Rightarrow> collectItems sels core scheduleName transfer send wrap rest s
      | Inr True \<Rightarrow> collectItems sels core scheduleName transfer send wrap rest s
      | Inr False \<Rightarrow>
          if \<not> IncludeOwnedWorkloads core \<and> hasControllerOwner (obj_ownerReferences obj)
          then collectItems sels core scheduleName transfer send wrap rest s
          else if transfer \<and> mget (obj_labels obj) ManagedByLabel \<noteq> [] \<and>
                  mget (obj_labels obj) ManagedByLabel \<noteq> scheduleName
          then
            (case applyMergePatch send obj
                    (emptyPatch\<lparr>SetAnnotations := [(ManagedByAnnotation, scheduleName)],
                                SetLabels := [(ManagedByLabel, scheduleName)]\<rparr>) s of
               (Some e, obj', s') \<Rightarrow> collectItems sels core scheduleName transfer send wrap rest s'
             | (None, obj', s') \<Rightarrow>
                 (case collectItems sels core scheduleName transfer send wrap rest s' of
                    (ws, s'') \<Rightarrow> (wrap obj' # ws, s'')))
          else
            (case collectItems sels core scheduleName transfer send wrap rest s of
               (ws, s') \<Rightarrow> (wrap obj # ws, s')))"

definition collectNamespaceDeployments ::
  "('s, 'sel) cluster \<Rightarrow> string \<Rightarrow> LightsOutScheduleCore \<Rightarrow> string \<Rightarrow> bool \<Rightarrow> 's \<Rightarrow>
     (string + workload list) \<times> 's" where
  "collectNamespaceDeployments c ns core scheduleName transfer s =
     (case cl_listDeployments c ns s of
        Inl e \<Rightarrow> (Inl e, s)
      | Inr items \<Rightarrow>
          (case collectItems (cl_selectors c) core scheduleName transfer (cl_patchDeployment c)
                  WorkloadFromDeployment items s of
             (ws, s') \<Rightarrow> (Inr ws, s')))"

definition collectNamespaceStatefulSets ::
  "('s, 'sel) cluster \<Rightarrow> string \<Rightarrow> LightsOutScheduleCore \<Rightarrow> string \<Rightarrow> bool \<Rightarrow> 's \<Rightarrow>
     (string + workload list) \<times> 's" where
  "collectNamespaceStatefulSets c ns core scheduleName transfer s =
     (case cl_listStatefulSets c ns s of
        Inl e \<Rightarrow> (Inl e, s)
      | Inr items \<Rightarrow>
          (case collectItems (cl_selectors c) core scheduleName transfer (cl_patchStatefulSet c)
                  WorkloadFromStatefulSet items s of
             (ws, s') \<Rightarrow> (Inr ws, s')))"

definition collectNamespaceCronJobs ::
  "('s, 'sel) cluster \<Rightarrow> string \<Rightarrow> LightsOutScheduleCore \<Rightarrow> string \<Rightarrow> bool \<Rightarrow> 's \<Rightarrow>
     (string + workload list) \<times> 's" where
  "collectNamespaceCronJobs c ns core scheduleName transfer s =
     (case cl_listCronJobs c ns s of
        Inl e \<Rightarrow> (Inl e, s)
      | Inr items \<Rightarrow>
          (case collectItems (cl_selectors c) core scheduleName transfer (cl_patchCronJob c)
                  WorkloadFromCronJob items s of
             (ws, s') \<Rightarrow> (Inr ws, s')))"

text \<open>One collection if its type is wanted, then the rest.\<close>

definition andThen ::
  "bool \<Rightarrow> ('s \<Rightarrow> (string + workload list) \<times> 's) \<Rightarrow> ('s \<Rightarrow> (string + workload list) \<times> 's) \<Rightarrow> 's \<Rightarrow>
     (string + workload list) \<times> 's" where
  "andThen wanted collect rest s =
     (if \<not> wanted then rest s
      else
        (case collect s of
           (Inl e, s1) \<Rightarrow> (Inl e, s1)
         | (Inr ws, s1) \<Rightarrow>
             (case rest s1 of
                (Inl e, s2) \<Rightarrow> (Inl e, s2)
              | (Inr ws', s2) \<Rightarrow> (Inr (ws @ ws'), s2))))"

fun collectWorkloads ::
  "('s, 'sel) cluster \<Rightarrow> string list \<Rightarrow> LightsOutScheduleCore \<Rightarrow> string \<Rightarrow> bool \<Rightarrow> 's \<Rightarrow>
     (string + workload list) \<times> 's" where
  "collectWorkloads c [] core scheduleName transfer s = (Inr [], s)"
| "collectWorkloads c (ns # nss) core scheduleName transfer s =
     andThen (shouldProcessWorkloadType (WorkloadTypes core) WorkloadTypeDeployment)
       (collectNamespaceDeployments c ns core scheduleName transfer)
       (andThen (shouldProcessWorkloadType (WorkloadTypes core) WorkloadTypeStatefulSet)
          (collectNamespaceStatefulSets c ns core scheduleName transfer)
          (andThen (shouldProcessWorkloadType (WorkloadTypes core) WorkloadTypeCronJob)
             (collectNamespaceCronJobs c ns core scheduleName transfer)
             (collectWorkloads c nss core scheduleName transfer))) s"

section \<open>Scaling in one pass\<close>

text \<open>The HPAs of each namespace, listed once; none where the list failed.\<close>

definition fetchHPAs :: "('s, 'sel) cluster \<Rightarrow> string list \<Rightarrow> 's \<Rightarrow> string \<Rightarrow> json list option" where
  "fetchHPAs c namespaces s ns =
     (if ns \<in> set namespaces then
        (case listHPAs (cl_listHPAs c) ns s of Inl e \<Rightarrow> None | Inr lst \<Rightarrow> lst)
      else None)"

text \<open>A budget of -1 is no limit.\<close>

definition passBudget :: "RateLimitConfig option \<Rightarrow> int" where
  "passBudget rl =
     (case rl of
        None \<Rightarrow> - 1
      | Some r \<Rightarrow> (case BatchSize r of None \<Rightarrow> - 1 | Some n \<Rightarrow> if n > 0 then n else - 1))"

definition directionOf :: "bool \<Rightarrow> string" where
  "directionOf scaleUp = (if scaleUp then ''up'' else ''down'')"

record 's pass =
  p_stats :: WorkloadStats
  p_processed :: int
  p_failed :: int
  p_skipped :: int
  p_budget :: int
  p_gateWave :: int
  p_gateMembers :: "workload list"
  p_waveProgress :: "WaveProgress option"
  p_hpas :: "string \<Rightarrow> json list option"
  p_state :: 's
  p_log :: "observation list"
  p_trace :: "(workload \<times> workload \<times> (string + ScaleResult)) list"

text \<open>The call for one workload, with the list of HPAs of its namespace.\<close>

fun scaleOne ::
  "('s, 'sel) cluster \<Rightarrow> string \<Rightarrow> bool \<Rightarrow> workload \<Rightarrow> json list option \<Rightarrow> 's \<Rightarrow>
     (string + ScaleResult) \<times> workload \<times> json list option \<times> 's" where
  "scaleOne c scheduleName scaleUp (WDeployment d) hpas s =
     (case ScaleDeployment (cl_patchDeployment c) (cl_patchHPA c) d scheduleName scaleUp hpas s of
        (r, d', hpas', s') \<Rightarrow> (r, WDeployment d', hpas', s'))"
| "scaleOne c scheduleName scaleUp (WStatefulSet d) hpas s =
     (case ScaleStatefulSet (cl_patchStatefulSet c) (cl_patchHPA c) d scheduleName scaleUp hpas s of
        (r, d', hpas', s') \<Rightarrow> (r, WStatefulSet d', hpas', s'))"
| "scaleOne c scheduleName scaleUp (WCronJob cj) hpas s =
     (case ScaleCronJob (cl_patchCronJob c) cj scheduleName scaleUp s of
        (r, cj', s') \<Rightarrow> (r, WCronJob cj', hpas, s'))"

text \<open>
  The boundary in front of a workload: nothing unless waves are on and it starts another
  wave; then the gate of the wave before it, and on passing it the new wave begins.
\<close>

definition boundary ::
  "bool \<Rightarrow> scaleWorkloadsConfig \<Rightarrow> bool \<Rightarrow> duration \<Rightarrow> workload \<Rightarrow> 's pass \<Rightarrow> bool \<times> 's pass" where
  "boundary recorder cfg waves timeout w p =
     (if \<not> waves \<or> syncWave w = p_gateWave p then (False, p)
      else
        (case waveGate recorder (cfg_ScheduleObj cfg) (p_waveProgress p) (p_gateWave p) (p_gateMembers p)
                (cfg_ScaleUp cfg) timeout (cfg_Now cfg) of
           (progress, hold, events) \<Rightarrow>
             let p1 = p\<lparr>p_waveProgress := progress, p_log := p_log p @ events\<rparr> in
             if hold then (True, p1)
             else (False, p1\<lparr>p_gateWave := syncWave w, p_gateMembers := []\<rparr>)))"

definition resultOf :: "'s pass \<Rightarrow> int \<Rightarrow> bool \<Rightarrow> bool \<Rightarrow> WaveProgress option \<Rightarrow> scaleWorkloadsResult" where
  "resultOf p nws batch gate progress =
     \<lparr>r_stats = p_stats p, totalProcessed = p_processed p, totalFailed = p_failed p,
      totalSkipped = p_skipped p, totalWorkloads = nws, batchLimitReached = batch,
      waveGateReached = gate, r_waveProgress = progress\<rparr>"

definition observeDuration :: "scaleWorkloadsConfig \<Rightarrow> observation" where
  "observeDuration cfg =
     HistogramObserve ScalingDurationSeconds [cfg_ScheduleLabel cfg, directionOf (cfg_ScaleUp cfg)]"

definition countBatch :: "scaleWorkloadsConfig \<Rightarrow> observation" where
  "countBatch cfg = CounterInc ScalingBatchesTotal [cfg_ScheduleLabel cfg, directionOf (cfg_ScaleUp cfg)]"

text \<open>The four ways a pass ends.\<close>

type_synonym 's pass_end = "scaleWorkloadsResult \<times> string option \<times> 's pass"

definition endCancelled :: "string \<Rightarrow> 's pass \<Rightarrow> 's pass_end" where
  "endCancelled e p = (resultOf p 0 False False None, Some e, p)"

definition endHeld :: "scaleWorkloadsConfig \<Rightarrow> int \<Rightarrow> 's pass \<Rightarrow> 's pass_end" where
  "endHeld cfg nws p =
     (resultOf p nws False True (p_waveProgress p), None,
      p\<lparr>p_log := p_log p @ [observeDuration cfg] @ (if p_processed p > 0 then [countBatch cfg] else [])\<rparr>)"

definition endBatch :: "scaleWorkloadsConfig \<Rightarrow> int \<Rightarrow> 's pass \<Rightarrow> 's pass_end" where
  "endBatch cfg nws p =
     (resultOf p nws True False (p_waveProgress p), None,
      p\<lparr>p_log := p_log p @ [countBatch cfg, observeDuration cfg]\<rparr>)"

definition endComplete :: "scaleWorkloadsConfig \<Rightarrow> 's pass \<Rightarrow> 's pass_end" where
  "endComplete cfg p =
     (resultOf p 0 False False (p_waveProgress p), None,
      p\<lparr>p_log := p_log p @ [observeDuration cfg] @ (if p_processed p > 0 then [countBatch cfg] else [])\<rparr>)"

text \<open>What is kept of a call that failed, and of one that did not.\<close>

definition noteFailure :: "scaleWorkloadsConfig \<Rightarrow> workload \<Rightarrow> 's pass \<Rightarrow> 's pass" where
  "noteFailure cfg w p =
     p\<lparr>p_failed := p_failed p + 1,
       p_log := p_log p @
         [CounterInc ScalingErrorsTotal [cfg_ScheduleLabel cfg, workloadNamespace w, workloadType w],
          CounterInc ScalingWorkloadsProcessed
            [cfg_ScheduleLabel cfg, directionOf (cfg_ScaleUp cfg), ''failure'']]\<rparr>"

definition noteResult ::
  "bool \<Rightarrow> scaleWorkloadsConfig \<Rightarrow> bool \<Rightarrow> workload \<Rightarrow> ScaleResult \<Rightarrow> 's pass \<Rightarrow> 's pass" where
  "noteResult recorder cfg waves w r p =
     (let p1 = (if waves \<and> waveGates w r then p\<lparr>p_gateMembers := p_gateMembers p @ [w]\<rparr> else p);
          p2 = (if isScaledDownByLightsOut w then p1\<lparr>p_stats := recordScaledWorkload (p_stats p1) w\<rparr> else p1)
      in if Skipped r then p2\<lparr>p_skipped := p_skipped p2 + 1\<rparr>
         else
           p2\<lparr>p_processed := p_processed p2 + 1,
              p_budget := (if p_budget p2 > 0 then p_budget p2 - 1 else p_budget p2),
              p_log := p_log p2 @
                [CounterInc ScalingOperationsTotal
                   [cfg_ScheduleLabel cfg, workloadNamespace w, workloadType w,
                    if cfg_ScaleUp cfg then OperationUpscale else OperationDownscale],
                 CounterInc ScalingWorkloadsProcessed
                   [cfg_ScheduleLabel cfg, directionOf (cfg_ScaleUp cfg), ''success'']] @
                recordWorkloadEvent recorder w (cfg_ScheduleName cfg) (cfg_ScheduleKind cfg)
                  (cfg_ScaleUp cfg) r\<rparr>)"

text \<open>
  The call for one workload and what is kept of it. The second component says that a unit
  of budget was the last one.
\<close>

definition visit ::
  "('s, 'sel) cluster \<Rightarrow> bool \<Rightarrow> scaleWorkloadsConfig \<Rightarrow> bool \<Rightarrow> workload \<Rightarrow> 's pass \<Rightarrow> 's pass \<times> bool" where
  "visit c recorder cfg waves w p =
     (case scaleOne c (cfg_ScheduleName cfg) (cfg_ScaleUp cfg) w (p_hpas p (workloadNamespace w)) (p_state p) of
        (outcome, w', hpas', s') \<Rightarrow>
          let p1 = p\<lparr>p_hpas := (p_hpas p)(workloadNamespace w := hpas'), p_state := s',
                     p_trace := p_trace p @ [(w, w', outcome)]\<rparr>
          in case outcome of
               Inl e \<Rightarrow> (noteFailure cfg w p1, False)
             | Inr r \<Rightarrow> (noteResult recorder cfg waves w' r p1, \<not> Skipped r \<and> p_budget p = 1))"

fun scaleLoop ::
  "('s, 'sel) cluster \<Rightarrow> bool \<Rightarrow> scaleWorkloadsConfig \<Rightarrow> bool \<Rightarrow> duration \<Rightarrow> int \<Rightarrow> nat \<Rightarrow>
     workload list \<Rightarrow> 's pass \<Rightarrow> 's pass_end" where
  "scaleLoop c recorder cfg waves timeout nws i [] p = endComplete cfg p"
| "scaleLoop c recorder cfg waves timeout nws i (w # rest) p =
     (case cl_cancelled c i (p_state p) of
        Some e \<Rightarrow> endCancelled e p
      | None \<Rightarrow>
          (case boundary recorder cfg waves timeout w p of
             (True, p1) \<Rightarrow> endHeld cfg nws p1
           | (False, p1) \<Rightarrow>
               (case visit c recorder cfg waves w p1 of
                  (p2, exhausted) \<Rightarrow>
                    if exhausted \<and> rest \<noteq> [] then endBatch cfg nws p2
                    else scaleLoop c recorder cfg waves timeout nws (Suc i) rest p2)))"

text \<open>The whole pass: collect, list the HPAs, order, scale.\<close>

definition startPass ::
  "('s, 'sel) cluster \<Rightarrow> scaleWorkloadsConfig \<Rightarrow> bool \<Rightarrow> workload list \<Rightarrow> 's \<Rightarrow> 's pass" where
  "startPass c cfg waves ws s =
     \<lparr>p_stats = countManagedWorkloads ws, p_processed = 0, p_failed = 0, p_skipped = 0,
      p_budget = passBudget (cfg_RateLimit cfg),
      p_gateWave = (if waves \<and> ws \<noteq> [] then syncWave (hd ws) else 0), p_gateMembers = [],
      p_waveProgress = (if waves then cfg_WaveProgress cfg else None),
      p_hpas = fetchHPAs c (cfg_Namespaces cfg) s, p_state = s, p_log = [], p_trace = []\<rparr>"

definition orderedWorkloads :: "scaleWorkloadsConfig \<Rightarrow> bool \<Rightarrow> workload list \<Rightarrow> workload list" where
  "orderedWorkloads cfg waves ws = (if waves then sortWorkloadsByWave ws (cfg_ScaleUp cfg) else ws)"

definition runPass ::
  "('s, 'sel) cluster \<Rightarrow> bool \<Rightarrow> LightsOutScheduleCore \<Rightarrow> scaleWorkloadsConfig \<Rightarrow> workload list \<Rightarrow> 's \<Rightarrow> 's pass_end" where
  "runPass c recorder core cfg collected s =
     (case syncWaveSettings core of
        (waves, timeout) \<Rightarrow>
          let ws = orderedWorkloads cfg waves collected in
          scaleLoop c recorder cfg waves timeout (int (length ws)) 0 ws (startPass c cfg waves ws s))"

definition scaleWorkloads ::
  "('s, 'sel) cluster \<Rightarrow> LightsOutScheduleCore \<Rightarrow> scaleWorkloadsConfig \<Rightarrow> bool \<Rightarrow> 's \<Rightarrow>
     scaleWorkloadsResult option \<times> string option \<times> observation list \<times> 's" where
  "scaleWorkloads c core cfg recorder s =
     (case collectWorkloads c (cfg_Namespaces cfg) core (cfg_ScheduleName cfg) (cfg_TransferOwnership cfg) s of
        (Inl e, s') \<Rightarrow> (None, Some e, [], s')
      | (Inr collected, s') \<Rightarrow>
          (case runPass c recorder core cfg collected s' of
             (r, err, p) \<Rightarrow> (Some r, err, p_log p, p_state p)))"

end
