(* ===== verification/Batcher_Facts.thy ===== *)
theory Batcher_Facts
  imports Batcher
begin

text \<open>
  What a scaling pass guarantees: its accounting and budget, the barrier between sync waves,
  how far one pass gets, and what becomes of workloads and autoscalers of other schedules.
\<close>

section \<open>Accounting\<close>

definition isProcessed :: "workload \<times> workload \<times> (string + ScaleResult) \<Rightarrow> bool" where
  "isProcessed t \<longleftrightarrow> (case snd (snd t) of Inl _ \<Rightarrow> False | Inr r \<Rightarrow> \<not> Skipped r)"
definition isSkipped :: "workload \<times> workload \<times> (string + ScaleResult) \<Rightarrow> bool" where
  "isSkipped t \<longleftrightarrow> (case snd (snd t) of Inl _ \<Rightarrow> False | Inr r \<Rightarrow> Skipped r)"
definition isFailed :: "workload \<times> workload \<times> (string + ScaleResult) \<Rightarrow> bool" where
  "isFailed t \<longleftrightarrow> isl (snd (snd t))"

lemma outcome_simps [simp]:
  "isProcessed (w, w', Inr r) \<longleftrightarrow> \<not> Skipped r" "isProcessed (w, w', Inl e) \<longleftrightarrow> False"
  "isSkipped (w, w', Inr r) \<longleftrightarrow> Skipped r" "isSkipped (w, w', Inl e) \<longleftrightarrow> False"
  "isFailed (w, w', Inr r) \<longleftrightarrow> False" "isFailed (w, w', Inl e) \<longleftrightarrow> True"
  by (simp_all add: isProcessed_def isSkipped_def isFailed_def)

text \<open>The counters are the counts of the trace, and the budget is what is left of it.\<close>

definition counted :: "int \<Rightarrow> 's pass \<Rightarrow> bool" where
  "counted b p \<longleftrightarrow>
     p_processed p = int (length (filter isProcessed (p_trace p))) \<and>
     p_skipped p = int (length (filter isSkipped (p_trace p))) \<and>
     p_failed p = int (length (filter isFailed (p_trace p))) \<and>
     (if b > 0 then p_processed p \<le> b \<and> p_budget p = b - p_processed p else p_budget p = b)"

lemma startPass_counted: "counted (passBudget (cfg_RateLimit cfg)) (startPass c cfg waves ws s)"
  by (simp add: counted_def startPass_def)

lemma boundary_fields:
  assumes "boundary recorder cfg waves timeout w p = (hold, p1)"
  shows "p_trace p1 = p_trace p" "p_processed p1 = p_processed p" "p_skipped p1 = p_skipped p"
    "p_failed p1 = p_failed p" "p_budget p1 = p_budget p" "p_state p1 = p_state p" "p_hpas p1 = p_hpas p"
    "p_stats p1 = p_stats p"
  using assms by (auto simp: boundary_def Let_def split: if_splits prod.splits)

lemma noteResult_fields [simp]:
  "p_trace (noteResult recorder cfg waves w r p) = p_trace p"
  "p_state (noteResult recorder cfg waves w r p) = p_state p"
  "p_gateWave (noteResult recorder cfg waves w r p) = p_gateWave p"
  "p_waveProgress (noteResult recorder cfg waves w r p) = p_waveProgress p"
  "p_gateMembers (noteResult recorder cfg waves w r p) =
     p_gateMembers p @ (if waves \<and> waveGates w r then [w] else [])"
  "p_processed (noteResult recorder cfg waves w r p) = p_processed p + (if Skipped r then 0 else 1)"
  "p_skipped (noteResult recorder cfg waves w r p) = p_skipped p + (if Skipped r then 1 else 0)"
  "p_failed (noteResult recorder cfg waves w r p) = p_failed p"
  "p_budget (noteResult recorder cfg waves w r p) =
     (if \<not> Skipped r \<and> p_budget p > 0 then p_budget p - 1 else p_budget p)"
  by (simp_all add: noteResult_def Let_def)

lemma noteFailure_fields [simp]:
  "p_trace (noteFailure cfg w p) = p_trace p" "p_state (noteFailure cfg w p) = p_state p"
  "p_gateWave (noteFailure cfg w p) = p_gateWave p"
  "p_waveProgress (noteFailure cfg w p) = p_waveProgress p"
  "p_gateMembers (noteFailure cfg w p) = p_gateMembers p"
  "p_processed (noteFailure cfg w p) = p_processed p" "p_skipped (noteFailure cfg w p) = p_skipped p"
  "p_failed (noteFailure cfg w p) = p_failed p + 1" "p_budget (noteFailure cfg w p) = p_budget p"
  by (simp_all add: noteFailure_def)

lemma visit_eq:
  assumes "visit c recorder cfg waves w p = (p', exhausted)"
  obtains outcome w' hpas' s' where
    "scaleOne c (cfg_ScheduleName cfg) (cfg_ScaleUp cfg) w (p_hpas p (workloadNamespace w)) (p_state p)
       = (outcome, w', hpas', s')"
    "p_trace p' = p_trace p @ [(w, w', outcome)]" "p_state p' = s'"
    "p_gateWave p' = p_gateWave p" "p_waveProgress p' = p_waveProgress p"
    "p_gateMembers p' = p_gateMembers p @
       (case outcome of Inl _ \<Rightarrow> [] | Inr r \<Rightarrow> if waves \<and> waveGates w' r then [w'] else [])"
    "p_processed p' = p_processed p + (if isProcessed (w, w', outcome) then 1 else 0)"
    "p_skipped p' = p_skipped p + (if isSkipped (w, w', outcome) then 1 else 0)"
    "p_failed p' = p_failed p + (if isFailed (w, w', outcome) then 1 else 0)"
    "p_budget p' = (if isProcessed (w, w', outcome) \<and> p_budget p > 0 then p_budget p - 1 else p_budget p)"
    "exhausted \<longleftrightarrow> isProcessed (w, w', outcome) \<and> p_budget p = 1"
proof -
  obtain outcome w' hpas' s' where one:
    "scaleOne c (cfg_ScheduleName cfg) (cfg_ScaleUp cfg) w (p_hpas p (workloadNamespace w)) (p_state p)
       = (outcome, w', hpas', s')" by (rule prod_cases4)
  show ?thesis
    using assms by (cases outcome; intro that [OF one]) (simp_all add: visit_def one Let_def, auto)
qed

lemma visit_counted:
  assumes "visit c recorder cfg waves w p = (p', exhausted)" and "counted b p"
    and "b > 0 \<longrightarrow> p_budget p > 0"
  shows "counted b p'"
  using assms(1)
proof (rule visit_eq)
qed (use assms(2,3) in \<open>auto simp: counted_def split: if_splits\<close>)

lemma counted_log [simp]: "counted b (p\<lparr>p_log := l\<rparr>) = counted b p"
  by (simp add: counted_def)

text \<open>What an ending returns and what of the pass it keeps.\<close>

definition ended :: "'s pass \<Rightarrow> 's pass \<Rightarrow> bool" where
  "ended p q \<longleftrightarrow> (\<exists>l. q = p\<lparr>p_log := l\<rparr>)"

lemma ended_fields:
  "ended p q \<Longrightarrow> p_trace q = p_trace p \<and> p_processed q = p_processed p \<and> p_failed q = p_failed p \<and>
     p_skipped q = p_skipped p \<and> counted b q = counted b p"
  by (auto simp: ended_def)

lemma endings:
  "endComplete cfg p = (r, err, q) \<Longrightarrow> r = resultOf p 0 False False (p_waveProgress p) \<and> err = None \<and> ended p q"
  "endHeld cfg nws p = (r, err, q) \<Longrightarrow> r = resultOf p nws False True (p_waveProgress p) \<and> err = None \<and> ended p q"
  "endBatch cfg nws p = (r, err, q) \<Longrightarrow> r = resultOf p nws True False (p_waveProgress p) \<and> err = None \<and> ended p q"
  "endCancelled e p = (r, err, q) \<Longrightarrow> r = resultOf p 0 False False None \<and> err = Some e \<and> ended p q"
  by (auto simp: endComplete_def endHeld_def endBatch_def endCancelled_def ended_def)
     (rule exI [of _ "p_log q"], simp)

lemma resultOf_fields [simp]:
  "r_stats (resultOf p n b g w) = p_stats p" "totalProcessed (resultOf p n b g w) = p_processed p"
  "totalFailed (resultOf p n b g w) = p_failed p" "totalSkipped (resultOf p n b g w) = p_skipped p"
  "totalWorkloads (resultOf p n b g w) = n" "batchLimitReached (resultOf p n b g w) = b"
  "waveGateReached (resultOf p n b g w) = g" "r_waveProgress (resultOf p n b g w) = w"
  "stoppedEarly (resultOf p n b g w) = (b \<or> g)"
  by (simp_all add: resultOf_def stoppedEarly_def)

text \<open>How a pass ends, by what is left of the list.\<close>

definition endsWell :: "int \<Rightarrow> bool \<Rightarrow> int \<Rightarrow> nat \<Rightarrow> nat \<Rightarrow> 's pass_end \<Rightarrow> bool" where
  "endsWell b waves nws k n e \<longleftrightarrow>
     (case e of (r, err, q) \<Rightarrow>
        counted b q \<and> totalProcessed r = p_processed q \<and> totalFailed r = p_failed q \<and>
        totalSkipped r = p_skipped q \<and>
        (err = None \<and> \<not> stoppedEarly r \<longrightarrow> k = n) \<and>
        \<not> (batchLimitReached r \<and> waveGateReached r) \<and>
        (batchLimitReached r \<longrightarrow> 0 < b \<and> p_processed q = b \<and> k < n) \<and>
        (waveGateReached r \<longrightarrow> waves \<and> k < n) \<and>
        (stoppedEarly r \<longrightarrow> err = None \<and> totalWorkloads r = nws))"

lemma scaleLoop_result:
  assumes "scaleLoop c recorder cfg waves timeout nws i ws p = (r, err, q)"
    and "counted b p" and "ws \<noteq> [] \<longrightarrow> b > 0 \<longrightarrow> p_budget p > 0"
  shows "\<exists>k \<le> length ws. map fst (p_trace q) = map fst (p_trace p) @ take k ws \<and>
    endsWell b waves nws k (length ws) (r, err, q)"
  using assms
proof (induction ws arbitrary: i p)
  case Nil
  then have "endComplete cfg p = (r, err, q)" by simp
  from endings(1) [OF this] ended_fields [of p q b] Nil(2) show ?case by (auto simp: endsWell_def)
next
  case (Cons w rest)
  show ?case
  proof (cases "cl_cancelled c i (p_state p)")
    case (Some e)
    with Cons.prems have "endCancelled e p = (r, err, q)" by simp
    from endings(4) [OF this] ended_fields [of p q b] Cons.prems(2) show ?thesis
      by (intro exI [of _ 0]) (auto simp: endsWell_def)
  next
    case None
    obtain hold p1 where b1: "boundary recorder cfg waves timeout w p = (hold, p1)" by fastforce
    note bf = boundary_fields [OF b1]
    have c1: "counted b p1" using Cons.prems(2) unfolding counted_def bf .
    show ?thesis
    proof (cases hold)
      case True
      then have "waves" using b1 by (auto simp: boundary_def split: if_splits)
      moreover have "endHeld cfg nws p1 = (r, err, q)" using True None b1 Cons.prems(1) by simp
      ultimately show ?thesis using endings(2) [of cfg nws p1 r err q] ended_fields [of p1 q b] c1 bf(1)
        by (intro exI [of _ 0]) (auto simp: endsWell_def)
    next
      case False
      obtain p2 ex where v: "visit c recorder cfg waves w p1 = (p2, ex)" by fastforce
      have c2: "counted b p2" using visit_counted [OF v c1] Cons.prems(3) bf by simp
      obtain w' outcome where tr: "p_trace p2 = p_trace p @ [(w, w', outcome)]"
        and bud: "p_budget p2 = (if isProcessed (w, w', outcome) \<and> p_budget p > 0 then p_budget p - 1 else p_budget p)"
        and ex: "ex \<longleftrightarrow> isProcessed (w, w', outcome) \<and> p_budget p = 1"
        using v bf by (metis visit_eq)
      show ?thesis
      proof (cases "ex \<and> rest \<noteq> []")
        case True
        have b: "0 < b" "p_processed p2 = b"
          using True ex bud c2 Cons.prems(2) by (auto simp: counted_def split: if_splits)
        have "endBatch cfg nws p2 = (r, err, q)" using True False None b1 v Cons.prems(1) by simp
        from endings(3) [OF this] ended_fields [of p2 q b] b c2 tr True show ?thesis
          by (intro exI [of _ 1]) (auto simp: endsWell_def)
      next
        case cont: False
        have run: "scaleLoop c recorder cfg waves timeout nws (Suc i) rest p2 = (r, err, q)"
          using False None b1 v Cons.prems(1) cont by auto
        have "rest \<noteq> [] \<longrightarrow> b > 0 \<longrightarrow> p_budget p2 > 0"
          using cont ex bud Cons.prems(3) by auto
        from Cons.IH [OF run c2 this] obtain k where k: "k \<le> length rest"
          "map fst (p_trace q) = map fst (p_trace p2) @ take k rest" "endsWell b waves nws k (length rest) (r, err, q)"
          by blast
        have "endsWell b waves nws (Suc k) (length (w # rest)) (r, err, q)"
          using k(3) by (simp add: endsWell_def)
        with k(1,2) tr show ?thesis by (intro exI [of _ "Suc k"]) simp
      qed
    qed
  qed
qed

section \<open>The barrier between waves\<close>

text \<open>
  Scaling may move past a workload of an earlier wave only when it has settled, or when that
  wave was passed or waited out on an earlier reconcile.
\<close>

definition released ::
  "bool \<Rightarrow> duration \<Rightarrow> time \<Rightarrow> WaveProgress option \<Rightarrow> workload \<Rightarrow> workload \<Rightarrow> bool" where
  "released up timeout now prev w w' \<longleftrightarrow>
     workloadSettled w' up \<or>
     (\<exists>pr. prev = Some pr \<and>
        (waveBefore (syncWave w) (Wave pr) up \<or>
         Wave pr = syncWave w \<and> timeout \<le> timeSub now (Since pr)))"

text \<open>
  The invariant of the loop: no workload of a wave after the current one has been touched,
  the gate has every member of the current wave it must wait for, those of earlier waves are
  released, and the progress is the one carried in unless a gate was passed in this pass.
\<close>

definition barrier :: "scaleWorkloadsConfig \<Rightarrow> duration \<Rightarrow> 's pass \<Rightarrow> bool" where
  "barrier cfg timeout p \<longleftrightarrow>
     (\<forall>w w' o1. (w, w', o1) \<in> set (p_trace p) \<longrightarrow> \<not> waveBefore (p_gateWave p) (syncWave w) (cfg_ScaleUp cfg)) \<and>
     (\<forall>w w' r. (w, w', Inr r) \<in> set (p_trace p) \<longrightarrow> syncWave w = p_gateWave p \<longrightarrow> waveGates w' r \<longrightarrow>
        w' \<in> set (p_gateMembers p)) \<and>
     (\<forall>w w' r. (w, w', Inr r) \<in> set (p_trace p) \<longrightarrow> waveBefore (syncWave w) (p_gateWave p) (cfg_ScaleUp cfg) \<longrightarrow>
        waveGates w' r \<longrightarrow> released (cfg_ScaleUp cfg) timeout (cfg_Now cfg) (cfg_WaveProgress cfg) w w') \<and>
     (p_waveProgress p = cfg_WaveProgress cfg \<or>
      (\<exists>q. p_waveProgress p = Some q \<and> waveBefore (Wave q) (p_gateWave p) (cfg_ScaleUp cfg)))"

lemma barrierD:
  assumes "barrier cfg timeout p"
  shows "(w, w', o1) \<in> set (p_trace p) \<Longrightarrow> \<not> waveBefore (p_gateWave p) (syncWave w) (cfg_ScaleUp cfg)"
    "(w, w', Inr r) \<in> set (p_trace p) \<Longrightarrow> syncWave w = p_gateWave p \<Longrightarrow> waveGates w' r \<Longrightarrow>
       w' \<in> set (p_gateMembers p)"
    "(w, w', Inr r) \<in> set (p_trace p) \<Longrightarrow> waveBefore (syncWave w) (p_gateWave p) (cfg_ScaleUp cfg) \<Longrightarrow>
       waveGates w' r \<Longrightarrow> released (cfg_ScaleUp cfg) timeout (cfg_Now cfg) (cfg_WaveProgress cfg) w w'"
    "p_waveProgress p = cfg_WaveProgress cfg \<or>
     (\<exists>q. p_waveProgress p = Some q \<and> waveBefore (Wave q) (p_gateWave p) (cfg_ScaleUp cfg))"
  using assms unfolding barrier_def by blast+

lemma barrier_log [simp]: "barrier cfg timeout (p\<lparr>p_log := l\<rparr>) = barrier cfg timeout p"
  by (simp add: barrier_def)

lemma waveBefore_trans: "waveBefore a b up \<Longrightarrow> waveBefore b d up \<Longrightarrow> waveBefore a d up"
  by (auto simp: waveBefore_def split: if_splits)

lemma waveBefore_asym: "waveBefore a b up \<Longrightarrow> \<not> waveBefore b a up"
  by (auto simp: waveBefore_def split: if_splits)

lemma waveBefore_cases: "waveBefore a b up \<or> a = b \<or> waveBefore b a up"
  by (auto simp: waveBefore_def)

lemma timeSub_self [simp]: "timeSub t t = 0"
  by (simp add: timeSub_def maxDuration_def minDuration_def)

lemma boundary_barrier:
  assumes inv: "barrier cfg timeout p" and pos: "0 < timeout"
    and b: "boundary recorder cfg True timeout w p = (False, p1)"
    and later: "\<not> waveBefore (syncWave w) (p_gateWave p) (cfg_ScaleUp cfg)"
  shows "barrier cfg timeout p1 \<and> p_gateWave p1 = syncWave w"
proof (cases "syncWave w = p_gateWave p")
  case True
  with b inv show ?thesis by (simp add: boundary_def)
next
  case False
  let ?up = "cfg_ScaleUp cfg"
  obtain progress hold events where g: "waveGate recorder (cfg_ScheduleObj cfg) (p_waveProgress p) (p_gateWave p)
      (p_gateMembers p) ?up timeout (cfg_Now cfg) = (progress, hold, events)" by (rule prod_cases3)
  from b False g have nohold: "\<not> hold" and p1: "p1 = p\<lparr>p_waveProgress := progress, p_log := p_log p @ events,
      p_gateWave := syncWave w, p_gateMembers := []\<rparr>"
    by (auto simp: boundary_def Let_def split: if_splits)
  have step: "waveBefore (p_gateWave p) (syncWave w) ?up"
    using later False waveBefore_total by metis
  have rel: "released ?up timeout (cfg_Now cfg) (cfg_WaveProgress cfg) v v'"
    if "syncWave v = p_gateWave p" "v' \<in> set (p_gateMembers p)" for v v'
    using g
  proof (cases rule: waveGate_cases)
    case (passed pr)
    then have "p_waveProgress p = cfg_WaveProgress cfg"
      using barrierD(4) [OF inv] waveBefore_asym by fastforce
    with passed that show ?thesis by (auto simp: released_def)
  next
    case (here since)
    with nohold consider "fst (waveSettled (p_gateMembers p) ?up)" | "timeout \<le> timeSub (cfg_Now cfg) since"
      by fastforce
    then show ?thesis
    proof cases
      case 1
      with that show ?thesis by (simp add: waveSettled_iff released_def)
    next
      case 2
      with here(2) pos obtain pr where pr: "p_waveProgress p = Some pr" "Wave pr = p_gateWave p" "since = Since pr"
        by (auto split: option.splits if_splits)
      then have "p_waveProgress p = cfg_WaveProgress cfg"
        using barrierD(4) [OF inv] by auto
      with pr 2 that show ?thesis by (auto simp: released_def)
    qed
  qed
  have prog: "progress = cfg_WaveProgress cfg \<or> (\<exists>q. progress = Some q \<and> waveBefore (Wave q) (syncWave w) ?up)"
    using g
  proof (cases rule: waveGate_cases)
    case (passed pr)
    then show ?thesis using barrierD(4) [OF inv] waveBefore_asym by fastforce
  next
    case (here since)
    then show ?thesis using step by auto
  qed
  have old: "released ?up timeout (cfg_Now cfg) (cfg_WaveProgress cfg) v v'"
    if "(v, v', Inr r) \<in> set (p_trace p)" "waveGates v' r" for v v' r
    using barrierD(1-3) [OF inv] rel that waveBefore_cases by metis
  have none: "\<not> waveBefore (syncWave w) (syncWave v) ?up \<and> syncWave v \<noteq> syncWave w"
    if "(v, v', o1) \<in> set (p_trace p)" for v v' o1
    using barrierD(1) [OF inv that] step waveBefore_trans waveBefore_cases by metis
  show ?thesis
    using prog old none unfolding barrier_def p1 by (auto simp del: split_paired_All)
qed

lemma visit_barrier:
  assumes inv: "barrier cfg timeout p" and w: "p_gateWave p = syncWave w"
    and v: "visit c recorder cfg True w p = (p', exhausted)"
  shows "barrier cfg timeout p' \<and> p_gateWave p' = syncWave w"
  using v
proof (rule visit_eq)
  fix outcome w' hpas' s'
  assume t: "p_trace p' = p_trace p @ [(w, w', outcome)]" and g: "p_gateWave p' = p_gateWave p"
    and wp: "p_waveProgress p' = p_waveProgress p"
    and gm: "p_gateMembers p' = p_gateMembers p @
       (case outcome of Inl _ \<Rightarrow> [] | Inr r \<Rightarrow> if True \<and> waveGates w' r then [w'] else [])"
  show ?thesis
    using inv w unfolding barrier_def t g wp gm
    by (auto split: sum.splits if_splits)
qed

lemma scaleLoop_barrier:
  assumes "scaleLoop c recorder cfg True timeout nws i ws p = (r, err, q)"
    and "barrier cfg timeout p" and "0 < timeout"
    and "sorted_wrt (\<lambda>a b. \<not> waveBefore (syncWave b) (syncWave a) (cfg_ScaleUp cfg)) ws"
    and "\<forall>w \<in> set ws. \<not> waveBefore (syncWave w) (p_gateWave p) (cfg_ScaleUp cfg)"
  shows "\<exists>g. barrier cfg timeout (q\<lparr>p_gateWave := fst g, p_gateMembers := fst (snd g), p_waveProgress := snd (snd g)\<rparr>)"
  using assms
proof (induction ws arbitrary: i p)
  case Nil
  then have "endComplete cfg p = (r, err, q)" by simp
  then have "barrier cfg timeout q" using endings(1) [of cfg p r err q] Nil(2) by (auto simp: ended_def)
  then show ?case by (intro exI [of _ "(p_gateWave q, p_gateMembers q, p_waveProgress q)"]) simp
next
  case (Cons w rest)
  have keep: ?case if "ended p0 q" "p_trace p0 = p_trace p" for p0
  proof -
    have "p_trace q = p_trace p" using ended_fields [OF that(1)] that(2) by simp
    then have "barrier cfg timeout (q\<lparr>p_gateWave := p_gateWave p, p_gateMembers := p_gateMembers p,
        p_waveProgress := p_waveProgress p\<rparr>)"
      using Cons.prems(2) by (simp add: barrier_def)
    then show ?thesis by (intro exI [of _ "(p_gateWave p, p_gateMembers p, p_waveProgress p)"]) simp
  qed
  show ?case
  proof (cases "cl_cancelled c i (p_state p)")
    case (Some e)
    with Cons.prems(1) have "endCancelled e p = (r, err, q)" by simp
    then show ?thesis using endings(4) keep by blast
  next
    case None
    obtain hold p1 where b1: "boundary recorder cfg True timeout w p = (hold, p1)" by fastforce
    show ?thesis
    proof (cases hold)
      case True
      then have "endHeld cfg nws p1 = (r, err, q)" using None b1 Cons.prems(1) by simp
      then show ?thesis using endings(2) keep boundary_fields(1) [OF b1] by blast
    next
      case False
      have i1: "barrier cfg timeout p1 \<and> p_gateWave p1 = syncWave w"
        using boundary_barrier [OF Cons.prems(2,3)] b1 False Cons.prems(5) by simp
      obtain p2 ex where v: "visit c recorder cfg True w p1 = (p2, ex)" by fastforce
      have i2: "barrier cfg timeout p2 \<and> p_gateWave p2 = syncWave w"
        using visit_barrier [OF _ _ v] i1 by blast
      show ?thesis
      proof (cases "ex \<and> rest \<noteq> []")
        case True
        then have "endBatch cfg nws p2 = (r, err, q)" using False None b1 v Cons.prems(1) by simp
        then have "barrier cfg timeout q" using endings(3) [of cfg nws p2 r err q] i2 by (auto simp: ended_def)
        then show ?thesis by (intro exI [of _ "(p_gateWave q, p_gateMembers q, p_waveProgress q)"]) simp
      next
        case cont: False
        have run: "scaleLoop c recorder cfg True timeout nws (Suc i) rest p2 = (r, err, q)"
          using False None b1 v Cons.prems(1) cont by auto
        from Cons.IH [OF run] i2 Cons.prems(3,4) show ?thesis by simp
      qed
    qed
  qed
qed

lemma startPass_barrier:
  "barrier cfg timeout (startPass c cfg True (orderedWorkloads cfg True ws) s)"
  by (simp add: barrier_def startPass_def)

lemma orderedWorkloads_sorted:
  "sorted_wrt (\<lambda>a b. \<not> waveBefore (syncWave b) (syncWave a) (cfg_ScaleUp cfg)) (orderedWorkloads cfg True ws)"
  by (simp add: orderedWorkloads_def sorted_waves)

lemma startPass_first:
  "\<forall>w \<in> set (orderedWorkloads cfg True ws).
     \<not> waveBefore (syncWave w) (p_gateWave (startPass c cfg True (orderedWorkloads cfg True ws) s)) (cfg_ScaleUp cfg)"
  using orderedWorkloads_sorted [of cfg ws]
  by (cases "orderedWorkloads cfg True ws") (simp_all add: startPass_def)

section \<open>How far a pass gets\<close>

text \<open>A workload the pass would send a scaling patch for, by its annotations and replica count.\<close>

definition pendingReplicas :: "string \<Rightarrow> bool \<Rightarrow> replica_workload \<Rightarrow> bool" where
  "pendingReplicas sched up d \<longleftrightarrow>
     mget (obj_annotations d) ManagedByAnnotation \<in> {[], sched} \<and>
     (if up then mget (obj_annotations d) OriginalReplicasAnnotation \<noteq> []
      else mget (obj_annotations d) OriginalReplicasAnnotation = [] \<and> derefReplicas (spec_replicas d) \<noteq> 0)"

definition pendingCronJob :: "string \<Rightarrow> bool \<Rightarrow> cronjob \<Rightarrow> bool" where
  "pendingCronJob sched up c \<longleftrightarrow>
     mget (obj_annotations c) ManagedByAnnotation \<in> {[], sched} \<and>
     (if up then mget (obj_annotations c) OriginalSuspendAnnotation = SuspendedByLightsOut
      else mget (obj_annotations c) OriginalSuspendAnnotation = [] \<and> \<not> isSuspended c)"

fun pending :: "string \<Rightarrow> bool \<Rightarrow> workload \<Rightarrow> bool" where
  "pending sched up (WDeployment d) \<longleftrightarrow> pendingReplicas sched up d"
| "pending sched up (WStatefulSet d) \<longleftrightarrow> pendingReplicas sched up d"
| "pending sched up (WCronJob c) \<longleftrightarrow> pendingCronJob sched up c"

text \<open>A cluster that accepts every patch and answers with the merged object.\<close>

definition accepting :: "('s, 'sel) cluster \<Rightarrow> bool" where
  "accepting c \<longleftrightarrow>
     workloadServer (cl_patchDeployment c) \<and> workloadServer (cl_patchStatefulSet c) \<and>
     cronJobServer (cl_patchCronJob c) \<and>
     (\<forall>obj patch s. \<exists>obj' s'. cl_patchDeployment c obj patch s = (Inr obj', s')) \<and>
     (\<forall>obj patch s. \<exists>obj' s'. cl_patchStatefulSet c obj patch s = (Inr obj', s')) \<and>
     (\<forall>obj patch s. \<exists>obj' s'. cl_patchCronJob c obj patch s = (Inr obj', s'))"

lemma applyMergePatch_accepted:
  assumes "\<forall>obj patch s. \<exists>obj' s'. send obj patch s = (Inr obj', s')"
  shows "fst (applyMergePatch send obj p s) = None"
proof -
  obtain obj' s' where "send obj (build p) s = (Inr obj', s')" using assms by blast
  then show ?thesis by (simp add: applyMergePatch_def)
qed

text \<open>On an accepting cluster a call succeeds, and scales exactly the pending workloads.\<close>

lemma scaleReplicas_accepted:
  assumes "workloadServer send" and acc: "\<forall>obj patch s. \<exists>obj' s'. send obj patch s = (Inr obj', s')"
    and run: "scaleReplicas send sendHPA d kind (spec_replicas d) sched up hpas s = (r, d', hpas', s')"
    and "sched \<noteq> []"
  shows "\<exists>sr. r = Inr sr \<and> (Skipped sr \<longleftrightarrow> \<not> pendingReplicas sched up d) \<and>
    (if Skipped sr then d' = d else \<not> pendingReplicas sched up d')"
proof (cases up)
  case False
  then have u: "up = False" by simp
  have ok: "\<exists>sr. r = Inr sr"
    using run [unfolded u]
  proof (cases rule: scaleReplicas_down_cases)
    case (call hpaErr s1)
    from call(5) applyMergePatch_accepted [OF acc] have "(case r of Inl e \<Rightarrow> Some e | Inr _ \<Rightarrow> None) = None"
      by (metis fst_conv)
    then show ?thesis by (cases r) auto
  qed auto
  then obtain sr where r: "r = Inr sr" by blast
  have pend: "\<not> Skipped sr \<longleftrightarrow> pendingReplicas sched up d"
    using run ok unfolding u r
    by (auto simp: scaleReplicas_def scaleReplicasDown_def Let_def skipped_def scaled_def pendingReplicas_def
        split: if_splits prod.splits option.splits)
  show ?thesis
  proof (cases "Skipped sr")
    case True
    have "d' = d" using run [unfolded u r] True
      by (cases rule: scaleReplicas_down_cases) (auto simp: scaled_def)
    with True pend r show ?thesis by simp
  next
    case notsk: False
    from down_effect(1) [OF assms(1) run [unfolded u r] this] have "\<not> pendingReplicas sched up d'"
      using False by (simp add: pendingReplicas_def)
    with pend r notsk show ?thesis by simp
  qed
next
  case True
  then have u: "up = True" by simp
  have ok: "\<exists>sr. r = Inr sr"
    using run [unfolded u]
  proof (cases rule: scaleReplicas_up_cases)
    case (call n s1)
    from call(6) applyMergePatch_accepted [OF acc] have "(case r of Inl e \<Rightarrow> Some e | Inr _ \<Rightarrow> None) = None"
      by (metis fst_conv)
    then show ?thesis by (cases r) auto
  qed auto
  then obtain sr where r: "r = Inr sr" by blast
  show ?thesis
  proof (cases "pendingReplicas sched up d")
    case pend: True
    from run [unfolded u r] have "\<not> Skipped sr"
      by (cases rule: scaleReplicas_up_cases) (use pend True in \<open>auto simp: pendingReplicas_def scaled_def\<close>)
    moreover from up_effect(1) [OF assms(1) run [unfolded u r] _ _ refl] pend True
    have "\<not> pendingReplicas sched up d'" by (simp add: pendingReplicas_def)
    ultimately show ?thesis using pend r by simp
  next
    case False
    from run [unfolded u r] have "Skipped sr \<and> d' = d"
      by (cases rule: scaleReplicas_up_cases) (use False True in \<open>auto simp: pendingReplicas_def skipped_def\<close>)
    then show ?thesis using False r by simp
  qed
qed

text \<open>The patch a pending CronJob gets.\<close>

definition cronPatch :: "bool \<Rightarrow> string \<Rightarrow> objectPatch" where
  "cronPatch up sched =
     (if up then emptyPatch\<lparr>RemoveAnnotations := [OriginalSuspendAnnotation, ManagedByAnnotation],
                  RemoveLabels := [ManagedByLabel], Spec := [(fieldSuspend, JBool False)]\<rparr>
                else emptyPatch\<lparr>SetAnnotations := [(OriginalSuspendAnnotation, SuspendedByLightsOut), (ManagedByAnnotation, sched)],
                  SetLabels := [(ManagedByLabel, sched)], Spec := [(fieldSuspend, JBool True)]\<rparr>)"

lemma cron_pending:
  assumes "pendingCronJob sched up cj" and "sched \<noteq> []"
    and "send cj (build (cronPatch up sched)) s = (Inr cj', s')"
  shows "ScaleCronJob send cj sched up s =
    (Inr (if up then scaled ''true'' ''false'' else scaled ''false'' ''true''), cj', s')"
proof (cases up)
  case True
  with assms show ?thesis
    by (auto simp: ScaleCronJob_def scaleCronJobUp_def applyMergePatch_def Let_def pendingCronJob_def
        SuspendedByUser_def SuspendedByLightsOut_def cronPatch_def)
next
  case False
  with assms show ?thesis
    by (auto simp: ScaleCronJob_def scaleCronJobDown_def applyMergePatch_def Let_def pendingCronJob_def
        cronPatch_def)
qed

lemma cron_not_pending:
  assumes "\<not> pendingCronJob sched up cj" and "sched \<noteq> []"
    and "send cj (build (emptyPatch\<lparr>SetAnnotations := [(OriginalSuspendAnnotation, SuspendedByUser)]\<rparr>)) s = (Inr cj2, s2)"
  shows "\<exists>why. ScaleCronJob send cj sched up s = (Inr (skipped why), cj, s) \<or>
    up \<and> ScaleCronJob send cj sched up s = (Inr (skipped why), cj2, s2)"
proof (cases up)
  case True
  with assms show ?thesis
    by (simp add: ScaleCronJob_def scaleCronJobUp_def applyMergePatch_def Let_def pendingCronJob_def) blast
next
  case False
  with assms show ?thesis
    by (simp add: ScaleCronJob_def scaleCronJobDown_def Let_def pendingCronJob_def) blast
qed

lemma scaleCronJob_accepted:
  assumes law: "cronJobServer send" and acc: "\<forall>obj patch s. \<exists>obj' s'. send obj patch s = (Inr obj', s')"
    and run: "ScaleCronJob send cj sched up s = (r, cj', s')" and sched: "sched \<noteq> []"
  shows "\<exists>sr. r = Inr sr \<and> (Skipped sr \<longleftrightarrow> \<not> pendingCronJob sched up cj) \<and> \<not> pendingCronJob sched up cj'"
proof (cases "pendingCronJob sched up cj")
  case True
  obtain c2 s2 where send: "send cj (build (cronPatch up sched)) s = (Inr c2, s2)" using acc by blast
  have eq: "r = Inr (if up then scaled ''true'' ''false'' else scaled ''false'' ''true'')" "cj' = c2"
    using cron_pending [where send = send, OF True sched send] run by simp_all
  have "mget (obj_annotations c2) OriginalSuspendAnnotation = (if up then [] else SuspendedByLightsOut)"
    using patchMergesD [OF law send] by (cases up) (simp_all add: sameCronJob_def merge_cronjob_build cronPatch_def)
  then have "\<not> pendingCronJob sched up c2" by (simp add: pendingCronJob_def SuspendedByLightsOut_def)
  with True eq show ?thesis by (simp add: scaled_def)
next
  case False
  let ?p = "emptyPatch\<lparr>SetAnnotations := [(OriginalSuspendAnnotation, SuspendedByUser)]\<rparr>"
  obtain c2 s2 where send: "send cj (build ?p) s = (Inr c2, s2)" using acc by blast
  have "mget (obj_annotations c2) OriginalSuspendAnnotation = SuspendedByUser"
    using patchMergesD [OF law send] by (simp add: sameCronJob_def merge_cronjob_build)
  then have "up \<Longrightarrow> \<not> pendingCronJob sched up c2"
    by (simp add: pendingCronJob_def SuspendedByUser_def SuspendedByLightsOut_def)
  moreover obtain why where "r = Inr (skipped why) \<and> (cj' = cj \<or> up \<and> cj' = c2)"
    using cron_not_pending [where send = send, OF False sched send] run by auto
  ultimately show ?thesis using False by (auto simp: skipped_def)
qed

lemma scaleOne_accepted:
  assumes "accepting c" and "sched \<noteq> []" and "scaleOne c sched up w hpas s = (outcome, w', hpas', s')"
  shows "(isProcessed (w, w', outcome) \<longleftrightarrow> pending sched up w) \<and> \<not> isFailed (w, w', outcome) \<and>
    \<not> pending sched up w'"
proof (cases w)
  case (WDeployment d)
  from assms(3) WDeployment obtain d' where w': "w' = WDeployment d'" and run:
    "scaleReplicas (cl_patchDeployment c) (cl_patchHPA c) d ''Deployment'' (spec_replicas d) sched up hpas s
       = (outcome, d', hpas', s')"
    by (auto simp: ScaleDeployment_def split: prod.splits)
  from scaleReplicas_accepted [OF _ _ run assms(2)] assms(1) WDeployment w' show ?thesis
    by (auto simp: accepting_def split: if_splits)
next
  case (WStatefulSet d)
  from assms(3) WStatefulSet obtain d' where w': "w' = WStatefulSet d'" and run:
    "scaleReplicas (cl_patchStatefulSet c) (cl_patchHPA c) d ''StatefulSet'' (spec_replicas d) sched up hpas s
       = (outcome, d', hpas', s')"
    by (auto simp: ScaleStatefulSet_def split: prod.splits)
  from scaleReplicas_accepted [OF _ _ run assms(2)] assms(1) WStatefulSet w' show ?thesis
    by (auto simp: accepting_def split: if_splits)
next
  case (WCronJob cj)
  from assms(3) WCronJob obtain cj' where w': "w' = WCronJob cj'" and run:
    "ScaleCronJob (cl_patchCronJob c) cj sched up s = (outcome, cj', s')"
    by (auto split: prod.splits)
  from scaleCronJob_accepted [OF _ _ run assms(2)] assms(1) WCronJob w' show ?thesis
    by (auto simp: accepting_def)
qed

text \<open>What holds of every call holds of every entry of the trace; only a cancellation is an error.\<close>

lemma scaleLoop_trace:
  assumes "scaleLoop c recorder cfg waves timeout nws i ws p = (r, err, q)"
    and "\<forall>t \<in> set (p_trace p). P t"
    and "\<And>w hpas s outcome w' hpas' s'.
      scaleOne c (cfg_ScheduleName cfg) (cfg_ScaleUp cfg) w hpas s = (outcome, w', hpas', s') \<Longrightarrow> P (w, w', outcome)"
  shows "(\<forall>t \<in> set (p_trace q). P t) \<and> ((\<forall>i s. cl_cancelled c i s = None) \<longrightarrow> err = None)"
  using assms(1,2)
proof (induction ws arbitrary: i p)
  case Nil
  then have "endComplete cfg p = (r, err, q)" by simp
  from endings(1) [OF this] ended_fields [of p q] Nil(2) show ?case by auto
next
  case (Cons w rest)
  show ?case
  proof (cases "cl_cancelled c i (p_state p)")
    case (Some e)
    with Cons.prems have "endCancelled e p = (r, err, q)" by simp
    from endings(4) [OF this] ended_fields [of p q] Cons.prems(2) Some show ?thesis by auto
  next
    case None
    obtain hold p1 where b1: "boundary recorder cfg waves timeout w p = (hold, p1)" by fastforce
    obtain p2 ex where v: "visit c recorder cfg waves w p1 = (p2, ex)" by fastforce
    have t2: "\<forall>t \<in> set (p_trace p2). P t"
      using v by (rule visit_eq) (use Cons.prems(2) boundary_fields(1) [OF b1] assms(3) in auto)
    show ?thesis
    proof (cases "hold \<or> ex \<and> rest \<noteq> []")
      case True
      then obtain p0 where "ended p0 q" "\<forall>t \<in> set (p_trace p0). P t" "err = None"
        using Cons.prems None b1 v t2 boundary_fields(1) [OF b1]
          endings(2) [of cfg nws p1 r err q] endings(3) [of cfg nws p2 r err q]
        by (cases hold) auto
      then show ?thesis using ended_fields by metis
    next
      case False
      then have "scaleLoop c recorder cfg waves timeout nws (Suc i) rest p2 = (r, err, q)"
        using None b1 v Cons.prems(1) by auto
      from Cons.IH [OF this t2] show ?thesis .
    qed
  qed
qed

text \<open>The workloads as they are after the pass.\<close>

definition afterPass :: "workload list \<Rightarrow> 's pass \<Rightarrow> workload list" where
  "afterPass ws q = map (fst \<circ> snd) (p_trace q) @ drop (length (p_trace q)) ws"

lemma count_filter_map:
  "\<forall>t \<in> set ts. P t \<longleftrightarrow> Q (fst t) \<Longrightarrow> length (filter P ts) = length (filter Q (map fst ts))"
  by (induction ts) auto

section \<open>What a pass counts\<close>

lemma pass_accounting_facts:
  assumes "runPass c recorder core cfg collected s = (r, err, q)"
    and "ws = orderedWorkloads cfg (fst (syncWaveSettings core)) collected"
  shows "map fst (p_trace q) = take (length (p_trace q)) ws \<and>
    totalProcessed r + totalSkipped r + totalFailed r = int (length (p_trace q)) \<and>
    (0 < passBudget (cfg_RateLimit cfg) \<longrightarrow> totalProcessed r \<le> passBudget (cfg_RateLimit cfg)) \<and>
    (err = None \<and> \<not> stoppedEarly r \<longrightarrow> length (p_trace q) = length ws) \<and>
    (batchLimitReached r \<longrightarrow> totalProcessed r = passBudget (cfg_RateLimit cfg) \<and> length (p_trace q) < length ws) \<and>
    (waveGateReached r \<longrightarrow> \<not> batchLimitReached r \<and> length (p_trace q) < length ws) \<and>
    (stoppedEarly r \<longrightarrow> totalWorkloads r = int (length ws))"
proof -
  obtain waves timeout where sw: "syncWaveSettings core = (waves, timeout)" by fastforce
  let ?b = "passBudget (cfg_RateLimit cfg)" and ?p = "startPass c cfg waves ws s"
  have run: "scaleLoop c recorder cfg waves timeout (int (length ws)) 0 ws ?p = (r, err, q)"
    using assms sw by (simp add: runPass_def Let_def)
  have "ws \<noteq> [] \<longrightarrow> ?b > 0 \<longrightarrow> p_budget ?p > 0" by (simp add: startPass_def)
  from scaleLoop_result [OF run startPass_counted this] obtain k where k: "k \<le> length ws"
    "map fst (p_trace q) = take k ws" and e: "endsWell ?b waves (int (length ws)) k (length ws) (r, err, q)"
    by (auto simp: startPass_def)
  have len: "length (p_trace q) = k"
    using k by (metis length_map length_take min.absorb2)
  have sums: "length (filter isProcessed ts) + length (filter isSkipped ts) + length (filter isFailed ts) = length ts" for ts
    by (induction ts) (auto simp: isProcessed_def isSkipped_def isFailed_def split: sum.splits)
  have "totalProcessed r + totalSkipped r + totalFailed r = int (length (p_trace q))"
    using e sums [of "p_trace q"] by (auto simp: endsWell_def counted_def)
  moreover have "0 < ?b \<longrightarrow> totalProcessed r \<le> ?b"
    using e by (auto simp: endsWell_def counted_def split: if_splits)
  ultimately show ?thesis using e k len by (auto simp: endsWell_def)
qed

section \<open>Properties\<close>

text \<open>
  C8: A pass visits a prefix of the ordered workloads and counts each of them once, as
  processed, skipped or failed. It never scales more than the batch size. A pass that ends
  without error and is not reported as stopped early has visited every workload; one that
  stopped on the budget has used it up and left some.
\<close>

theorem pass_accounting:
  assumes "runPass c recorder core cfg collected s = (r, err, q)"
    and "ws = orderedWorkloads cfg (fst (syncWaveSettings core)) collected"
  shows "map fst (p_trace q) = take (length (p_trace q)) ws \<and>
    totalProcessed r + totalSkipped r + totalFailed r = int (length (p_trace q)) \<and>
    (0 < passBudget (cfg_RateLimit cfg) \<longrightarrow> totalProcessed r \<le> passBudget (cfg_RateLimit cfg)) \<and>
    (err = None \<and> \<not> stoppedEarly r \<longrightarrow> length (p_trace q) = length ws) \<and>
    (batchLimitReached r \<longrightarrow> totalProcessed r = passBudget (cfg_RateLimit cfg) \<and> length (p_trace q) < length ws) \<and>
    (waveGateReached r \<longrightarrow> \<not> batchLimitReached r \<and> length (p_trace q) < length ws) \<and>
    (stoppedEarly r \<longrightarrow> totalWorkloads r = int (length ws))"
  by (rule pass_accounting_facts [OF assms])

text \<open>A cluster in memory: it lists three Deployments and answers every patch with the merge.\<close>

definition sampleCluster :: "(unit, string) cluster" where
  "sampleCluster = \<lparr>cl_selectors = sampleSelectors, cl_listDeployments = (\<lambda>ns s. Inr []),
     cl_listStatefulSets = (\<lambda>ns s. Inr []), cl_listCronJobs = (\<lambda>ns s. Inr []),
     cl_listHPAs = (\<lambda>ns s. Inl NoMatch), cl_patchDeployment = echoServer merge_workload,
     cl_patchStatefulSet = echoServer merge_workload, cl_patchCronJob = echoServer merge_cronjob,
     cl_patchHPA = mergingServer, cl_cancelled = (\<lambda>i s. None)\<rparr>"

lemma sampleCluster_accepting: "accepting sampleCluster"
  by (simp add: accepting_def sampleCluster_def echoServer_merges) (simp add: echoServer_def)

definition sampleConfig :: "WaveProgress option \<Rightarrow> scaleWorkloadsConfig" where
  "sampleConfig wp = \<lparr>cfg_ScheduleName = ''night'', cfg_ScheduleLabel = ''night'', cfg_ScheduleKind = ''schedule'',
     cfg_Namespaces = [''shop''], cfg_ScaleUp = False,
     cfg_RateLimit = Some \<lparr>BatchSize = Some 2, DelayBetweenBatches = None\<rparr>, cfg_TransferOwnership = False,
     cfg_ScheduleObj = ''night'', cfg_WaveProgress = wp, cfg_Now = 0\<rparr>"

definition sampleFleet :: "workload list" where
  "sampleFleet = [WDeployment (sampleWorkload (Some 3)), WDeployment (sampleWorkload (Some 0)),
     WStatefulSet (sampleWorkload (Some 1)), WCronJob (sampleCronJob None Map.empty)]"

lemma sampleConfig_budget: "passBudget (cfg_RateLimit (sampleConfig wp)) = 2"
  by (simp add: passBudget_def sampleConfig_def)

theorem pass_accounting_witness:
  "totalProcessed (fst (runPass sampleCluster False emptyCore (sampleConfig None) sampleFleet ())) \<le> 2"
proof -
  obtain r err q where run: "runPass sampleCluster False emptyCore (sampleConfig None) sampleFleet () = (r, err, q)"
    by (rule prod_cases3)
  from pass_accounting [OF run refl] show ?thesis
    unfolding sampleConfig_budget by (simp add: run)
qed

text \<open>
  C9: No workload of a later wave is touched while one of an earlier wave that the gate waits
  for has not settled, unless that earlier wave was already passed or waited for until the
  timeout on a previous reconcile.
\<close>

theorem wave_barrier:
  assumes "syncWaveSettings core = (True, timeout)" and "0 < timeout"
    and "runPass c recorder core cfg collected s = (r, err, q)"
    and "(w, w', Inr sr) \<in> set (p_trace q)" and "waveGates w' sr"
    and "(v, v', outcome) \<in> set (p_trace q)" and "waveBefore (syncWave w) (syncWave v) (cfg_ScaleUp cfg)"
  shows "workloadSettled w' (cfg_ScaleUp cfg) \<or>
    (\<exists>pr. cfg_WaveProgress cfg = Some pr \<and>
       (waveBefore (syncWave w) (Wave pr) (cfg_ScaleUp cfg) \<or>
        Wave pr = syncWave w \<and> timeout \<le> timeSub (cfg_Now cfg) (Since pr)))"
proof -
  let ?ws = "orderedWorkloads cfg True collected"
  have "scaleLoop c recorder cfg True timeout (int (length ?ws)) 0 ?ws (startPass c cfg True ?ws s) = (r, err, q)"
    using assms(1,3) by (simp add: runPass_def Let_def)
  from scaleLoop_barrier [OF this startPass_barrier assms(2) orderedWorkloads_sorted startPass_first]
  obtain g where b: "barrier cfg timeout (q\<lparr>p_gateWave := fst g, p_gateMembers := fst (snd g),
      p_waveProgress := snd (snd g)\<rparr>)" by blast
  have "\<not> waveBefore (fst g) (syncWave v) (cfg_ScaleUp cfg)"
    using barrierD(1) [OF b, of v v' outcome] assms(6) by simp
  then have "waveBefore (syncWave w) (fst g) (cfg_ScaleUp cfg)"
    using assms(7) waveBefore_cases waveBefore_trans by metis
  then have "released (cfg_ScaleUp cfg) timeout (cfg_Now cfg) (cfg_WaveProgress cfg) w w'"
    using barrierD(3) [OF b, of w w' sr] assms(4,5) by simp
  then show ?thesis by (auto simp: released_def)
qed

text \<open>A database of wave 1 that is down and gone, and an application of wave 0.\<close>

definition sampleDatabase :: workload where
  "sampleDatabase = WDeployment (sampleDown
     \<lparr>obj_annotations := (obj_annotations sampleDown)(ArgoCDSyncWaveAnnotation \<mapsto> ''1''), st_replicas := 0\<rparr>)"

definition sampleApplication :: workload where
  "sampleApplication = WDeployment (sampleWorkload (Some 0))"

definition waveCore :: LightsOutScheduleCore where
  "waveCore = emptyCore\<lparr>ArgoCD := Some \<lparr>argo_Namespace = [], argo_WarmupTimeout = None, SyncWaves = True\<rparr>\<rparr>"

lemma sample_waves: "syncWave sampleDatabase = 1" "syncWave sampleApplication = 0"
proof -
  have "atoi (trimSpace ''1'') = Some 1" "atoi (trimSpace []) = None" by code_simp+
  then show "syncWave sampleDatabase = 1" "syncWave sampleApplication = 0"
    by (simp_all add: syncWave_def sampleDatabase_def sampleApplication_def sampleWorkload_def)
qed

lemma sampleBarrier_run:
  "\<exists>r err q. runPass sampleCluster False waveCore (sampleConfig None) [sampleApplication, sampleDatabase] () = (r, err, q) \<and>
     p_trace q = [(sampleDatabase, sampleDatabase, Inr (skipped ''already scaled down'')),
                  (sampleApplication, sampleApplication, Inr (skipped skipReasonUserParked))]"
proof -
  have order: "orderedWorkloads (sampleConfig None) True [sampleApplication, sampleDatabase] = [sampleDatabase, sampleApplication]"
    by (simp add: orderedWorkloads_def sortWorkloadsByWave_def stableSort_def cmpWorkload_def sample_waves
        waveBefore_def sampleConfig_def)
  have one: "scaleOne sampleCluster ''night'' False sampleDatabase hpas s =
      (Inr (skipped ''already scaled down''), sampleDatabase, hpas, s)"
    "scaleOne sampleCluster ''night'' False sampleApplication hpas s =
      (Inr (skipped skipReasonUserParked), sampleApplication, hpas, s)" for hpas s
    by (simp_all add: sampleDatabase_def sampleApplication_def ScaleDeployment_def scaleReplicas_def
        scaleReplicasDown_def Let_def sampleDown_def sampleWorkload_def derefReplicas_def)
  have settled: "workloadSettled sampleDatabase False"
    by (simp add: sampleDatabase_def replicasSettled_def sampleDown_def sampleWorkload_def)
  have cfg: "cfg_ScheduleName (sampleConfig None) = ''night''" "\<not> cfg_ScaleUp (sampleConfig None)"
    "cfg_WaveProgress (sampleConfig None) = None"
    by (simp_all add: sampleConfig_def)
  have gates: "waveGates sampleDatabase (skipped ''already scaled down'')"
    by (simp add: waveGates_def sampleDatabase_def WorkloadTypeDeployment_def WorkloadTypeCronJob_def skipped_def
        skipReasonDifferentSchedule_def skipReasonNotManaged_def skipReasonUserParked_def)
  have live: "cl_cancelled sampleCluster i s = None" for i s by (simp add: sampleCluster_def)
  let ?cfg = "sampleConfig None" and ?ws = "[sampleDatabase, sampleApplication]"
  define p0 where "p0 = startPass sampleCluster ?cfg True ?ws ()"
  have p0: "p_gateWave p0 = 1" "p_gateMembers p0 = []" "p_waveProgress p0 = None" "p_trace p0 = []"
    by (simp_all add: p0_def startPass_def sample_waves cfg)
  obtain p1 where v1: "visit sampleCluster False ?cfg True sampleDatabase p0 = (p1, False)"
    and p1: "p_gateWave p1 = 1" "p_gateMembers p1 = [sampleDatabase]" "p_waveProgress p1 = None"
      "p_trace p1 = [(sampleDatabase, sampleDatabase, Inr (skipped ''already scaled down''))]"
    using gates by (simp add: visit_def one cfg p0 Let_def) (simp add: skipped_def)
  obtain p2 where b: "boundary False ?cfg True DefaultWarmupTimeout sampleApplication p1 = (False, p2)"
    and p2: "p_trace p2 = p_trace p1"
    by (simp add: boundary_def sample_waves p1 waveGate_def cfg settled Let_def)
  obtain p3 where v2: "visit sampleCluster False ?cfg True sampleApplication p2 = (p3, False)"
    and p3: "p_trace p3 = p_trace p2 @ [(sampleApplication, sampleApplication, Inr (skipped skipReasonUserParked))]"
    by (simp add: visit_def one cfg Let_def) (simp add: skipped_def)
  obtain r err q where e: "endComplete ?cfg p3 = (r, err, q)" by (rule prod_cases3)
  have "runPass sampleCluster False waveCore ?cfg [sampleApplication, sampleDatabase] () =
      scaleLoop sampleCluster False ?cfg True DefaultWarmupTimeout 2 0 ?ws p0"
    by (simp add: runPass_def syncWaveSettings_def waveCore_def emptyCore_def order p0_def Let_def)
  also have "\<dots> = scaleLoop sampleCluster False ?cfg True DefaultWarmupTimeout 2 1 [sampleApplication] p1"
    by (simp add: live boundary_def sample_waves p0 v1)
  also have "\<dots> = (r, err, q)" by (simp add: live b v2 e)
  finally show ?thesis using endings(1) [OF e] ended_fields [of p3 q] p1 p2 p3 by auto
qed

theorem wave_barrier_witness:
  "workloadSettled sampleDatabase False"
proof -
  obtain r err q where run: "runPass sampleCluster False waveCore (sampleConfig None) [sampleApplication, sampleDatabase] () = (r, err, q)"
    and trace: "p_trace q = [(sampleDatabase, sampleDatabase, Inr (skipped ''already scaled down'')),
                  (sampleApplication, sampleApplication, Inr (skipped skipReasonUserParked))]"
    using sampleBarrier_run by blast
  have sw: "syncWaveSettings waveCore = (True, DefaultWarmupTimeout)"
    by (simp add: syncWaveSettings_def waveCore_def emptyCore_def)
  have gates: "waveGates sampleDatabase (skipped ''already scaled down'')"
    by (simp add: waveGates_def sampleDatabase_def WorkloadTypeDeployment_def WorkloadTypeCronJob_def skipped_def
        skipReasonDifferentSchedule_def skipReasonNotManaged_def skipReasonUserParked_def)
  have "0 < DefaultWarmupTimeout" by (simp add: DefaultWarmupTimeout_def minute_def second_def)
  moreover have "(sampleDatabase, sampleDatabase, Inr (skipped ''already scaled down'')) \<in> set (p_trace q)"
    "(sampleApplication, sampleApplication, Inr (skipped skipReasonUserParked)) \<in> set (p_trace q)"
    by (simp_all add: trace)
  moreover have "waveBefore (syncWave sampleDatabase) (syncWave sampleApplication) (cfg_ScaleUp (sampleConfig None))"
    by (simp add: sample_waves waveBefore_def sampleConfig_def)
  ultimately show ?thesis
    using wave_barrier [OF sw _ run _ gates] by (auto simp: sampleConfig_def)
qed

text \<open>
  When the server accepts every patch, a pass without sync waves scales exactly as many
  of the pending workloads as the batch size allows, fails for none, and leaves exactly the
  others pending: with \<open>n\<close> pending workloads and a batch size of \<open>b\<close> the schedule is done
  after \<open>n / b\<close> passes, rounded up.
\<close>

theorem pass_progress:
  assumes "accepting c" and "\<forall>i s. cl_cancelled c i s = None"
    and "fst (syncWaveSettings core) = False" and "cfg_ScheduleName cfg \<noteq> []"
    and "runPass c recorder core cfg ws s = (r, err, q)"
    and "todo = (\<lambda>ws. int (length (filter (pending (cfg_ScheduleName cfg) (cfg_ScaleUp cfg)) ws)))"
    and "b = passBudget (cfg_RateLimit cfg)"
  shows "err = None \<and> totalFailed r = 0 \<and>
    totalProcessed r = (if b > 0 then min b (todo ws) else todo ws) \<and>
    todo (afterPass ws q) = todo ws - totalProcessed r"
proof -
  let ?pend = "pending (cfg_ScheduleName cfg) (cfg_ScaleUp cfg)"
  obtain timeout where sw: "syncWaveSettings core = (False, timeout)"
    using assms(3) by (metis prod.collapse)
  let ?p = "startPass c cfg False ws s"
  have run: "scaleLoop c recorder cfg False timeout (int (length ws)) 0 ws ?p = (r, err, q)"
    using assms(5) sw by (simp add: runPass_def orderedWorkloads_def Let_def)
  have "ws \<noteq> [] \<longrightarrow> b > 0 \<longrightarrow> p_budget ?p > 0" by (simp add: startPass_def assms(7))
  from scaleLoop_result [OF run startPass_counted [of cfg, folded assms(7)] this] obtain k where k: "k \<le> length ws"
    "map fst (p_trace q) = take k ws" and e: "endsWell b False (int (length ws)) k (length ws) (r, err, q)"
    by (auto simp: startPass_def)
  have len: "length (p_trace q) = k"
    using k by (metis length_map length_take min.absorb2)
  have tr: "(\<forall>t \<in> set (p_trace q). (isProcessed t \<longleftrightarrow> ?pend (fst t)) \<and> \<not> isFailed t \<and> \<not> ?pend (fst (snd t))) \<and>
      ((\<forall>i s. cl_cancelled c i s = None) \<longrightarrow> err = None)"
    by (rule scaleLoop_trace [OF run]) (use scaleOne_accepted [OF assms(1,4)] in \<open>auto simp: startPass_def\<close>)
  then have err: "err = None" using assms(2) by blast
  have "length (filter isProcessed (p_trace q)) = length (filter ?pend (map fst (p_trace q)))"
    using tr by (intro count_filter_map) blast
  then have proc: "totalProcessed r = todo (take k ws)"
    using e k(2) assms(6) by (simp add: endsWell_def counted_def)
  have split: "todo ws = todo (take k ws) + todo (drop k ws)"
    by (simp add: assms(6) flip: of_nat_add length_append filter_append)
  have "filter isFailed (p_trace q) = []" using tr by (auto simp: filter_empty_conv)
  then have failed: "totalFailed r = 0" using e by (simp add: endsWell_def counted_def)
  have "filter ?pend (map (fst \<circ> snd) (p_trace q)) = []" using tr by (auto simp: filter_empty_conv)
  then have after: "todo (afterPass ws q) = todo ws - totalProcessed r"
    using proc split len by (simp add: afterPass_def assms(6))
  have rest: "0 \<le> todo (drop k ws)" by (simp add: assms(6))
  have how: "k = length ws \<or> 0 < b \<and> totalProcessed r = b"
    using e err by (auto simp: endsWell_def stoppedEarly_def)
  have le: "0 < b \<Longrightarrow> totalProcessed r \<le> b"
    using e by (auto simp: endsWell_def counted_def split: if_splits)
  have "totalProcessed r = (if b > 0 then min b (todo ws) else todo ws)"
  proof (cases "k = length ws")
    case True
    then have "totalProcessed r = todo ws" using proc by simp
    then show ?thesis using le by (auto simp: min_def)
  next
    case False
    then have "0 < b" "totalProcessed r = b" using how by auto
    moreover from this have "b \<le> todo ws" using proc split rest by linarith
    ultimately show ?thesis by (simp add: min_def)
  qed
  with err failed after show ?thesis by blast
qed

theorem pass_progress_witness:
  "totalProcessed (fst (runPass sampleCluster False emptyCore (sampleConfig None) sampleFleet ())) = 2"
proof -
  obtain r err q where run: "runPass sampleCluster False emptyCore (sampleConfig None) sampleFleet () = (r, err, q)"
    by (rule prod_cases3)
  have "\<forall>i s. cl_cancelled sampleCluster i s = None" by (simp add: sampleCluster_def)
  moreover have "fst (syncWaveSettings emptyCore) = False" by (simp add: syncWaveSettings_def emptyCore_def)
  moreover have "cfg_ScheduleName (sampleConfig None) \<noteq> []" by (simp add: sampleConfig_def)
  moreover have "length (filter (pending (cfg_ScheduleName (sampleConfig None)) (cfg_ScaleUp (sampleConfig None))) sampleFleet) = 3"
    by (simp add: sampleFleet_def pendingReplicas_def pendingCronJob_def sampleWorkload_def sampleCronJob_def
        sampleConfig_def derefReplicas_def isSuspended_def)
  ultimately show ?thesis
    using pass_progress [OF sampleCluster_accepting _ _ _ run refl refl] unfolding sampleConfig_budget
    by (simp add: run)
qed

text \<open>
  A namespace schedule that takes over a workload re-stamps the workload but not its
  HPA: when it scales the workload up later, the HPA, still marked by the cluster schedule,
  is left as it is, with scale-up disabled.
\<close>

theorem transfer_strands_HPA:
  assumes "findHPA (Some items) kind (obj_name obj) = Some i"
    and "mget (GetAnnotations (items ! i)) ManagedByAnnotation = old" and "old \<noteq> []" and "old \<noteq> new"
    and "workloadServer send"
    and "scaleReplicas send sendHPA obj kind (spec_replicas obj) new True (Some items) s = (r, obj', hpas', s')"
  shows "hpas' = Some items"
proof -
  have restore: "RestoreHPA sendHPA (Some items) kind (obj_name obj) new s0 = (None, Some items, s0)" for s0
    using assms(1-4) by (simp add: RestoreHPA_def patchListed_def restorePatch_def Let_def)
  have name: "obj_name o2 = obj_name obj" if "send obj (build p) s0 = (Inr o2, s1)" for o2 p s0 s1
    using patchMergesD [OF assms(5) that] by (simp add: sameWorkload_def merge_workload_build)
  let ?orig = "mget (obj_annotations obj) OriginalReplicasAnnotation"
  let ?n = "case parseInt 32 ?orig of None \<Rightarrow> 1 | Some r \<Rightarrow> r"
  let ?p = "emptyPatch\<lparr>RemoveAnnotations := [OriginalReplicasAnnotation, ManagedByAnnotation],
              RemoveLabels := [ManagedByLabel], Spec := [(fieldReplicas, JInt32 ?n)]\<rparr>"
  obtain e o2 s1 where patch: "applyMergePatch send obj ?p s = (e, o2, s1)" by (rule prod_cases3)
  have "e = None \<Longrightarrow> obj_name o2 = obj_name obj"
    using patch name by (auto simp: applyMergePatch_def split: sum.splits prod.splits)
  then show ?thesis
    using assms(6) restore patch
    by (cases e) (simp_all add: scaleReplicas_def scaleReplicasUp_def Let_def split: if_splits)
qed

theorem transfer_strands_HPA_witness:
  "fst (snd (snd (scaleReplicas (echoServer merge_workload) mergingServer
     (sampleDown\<lparr>obj_annotations := (obj_annotations sampleDown)(ManagedByAnnotation \<mapsto> ''team'')\<rparr>)
     ''Deployment'' (Some 0) ''team'' True (Some [downHPA]) ()))) = Some [downHPA]"
proof -
  let ?obj = "sampleDown\<lparr>obj_annotations := (obj_annotations sampleDown)(ManagedByAnnotation \<mapsto> ''team'')\<rparr>"
  have f: "findHPA (Some [downHPA]) ''Deployment'' ''web'' = Some 0" by code_simp
  have a: "mget (GetAnnotations downHPA) ManagedByAnnotation = ''night''" by code_simp
  have n: "obj_name ?obj = ''web''" "spec_replicas ?obj = Some 0" by (simp_all add: sampleDown_def sampleWorkload_def)
  obtain r obj' hpas' s' where run: "scaleReplicas (echoServer merge_workload) mergingServer ?obj ''Deployment''
      (spec_replicas ?obj) ''team'' True (Some [downHPA]) () = (r, obj', hpas', s')" by (rule prod_cases4)
  have "hpas' = Some [downHPA]"
    by (rule transfer_strands_HPA [OF _ _ _ _ echoServer_merges(1) run, where i = 0 and old = "''night''"])
       (use f a n in simp_all)
  with run show ?thesis unfolding n(2) by simp
qed

end
