(* ===== verification/Integrations.thy ===== *)
theory Integrations
  imports Fluxcd Customresource_Facts Batcher_Facts
begin

text \<open>
  \<^verbatim>\<open>internal/controller/integrations.go\<close>: the order in which the integrations are driven
  around the scaling of the workloads. Everything that could start a workload again is told
  to stop before a downscale; databases and brokers come back before the applications; the
  GitOps controllers are released last.
\<close>

record integrationConfig =
  ic_ScheduleObj :: string
  ic_Core :: LightsOutScheduleCore
  ic_ScheduleName :: string
  ic_ScheduleLabel :: string
  ic_Namespaces :: "string list"

definition argoDown :: "'s api \<Rightarrow> bool \<Rightarrow> integrationConfig \<Rightarrow> 's \<Rightarrow> observation list \<times> 's" where
  "argoDown api recorder cfg s =
     (case ArgoCD (ic_Core cfg) of
        None \<Rightarrow> ([], s)
      | Some spec \<Rightarrow>
          (case labelArgoCDAppsDown api recorder (ic_ScheduleObj cfg) spec (ic_ScheduleName cfg) (ic_Namespaces cfg) s of
             (apps, obs, s') \<Rightarrow> (obs, s')))"

definition fluxDown :: "'s api \<Rightarrow> bool \<Rightarrow> integrationConfig \<Rightarrow> 's \<Rightarrow> observation list \<times> 's" where
  "fluxDown api recorder cfg s =
     (case FluxCD (ic_Core cfg) of
        None \<Rightarrow> ([], s)
      | Some spec \<Rightarrow>
          (case labelFluxResourcesDown api recorder (ic_ScheduleObj cfg) spec (ic_ScheduleName cfg) (ic_Namespaces cfg) s of
             (resources, obs, s') \<Rightarrow> (obs, s')))"

definition integrationsDown ::
  "json_codec \<Rightarrow> 's api \<Rightarrow> bool \<Rightarrow> integrationConfig \<Rightarrow> 's \<Rightarrow> observation list \<times> 's" where
  "integrationsDown jc api recorder cfg s =
     (case argoDown api recorder cfg s of
        (obs1, s1) \<Rightarrow>
     (case fluxDown api recorder cfg s1 of
        (obs2, s2) \<Rightarrow>
     (case (if CustomResources (ic_Core cfg) \<noteq> [] then
              customResourcesDown jc api recorder (ic_ScheduleObj cfg) (ic_ScheduleName cfg) (ic_ScheduleLabel cfg)
                (ic_Namespaces cfg) (CustomResources (ic_Core cfg)) s2
            else ([], s2)) of
        (obs3, s3) \<Rightarrow> (obs1 @ obs2 @ obs3, s3))))"

definition integrationsUp ::
  "json_codec \<Rightarrow> 's api \<Rightarrow> bool \<Rightarrow> integrationConfig \<Rightarrow> time \<Rightarrow> 's \<Rightarrow> bool \<times> observation list \<times> 's" where
  "integrationsUp jc api recorder cfg now s =
     (if CustomResources (ic_Core cfg) = [] then (False, [], s)
      else
        (case customResourcesUp jc api recorder (ic_ScheduleObj cfg) (ic_ScheduleName cfg) (ic_ScheduleLabel cfg)
                (ic_Namespaces cfg) now (CustomResources (ic_Core cfg)) s of
           (True, obs1, s1) \<Rightarrow> (True, obs1, s1)
         | (False, obs1, s1) \<Rightarrow>
             (case handleCustomResourceWarmup jc api recorder (ic_ScheduleObj cfg) (ic_Core cfg) (ic_ScheduleName cfg)
                     (ic_Namespaces cfg) now s1 of
                (warming, obs2, s2) \<Rightarrow> (warming, obs1 @ obs2, s2))))"

definition warmupMayStart :: "bool \<Rightarrow> bool \<Rightarrow> scaleWorkloadsResult \<Rightarrow> bool" where
  "warmupMayStart scaleUp deferWorkloadScaleUp result \<longleftrightarrow>
     scaleUp \<and> \<not> deferWorkloadScaleUp \<and> \<not> stoppedEarly result"

definition argoWarmup :: "'s api \<Rightarrow> bool \<Rightarrow> integrationConfig \<Rightarrow> time \<Rightarrow> 's \<Rightarrow> bool \<times> observation list \<times> 's" where
  "argoWarmup api recorder cfg now s =
     (case ArgoCD (ic_Core cfg) of
        None \<Rightarrow> (False, [], s)
      | Some spec \<Rightarrow>
          (case handleArgoCDWarmup api recorder (ic_ScheduleObj cfg) spec (ic_ScheduleName cfg) (ic_Namespaces cfg) now s of
             (warming, apps, obs, s') \<Rightarrow> (warming, obs, s')))"

definition fluxWarmup :: "'s api \<Rightarrow> bool \<Rightarrow> integrationConfig \<Rightarrow> time \<Rightarrow> 's \<Rightarrow> bool \<times> observation list \<times> 's" where
  "fluxWarmup api recorder cfg now s =
     (case FluxCD (ic_Core cfg) of
        None \<Rightarrow> (False, [], s)
      | Some spec \<Rightarrow>
          (case handleFluxCDWarmup api recorder (ic_ScheduleObj cfg) spec (ic_ScheduleName cfg) (ic_Namespaces cfg) now s of
             (warming, resources, obs, s') \<Rightarrow> (warming, obs, s')))"

definition integrationsWarmup ::
  "'s api \<Rightarrow> bool \<Rightarrow> integrationConfig \<Rightarrow> time \<Rightarrow> 's \<Rightarrow> bool \<times> observation list \<times> 's" where
  "integrationsWarmup api recorder cfg now s =
     (case argoWarmup api recorder cfg now s of
        (argoWarmingUp, obs1, s1) \<Rightarrow>
          (case fluxWarmup api recorder cfg now s1 of
             (fluxWarmingUp, obs2, s2) \<Rightarrow> (argoWarmingUp \<or> fluxWarmingUp, obs1 @ obs2, s2)))"

end
