(* ===== verification/Period.thy ===== *)
theory Period
  imports Prelude
begin

text \<open>
  The period calculator, \<^verbatim>\<open>internal/controller/period.go\<close>: whether a schedule is up or down
  at an instant, when its next transitions are, and the cache in front of the computation.
  The cron library, the time zone database, SHA-256 and the calendar arithmetic of
  \<^verbatim>\<open>AddDate\<close> are not part of the repository: they are the fields of \<open>cron_env\<close>. A parsed
  schedule is used through \<^verbatim>\<open>Next\<close> only, which depends on the location of the time it gets.
\<close>

record PeriodResult =
  State :: string
  NextUpscale :: time
  NextDownscale :: time
  LastUpscale :: time
  LastDownscale :: time

record cachedPeriod =
  cp_result :: PeriodResult
  cp_validUntil :: time

type_synonym periodCache = "string \<Rightarrow> cachedPeriod option"

record ('l, 'c) cron_env =
  ce_loadLocation :: "string \<Rightarrow> string + 'l"
  ce_parse :: "string \<Rightarrow> string + 'c"
  ce_next :: "'c \<Rightarrow> 'l \<Rightarrow> time \<Rightarrow> time"
  ce_addYears :: "'l \<Rightarrow> int \<Rightarrow> time \<Rightarrow> time"
  ce_sha256hex :: "string \<Rightarrow> string"

datatype scheduleFrequency =
  FrequencyMinute | FrequencyHourly | FrequencyDaily | FrequencyWeekly | FrequencyMonthly | FrequencyRare

datatype period_error =
    InvalidTimezone string string
  | InvalidUpscaleCron string string
  | InvalidDownscaleCron string string

section \<open>The cache\<close>

definition generateCacheKey :: "(string \<Rightarrow> string) \<Rightarrow> string \<Rightarrow> string \<Rightarrow> string \<Rightarrow> string" where
  "generateCacheKey sha upscaleCron downscaleCron timezone =
     sha (upscaleCron @ downscaleCron @ timezone)"

definition getCachedPeriod :: "periodCache \<Rightarrow> string \<Rightarrow> time \<Rightarrow> PeriodResult option" where
  "getCachedPeriod cache key now =
     (case cache key of
        None \<Rightarrow> None
      | Some cached \<Rightarrow> if now > cp_validUntil cached then None else Some (cp_result cached))"

definition setCachedPeriod :: "periodCache \<Rightarrow> string \<Rightarrow> PeriodResult \<Rightarrow> periodCache" where
  "setCachedPeriod cache key result =
     (let validUntil = (if NextDownscale result < NextUpscale result
                        then NextDownscale result else NextUpscale result)
      in cache(key \<mapsto> \<lparr>cp_result = result, cp_validUntil = validUntil\<rparr>))"

definition ClearPeriodCache :: "periodCache \<Rightarrow> periodCache" where
  "ClearPeriodCache cache = Map.empty"

section \<open>The search for the last occurrence\<close>

text \<open>A field that stands for every value, or for every n-th one.\<close>

definition everyOrStep :: "string \<Rightarrow> bool" where
  "everyOrStep f \<longleftrightarrow> f = ''*'' \<or> hasPrefix f ''*/''"

definition analyzeScheduleFrequency :: "string \<Rightarrow> scheduleFrequency" where
  "analyzeScheduleFrequency cronExpr =
     (case stringFields cronExpr of
        [mins, hours, domF, month, dow] \<Rightarrow>
          if everyOrStep mins then FrequencyMinute
          else if everyOrStep hours then FrequencyHourly
          else if (domF = ''*'' \<or> hasByte domF CHR '','' \<or> hasByte domF CHR ''-'' \<or> hasPrefix domF ''*/'')
                  \<and> month = ''*'' \<and> dow = ''*'' then FrequencyDaily
          else if dow \<noteq> ''*'' \<and> month = ''*'' then FrequencyWeekly
          else if domF \<noteq> ''*'' \<or> month \<noteq> ''*'' then
            (if month \<noteq> ''*'' \<and> \<not> hasByte month CHR '','' \<and> \<not> hasByte month CHR ''-''
             then FrequencyRare else FrequencyMonthly)
          else FrequencyRare
      | _ \<Rightarrow> FrequencyRare)"

fun getSearchWindow :: "scheduleFrequency \<Rightarrow> duration" where
  "getSearchWindow FrequencyMinute = 48 * hour"
| "getSearchWindow FrequencyHourly = 72 * hour"
| "getSearchWindow FrequencyDaily = 240 * hour"
| "getSearchWindow FrequencyWeekly = 768 * hour"
| "getSearchWindow FrequencyMonthly = 2160 * hour"
| "getSearchWindow FrequencyRare = 9600 * hour"

text \<open>
  The forward search. The number of iterations left is the code's own bound on the loop.
\<close>

fun searchLoop :: "(time \<Rightarrow> time) \<Rightarrow> time \<Rightarrow> nat \<Rightarrow> time \<Rightarrow> time \<Rightarrow> time" where
  "searchLoop nxt from 0 lst nx = lst"
| "searchLoop nxt from (Suc n) lst nx =
     (if nx > from then lst else searchLoop nxt from n nx (nxt nx))"

definition maxIterations :: "duration \<Rightarrow> nat" where
  "maxIterations window = nat (min (window div minute) 525600)"

definition findLastOccurrence ::
  "(time \<Rightarrow> time) \<Rightarrow> (int \<Rightarrow> time \<Rightarrow> time) \<Rightarrow> string \<Rightarrow> time \<Rightarrow> time" where
  "findLastOccurrence nxt addYears cronExpr from =
     (let searchWindow = getSearchWindow (analyzeScheduleFrequency cronExpr);
          searchStart = from - searchWindow;
          firstNext = nxt searchStart
      in if firstNext > from then addYears (- 10) from
         else searchLoop nxt from (maxIterations searchWindow) firstNext (nxt firstNext))"

section \<open>CalculatePeriod\<close>

definition CalculatePeriod ::
  "('l, 'c) cron_env \<Rightarrow> periodCache \<Rightarrow> string \<Rightarrow> string \<Rightarrow> string \<Rightarrow> time \<Rightarrow>
     (period_error + PeriodResult) \<times> periodCache" where
  "CalculatePeriod env cache upscaleCron downscaleCron timezone now =
     (let cacheKey = generateCacheKey (ce_sha256hex env) upscaleCron downscaleCron timezone
      in case getCachedPeriod cache cacheKey now of
           Some cached \<Rightarrow> (Inr cached, cache)
         | None \<Rightarrow>
             (case ce_loadLocation env timezone of
                Inl e \<Rightarrow> (Inl (InvalidTimezone timezone e), cache)
              | Inr loc \<Rightarrow>
             (case ce_parse env upscaleCron of
                Inl e \<Rightarrow> (Inl (InvalidUpscaleCron upscaleCron e), cache)
              | Inr upscaleSched \<Rightarrow>
             (case ce_parse env downscaleCron of
                Inl e \<Rightarrow> (Inl (InvalidDownscaleCron downscaleCron e), cache)
              | Inr downscaleSched \<Rightarrow>
                  let upNext = ce_next env upscaleSched loc;
                      downNext = ce_next env downscaleSched loc;
                      lastUpscale = findLastOccurrence upNext (ce_addYears env loc) upscaleCron now;
                      lastDownscale = findLastOccurrence downNext (ce_addYears env loc) downscaleCron now;
                      result = \<lparr>State = (if lastUpscale > lastDownscale then ''Up'' else ''Down''),
                                NextUpscale = upNext now,
                                NextDownscale = downNext now,
                                LastUpscale = lastUpscale,
                                LastDownscale = lastDownscale\<rparr>
                  in (Inr result, setCachedPeriod cache cacheKey result)))))"

section \<open>What the cron library promises\<close>

text \<open>
  \<open>occ\<close> are the instants a schedule triggers at. \<^verbatim>\<open>Next\<close> returns the earliest one strictly
  after its argument. Two instants of one schedule are at least \<open>gap\<close> apart: a minute in
  general, because a cron expression has no field below the minute.
\<close>

definition cronLaw :: "(time \<Rightarrow> time) \<Rightarrow> (time \<Rightarrow> bool) \<Rightarrow> duration \<Rightarrow> bool" where
  "cronLaw nxt occ gap \<longleftrightarrow>
     0 < gap \<and>
     (\<forall>t. t < nxt t \<and> occ (nxt t) \<and> (\<forall>u. occ u \<longrightarrow> t < u \<longrightarrow> nxt t \<le> u)) \<and>
     (\<forall>t u. occ t \<longrightarrow> occ u \<longrightarrow> t < u \<longrightarrow> t + gap \<le> u)"

text \<open>The greatest instant of a schedule at or before a given one.\<close>

definition isLastOcc :: "(time \<Rightarrow> bool) \<Rightarrow> time \<Rightarrow> time \<Rightarrow> bool" where
  "isLastOcc occ from r \<longleftrightarrow> occ r \<and> r \<le> from \<and> (\<forall>u. occ u \<longrightarrow> u \<le> from \<longrightarrow> u \<le> r)"

lemma cronLaw_next:
  assumes "cronLaw nxt occ gap"
  shows "t < nxt t" "occ (nxt t)" "occ u \<Longrightarrow> t < u \<Longrightarrow> nxt t \<le> u" "0 < gap"
    "occ t \<Longrightarrow> occ u \<Longrightarrow> t < u \<Longrightarrow> t + gap \<le> u"
  using assms by (auto simp: cronLaw_def)

lemma isLastOcc_unique: "isLastOcc occ from r \<Longrightarrow> isLastOcc occ from r' \<Longrightarrow> r = r'"
  by (simp add: isLastOcc_def order_antisym)

text \<open>
  The loop returns the last occurrence, or has used up its iterations and then stands at
  least that many gaps after the occurrence it started from.
\<close>

lemma searchLoop_result:
  assumes law: "cronLaw nxt occ gap"
  shows "occ l \<Longrightarrow> l \<le> from \<Longrightarrow>
     isLastOcc occ from (searchLoop nxt from n l (nxt l)) \<or>
     l + int n * gap \<le> searchLoop nxt from n l (nxt l)"
proof (induction n arbitrary: l)
  case 0
  then show ?case by simp
next
  case (Suc n)
  show ?case
  proof (cases "nxt l > from")
    case True
    have "isLastOcc occ from l"
      unfolding isLastOcc_def using Suc.prems True cronLaw_next(3) [OF law, of _ l] by force
    with True show ?thesis by simp
  next
    case False
    have "l + gap \<le> nxt l"
      using cronLaw_next(1,2) [OF law, of l] cronLaw_next(5) [OF law Suc.prems(1)] by blast
    with False Suc.IH [of "nxt l"] cronLaw_next(2) [OF law, of l] show ?thesis
      by (auto simp: algebra_simps)
  qed
qed

lemma searchLoop_le:
  "cronLaw nxt occ gap \<Longrightarrow> l \<le> from \<Longrightarrow> searchLoop nxt from n l (nxt l) \<le> from"
  by (induction n arbitrary: l) auto

text \<open>The loop bound is enough for every window and gap with \<open>window \<le> iterations * gap\<close>.\<close>

lemma searchLoop_last:
  assumes law: "cronLaw nxt occ gap" and "occ l" and "l \<le> from"
    and enough: "from - w < l" "w \<le> int n * gap"
  shows "isLastOcc occ from (searchLoop nxt from n l (nxt l))"
proof (rule ccontr)
  assume "\<not> ?thesis"
  with searchLoop_result [OF law assms(2,3)]
  have "l + int n * gap \<le> searchLoop nxt from n l (nxt l)" by blast
  moreover have "searchLoop nxt from n l (nxt l) \<le> from" by (rule searchLoop_le [OF law assms(3)])
  ultimately show False using enough by linarith
qed

lemma findLastOccurrence_sentinel:
  assumes law: "cronLaw nxt occ gap"
    and "\<forall>u. occ u \<longrightarrow> from - getSearchWindow (analyzeScheduleFrequency e) < u \<longrightarrow> from < u"
  shows "findLastOccurrence nxt addYears e from = addYears (- 10) from"
  using assms(2) cronLaw_next(1,2) [OF law] by (simp add: findLastOccurrence_def Let_def)

lemma findLastOccurrence_last:
  assumes law: "cronLaw nxt occ gap"
    and occ: "occ u" "from - getSearchWindow (analyzeScheduleFrequency e) < u" "u \<le> from"
    and bound: "getSearchWindow (analyzeScheduleFrequency e)
      \<le> int (maxIterations (getSearchWindow (analyzeScheduleFrequency e))) * gap"
  shows "isLastOcc occ from (findLastOccurrence nxt addYears e from)"
proof -
  let ?w = "getSearchWindow (analyzeScheduleFrequency e)"
  let ?f = "nxt (from - ?w)"
  have "?f \<le> u" using cronLaw_next(3) [OF law occ(1,2)] .
  then have le: "?f \<le> from" using occ(3) by simp
  have "isLastOcc occ from (searchLoop nxt from (maxIterations ?w) ?f (nxt ?f))"
    using searchLoop_last [OF law cronLaw_next(2) [OF law] le _ bound] cronLaw_next(1) [OF law] by blast
  with le show ?thesis by (simp add: findLastOccurrence_def Let_def)
qed

text \<open>For every window but the 400 days of a rare schedule a gap of a minute is enough.\<close>

lemma minutes_enough:
  assumes "freq \<noteq> FrequencyRare"
  shows "getSearchWindow freq \<le> int (maxIterations (getSearchWindow freq)) * minute"
  using assms by (cases freq) (simp_all add: maxIterations_def hour_def minute_def second_def)

lemma two_minutes_enough:
  "getSearchWindow freq \<le> int (maxIterations (getSearchWindow freq)) * (2 * minute)"
  by (cases freq) (simp_all add: maxIterations_def hour_def minute_def second_def)

section \<open>The calculation on a cache miss and on a cache hit\<close>

text \<open>
  \<open>covered nxt occ e now\<close>: the schedule obeys the law of the cron library, its loop bound
  is enough and it has triggered within the search window. \<open>parsedAs\<close> names what the time
  zone and the two expressions of a schedule were resolved to.
\<close>

definition covered :: "(time \<Rightarrow> time) \<Rightarrow> (time \<Rightarrow> bool) \<Rightarrow> string \<Rightarrow> time \<Rightarrow> time \<Rightarrow> bool" where
  "covered nxt occ e now u \<longleftrightarrow>
     (\<exists>gap. cronLaw nxt occ gap \<and>
        getSearchWindow (analyzeScheduleFrequency e)
          \<le> int (maxIterations (getSearchWindow (analyzeScheduleFrequency e))) * gap) \<and>
     occ u \<and> now - getSearchWindow (analyzeScheduleFrequency e) < u \<and> u \<le> now"

definition parsedAs :: "('l, 'c) cron_env \<Rightarrow> string \<Rightarrow> string \<Rightarrow> string \<Rightarrow> 'l \<Rightarrow> 'c \<Rightarrow> 'c \<Rightarrow> bool" where
  "parsedAs env up down tz loc us ds \<longleftrightarrow>
     ce_loadLocation env tz = Inr loc \<and> ce_parse env up = Inr us \<and> ce_parse env down = Inr ds"

definition freshPeriod :: "('l, 'c) cron_env \<Rightarrow> string \<Rightarrow> string \<Rightarrow> 'l \<Rightarrow> 'c \<Rightarrow> 'c \<Rightarrow> time \<Rightarrow> PeriodResult" where
  "freshPeriod env up down loc us ds now =
     (let lu = findLastOccurrence (ce_next env us loc) (ce_addYears env loc) up now;
          ld = findLastOccurrence (ce_next env ds loc) (ce_addYears env loc) down now
      in \<lparr>State = (if lu > ld then ''Up'' else ''Down''),
          NextUpscale = ce_next env us loc now, NextDownscale = ce_next env ds loc now,
          LastUpscale = lu, LastDownscale = ld\<rparr>)"

lemma CalculatePeriod_miss:
  assumes "parsedAs env up down tz loc us ds"
    and "getCachedPeriod cache (generateCacheKey (ce_sha256hex env) up down tz) now = None"
  shows "CalculatePeriod env cache up down tz now =
    (Inr (freshPeriod env up down loc us ds now),
     setCachedPeriod cache (generateCacheKey (ce_sha256hex env) up down tz)
       (freshPeriod env up down loc us ds now))"
  using assms by (simp add: CalculatePeriod_def parsedAs_def freshPeriod_def Let_def)

lemma CalculatePeriod_hit:
  assumes "getCachedPeriod cache (generateCacheKey (ce_sha256hex env) up down tz) now = Some r"
  shows "CalculatePeriod env cache up down tz now = (Inr r, cache)"
  using assms by (simp add: CalculatePeriod_def)

lemma getCached_setCached:
  "getCachedPeriod (setCachedPeriod cache key r) key' now =
     (if key' = key then (if min (NextUpscale r) (NextDownscale r) < now then None else Some r)
      else getCachedPeriod cache key' now)"
  by (auto simp: getCachedPeriod_def setCachedPeriod_def Let_def)

lemma covered_last:
  assumes "covered nxt occ e now u"
  shows "isLastOcc occ now (findLastOccurrence nxt addYears e now)"
  using assms findLastOccurrence_last unfolding covered_def by blast

text \<open>Between two occurrences neither the last nor the next one changes.\<close>

lemma covered_stable:
  assumes cov: "covered nxt occ e t u" and t: "t0 \<le> t" "t < nxt t0" "u \<le> t0"
  shows "findLastOccurrence nxt addYears e t = findLastOccurrence nxt addYears e t0"
    and "nxt t = nxt t0"
proof -
  from cov obtain gap where law: "cronLaw nxt occ gap" by (auto simp: covered_def)
  have cov0: "covered nxt occ e t0 u" using cov t(1,3) by (auto simp: covered_def)
  have none: "v \<le> t0" if "occ v" "v \<le> t" for v
    using cronLaw_next(3) [OF law that(1), of t0] t(2) that(2) by linarith
  have "isLastOcc occ t (findLastOccurrence nxt addYears e t0)"
    using covered_last [OF cov0, of addYears] none t(1) by (force simp: isLastOcc_def)
  then show "findLastOccurrence nxt addYears e t = findLastOccurrence nxt addYears e t0"
    using covered_last [OF cov] isLastOcc_unique by blast
  show "nxt t = nxt t0"
  proof (rule order_antisym)
    show "nxt t \<le> nxt t0" using cronLaw_next(3) [OF law cronLaw_next(2) [OF law, of t0] t(2)] .
    have "t0 < nxt t" using cronLaw_next(1) [OF law, of t] t(1) by simp
    then show "nxt t0 \<le> nxt t" using cronLaw_next(3) [OF law cronLaw_next(2) [OF law, of t]] by blast
  qed
qed

section \<open>Properties\<close>

text \<open>
  C19: On a cache miss, for two expressions that parse and that have each triggered within their search window,
  with occurrences far enough apart for the bound on the iterations (\<open>covered\<close>): the state is \<open>Up\<close> exactly
  when the schedule's last upscale is later than its last downscale, the last transitions are the last
  occurrences, and the next transitions are the earliest later ones. A schedule that has not
  triggered within the window is the subject of \<open>minute_window_misses_upscale\<close>.
\<close>

theorem CalculatePeriod_state:
  assumes "parsedAs env up down tz loc us ds"
    and "getCachedPeriod cache (generateCacheKey (ce_sha256hex env) up down tz) now = None"
    and "covered (ce_next env us loc) occU up now u" and "covered (ce_next env ds loc) occD down now d"
    and "isLastOcc occU now lu" and "isLastOcc occD now ld"
  shows "\<exists>r cache'. CalculatePeriod env cache up down tz now = (Inr r, cache') \<and>
    State r = (if ld < lu then ''Up'' else ''Down'') \<and> LastUpscale r = lu \<and> LastDownscale r = ld \<and>
    now < NextUpscale r \<and> occU (NextUpscale r) \<and> (\<forall>t. occU t \<and> now < t \<longrightarrow> NextUpscale r \<le> t) \<and>
    now < NextDownscale r \<and> occD (NextDownscale r) \<and> (\<forall>t. occD t \<and> now < t \<longrightarrow> NextDownscale r \<le> t)"
proof -
  let ?r = "freshPeriod env up down loc us ds now"
  obtain g1 g2 where law: "cronLaw (ce_next env us loc) occU g1" "cronLaw (ce_next env ds loc) occD g2"
    using assms(3,4) by (auto simp: covered_def)
  have "LastUpscale ?r = lu" "LastDownscale ?r = ld"
    using covered_last [OF assms(3)] covered_last [OF assms(4)] assms(5,6) isLastOcc_unique
    unfolding freshPeriod_def Let_def PeriodResult.simps by blast+
  moreover have "State ?r = (if LastDownscale ?r < LastUpscale ?r then ''Up'' else ''Down'')"
    by (simp add: freshPeriod_def Let_def)
  moreover have "NextUpscale ?r = ce_next env us loc now" "NextDownscale ?r = ce_next env ds loc now"
    by (simp_all add: freshPeriod_def Let_def)
  ultimately show ?thesis
    using CalculatePeriod_miss [OF assms(1,2)] cronLaw_next(1-3) [OF law(1)] cronLaw_next(1-3) [OF law(2)]
    by (intro exI [of _ ?r]) auto
qed

text \<open>
  A result computed at \<open>t0\<close> is served from the cache until the next transition, and
  there it is what a computation without the cache would give.
\<close>

theorem CalculatePeriod_cache_coherent:
  assumes "parsedAs env up down tz loc us ds"
    and "getCachedPeriod cache (generateCacheKey (ce_sha256hex env) up down tz) t0 = None"
    and "CalculatePeriod env cache up down tz t0 = (Inr r, cache')"
    and "covered (ce_next env us loc) occU up t u" and "covered (ce_next env ds loc) occD down t d"
    and "u \<le> t0" and "d \<le> t0" and "t0 \<le> t" and "t < min (NextUpscale r) (NextDownscale r)"
  shows "CalculatePeriod env cache' up down tz t = (Inr r, cache') \<and>
    fst (CalculatePeriod env Map.empty up down tz t) = Inr r"
proof

  let ?key = "generateCacheKey (ce_sha256hex env) up down tz"
  have r: "r = freshPeriod env up down loc us ds t0" and c': "cache' = setCachedPeriod cache ?key r"
    using CalculatePeriod_miss [OF assms(1,2)] assms(3) by auto
  then show "CalculatePeriod env cache' up down tz t = (Inr r, cache')"
    using assms(9) by (intro CalculatePeriod_hit) (auto simp: getCached_setCached min_less_iff_disj)
  have nx: "NextUpscale r = ce_next env us loc t0" "NextDownscale r = ce_next env ds loc t0"
    by (simp_all add: r freshPeriod_def Let_def)
  have "freshPeriod env up down loc us ds t = r"
    using covered_stable [OF assms(4) assms(8) _ assms(6)] covered_stable [OF assms(5) assms(8) _ assms(7)]
      assms(9) nx by (simp add: r freshPeriod_def Let_def)
  then show "fst (CalculatePeriod env Map.empty up down tz t) = Inr r"
    using CalculatePeriod_miss [OF assms(1), of Map.empty t] by (simp add: getCachedPeriod_def)
qed

text \<open>
  The cache key does not separate the expressions. A suffix of the upscale expression
  moved to the front of the downscale expression gives the same key, so a second schedule
  is served the period of the first until that one's next transition.
\<close>

theorem cache_key_shared:
  assumes "getCachedPeriod cache (generateCacheKey (ce_sha256hex env) up (x @ down) tz) t0 = None"
    and "CalculatePeriod env cache up (x @ down) tz t0 = (Inr r, cache')"
    and "t \<le> min (NextUpscale r) (NextDownscale r)"
  shows "CalculatePeriod env cache' (up @ x) down tz t = (Inr r, cache')"
proof -
  have key: "generateCacheKey (ce_sha256hex env) (up @ x) down tz =
      generateCacheKey (ce_sha256hex env) up (x @ down) tz"
    by (simp add: generateCacheKey_def)
  have "cache' = setCachedPeriod cache (generateCacheKey (ce_sha256hex env) up (x @ down) tz) r"
    using assms(1,2) by (auto simp: CalculatePeriod_def Let_def split: sum.splits)
  then show ?thesis
    using assms(3) key by (intro CalculatePeriod_hit) (auto simp: getCached_setCached min_less_iff_disj)
qed

section \<open>Sample schedules\<close>

text \<open>
  Instants count from a Monday at midnight UTC. A sample library knows schedules that
  trigger every \<open>p\<close> at offset \<open>o\<close>, and one that triggers every minute from 06:00 to 06:59
  on Mondays.
\<close>

definition periodicNext :: "duration \<Rightarrow> time \<Rightarrow> time \<Rightarrow> time" where
  "periodicNext p off t = off + p * ((t - off) div p + 1)"

lemma periodic_cronLaw:
  assumes "0 < p"
  shows "cronLaw (periodicNext p off) (\<lambda>t. (t - off) mod p = 0) p"
proof -
  have bound: "periodicNext p off t \<le> u" if "(u - off) mod p = 0" "t < u" for t u
  proof -
    have "p dvd u - off" by (rule mod_0_imp_dvd [OF that(1)])
    then obtain k where k: "u - off = p * k" by (elim dvdE)
    have "p * ((t - off) div p) \<le> t - off"
      using assms by (metis mult.commute div_mult_mod_eq pos_mod_sign le_add_same_cancel1)
    with that(2) k have "p * ((t - off) div p) < p * k" by linarith
    then have "(t - off) div p + 1 \<le> k" using assms by simp
    then have "p * ((t - off) div p + 1) \<le> p * k" using assms by simp
    with k show ?thesis by (simp add: periodicNext_def)
  qed
  have step: "t + p \<le> u" if "(t - off) mod p = 0" "(u - off) mod p = 0" "t < u" for t u
  proof -
    have "periodicNext p off t = t + p"
      using that(1) by (auto simp: periodicNext_def algebra_simps)
    with bound [OF that(2,3)] show ?thesis by simp
  qed
  have "t < periodicNext p off t" for t
  proof -
    have "t - off < p * ((t - off) div p) + p"
      using pos_mod_bound [OF assms, of "t - off"] mult_div_mod_eq [of p "t - off"] by linarith
    then show ?thesis by (simp add: periodicNext_def algebra_simps)
  qed
  moreover have "(periodicNext p off t - off) mod p = 0" for t by (simp add: periodicNext_def)
  ultimately show ?thesis using assms bound step by (auto simp: cronLaw_def)
qed

definition mondayBurst :: "time \<Rightarrow> time" where
  "mondayBurst t =
     (let week = 168 * hour; w = t div week * week; m = t - w
      in if m < 6 * hour then w + 6 * hour
         else if m < 6 * hour + 59 * minute then w + (m div minute + 1) * minute
         else w + week + 6 * hour)"

definition sampleParse :: "string \<Rightarrow> string + (time \<Rightarrow> time)" where
  "sampleParse e =
     (if e = ''0 6 * * *'' then Inr (periodicNext (24 * hour) (6 * hour))
      else if e = ''0 18 * * *'' then Inr (periodicNext (24 * hour) (18 * hour))
      else if e = ''0 18 * * 5'' then Inr (periodicNext (168 * hour) (114 * hour))
      else if e = ''* 6 * * 1'' then Inr mondayBurst
      else if e = ''15 18 * * *'' then Inr (periodicNext (24 * hour) (18 * hour + 15 * minute))
      else if e = ''5 18 * * *'' then Inr (periodicNext (24 * hour) (18 * hour + 5 * minute))
      else if e = ''0 6 * * 0'' then Inr (periodicNext (168 * hour) (150 * hour))
      else if e = ''0 6 * * 01'' then Inr (periodicNext (168 * hour) (6 * hour))
      else Inl ''expected exactly 5 fields'')"

definition sampleCron :: "(unit, time \<Rightarrow> time) cron_env" where
  "sampleCron =
     \<lparr>ce_loadLocation = (\<lambda>tz. if tz = ''UTC'' then Inr () else Inl ''unknown time zone''),
      ce_parse = sampleParse,
      ce_next = (\<lambda>sched _ t. sched t),
      ce_addYears = (\<lambda>_ n t. t + n * 365 * 24 * hour),
      ce_sha256hex = id\<rparr>"

lemmas duration_defs = hour_def minute_def second_def
lemmas sample_defs = sampleCron_def sampleParse_def periodicNext_def

lemma sample_frequencies:
  "analyzeScheduleFrequency ''0 6 * * *'' = FrequencyDaily"
  "analyzeScheduleFrequency ''0 18 * * *'' = FrequencyDaily"
  "analyzeScheduleFrequency ''0 18 * * 5'' = FrequencyWeekly"
  "analyzeScheduleFrequency ''* 6 * * 1'' = FrequencyMinute"
  by code_simp+

lemma sample_covered:
  assumes "minute \<le> p" and "analyzeScheduleFrequency e = f" and "f \<noteq> FrequencyRare"
    and "(u - off) mod p = 0" and "now - getSearchWindow f < u" and "u \<le> now"
  shows "covered (periodicNext p off) (\<lambda>t. (t - off) mod p = 0) e now u"
proof -
  have p: "0 < p" using assms(1) by (simp add: duration_defs)
  have "getSearchWindow f \<le> int (maxIterations (getSearchWindow f)) * minute"
    by (rule minutes_enough [OF assms(3)])
  also have "\<dots> \<le> int (maxIterations (getSearchWindow f)) * p"
    using assms(1) by (intro mult_left_mono) simp_all
  finally show ?thesis using assms(2,4-) periodic_cronLaw [OF p] by (auto simp: covered_def)
qed

lemma sample_lastOcc:
  assumes "0 < p" and "(r - off) mod p = 0" and "r \<le> now" and "now < r + p"
  shows "isLastOcc (\<lambda>t. (t - off) mod p = 0) now r"
proof -
  note gap = cronLaw_next(5) [OF periodic_cronLaw [OF assms(1)], of r off, OF assms(2)]
  have "u \<le> r" if "(u - off) mod p = 0" "u \<le> now" for u
    using gap [of u] that assms(4) by (cases "r < u") auto
  with assms show ?thesis by (simp add: isLastOcc_def)
qed

lemma sample_parsed:
  "parsedAs sampleCron ''0 6 * * *'' ''0 18 * * *'' ''UTC'' ()
     (periodicNext (24 * hour) (6 * hour)) (periodicNext (24 * hour) (18 * hour))"
  by (simp add: parsedAs_def sampleCron_def sampleParse_def)

lemma sample_next [simp]: "ce_next sampleCron f l = f"
  by (simp add: sampleCron_def)

lemma sample_covered_up:
  "12 * hour \<le> now - 240 * hour \<Longrightarrow> now - 240 * hour < 246 * hour \<Longrightarrow> 246 * hour \<le> now \<Longrightarrow>
   covered (periodicNext (24 * hour) (6 * hour)) (\<lambda>t. (t - 6 * hour) mod (24 * hour) = 0)
     ''0 6 * * *'' now (246 * hour)"
  by (rule sample_covered [OF _ sample_frequencies(1)]) (simp_all add: duration_defs)

lemma sample_covered_down:
  "12 * hour \<le> now - 240 * hour \<Longrightarrow> now - 240 * hour < 234 * hour \<Longrightarrow> 234 * hour \<le> now \<Longrightarrow>
   covered (periodicNext (24 * hour) (18 * hour)) (\<lambda>t. (t - 18 * hour) mod (24 * hour) = 0)
     ''0 18 * * *'' now (234 * hour)"
  by (rule sample_covered [OF _ sample_frequencies(2)]) (simp_all add: duration_defs)

theorem CalculatePeriod_state_witness:
  "\<exists>r cache'. CalculatePeriod sampleCron Map.empty ''0 6 * * *'' ''0 18 * * *'' ''UTC'' (252 * hour) = (Inr r, cache') \<and>
    State r = ''Up'' \<and> LastUpscale r = 246 * hour \<and> LastDownscale r = 234 * hour"
proof -
  have lu: "isLastOcc (\<lambda>t. (t - 6 * hour) mod (24 * hour) = 0) (252 * hour) (246 * hour)"
    by (rule sample_lastOcc) (simp_all add: duration_defs)
  have ld: "isLastOcc (\<lambda>t. (t - 18 * hour) mod (24 * hour) = 0) (252 * hour) (234 * hour)"
    by (rule sample_lastOcc) (simp_all add: duration_defs)
  show ?thesis
    using CalculatePeriod_state [OF sample_parsed _ _ _ lu ld, of Map.empty "246 * hour" "234 * hour"]
      sample_covered_up [of "252 * hour"] sample_covered_down [of "252 * hour"]
    by (auto simp: getCachedPeriod_def duration_defs)
qed

theorem CalculatePeriod_cache_coherent_witness:
  "\<exists>r cache'. CalculatePeriod sampleCron Map.empty ''0 6 * * *'' ''0 18 * * *'' ''UTC'' (252 * hour) = (Inr r, cache') \<and>
    CalculatePeriod sampleCron cache' ''0 6 * * *'' ''0 18 * * *'' ''UTC'' (257 * hour) = (Inr r, cache')"
proof -
  let ?up = "periodicNext (24 * hour) (6 * hour)" and ?down = "periodicNext (24 * hour) (18 * hour)"
  let ?r = "freshPeriod sampleCron ''0 6 * * *'' ''0 18 * * *'' () ?up ?down (252 * hour)"
  have miss: "getCachedPeriod Map.empty k t = None" for k t by (simp add: getCachedPeriod_def)
  note calc = CalculatePeriod_miss [OF sample_parsed miss, of "252 * hour"]
  have "257 * hour < min (NextUpscale ?r) (NextDownscale ?r)"
    by (simp add: freshPeriod_def Let_def periodicNext_def duration_defs)
  with CalculatePeriod_cache_coherent [OF sample_parsed miss calc, of _ "257 * hour" "246 * hour" _ "234 * hour"]
    sample_covered_up [of "257 * hour"] sample_covered_down [of "257 * hour"] calc
  show ?thesis by (auto simp: duration_defs)
qed

theorem cache_key_shared_witness:
  "\<exists>r cache'. CalculatePeriod sampleCron Map.empty ''0 6 * * 0'' ''15 18 * * *'' ''UTC'' 0 = (Inr r, cache') \<and>
    CalculatePeriod sampleCron cache' ''0 6 * * 01'' ''5 18 * * *'' ''UTC'' 0 = (Inr r, cache') \<and>
    NextDownscale r = 18 * hour + 15 * minute"
proof -
  let ?up = "periodicNext (168 * hour) (150 * hour)" and ?down = "periodicNext (24 * hour) (18 * hour + 15 * minute)"
  let ?r = "freshPeriod sampleCron ''0 6 * * 0'' ''15 18 * * *'' () ?up ?down 0"
  have p: "parsedAs sampleCron ''0 6 * * 0'' (''1'' @ ''5 18 * * *'') ''UTC'' () ?up ?down"
    by (simp add: parsedAs_def sampleCron_def sampleParse_def)
  have miss: "getCachedPeriod Map.empty k t = None" for k t by (simp add: getCachedPeriod_def)
  note calc = CalculatePeriod_miss [OF p miss, of 0]
  have next0: "NextDownscale ?r = 18 * hour + 15 * minute" "0 \<le> min (NextUpscale ?r) (NextDownscale ?r)"
    by (simp_all add: freshPeriod_def Let_def periodicNext_def duration_defs)
  with cache_key_shared [OF miss calc, of 0] calc show ?thesis by auto
qed

text \<open>
  An expression that starts with a star is searched for two days back, whatever its
  other fields say. The schedule below goes up on Mondays between 06:00 and 06:59 and down
  on Fridays at 18:00; on Wednesday at 07:00 its last upscale is later than its last
  downscale, and the calculated state is \<open>Down\<close>.
\<close>

theorem minute_window_misses_upscale:
  "\<exists>r cache'. CalculatePeriod sampleCron Map.empty ''* 6 * * 1'' ''0 18 * * 5'' ''UTC'' (223 * hour) = (Inr r, cache') \<and>
    State r = ''Down'' \<and> LastDownscale r = 114 * hour \<and>
    mondayBurst (174 * hour + 58 * minute) = 174 * hour + 59 * minute"
proof -
  let ?down = "periodicNext (168 * hour) (114 * hour)"
  have p: "parsedAs sampleCron ''* 6 * * 1'' ''0 18 * * 5'' ''UTC'' () mondayBurst ?down"
    by (simp add: parsedAs_def sampleCron_def sampleParse_def)
  have up: "findLastOccurrence mondayBurst f ''* 6 * * 1'' (223 * hour) = f (- 10) (223 * hour)" for f
    by (simp add: findLastOccurrence_def sample_frequencies mondayBurst_def Let_def duration_defs)
  have ld: "isLastOcc (\<lambda>t. (t - 114 * hour) mod (168 * hour) = 0) (223 * hour) (114 * hour)"
    by (rule sample_lastOcc) (simp_all add: duration_defs)
  have "covered ?down (\<lambda>t. (t - 114 * hour) mod (168 * hour) = 0) ''0 18 * * 5'' (223 * hour) (114 * hour)"
    by (rule sample_covered [OF _ sample_frequencies(3)]) (simp_all add: duration_defs)
  from isLastOcc_unique [OF covered_last [OF this] ld]
  have down: "findLastOccurrence ?down f ''0 18 * * 5'' (223 * hour) = 114 * hour" for f .
  have "State (freshPeriod sampleCron ''* 6 * * 1'' ''0 18 * * 5'' () mondayBurst ?down (223 * hour)) = ''Down''"
    "LastDownscale (freshPeriod sampleCron ''* 6 * * 1'' ''0 18 * * 5'' () mondayBurst ?down (223 * hour)) = 114 * hour"
    by (simp_all add: freshPeriod_def Let_def up down) (simp_all add: sampleCron_def duration_defs)
  moreover have "mondayBurst (174 * hour + 58 * minute) = 174 * hour + 59 * minute"
    by (simp add: mondayBurst_def Let_def duration_defs)
  ultimately show ?thesis
    using CalculatePeriod_miss [OF p, of Map.empty "223 * hour"] by (simp add: getCachedPeriod_def)
qed

end
