(* ===== verification/Restore.thy ===== *)
theory Restore
  imports Integrations Period
begin

text \<open>
  \<^verbatim>\<open>restoreManagedWorkloads\<close> of \<^verbatim>\<open>lightsoutschedule_controller.go\<close>: giving back everything a
  schedule holds, when the schedule is deleted or a namespace leaves it. The record \<open>env\<close> is
  the client of both reconcilers: the API server for workloads (\<open>cluster\<close>), for unstructured
  objects (\<open>api\<close>), and the lists by label.
\<close>

record ('s, 'sel, 'l, 'c) env =
  e_cluster :: "('s, 'sel) cluster"
  e_api :: "'s api"
  e_codec :: json_codec
  e_cron :: "('l, 'c) cron_env"
  e_recorder :: bool
  e_listNamespaces :: "'sel \<Rightarrow> 's \<Rightarrow> string + string list"
  e_listLocal :: "string \<Rightarrow> nat \<Rightarrow> 's \<Rightarrow> string + string list"
  e_managedDeployments :: "string \<Rightarrow> string \<times> string \<Rightarrow> 's \<Rightarrow> string + replica_workload list"
  e_managedStatefulSets :: "string \<Rightarrow> string \<times> string \<Rightarrow> 's \<Rightarrow> string + replica_workload list"
  e_managedCronJobs :: "string \<Rightarrow> string \<times> string \<Rightarrow> 's \<Rightarrow> string + cronjob list"
  e_allDeployments :: "string \<times> string \<Rightarrow> 's \<Rightarrow> string + replica_workload list"
  e_allStatefulSets :: "string \<times> string \<Rightarrow> 's \<Rightarrow> string + replica_workload list"
  e_allCronJobs :: "string \<times> string \<Rightarrow> 's \<Rightarrow> string + cronjob list"
  e_setCondition :: "Condition list \<Rightarrow> Condition \<Rightarrow> Condition list"

section \<open>One namespace\<close>

text \<open>
  What a restore has come to: the error texts, the events, the answers of the lists and the
  objects as the loops leave them (both kept for the statements below), and the server.
\<close>

record 's restoring =
  re_errors :: "string list"
  re_obs :: "observation list"
  re_read :: "(string + workload list) list"
  re_workloads :: "workload list"
  re_hpas :: "json list option"
  re_state :: 's

text \<open>The loop over one kind of workload; \<open>kind\<close> is the word of the error text.\<close>

definition restoreWorkload ::
  "('s, 'sel) cluster \<Rightarrow> bool \<Rightarrow> string \<Rightarrow> string \<Rightarrow> string \<Rightarrow> string \<Rightarrow> workload \<Rightarrow> 's restoring \<Rightarrow> 's restoring" where
  "restoreWorkload c recorder scheduleName scheduleKind kind ns w p =
     (case scaleOne c scheduleName True w (re_hpas p) (re_state p) of
        (outcome, w', hpas', s') \<Rightarrow>
          let p1 = p\<lparr>re_hpas := hpas', re_state := s', re_workloads := re_workloads p @ [w']\<rparr> in
          (case outcome of
             Inl e \<Rightarrow> p1\<lparr>re_errors := re_errors p @ [kind @ '' '' @ ns @ ''/'' @ workloadName w @ '': '' @ e]\<rparr>
           | Inr result \<Rightarrow>
               p1\<lparr>re_obs := re_obs p @ recordWorkloadEvent recorder w' scheduleName scheduleKind True result\<rparr>))"

definition restoreKind ::
  "('s, 'sel) cluster \<Rightarrow> bool \<Rightarrow> string \<Rightarrow> string \<Rightarrow> string \<Rightarrow> string \<Rightarrow> string \<Rightarrow>
     (string + workload list) \<Rightarrow> 's restoring \<Rightarrow> 's restoring" where
  "restoreKind c recorder scheduleName scheduleKind kind kinds ns answer p =
     (let p0 = p\<lparr>re_read := re_read p @ [answer]\<rparr> in
      case answer of
        Inl e \<Rightarrow> p0\<lparr>re_errors := re_errors p @ [''list '' @ kinds @ '' in '' @ ns @ '': '' @ e]\<rparr>
      | Inr ws \<Rightarrow> fold (restoreWorkload c recorder scheduleName scheduleKind kind ns) ws p0)"

definition listed :: "('o \<Rightarrow> workload) \<Rightarrow> string + 'o list \<Rightarrow> string + workload list" where
  "listed wrap r = map_sum id (map wrap) r"

definition restoreNamespace ::
  "('s, 'sel, 'l, 'c) env \<Rightarrow> string \<Rightarrow> string \<Rightarrow> string \<Rightarrow> 's restoring \<Rightarrow> 's restoring" where
  "restoreNamespace env scheduleName scheduleKind ns p =
     (let c = e_cluster env; recorder = e_recorder env;
          p0 = p\<lparr>re_hpas := (case listHPAs (cl_listHPAs c) ns (re_state p) of Inl e \<Rightarrow> None | Inr lst \<Rightarrow> lst)\<rparr>;
          p1 = restoreKind c recorder scheduleName scheduleKind ''deployment'' ''deployments'' ns
                 (listed WorkloadFromDeployment
                    (listManagedDeployments (e_managedDeployments env) ns scheduleName (re_state p0))) p0;
          p2 = restoreKind c recorder scheduleName scheduleKind ''statefulset'' ''statefulsets'' ns
                 (listed WorkloadFromStatefulSet
                    (listManagedStatefulSets (e_managedStatefulSets env) ns scheduleName (re_state p1))) p1
      in restoreKind c recorder scheduleName scheduleKind ''cronjob'' ''cronjobs'' ns
           (listed WorkloadFromCronJob
              (listManagedCronJobs (e_managedCronJobs env) ns scheduleName (re_state p2))) p2)"

section \<open>Everything a schedule holds\<close>

definition releaseArgo :: "'s api \<Rightarrow> LightsOutScheduleCore \<Rightarrow> string \<Rightarrow> string list \<Rightarrow> 's \<Rightarrow> 's" where
  "releaseArgo api core scheduleName namespaces s =
     (case ArgoCD core of
        None \<Rightarrow> s
      | Some spec \<Rightarrow>
          (case DiscoverArgoCDApps api spec namespaces s of
             Inl e \<Rightarrow> s
           | Inr apps \<Rightarrow> snd (forAll (\<lambda>app. RemoveArgoCDAppLabels api app scheduleName) apps s)))"

definition releaseFlux :: "'s api \<Rightarrow> LightsOutScheduleCore \<Rightarrow> string \<Rightarrow> string list \<Rightarrow> 's \<Rightarrow> 's" where
  "releaseFlux api core scheduleName namespaces s =
     (case FluxCD core of
        None \<Rightarrow> s
      | Some spec \<Rightarrow>
          (case DiscoverFluxResources api spec namespaces s of
             Inl e \<Rightarrow> s
           | Inr resources \<Rightarrow> snd (forAll (\<lambda>r. ResumeFluxResource api r scheduleName) resources s)))"

definition restorePass ::
  "('s, 'sel, 'l, 'c) env \<Rightarrow> string \<Rightarrow> string \<Rightarrow> string list \<Rightarrow> 's \<Rightarrow> 's restoring" where
  "restorePass env scheduleName scheduleKind namespaces s =
     fold (restoreNamespace env scheduleName scheduleKind) namespaces
       \<lparr>re_errors = [], re_obs = [], re_read = [], re_workloads = [], re_hpas = None, re_state = s\<rparr>"

definition restoreManagedWorkloads ::
  "('s, 'sel, 'l, 'c) env \<Rightarrow> LightsOutScheduleCore \<Rightarrow> string \<Rightarrow> string \<Rightarrow> string list \<Rightarrow> time \<Rightarrow> 's \<Rightarrow>
     string list \<times> observation list \<times> 's" where
  "restoreManagedWorkloads env core scheduleName scheduleKind namespaces now s =
     (let p = restorePass env scheduleName scheduleKind namespaces s;
          s1 = releaseArgo (e_api env) core scheduleName namespaces (re_state p);
          s2 = releaseFlux (e_api env) core scheduleName namespaces s1
      in if CustomResources core \<noteq> [] then
           (case restoreAllCustomResources (e_codec env) (e_api env) core scheduleName namespaces now s2 of
              (errs, s3) \<Rightarrow> (re_errors p @ errs, re_obs p, s3))
         else (re_errors p, re_obs p, s2))"

section \<open>What a restore without errors has done\<close>

text \<open>
  The workload after a restore by schedule \<open>sched\<close>, given the workload as it was listed: what
  the schedule held is back and unmarked, everything else is as it was, except that a
  suspended CronJob nobody marked is marked as suspended by its user.
\<close>

definition heldReplicas :: "string \<Rightarrow> replica_workload \<Rightarrow> bool" where
  "heldReplicas sched d \<longleftrightarrow>
     mget (obj_annotations d) OriginalReplicasAnnotation \<noteq> [] \<and> mget (obj_annotations d) ManagedByAnnotation \<in> {[], sched}"

definition recordedReplicas :: "replica_workload \<Rightarrow> int32" where
  "recordedReplicas d =
     word_of_int (case parseInt 32 (mget (obj_annotations d) OriginalReplicasAnnotation) of None \<Rightarrow> 1 | Some n \<Rightarrow> n)"

definition replicasGivenBack :: "string \<Rightarrow> replica_workload \<Rightarrow> replica_workload \<Rightarrow> bool" where
  "replicasGivenBack sched d d' \<longleftrightarrow>
     (if heldReplicas sched d then
        spec_replicas d' = Some (recordedReplicas d) \<and>
        obj_annotations d' = (obj_annotations d)(OriginalReplicasAnnotation := None, ManagedByAnnotation := None) \<and>
        obj_labels d' = (obj_labels d)(ManagedByLabel := None)
      else d' = d)"

definition heldCronJob :: "string \<Rightarrow> cronjob \<Rightarrow> bool" where
  "heldCronJob sched cj \<longleftrightarrow>
     mget (obj_annotations cj) OriginalSuspendAnnotation = SuspendedByLightsOut \<and>
     mget (obj_annotations cj) ManagedByAnnotation \<in> {[], sched}"

definition cronJobGivenBack :: "string \<Rightarrow> cronjob \<Rightarrow> cronjob \<Rightarrow> bool" where
  "cronJobGivenBack sched cj cj' \<longleftrightarrow>
     (if heldCronJob sched cj then
        \<not> isSuspended cj' \<and>
        obj_annotations cj' = (obj_annotations cj)(OriginalSuspendAnnotation := None, ManagedByAnnotation := None) \<and>
        obj_labels cj' = (obj_labels cj)(ManagedByLabel := None)
      else spec_suspend cj' = spec_suspend cj \<and> obj_labels cj' = obj_labels cj)"

fun givenBack :: "string \<Rightarrow> workload \<Rightarrow> workload \<Rightarrow> bool" where
  "givenBack sched (WDeployment d) (WDeployment d') \<longleftrightarrow> replicasGivenBack sched d d'"
| "givenBack sched (WStatefulSet d) (WStatefulSet d') \<longleftrightarrow> replicasGivenBack sched d d'"
| "givenBack sched (WCronJob c) (WCronJob c') \<longleftrightarrow> cronJobGivenBack sched c c'"
| "givenBack sched _ _ \<longleftrightarrow> False"

definition mergingCluster :: "('s, 'sel) cluster \<Rightarrow> bool" where
  "mergingCluster c \<longleftrightarrow>
     workloadServer (cl_patchDeployment c) \<and> workloadServer (cl_patchStatefulSet c) \<and> cronJobServer (cl_patchCronJob c)"

lemma scaleReplicas_givesBack:
  assumes "workloadServer send"
    and "scaleReplicas send sendHPA d kind (spec_replicas d) sched True hpas s = (Inr r, d', hpas', s')"
  shows "replicasGivenBack sched d d'"
proof (cases "heldReplicas sched d")
  case True
  then have "mget (obj_annotations d) OriginalReplicasAnnotation \<noteq> []"
    "mget (obj_annotations d) ManagedByAnnotation \<in> {[], sched}" by (simp_all add: heldReplicas_def)
  note u = up_effect [OF assms this refl]
  with True show ?thesis by (simp add: replicasGivenBack_def recordedReplicas_def)
next
  case False
  from assms(2) have "d' = d"
    by (cases rule: scaleReplicas_up_cases) (use False in \<open>auto simp: heldReplicas_def\<close>)
  with False show ?thesis by (simp add: replicasGivenBack_def)
qed

lemma ScaleCronJob_givesBack:
  assumes "cronJobServer send" and "ScaleCronJob send cj sched True s = (Inr r, cj', s')"
  shows "cronJobGivenBack sched cj cj'"
proof -
  let ?mark = "emptyPatch\<lparr>SetAnnotations := [(OriginalSuspendAnnotation, SuspendedByUser)]\<rparr>"
  let ?p = "emptyPatch\<lparr>
           RemoveAnnotations := [OriginalSuspendAnnotation, ManagedByAnnotation],
           RemoveLabels := [ManagedByLabel], Spec := [(fieldSuspend, JBool False)]\<rparr>"
  note ne = SuspendedByLightsOut_def SuspendedByUser_def
  show ?thesis
  proof (cases "heldCronJob sched cj")
    case True
    then have "send cj (build ?p) s = (Inr cj', s')"
      using assms(2) by (auto simp: ScaleCronJob_def scaleCronJobUp_def applyMergePatch_def Let_def heldCronJob_def ne
          split: if_splits sum.splits prod.splits)
    from patchMergesD [OF assms(1) this] True show ?thesis
      by (auto simp: sameCronJob_def merge_cronjob_build isSuspended_def cronJobGivenBack_def fun_eq_iff)
  next
    case False
    with assms(2) consider "cj' = cj" | "send cj (build ?mark) s = (Inr cj', s')"
      by (auto simp: ScaleCronJob_def scaleCronJobUp_def applyMergePatch_def Let_def heldCronJob_def
          split: if_splits sum.splits prod.splits)
    then show ?thesis
    proof cases
      case 2
      from patchMergesD [OF assms(1) 2] False show ?thesis
        by (auto simp: sameCronJob_def merge_cronjob_build cronJobGivenBack_def)
    qed (use False in \<open>simp add: cronJobGivenBack_def\<close>)
  qed
qed

lemma scaleOne_givesBack:
  assumes "mergingCluster c" and "scaleOne c sched True w hpas s = (Inr r, w', hpas', s')"
  shows "givenBack sched w w'"
  using assms
  by (cases w) (auto simp: mergingCluster_def ScaleDeployment_def ScaleStatefulSet_def
      dest: scaleReplicas_givesBack ScaleCronJob_givesBack split: prod.splits)

text \<open>
  What a part of the pass adds: no error means that its \<open>n\<close> lists succeeded and that all they
  listed is given back.
\<close>

definition addsTo :: "string \<Rightarrow> nat \<Rightarrow> 's restoring \<Rightarrow> 's restoring \<Rightarrow> bool" where
  "addsTo sched n p p' \<longleftrightarrow>
     (re_errors p' = [] \<longrightarrow> re_errors p = [] \<and>
        (\<exists>wss ws'. length wss = n \<and> re_read p' = re_read p @ map Inr wss \<and> re_workloads p' = re_workloads p @ ws' \<and>
           list_all2 (givenBack sched) (concat wss) ws'))"

lemma addsTo_refl: "addsTo sched 0 p p"
  by (simp add: addsTo_def)

lemma addsTo_trans:
  assumes "addsTo sched n p q" and "addsTo sched m q r"
  shows "addsTo sched (n + m) p r"
proof (unfold addsTo_def, rule impI)
  assume e: "re_errors r = []"
  from assms(2) e obtain wss2 ws2 where 2: "re_errors q = []" "length wss2 = m" "re_read r = re_read q @ map Inr wss2"
    "re_workloads r = re_workloads q @ ws2" "list_all2 (givenBack sched) (concat wss2) ws2" unfolding addsTo_def by blast
  from assms(1) 2(1) obtain wss1 ws1 where 1: "re_errors p = []" "length wss1 = n" "re_read q = re_read p @ map Inr wss1"
    "re_workloads q = re_workloads p @ ws1" "list_all2 (givenBack sched) (concat wss1) ws1" unfolding addsTo_def by blast
  have "length (wss1 @ wss2) = n + m" "re_read r = re_read p @ map Inr (wss1 @ wss2)" "re_workloads r = re_workloads p @ (ws1 @ ws2)"
    "list_all2 (givenBack sched) (concat (wss1 @ wss2)) (ws1 @ ws2)"
    using 1 2 by (auto intro: list_all2_appendI)
  with 1(1) show "re_errors p = [] \<and> (\<exists>wss ws'. length wss = n + m \<and> re_read r = re_read p @ map Inr wss \<and>
      re_workloads r = re_workloads p @ ws' \<and> list_all2 (givenBack sched) (concat wss) ws')" by blast
qed

text \<open>The loop over the workloads of one list.\<close>

lemma restoreWorkload_loop:
  assumes "mergingCluster c" and "re_errors (fold (restoreWorkload c recorder sched kindS kind ns) ws p) = []"
  shows "re_errors p = [] \<and> (\<exists>ws'. list_all2 (givenBack sched) ws ws' \<and>
    re_workloads (fold (restoreWorkload c recorder sched kindS kind ns) ws p) = re_workloads p @ ws' \<and>
    re_read (fold (restoreWorkload c recorder sched kindS kind ns) ws p) = re_read p)"
  using assms(2)
proof (induction ws arbitrary: p)
  case (Cons w ws)
  let ?q = "restoreWorkload c recorder sched kindS kind ns w p"
  obtain r w' h s' where o: "scaleOne c sched True w (re_hpas p) (re_state p) = (r, w', h, s')" by (rule prod_cases4)
  have keep: "re_read ?q = re_read p" "re_workloads ?q = re_workloads p @ [w']"
    using o by (cases r, simp_all add: restoreWorkload_def Let_def)+
  have "re_errors ?q = [] \<longrightarrow> re_errors p = [] \<and> givenBack sched w w'"
    using o scaleOne_givesBack [OF assms(1)] by (cases r) (auto simp: restoreWorkload_def)
  moreover from Cons.IH [of ?q] Cons.prems keep obtain ws' where "re_errors ?q = []" "list_all2 (givenBack sched) ws ws'"
    "re_workloads (fold (restoreWorkload c recorder sched kindS kind ns) (w # ws) p) = re_workloads p @ (w' # ws')"
    "re_read (fold (restoreWorkload c recorder sched kindS kind ns) (w # ws) p) = re_read p" by auto
  ultimately show ?case by (intro conjI exI [of _ "w' # ws'"]) simp_all
qed simp

lemma restoreKind_adds:
  assumes "mergingCluster c"
  shows "addsTo sched 1 p (restoreKind c recorder sched kindS kind kinds ns answer p)"
proof (cases answer)
  case (Inr ws)
  show ?thesis
    unfolding addsTo_def
  proof (rule impI)
    let ?p0 = "p\<lparr>re_read := re_read p @ [answer]\<rparr>"
    assume e: "re_errors (restoreKind c recorder sched kindS kind kinds ns answer p) = []"
    have r: "restoreKind c recorder sched kindS kind kinds ns answer p =
      fold (restoreWorkload c recorder sched kindS kind ns) ws ?p0" by (simp add: restoreKind_def Inr)
    from restoreWorkload_loop [OF assms e [unfolded r]] obtain ws' where "re_errors p = []" "list_all2 (givenBack sched) ws ws'"
      "re_workloads (restoreKind c recorder sched kindS kind kinds ns answer p) = re_workloads p @ ws'"
      "re_read (restoreKind c recorder sched kindS kind kinds ns answer p) = re_read p @ map Inr [ws]"
      unfolding r by (auto simp: Inr)
    then show "re_errors p = [] \<and> (\<exists>wss ws'. length wss = 1 \<and>
        re_read (restoreKind c recorder sched kindS kind kinds ns answer p) = re_read p @ map Inr wss \<and>
        re_workloads (restoreKind c recorder sched kindS kind kinds ns answer p) = re_workloads p @ ws' \<and>
        list_all2 (givenBack sched) (concat wss) ws')"
      by (intro conjI exI [of _ "[ws]"] exI [of _ ws']) auto
  qed
qed (simp add: restoreKind_def addsTo_def)

lemma restoreNamespace_adds:
  assumes "mergingCluster (e_cluster env)"
  shows "addsTo sched 3 p (restoreNamespace env sched kindS ns p)"
proof -
  have a0: "addsTo sched 0 p (p\<lparr>re_hpas := h\<rparr>)" for h by (simp add: addsTo_def)
  note k = restoreKind_adds [OF assms]
  show ?thesis
    using addsTo_trans [OF a0 addsTo_trans [OF k addsTo_trans [OF k k]]]
    unfolding restoreNamespace_def Let_def by (simp add: numeral_3_eq_3)
qed

lemma restorePass_adds:
  assumes "mergingCluster (e_cluster env)"
  shows "addsTo sched (3 * length nss) p (fold (restoreNamespace env sched kindS) nss p)"
proof (induction nss arbitrary: p)
  case (Cons ns nss)
  show ?case using addsTo_trans [OF restoreNamespace_adds [OF assms] Cons.IH] by simp
qed (simp add: addsTo_refl)

lemma restore_gives_back:
  assumes "mergingCluster (e_cluster env)"
    and "restoreManagedWorkloads env core sched kindS nss now s = ([], obs, s')"
  shows "\<exists>wss. length wss = 3 * length nss \<and> re_read (restorePass env sched kindS nss s) = map Inr wss \<and>
    list_all2 (givenBack sched) (concat wss) (re_workloads (restorePass env sched kindS nss s))"
proof -
  let ?p = "restorePass env sched kindS nss s"
  have "re_errors ?p = []"
    using assms(2) by (auto simp: restoreManagedWorkloads_def Let_def split: if_splits prod.splits)
  with restorePass_adds [OF assms(1), of sched nss _ kindS] show ?thesis
    unfolding addsTo_def restorePass_def by fastforce
qed

section \<open>Properties\<close>

text \<open>
  When a restore reports no error, each of the three lists of each namespace succeeded and
  every workload that was listed as managed has been given back: what the schedule held has
  its recorded replica count or runs again, without the schedule's marks.
\<close>

theorem restore_complete:
  assumes "mergingCluster (e_cluster env)"
    and "restoreManagedWorkloads env core sched kindS nss now s = ([], obs, s')"
  shows "\<exists>wss. length wss = 3 * length nss \<and> re_read (restorePass env sched kindS nss s) = map Inr wss \<and>
    list_all2 (givenBack sched) (concat wss) (re_workloads (restorePass env sched kindS nss s))"
  by (rule restore_gives_back [OF assms])

text \<open>A cluster with one Deployment that the schedule \<open>night\<close> holds down.\<close>

definition sampleEnv :: "(unit, string, unit, time \<Rightarrow> time) env" where
  "sampleEnv = \<lparr>e_cluster = sampleCluster, e_api = emptyApi, e_codec = sampleCodec, e_cron = sampleCron,
     e_recorder = True, e_listNamespaces = (\<lambda>sel s. Inr [''shop'']), e_listLocal = (\<lambda>ns n s. Inr []),
     e_managedDeployments = (\<lambda>ns sel s. Inr (if ns = ''shop'' then [sampleDown] else [])),
     e_managedStatefulSets = (\<lambda>ns sel s. Inr []), e_managedCronJobs = (\<lambda>ns sel s. Inr []),
     e_allDeployments = (\<lambda>sel s. Inr [sampleDown]), e_allStatefulSets = (\<lambda>sel s. Inr []),
     e_allCronJobs = (\<lambda>sel s. Inr []),
     e_setCondition = (\<lambda>cs c. c # filter (\<lambda>d. cond_Type d \<noteq> cond_Type c) cs)\<rparr>"

lemma sampleEnv_fields [simp]:
  "e_cluster sampleEnv = sampleCluster" "e_recorder sampleEnv = True"
  "e_managedDeployments sampleEnv ns sel s = Inr (if ns = ''shop'' then [sampleDown] else [])"
  "e_managedStatefulSets sampleEnv ns sel s = Inr []" "e_managedCronJobs sampleEnv ns sel s = Inr []"
  "e_listLocal sampleEnv ns n s = Inr []" "e_listNamespaces sampleEnv selector s = Inr [''shop'']"
  by (simp_all add: sampleEnv_def)

lemma sampleEnv_ok: "mergingCluster (e_cluster sampleEnv)"
  by (simp add: mergingCluster_def sampleCluster_def echoServer_merges)

lemma sample_given_back:
  assumes "re_read (restorePass sampleEnv ''night'' ''schedule'' [''shop''] ()) = map Inr wss"
    and "list_all2 (givenBack ''night'') (concat wss) ws'"
  shows "\<exists>d'. ws' = [WDeployment d'] \<and> spec_replicas d' = Some 3 \<and> obj_annotations d' ManagedByAnnotation = None"
proof -
  have read: "re_read (restoreWorkload c rec sched kindS kind ns w p) = re_read p" for c rec sched kindS kind ns w p
    by (auto simp: restoreWorkload_def Let_def split: prod.splits sum.splits)
  have "wss = [[WDeployment sampleDown], [], []]"
    using assms(1) by (auto simp: restorePass_def restoreNamespace_def restoreKind_def Let_def listed_def read
        listManagedDeployments_def listManagedStatefulSets_def listManagedCronJobs_def WorkloadFromDeployment_def
        Cons_eq_map_conv split: sum.splits)
  with assms(2) obtain w' where w': "ws' = [w']" "givenBack ''night'' (WDeployment sampleDown) w'"
    by (auto simp: list_all2_Cons1)
  then obtain d' where d': "w' = WDeployment d'" by (cases w') auto
  have "recordedReplicas sampleDown = 3" by code_simp
  with w' d' show ?thesis by (auto simp: replicasGivenBack_def heldReplicas_def sampleDown_def)
qed

theorem restore_complete_witness:
  "\<exists>d'. re_workloads (restorePass sampleEnv ''night'' ''schedule'' [''shop''] ()) = [WDeployment d'] \<and>
     spec_replicas d' = Some 3 \<and> obj_annotations d' ManagedByAnnotation = None"
proof -
  have "fst (restoreManagedWorkloads sampleEnv emptyCore ''night'' ''schedule'' [''shop''] 0 ()) = []" by code_simp
  then obtain obs s' where run: "restoreManagedWorkloads sampleEnv emptyCore ''night'' ''schedule'' [''shop''] 0 () = ([], obs, s')"
    by (metis prod.collapse)
  from restore_complete [OF sampleEnv_ok run] sample_given_back show ?thesis by blast
qed

end
