(* ===== verification/Fleet.thy ===== *)
theory Fleet
  imports Restore
begin

text \<open>
  The workloads of a cluster as an API server keeps them, and what scaling them comes to.
  The server of the other theories is a record of functions; here it is a list of objects
  that answers lists by namespace and merges patches into the object it stores. On it a
  scaling pass is compared with a function on single workloads, \<open>wanted\<close>, that says what a
  schedule makes of a workload and knows nothing of passes, budgets, waves or patches.
\<close>

section \<open>The server\<close>

record 'h world =
  fleet :: "workload list"
  autoscalers :: 'h

fun keyOf :: "workload \<Rightarrow> string \<times> string \<times> string" where
  "keyOf w = (workloadType w, workloadNamespace w, workloadName w)"

definition consistent :: "workload list \<Rightarrow> bool" where
  "consistent ws \<longleftrightarrow> distinct (map keyOf ws)"

fun asDeployment :: "workload \<Rightarrow> replica_workload option" where
  "asDeployment (WDeployment d) = Some d"
| "asDeployment _ = None"

fun asStatefulSet :: "workload \<Rightarrow> replica_workload option" where
  "asStatefulSet (WStatefulSet d) = Some d"
| "asStatefulSet _ = None"

fun asCronJob :: "workload \<Rightarrow> cronjob option" where
  "asCronJob (WCronJob c) = Some c"
| "asCronJob _ = None"

definition inNamespace :: "string \<Rightarrow> 'a kmeta_scheme list \<Rightarrow> 'a kmeta_scheme list" where
  "inNamespace ns objs = filter (\<lambda>o1. obj_namespace o1 = ns) objs"

definition putObject :: "workload \<Rightarrow> workload list \<Rightarrow> workload list" where
  "putObject w ws = map (\<lambda>x. if keyOf x = keyOf w then w else x) ws"

text \<open>
  A patch goes to the stored object of that kind, namespace and name. The server may refuse
  any patch; then it stores nothing.
\<close>

definition storedObject ::
  "(workload \<Rightarrow> 'a kmeta_scheme option) \<Rightarrow> 'a kmeta_scheme \<Rightarrow> workload list \<Rightarrow> 'a kmeta_scheme option" where
  "storedObject view obj ws =
     find (\<lambda>o1. obj_namespace o1 = obj_namespace obj \<and> obj_name o1 = obj_name obj) (List.map_filter view ws)"

definition patchStored ::
  "(workload \<Rightarrow> 'a kmeta_scheme option) \<Rightarrow> ('a kmeta_scheme \<Rightarrow> workload) \<Rightarrow>
     (json \<Rightarrow> 'a kmeta_scheme \<Rightarrow> 'a kmeta_scheme) \<Rightarrow> (workload \<Rightarrow> json \<Rightarrow> 'h world \<Rightarrow> string option) \<Rightarrow>
     ('a kmeta_scheme, 'h world) patcher" where
  "patchStored view wrap merge refuse obj patch W =
     (case refuse (wrap obj) patch W of
        Some e \<Rightarrow> (Inl e, W)
      | None \<Rightarrow>
          (case storedObject view obj (fleet W) of
             None \<Rightarrow> (Inl ''not found'', W)
           | Some stored \<Rightarrow>
               (Inr (merge patch stored), W\<lparr>fleet := putObject (wrap (merge patch stored)) (fleet W)\<rparr>)))"

text \<open>What is left open: selectors, autoscalers, refusals, and when the process is stopped.\<close>

record ('h, 'sel) surroundings =
  su_selectors :: "'sel selectors"
  su_listHPAs :: "string \<Rightarrow> 'h \<Rightarrow> list_error + json list"
  su_patchHPA :: "'h json_patcher"
  su_refuse :: "workload \<Rightarrow> json \<Rightarrow> 'h world \<Rightarrow> string option"
  su_cancelled :: "nat \<Rightarrow> 'h world \<Rightarrow> string option"

definition fleetCluster :: "('h, 'sel) surroundings \<Rightarrow> ('h world, 'sel) cluster" where
  "fleetCluster su =
     \<lparr>cl_selectors = su_selectors su,
      cl_listDeployments = (\<lambda>ns W. Inr (inNamespace ns (List.map_filter asDeployment (fleet W)))),
      cl_listStatefulSets = (\<lambda>ns W. Inr (inNamespace ns (List.map_filter asStatefulSet (fleet W)))),
      cl_listCronJobs = (\<lambda>ns W. Inr (inNamespace ns (List.map_filter asCronJob (fleet W)))),
      cl_listHPAs = (\<lambda>ns W. su_listHPAs su ns (autoscalers W)),
      cl_patchDeployment = patchStored asDeployment WDeployment merge_workload (su_refuse su),
      cl_patchStatefulSet = patchStored asStatefulSet WStatefulSet merge_workload (su_refuse su),
      cl_patchCronJob = patchStored asCronJob WCronJob merge_cronjob (su_refuse su),
      cl_patchHPA = (\<lambda>obj patch W. case su_patchHPA su obj patch (autoscalers W) of
                       (r, h) \<Rightarrow> (r, W\<lparr>autoscalers := h\<rparr>)),
      cl_cancelled = su_cancelled su\<rparr>"

lemma fleetCluster_fields [simp]:
  "cl_selectors (fleetCluster su) = su_selectors su"
  "cl_listDeployments (fleetCluster su) ns W = Inr (inNamespace ns (List.map_filter asDeployment (fleet W)))"
  "cl_listStatefulSets (fleetCluster su) ns W = Inr (inNamespace ns (List.map_filter asStatefulSet (fleet W)))"
  "cl_listCronJobs (fleetCluster su) ns W = Inr (inNamespace ns (List.map_filter asCronJob (fleet W)))"
  "cl_patchDeployment (fleetCluster su) = patchStored asDeployment WDeployment merge_workload (su_refuse su)"
  "cl_patchStatefulSet (fleetCluster su) = patchStored asStatefulSet WStatefulSet merge_workload (su_refuse su)"
  "cl_patchCronJob (fleetCluster su) = patchStored asCronJob WCronJob merge_cronjob (su_refuse su)"
  "cl_cancelled (fleetCluster su) = su_cancelled su"
  by (simp_all add: fleetCluster_def)

section \<open>What a schedule makes of a workload\<close>

definition downReplicas :: "string \<Rightarrow> replica_workload \<Rightarrow> replica_workload" where
  "downReplicas sched d =
     (if mget (obj_annotations d) ManagedByAnnotation \<in> {[], sched} \<and>
         mget (obj_annotations d) OriginalReplicasAnnotation = [] \<and> derefReplicas (spec_replicas d) \<noteq> 0
      then d\<lparr>obj_labels := (obj_labels d)(ManagedByLabel \<mapsto> sched),
             obj_annotations := (obj_annotations d)
               (OriginalReplicasAnnotation \<mapsto> itoa (sint (derefReplicas (spec_replicas d))), ManagedByAnnotation \<mapsto> sched),
             spec_replicas := Some 0\<rparr>
      else d)"

definition upReplicas :: "string \<Rightarrow> replica_workload \<Rightarrow> replica_workload" where
  "upReplicas sched d =
     (if heldReplicas sched d
      then d\<lparr>obj_labels := (obj_labels d)(ManagedByLabel := None),
             obj_annotations := (obj_annotations d)(OriginalReplicasAnnotation := None, ManagedByAnnotation := None),
             spec_replicas := Some (recordedReplicas d)\<rparr>
      else d)"

definition downCronJob :: "string \<Rightarrow> cronjob \<Rightarrow> cronjob" where
  "downCronJob sched c =
     (if mget (obj_annotations c) ManagedByAnnotation \<in> {[], sched} \<and>
         mget (obj_annotations c) OriginalSuspendAnnotation = [] \<and> \<not> isSuspended c
      then c\<lparr>obj_labels := (obj_labels c)(ManagedByLabel \<mapsto> sched),
             obj_annotations := (obj_annotations c)
               (OriginalSuspendAnnotation \<mapsto> SuspendedByLightsOut, ManagedByAnnotation \<mapsto> sched),
             spec_suspend := Some True\<rparr>
      else c)"

definition upCronJob :: "string \<Rightarrow> cronjob \<Rightarrow> cronjob" where
  "upCronJob sched c =
     (if isSuspended c \<and> mget (obj_annotations c) OriginalSuspendAnnotation = []
      then c\<lparr>obj_annotations := (obj_annotations c)(OriginalSuspendAnnotation \<mapsto> SuspendedByUser)\<rparr>
      else if heldCronJob sched c
      then c\<lparr>obj_labels := (obj_labels c)(ManagedByLabel := None),
             obj_annotations := (obj_annotations c)(OriginalSuspendAnnotation := None, ManagedByAnnotation := None),
             spec_suspend := Some False\<rparr>
      else c)"

fun wanted :: "string \<Rightarrow> bool \<Rightarrow> workload \<Rightarrow> workload" where
  "wanted sched up (WDeployment d) = WDeployment (if up then upReplicas sched d else downReplicas sched d)"
| "wanted sched up (WStatefulSet d) = WStatefulSet (if up then upReplicas sched d else downReplicas sched d)"
| "wanted sched up (WCronJob c) = WCronJob (if up then upCronJob sched c else downCronJob sched c)"

lemma keyOf_wanted [simp]: "keyOf (wanted sched up w) = keyOf w"
  by (cases w) (auto simp: downReplicas_def upReplicas_def downCronJob_def upCronJob_def)

lemma wanted_idem: "wanted sched up (wanted sched up w) = wanted sched up w"
proof -
  have "downReplicas sched (downReplicas sched d) = downReplicas sched d" for d
    by (auto simp add: downReplicas_def)
  moreover have "upReplicas sched (upReplicas sched d) = upReplicas sched d" for d
    by (simp add: upReplicas_def heldReplicas_def)
  moreover have "downCronJob sched (downCronJob sched c) = downCronJob sched c" for c
    by (auto simp add: downCronJob_def isSuspended_def)
  moreover have "upCronJob sched (upCronJob sched c) = upCronJob sched c" for c
    by (auto simp add: upCronJob_def heldCronJob_def isSuspended_def SuspendedByUser_def SuspendedByLightsOut_def)
  ultimately show ?thesis by (cases w) simp_all
qed

section \<open>One workload on the server\<close>

definition swap :: "workload \<Rightarrow> workload \<Rightarrow> workload list \<Rightarrow> workload list" where
  "swap w w' ws = map (\<lambda>x. if x = w then w' else x) ws"

lemma swap_same [simp]: "swap w w ws = ws"
  by (simp add: swap_def map_idI)

lemma consistent_inj:
  "consistent ws \<Longrightarrow> x \<in> set ws \<Longrightarrow> y \<in> set ws \<Longrightarrow> keyOf x = keyOf y \<Longrightarrow> x = y"
  unfolding consistent_def by (metis distinct_map inj_on_eq_iff)

lemma putObject_swap:
  assumes "consistent ws" and "w \<in> set ws" and "keyOf w' = keyOf w"
  shows "putObject w' ws = swap w w' ws"
  unfolding putObject_def swap_def using consistent_inj [OF assms(1) _ assms(2)] assms(3) by (intro map_cong) auto

text \<open>A kind of object as the server sees it: what it stores under the key of an object in hand.\<close>

definition kindView :: "(workload \<Rightarrow> 'a kmeta_scheme option) \<Rightarrow> ('a kmeta_scheme \<Rightarrow> workload) \<Rightarrow> bool" where
  "kindView view wrap \<longleftrightarrow>
     (\<forall>x obj. view x = Some obj \<longleftrightarrow> x = wrap obj) \<and>
     (\<forall>a b. keyOf (wrap a) = keyOf (wrap b) \<longleftrightarrow> obj_namespace a = obj_namespace b \<and> obj_name a = obj_name b)"

lemma kindViews [simp]:
  "kindView asDeployment WDeployment" "kindView asStatefulSet WStatefulSet" "kindView asCronJob WCronJob"
  unfolding kindView_def by (auto elim: asDeployment.elims asStatefulSet.elims asCronJob.elims)

lemma mem_map_filter: "y \<in> set (List.map_filter f xs) \<longleftrightarrow> (\<exists>x \<in> set xs. f x = Some y)"
  by (induction xs) (auto simp: List.map_filter_simps split: option.splits)

lemma storedObject_here:
  assumes "kindView view wrap" and "consistent ws" and "wrap obj \<in> set ws"
  shows "storedObject view obj ws = Some obj"
proof -
  let ?P = "\<lambda>o1. obj_namespace o1 = obj_namespace obj \<and> obj_name o1 = obj_name obj"
  have v: "view x = Some o1 \<longleftrightarrow> x = wrap o1" for x o1 using assms(1) by (simp add: kindView_def)
  have mem: "o1 \<in> set (List.map_filter view ws) \<longleftrightarrow> wrap o1 \<in> set ws" for o1
    unfolding mem_map_filter by (simp add: v)
  have only: "o1 = obj" if "o1 \<in> set (List.map_filter view ws)" "?P o1" for o1
  proof -
    have "wrap o1 = wrap obj"
      using consistent_inj [OF assms(2) _ assms(3), of "wrap o1"] that assms(1) mem by (auto simp: kindView_def)
    then show ?thesis using v [of "wrap obj" obj] v [of "wrap obj" o1] by auto
  qed
  have "find ?P (List.map_filter view ws) \<noteq> None"
    using mem [of obj] assms(3) by (auto simp: find_None_iff)
  then obtain o1 where o1: "find ?P (List.map_filter view ws) = Some o1" by auto
  then have "o1 \<in> set (List.map_filter view ws)" "?P o1" unfolding find_Some_iff by auto
  with only o1 show ?thesis by (simp add: storedObject_def)
qed

lemma patchStored_here:
  assumes "kindView view wrap" and "consistent (fleet W)" and "wrap obj \<in> set (fleet W)"
    and "keyOf (wrap (merge patch obj)) = keyOf (wrap obj)"
  shows "patchStored view wrap merge refuse obj patch W =
    (case refuse (wrap obj) patch W of
       Some e \<Rightarrow> (Inl e, W)
     | None \<Rightarrow> (Inr (merge patch obj), W\<lparr>fleet := swap (wrap obj) (wrap (merge patch obj)) (fleet W)\<rparr>))"
  using storedObject_here [OF assms(1-3)] putObject_swap [OF assms(2-4)]
  by (simp add: patchStored_def split: option.split)

text \<open>Autoscalers are not in the fleet.\<close>

lemma patchListed_fleet:
  assumes "patchListed (cl_patchHPA (fleetCluster su)) patchOf hpas kind name W = (err, hpas', W')"
  shows "fleet W' = fleet W"
  using assms by (auto simp: patchListed_def fleetCluster_def applyMergePatch_def Let_def
      split: option.splits prod.splits sum.splits)

lemma HPA_fleet:
  "PatchHPAForDownscale (cl_patchHPA (fleetCluster su)) hpas kind name sched W = (err, hpas', W') \<Longrightarrow> fleet W' = fleet W"
  "RestoreHPA (cl_patchHPA (fleetCluster su)) hpas kind name sched W = (err, hpas', W') \<Longrightarrow> fleet W' = fleet W"
  unfolding PatchHPAForDownscale_def RestoreHPA_def by (rule patchListed_fleet, assumption)+

section \<open>Scaling one workload on the server\<close>

text \<open>
  The object in hand is the stored one. Then a call that fails has left the fleet as it was,
  and one that does not fail has made of the workload what the schedule wants.
\<close>

definition becomes :: "string \<Rightarrow> bool \<Rightarrow> workload \<Rightarrow> workload list \<Rightarrow> string + ScaleResult \<Rightarrow> workload \<Rightarrow> workload list \<Rightarrow> bool" where
  "becomes sched up w F outcome w' F' \<longleftrightarrow>
     (case outcome of
        Inl e \<Rightarrow> F' = F
      | Inr r \<Rightarrow> w' = wanted sched up w \<and> F' = swap w (wanted sched up w) F)"

lemma applyMergePatch_here:
  assumes "kindView view wrap" and "consistent (fleet W)" and "wrap obj \<in> set (fleet W)"
    and "keyOf (wrap (merge (build p) obj)) = keyOf (wrap obj)"
    and "applyMergePatch (patchStored view wrap merge refuse) obj p W = (err, obj', W')"
  shows "(err \<noteq> None \<and> W' = W) \<or>
    (err = None \<and> obj' = merge (build p) obj \<and> W' = W\<lparr>fleet := swap (wrap obj) (wrap (merge (build p) obj)) (fleet W)\<rparr>)"
  using assms(5) unfolding applyMergePatch_def patchStored_here [of view wrap W obj merge "build p", OF assms(1-4)]
  by (auto split: option.splits)

lemma downReplicas_here:
  assumes "kindView view wrap" and "consistent (fleet W)" and "wrap obj \<in> set (fleet W)"
    and send: "send = patchStored view wrap merge_workload (su_refuse su)"
    and w: "\<And>up d. wanted sched up (wrap d) = wrap (if up then upReplicas sched d else downReplicas sched d)"
    and run: "scaleReplicas send (cl_patchHPA (fleetCluster su)) obj kind (spec_replicas obj) sched False hpas W = (r, obj', hpas', W')"
  shows "becomes sched False (wrap obj) (fleet W) r (wrap obj') (fleet W')"
  using run
proof (cases rule: scaleReplicas_down_cases)
  case skip
  then have "downReplicas sched obj = obj" using run
    by (auto simp: downReplicas_def scaleReplicas_def scaleReplicasDown_def Let_def skipped_def scaled_def
        split: if_splits prod.splits option.splits)
  with skip w show ?thesis by (simp add: becomes_def)
next
  case (call hpaErr s1)
  let ?p = "emptyPatch\<lparr>
       SetAnnotations := [(OriginalReplicasAnnotation, itoa (sint (derefReplicas (spec_replicas obj)))), (ManagedByAnnotation, sched)],
       SetLabels := [(ManagedByLabel, sched)], Spec := [(fieldReplicas, JGoInt 0)]\<rparr>"
  have m: "merge_workload (build ?p) obj = downReplicas sched obj"
    using call(1-3) by (simp add: merge_workload_build downReplicas_def)
  have F: "fleet s1 = fleet W" by (rule HPA_fleet(1) [OF call(4)])
  have k: "keyOf (wrap (merge_workload (build ?p) obj)) = keyOf (wrap obj)"
    unfolding m using w [of False obj] keyOf_wanted by metis
  from applyMergePatch_here [of view wrap s1 obj merge_workload ?p, OF assms(1) _ _ k call(5) [unfolded send]] assms(2,3) F
  show ?thesis unfolding becomes_def m w by (cases r) auto
qed

lemma upReplicas_here:
  assumes "kindView view wrap" and "consistent (fleet W)" and "wrap obj \<in> set (fleet W)"
    and send: "send = patchStored view wrap merge_workload (su_refuse su)"
    and w: "\<And>up d. wanted sched up (wrap d) = wrap (if up then upReplicas sched d else downReplicas sched d)"
    and run: "scaleReplicas send (cl_patchHPA (fleetCluster su)) obj kind (spec_replicas obj) sched True hpas W = (r, obj', hpas', W')"
  shows "becomes sched True (wrap obj) (fleet W) r (wrap obj') (fleet W')"
  using run
proof (cases rule: scaleReplicas_up_cases)
  case (unmanaged hpaErr)
  then have "upReplicas sched obj = obj" by (simp add: upReplicas_def heldReplicas_def)
  with unmanaged w HPA_fleet(2) [OF unmanaged(2)] show ?thesis by (simp add: becomes_def)
next
  case different
  then have "upReplicas sched obj = obj" by (simp add: upReplicas_def heldReplicas_def)
  with different w show ?thesis by (simp add: becomes_def)
next
  case (call n s1)
  let ?p = "emptyPatch\<lparr>RemoveAnnotations := [OriginalReplicasAnnotation, ManagedByAnnotation],
           RemoveLabels := [ManagedByLabel], Spec := [(fieldReplicas, JInt32 n)]\<rparr>"
  have m: "merge_workload (build ?p) obj = upReplicas sched obj"
    using call(1-3) by (simp add: merge_workload_build upReplicas_def heldReplicas_def recordedReplicas_def fun_upd_twist)
  have k: "keyOf (wrap (merge_workload (build ?p) obj)) = keyOf (wrap obj)"
    unfolding m using w [of True obj] keyOf_wanted by metis
  note a = applyMergePatch_here [of view wrap W obj merge_workload ?p, OF assms(1-3) k call(6) [unfolded send]]
  have F: "fleet W' = fleet s1"
  proof (cases r)
    case (Inl e)
    with run call a show ?thesis
      by (auto simp: scaleReplicas_def scaleReplicasUp_def Let_def skipped_def split: if_splits prod.splits option.splits)
  next
    case (Inr sr)
    with run call show ?thesis
      by (auto simp: scaleReplicas_def scaleReplicasUp_def Let_def skipped_def dest!: HPA_fleet(2)
          split: if_splits prod.splits option.splits)
  qed
  from a F show ?thesis unfolding becomes_def m w by (cases r) auto
qed

lemma replicas_here:
  assumes "kindView view wrap" and "consistent (fleet W)" and "wrap obj \<in> set (fleet W)"
    and "\<And>up d. wanted sched up (wrap d) = wrap (if up then upReplicas sched d else downReplicas sched d)"
    and "scaleReplicas (patchStored view wrap merge_workload (su_refuse su)) (cl_patchHPA (fleetCluster su)) obj kind
      (spec_replicas obj) sched up hpas W = (r, obj', hpas', W')"
  shows "becomes sched up (wrap obj) (fleet W) r (wrap obj') (fleet W')"
proof (cases up)
  case True
  with upReplicas_here [OF assms(1-3) refl assms(4)] assms(5) show ?thesis by simp
next
  case False
  with downReplicas_here [OF assms(1-3) refl assms(4)] assms(5) show ?thesis by simp
qed

lemma cronJob_here:
  assumes "consistent (fleet W)" and "WCronJob cj \<in> set (fleet W)"
    and run: "ScaleCronJob (patchStored asCronJob WCronJob merge_cronjob (su_refuse su)) cj sched up W = (r, cj', W')"
  shows "becomes sched up (WCronJob cj) (fleet W) r (WCronJob cj') (fleet W')"
proof -
  let ?send = "patchStored asCronJob WCronJob merge_cronjob (su_refuse su)"
  let ?w = "if up then upCronJob sched cj else downCronJob sched cj"
  have key: "keyOf (WCronJob ?w) = keyOf (WCronJob cj)" using keyOf_wanted [of sched up "WCronJob cj"] by simp
  have idle: ?thesis if "?w = cj" "cj' = cj" "W' = W" "r = Inr sr" for sr
    using that by (simp add: becomes_def)
  have patched: ?thesis if "applyMergePatch ?send cj p W = (err, cj', W')" and "r = (case err of Some e \<Rightarrow> Inl e | None \<Rightarrow> Inr sr)"
      and m: "merge_cronjob (build p) cj = ?w" for p err sr
    using applyMergePatch_here [of asCronJob WCronJob W cj merge_cronjob p, OF _ assms(1,2) _ that(1)] key that(2)
    unfolding m by (auto simp: becomes_def split: option.splits)
  note defs = ScaleCronJob_def scaleCronJobUp_def scaleCronJobDown_def Let_def
  show ?thesis
  proof (cases up)
    case False
    let ?p = "emptyPatch\<lparr>SetAnnotations := [(OriginalSuspendAnnotation, SuspendedByLightsOut), (ManagedByAnnotation, sched)],
                   SetLabels := [(ManagedByLabel, sched)], Spec := [(fieldSuspend, JBool True)]\<rparr>"
    show ?thesis
    proof (cases "mget (obj_annotations cj) ManagedByAnnotation \<in> {[], sched} \<and>
        mget (obj_annotations cj) OriginalSuspendAnnotation = [] \<and> \<not> isSuspended cj")
      case skip: False
      then have "downCronJob sched cj = cj" unfolding downCronJob_def by (rule if_not_P)
      moreover have "\<exists>sr. r = Inr sr \<and> cj' = cj \<and> W' = W"
        using run skip False by (auto simp: defs split: if_splits)
      ultimately show ?thesis using idle False by auto
    next
      case call: True
      then have ok: "mget (obj_annotations cj) ManagedByAnnotation \<in> {[], sched}"
        "mget (obj_annotations cj) OriginalSuspendAnnotation = []" "\<not> isSuspended cj" by blast+
      obtain err where "applyMergePatch ?send cj ?p W = (err, cj', W')"
        "r = (case err of Some e \<Rightarrow> Inl e | None \<Rightarrow> Inr (scaled ''false'' ''true''))"
        using run ok False by (auto simp: defs split: prod.splits option.splits)
      from patched [OF this] ok False show ?thesis by (simp add: merge_cronjob_build downCronJob_def)
    qed
  next
    case True
    let ?u = "emptyPatch\<lparr>SetAnnotations := [(OriginalSuspendAnnotation, SuspendedByUser)]\<rparr>"
    let ?p = "emptyPatch\<lparr>RemoveAnnotations := [OriginalSuspendAnnotation, ManagedByAnnotation],
                   RemoveLabels := [ManagedByLabel], Spec := [(fieldSuspend, JBool False)]\<rparr>"
    consider (mark) "isSuspended cj" "mget (obj_annotations cj) OriginalSuspendAnnotation = []"
      | (held) "\<not> (isSuspended cj \<and> mget (obj_annotations cj) OriginalSuspendAnnotation = [])" "heldCronJob sched cj"
      | (other) "\<not> (isSuspended cj \<and> mget (obj_annotations cj) OriginalSuspendAnnotation = [])" "\<not> heldCronJob sched cj"
      by blast
    then show ?thesis
    proof cases
      case mark
      obtain err where "applyMergePatch ?send cj ?u W = (err, cj', W')"
        "r = (case err of Some e \<Rightarrow> Inl e | None \<Rightarrow> Inr (skipped ''marked as user-suspended''))"
        using run mark True by (auto simp: defs split: prod.splits option.splits)
      from patched [OF this] mark True show ?thesis by (simp add: merge_cronjob_build upCronJob_def)
    next
      case held
      then have ne: "mget (obj_annotations cj) OriginalSuspendAnnotation = SuspendedByLightsOut"
        "mget (obj_annotations cj) ManagedByAnnotation \<in> {[], sched}" "SuspendedByLightsOut \<noteq> []"
        "SuspendedByLightsOut \<noteq> SuspendedByUser"
        by (auto simp: heldCronJob_def SuspendedByLightsOut_def SuspendedByUser_def)
      obtain err where "applyMergePatch ?send cj ?p W = (err, cj', W')"
        "r = (case err of Some e \<Rightarrow> Inl e | None \<Rightarrow> Inr (scaled ''true'' ''false''))"
        using run ne True by (auto simp: defs split: prod.splits option.splits)
      from patched [OF this] held ne True show ?thesis
        by (auto simp: merge_cronjob_build upCronJob_def fun_upd_twist)
    next
      case other
      then have "upCronJob sched cj = cj" unfolding upCronJob_def by (auto simp only: if_False)
      moreover have "\<exists>sr. r = Inr sr \<and> cj' = cj \<and> W' = W"
        using run other True by (auto simp: defs heldCronJob_def split: if_splits)
      ultimately show ?thesis using idle True by auto
    qed
  qed
qed

lemma scaleOne_here:
  assumes "consistent (fleet W)" and "w \<in> set (fleet W)"
    and "scaleOne (fleetCluster su) sched up w hpas W = (r, w', hpas', W')"
  shows "becomes sched up w (fleet W) r w' (fleet W')"
proof (cases w)
  case (WDeployment d)
  with assms(3) obtain d' where "w' = WDeployment d'" and run: "scaleReplicas (patchStored asDeployment WDeployment merge_workload (su_refuse su))
      (cl_patchHPA (fleetCluster su)) d ''Deployment'' (spec_replicas d) sched up hpas W = (r, d', hpas', W')"
    by (auto simp: ScaleDeployment_def split: prod.splits)
  with WDeployment assms(2) replicas_here [OF kindViews(1) assms(1) _ _ run] show ?thesis by simp
next
  case (WStatefulSet d)
  with assms(3) obtain d' where "w' = WStatefulSet d'" and run: "scaleReplicas (patchStored asStatefulSet WStatefulSet merge_workload (su_refuse su))
      (cl_patchHPA (fleetCluster su)) d ''StatefulSet'' (spec_replicas d) sched up hpas W = (r, d', hpas', W')"
    by (auto simp: ScaleStatefulSet_def split: prod.splits)
  with WStatefulSet assms(2) replicas_here [OF kindViews(2) assms(1) _ _ run] show ?thesis by simp
next
  case (WCronJob cj)
  with assms(3) obtain cj' where "w' = WCronJob cj'"
    "ScaleCronJob (patchStored asCronJob WCronJob merge_cronjob (su_refuse su)) cj sched up W = (r, cj', W')"
    by (auto split: prod.splits)
  with WCronJob cronJob_here [OF assms(1), of cj] assms(2) show ?thesis by simp
qed

section \<open>A pass over the fleet\<close>

definition advance :: "(workload \<Rightarrow> workload) \<Rightarrow> workload set \<Rightarrow> workload list \<Rightarrow> workload list" where
  "advance f V F = map (\<lambda>x. if x \<in> V then f x else x) F"

lemma advance_empty [simp]: "advance f {} F = F"
  by (simp add: advance_def)

lemma keys_advance: "(\<And>x. keyOf (f x) = keyOf x) \<Longrightarrow> map keyOf (advance f V F) = map keyOf F"
  by (simp add: advance_def)

lemma advance_insert:
  assumes "consistent F" and "w \<in> set F" and "w \<notin> V" and "\<And>x. keyOf (f x) = keyOf x"
  shows "swap w (f w) (advance f V F) = advance f (insert w V) F"
proof -
  have "f x \<noteq> w" if "x \<in> set F" "x \<in> V" for x
    using consistent_inj [OF assms(1) that(1) assms(2)] that assms(3,4) by metis
  then show ?thesis by (auto simp: swap_def advance_def)
qed

lemma loop_here:
  assumes "scaleLoop (fleetCluster su) recorder cfg waves timeout nws i ws p = (r, err, q)"
    and "f = wanted (cfg_ScheduleName cfg) (cfg_ScaleUp cfg)" and "consistent F"
    and "fleet (p_state p) = advance f V F" and "set ws \<subseteq> set F - V" and "distinct ws"
  shows "\<exists>U. V \<subseteq> U \<and> U \<subseteq> V \<union> set ws \<and> fleet (p_state q) = advance f U F \<and> p_failed p \<le> totalFailed r \<and>
    (err = None \<and> \<not> stoppedEarly r \<and> totalFailed r = p_failed p \<longrightarrow> U = V \<union> set ws)"
  using assms(1,4-)
proof (induction ws arbitrary: i p V)
  case Nil
  then have "endComplete cfg p = (r, err, q)" by simp
  from endings(1) [OF this] Nil show ?case by (auto simp: ended_def)
next
  case (Cons w rest)
  show ?case
  proof (cases "cl_cancelled (fleetCluster su) i (p_state p)")
    case (Some e)
    with Cons.prems have "endCancelled e p = (r, err, q)" by simp
    from endings(4) [OF this] Cons.prems show ?thesis by (intro exI [of _ V]) (auto simp: ended_def)
  next
    case None
    obtain hold p1 where b1: "boundary recorder cfg waves timeout w p = (hold, p1)" by fastforce
    note bf = boundary_fields [OF b1]
    show ?thesis
    proof (cases hold)
      case True
      then have "endHeld cfg nws p1 = (r, err, q)" using None b1 Cons.prems(1) by simp
      from endings(2) [OF this] Cons.prems bf show ?thesis by (intro exI [of _ V]) (auto simp: ended_def)
    next
      case False
      obtain p2 ex where v: "visit (fleetCluster su) recorder cfg waves w p1 = (p2, ex)" by fastforce
      obtain outcome w' hpas' where one: "scaleOne (fleetCluster su) (cfg_ScheduleName cfg) (cfg_ScaleUp cfg) w
          (p_hpas p1 (workloadNamespace w)) (p_state p) = (outcome, w', hpas', p_state p2)"
        and failed: "p_failed p2 = p_failed p + (if isFailed (w, w', outcome) then 1 else 0)"
        using v bf by (metis visit_eq)
      have f: "keyOf (f x) = keyOf x" for x unfolding assms(2) by (rule keyOf_wanted)
      have "w \<in> set F" "w \<notin> V" using Cons.prems(3) by auto
      then have here: "w \<in> set (fleet (p_state p))" unfolding Cons.prems(2) by (force simp: advance_def)
      have "consistent (fleet (p_state p))"
        using assms(3) keys_advance [of f V F, OF f] unfolding Cons.prems(2) consistent_def by simp
      from scaleOne_here [OF this here one] have step: "becomes (cfg_ScheduleName cfg) (cfg_ScaleUp cfg) w
          (fleet (p_state p)) outcome w' (fleet (p_state p2))" .
      obtain V2 where V2: "V \<subseteq> V2" "V2 \<subseteq> insert w V" "fleet (p_state p2) = advance f V2 F"
        "p_failed p2 = p_failed p \<longrightarrow> V2 = insert w V" "p_failed p \<le> p_failed p2"
      proof (cases outcome)
        case (Inl e)
        with step failed Cons.prems(2) that [of V] show ?thesis by (auto simp: becomes_def)
      next
        case (Inr sr)
        with step failed advance_insert [OF assms(3) \<open>w \<in> set F\<close> \<open>w \<notin> V\<close>, of f, OF f] Cons.prems(2)
          that [of "insert w V"] show ?thesis by (auto simp: becomes_def assms(2))
      qed
      show ?thesis
      proof (cases "ex \<and> rest \<noteq> []")
        case True
        then have "endBatch cfg nws p2 = (r, err, q)" using False None b1 v Cons.prems(1) by simp
        from endings(3) [OF this] V2 show ?thesis by (intro exI [of _ V2]) (auto simp: ended_def)
      next
        case cont: False
        then have "scaleLoop (fleetCluster su) recorder cfg waves timeout nws (Suc i) rest p2 = (r, err, q)"
          using False None b1 v Cons.prems(1) by auto
        note rest = Cons.IH [OF this V2(3)]
        have "set rest \<subseteq> set F - V2" "distinct rest" using Cons.prems(3,4) V2(2) by auto
        from rest [OF this] obtain U where U: "V2 \<subseteq> U" "U \<subseteq> V2 \<union> set rest"
          "fleet (p_state q) = advance f U F" "p_failed p2 \<le> totalFailed r"
          "err = None \<and> \<not> stoppedEarly r \<and> totalFailed r = p_failed p2 \<longrightarrow> U = V2 \<union> set rest"
          by (elim exE conjE) (rule that)
        with V2(1-3,5) have "V \<subseteq> U \<and> U \<subseteq> V \<union> set (w # rest)" "p_failed p \<le> totalFailed r" by auto
        moreover have "U = V \<union> set (w # rest)" if "err = None" "\<not> stoppedEarly r" "totalFailed r = p_failed p"
          using that V2(4,5) U(4,5) by simp
        ultimately show ?thesis using U(3) by blast
      qed
    qed
  qed
qed

text \<open>The workloads a schedule works on, and what a pass may make of each of them.\<close>

fun labelsOf :: "workload \<Rightarrow> strmap" where
  "labelsOf (WDeployment d) = obj_labels d"
| "labelsOf (WStatefulSet d) = obj_labels d"
| "labelsOf (WCronJob c) = obj_labels c"

fun ownersOf :: "workload \<Rightarrow> OwnerReference list" where
  "ownersOf (WDeployment d) = obj_ownerReferences d"
| "ownersOf (WStatefulSet d) = obj_ownerReferences d"
| "ownersOf (WCronJob c) = obj_ownerReferences c"

definition inScope :: "'sel selectors \<Rightarrow> LightsOutScheduleCore \<Rightarrow> string list \<Rightarrow> workload \<Rightarrow> bool" where
  "inScope sels core nss w \<longleftrightarrow>
     workloadNamespace w \<in> set nss \<and> shouldProcessWorkloadType (WorkloadTypes core) (workloadType w) \<and>
     ShouldExcludeWorkload sels (labelsOf w) (ExcludeLabels core) = Inr False \<and>
     (IncludeOwnedWorkloads core \<or> \<not> hasControllerOwner (ownersOf w))"

lemma collectItems_untransferred:
  assumes "\<And>obj. labelsOf (wrap obj) = obj_labels obj \<and> ownersOf (wrap obj) = obj_ownerReferences obj"
  shows "collectItems sels core sched False send wrap objs s =
    (filter (\<lambda>w. ShouldExcludeWorkload sels (labelsOf w) (ExcludeLabels core) = Inr False \<and>
        (IncludeOwnedWorkloads core \<or> \<not> hasControllerOwner (ownersOf w))) (map wrap objs), s)"
  by (induction objs) (auto simp: assms split: sum.splits bool.splits)

definition ofKind :: "string \<Rightarrow> string \<Rightarrow> workload list \<Rightarrow> workload list" where
  "ofKind ns ty F = filter (\<lambda>w. (workloadNamespace w, workloadType w) = (ns, ty)) F"

definition eligible :: "'sel selectors \<Rightarrow> LightsOutScheduleCore \<Rightarrow> workload \<Rightarrow> bool" where
  "eligible sels core w \<longleftrightarrow>
     ShouldExcludeWorkload sels (labelsOf w) (ExcludeLabels core) = Inr False \<and>
     (IncludeOwnedWorkloads core \<or> \<not> hasControllerOwner (ownersOf w))"

lemma listed_of_kind:
  "map WDeployment (inNamespace ns (List.map_filter asDeployment F)) = ofKind ns WorkloadTypeDeployment F"
  "map WStatefulSet (inNamespace ns (List.map_filter asStatefulSet F)) = ofKind ns WorkloadTypeStatefulSet F"
  "map WCronJob (inNamespace ns (List.map_filter asCronJob F)) = ofKind ns WorkloadTypeCronJob F"
proof (induction F)
  case (Cons w F)
  {
    case 1
    show ?case using Cons by (cases w) (auto simp: List.map_filter_simps inNamespace_def ofKind_def
        WorkloadTypeDeployment_def WorkloadTypeStatefulSet_def WorkloadTypeCronJob_def)
  next
    case 2
    show ?case using Cons by (cases w) (auto simp: List.map_filter_simps inNamespace_def ofKind_def
        WorkloadTypeDeployment_def WorkloadTypeStatefulSet_def WorkloadTypeCronJob_def)
  next
    case 3
    show ?case using Cons by (cases w) (auto simp: List.map_filter_simps inNamespace_def ofKind_def
        WorkloadTypeDeployment_def WorkloadTypeStatefulSet_def WorkloadTypeCronJob_def)
  }
qed (simp_all add: List.map_filter_simps inNamespace_def ofKind_def)

lemma collectNamespace_fleet:
  "collectNamespaceDeployments (fleetCluster su) ns core sched False W =
     (Inr (filter (eligible (su_selectors su) core) (ofKind ns WorkloadTypeDeployment (fleet W))), W)"
  "collectNamespaceStatefulSets (fleetCluster su) ns core sched False W =
     (Inr (filter (eligible (su_selectors su) core) (ofKind ns WorkloadTypeStatefulSet (fleet W))), W)"
  "collectNamespaceCronJobs (fleetCluster su) ns core sched False W =
     (Inr (filter (eligible (su_selectors su) core) (ofKind ns WorkloadTypeCronJob (fleet W))), W)"
proof -
  have e: "eligible sels core = (\<lambda>w. ShouldExcludeWorkload sels (labelsOf w) (ExcludeLabels core) = Inr False \<and>
      (IncludeOwnedWorkloads core \<or> \<not> hasControllerOwner (ownersOf w)))" for sels :: "'c selectors"
    by (simp add: fun_eq_iff eligible_def)
  have w: "WorkloadFromDeployment = WDeployment" "WorkloadFromStatefulSet = WStatefulSet" "WorkloadFromCronJob = WCronJob"
    by (simp_all add: fun_eq_iff WorkloadFromDeployment_def WorkloadFromStatefulSet_def WorkloadFromCronJob_def)
  show "collectNamespaceDeployments (fleetCluster su) ns core sched False W =
     (Inr (filter (eligible (su_selectors su) core) (ofKind ns WorkloadTypeDeployment (fleet W))), W)"
    "collectNamespaceStatefulSets (fleetCluster su) ns core sched False W =
     (Inr (filter (eligible (su_selectors su) core) (ofKind ns WorkloadTypeStatefulSet (fleet W))), W)"
    "collectNamespaceCronJobs (fleetCluster su) ns core sched False W =
     (Inr (filter (eligible (su_selectors su) core) (ofKind ns WorkloadTypeCronJob (fleet W))), W)"
    unfolding collectNamespaceDeployments_def collectNamespaceStatefulSets_def collectNamespaceCronJobs_def e w
    by (simp_all add: collectItems_untransferred listed_of_kind)
qed

definition workloadTypes :: "string list" where
  "workloadTypes = [WorkloadTypeDeployment, WorkloadTypeStatefulSet, WorkloadTypeCronJob]"

text \<open>The order of collection: by namespace, then by kind, then as the server lists them.\<close>

definition inOrder :: "(workload \<Rightarrow> bool) \<Rightarrow> string list \<Rightarrow> workload list \<Rightarrow> workload list" where
  "inOrder P nss F = concat (map (\<lambda>(ns, ty). filter P (ofKind ns ty F)) (List.product nss workloadTypes))"

lemma set_inOrder: "set (inOrder P nss F) = {w \<in> set F. P w \<and> workloadNamespace w \<in> set nss}"
proof -
  have "workloadType w \<in> set workloadTypes" for w by (cases w) (simp_all add: workloadTypes_def)
  then show ?thesis by (auto simp: inOrder_def ofKind_def)
qed

lemma distinct_inOrder:
  assumes "distinct F" and "distinct nss"
  shows "distinct (inOrder P nss F)"
proof -
  have "distinct ks \<Longrightarrow> distinct (concat (map (\<lambda>(ns, ty). filter P (ofKind ns ty F)) ks))" for ks
    using assms(1) by (induction ks) (auto simp: ofKind_def)
  moreover have "distinct (List.product nss workloadTypes)"
    using assms(2) by (simp add: distinct_product workloadTypes_def WorkloadTypeDeployment_def
        WorkloadTypeStatefulSet_def WorkloadTypeCronJob_def)
  ultimately show ?thesis unfolding inOrder_def by blast
qed

lemma collectWorkloads_fleet:
  "collectWorkloads (fleetCluster su) nss core sched False W =
    (Inr (inOrder (\<lambda>w. shouldProcessWorkloadType (WorkloadTypes core) (workloadType w) \<and> eligible (su_selectors su) core w)
       nss (fleet W)), W)"
proof (induction nss)
  case (Cons ns nss)
  have k: "filter (\<lambda>w. shouldProcessWorkloadType types (workloadType w) \<and> eligible sels core w) (ofKind ns ty F) =
      (if shouldProcessWorkloadType types ty then filter (eligible sels core) (ofKind ns ty F) else [])"
    for types ty F and sels :: "'c selectors"
    by (auto simp: ofKind_def filter_empty_conv intro: filter_cong)
  show ?case
    by (simp add: andThen_def collectNamespace_fleet Cons inOrder_def workloadTypes_def k)
qed (simp add: inOrder_def)

text \<open>A whole pass: what it makes of the fleet, and of all of it when it is complete.\<close>

definition worksOn :: "('h, 'sel) surroundings \<Rightarrow> LightsOutScheduleCore \<Rightarrow> scaleWorkloadsConfig \<Rightarrow> workload \<Rightarrow> bool" where
  "worksOn su core cfg w \<longleftrightarrow> inScope (su_selectors su) core (cfg_Namespaces cfg) w"

definition passDone :: "scaleWorkloadsResult option \<Rightarrow> string option \<Rightarrow> bool" where
  "passDone r err \<longleftrightarrow> err = None \<and> (\<exists>res. r = Some res \<and> \<not> stoppedEarly res \<and> totalFailed res = 0)"

lemma set_ordered: "set (orderedWorkloads cfg waves ws) = set ws" "distinct (orderedWorkloads cfg waves ws) = distinct ws"
proof -
  have "mset (orderedWorkloads cfg waves ws) = mset ws"
    by (simp add: orderedWorkloads_def sortWorkloadsByWave_def)
  then show "set (orderedWorkloads cfg waves ws) = set ws" "distinct (orderedWorkloads cfg waves ws) = distinct ws"
    by (metis mset_eq_setD, metis mset_eq_imp_distinct_iff)
qed

lemma pass_list:
  assumes "scaleWorkloads (fleetCluster su) core cfg recorder W = (r, err, obs, W')"
    and "\<not> cfg_TransferOwnership cfg" and "distinct (cfg_Namespaces cfg)" and "consistent (fleet W)"
  obtains waves timeout ws res q where "syncWaveSettings core = (waves, timeout)" "r = Some res" "W' = p_state q"
    "scaleLoop (fleetCluster su) recorder cfg waves timeout (int (length ws)) 0 ws
      (startPass (fleetCluster su) cfg waves ws W) = (res, err, q)"
    "set ws = {w \<in> set (fleet W). worksOn su core cfg w}" "distinct ws"
proof -
  let ?P = "\<lambda>w. shouldProcessWorkloadType (WorkloadTypes core) (workloadType w) \<and> eligible (su_selectors su) core w"
  let ?c = "inOrder ?P (cfg_Namespaces cfg) (fleet W)"
  obtain res q where run: "runPass (fleetCluster su) recorder core cfg ?c W = (res, err, q)" and r: "r = Some res"
    and W': "W' = p_state q"
    using assms(1,2) by (auto simp: scaleWorkloads_def collectWorkloads_fleet split: prod.splits)
  obtain waves timeout where sw: "syncWaveSettings core = (waves, timeout)" by fastforce
  define ws where "ws = orderedWorkloads cfg waves ?c"
  have loop: "scaleLoop (fleetCluster su) recorder cfg waves timeout (int (length ws)) 0 ws
      (startPass (fleetCluster su) cfg waves ws W) = (res, err, q)"
    using run sw by (simp add: runPass_def ws_def Let_def)
  have F: "distinct (fleet W)" using assms(4) by (simp add: consistent_def distinct_map)
  have set: "set ws = {w \<in> set (fleet W). worksOn su core cfg w}"
    by (auto simp: ws_def set_ordered set_inOrder worksOn_def inScope_def eligible_def)
  have "distinct ws" unfolding ws_def set_ordered by (rule distinct_inOrder [OF F assms(3)])
  from that [OF sw r W' loop set this] show ?thesis .
qed

lemma pass_here:
  assumes "scaleWorkloads (fleetCluster su) core cfg recorder W = (r, err, obs, W')"
    and "\<not> cfg_TransferOwnership cfg" and "distinct (cfg_Namespaces cfg)" and "consistent (fleet W)"
  shows "\<exists>U. U \<subseteq> {w \<in> set (fleet W). worksOn su core cfg w} \<and>
    fleet W' = advance (wanted (cfg_ScheduleName cfg) (cfg_ScaleUp cfg)) U (fleet W) \<and>
    (passDone r err \<longrightarrow> U = {w \<in> set (fleet W). worksOn su core cfg w})"
proof -
  obtain waves timeout ws res q where p: "r = Some res" "W' = p_state q"
    and loop: "scaleLoop (fleetCluster su) recorder cfg waves timeout (int (length ws)) 0 ws
      (startPass (fleetCluster su) cfg waves ws W) = (res, err, q)"
    and ws: "set ws = {w \<in> set (fleet W). worksOn su core cfg w}" "distinct ws"
    by (rule pass_list [OF assms])
  have "\<exists>U. {} \<subseteq> U \<and> U \<subseteq> {} \<union> set ws \<and>
      fleet (p_state q) = advance (wanted (cfg_ScheduleName cfg) (cfg_ScaleUp cfg)) U (fleet W) \<and>
      p_failed (startPass (fleetCluster su) cfg waves ws W) \<le> totalFailed res \<and>
      (err = None \<and> \<not> stoppedEarly res \<and> totalFailed res = p_failed (startPass (fleetCluster su) cfg waves ws W) \<longrightarrow> U = {} \<union> set ws)"
    by (intro loop_here [OF loop refl assms(4)]) (use ws in \<open>auto simp: startPass_def\<close>)
  then show ?thesis unfolding p passDone_def ws(1) [symmetric] by (auto simp: startPass_def)
qed

text \<open>A server that refuses nothing and has no autoscalers.\<close>

definition sampleSurroundings :: "(unit, string) surroundings" where
  "sampleSurroundings = \<lparr>su_selectors = sampleSelectors, su_listHPAs = (\<lambda>ns h. Inl NoMatch), su_patchHPA = mergingServer,
     su_refuse = (\<lambda>w p W. None), su_cancelled = (\<lambda>i W. None)\<rparr>"

end
