(* ===== verification/Night.thy ===== *)
theory Night
  imports Fleet
begin

text \<open>
  A night as a whole. Between the passes of a schedule the cluster moves on: controllers
  start and stop pods and write the status of workloads. The step relation \<open>nightStep\<close> has
  both; the theorems are about every sequence of such steps, with the passes stopped early by
  their batch size, by sync waves, by a cancelled reconcile or by patches that are refused.
\<close>

section \<open>Steps that need not be repeated\<close>

definition stepWhere :: "('a \<Rightarrow> bool) \<Rightarrow> ('a \<Rightarrow> 'a) \<Rightarrow> 'a \<Rightarrow> 'a" where
  "stepWhere P f x = (if P x then f x else x)"

text \<open>Some elements have made the step, the others are as they were.\<close>

definition partly :: "('a \<Rightarrow> 'a) \<Rightarrow> 'a list \<Rightarrow> 'a list \<Rightarrow> bool" where
  "partly f xs ys \<longleftrightarrow> list_all2 (\<lambda>x y. y = x \<or> y = f x) xs ys"

lemma partly_refl [simp]: "partly f xs xs"
  by (simp add: partly_def list.rel_refl)

locale idempotent_step =
  fixes step :: "'a \<Rightarrow> 'a"
  assumes idem: "step (step x) = step x"
begin

lemma where_idem: "P (step x) = P x \<Longrightarrow> stepWhere P step (stepWhere P step x) = stepWhere P step x"
  by (simp add: stepWhere_def idem)

lemma partly_trans:
  assumes "\<And>x. P (step x) = P x" and "partly (stepWhere P step) xs ys" and "partly (stepWhere P step) ys zs"
  shows "partly (stepWhere P step) xs zs"
  using assms(2,3) unfolding partly_def
proof (rule list_all2_trans [rotated])
qed (use where_idem [of P, OF assms(1)] in auto)

lemma map_after_partly:
  assumes "\<And>x. P (step x) = P x" and "partly (stepWhere P step) xs ys"
  shows "map (stepWhere P step) ys = map (stepWhere P step) xs"
  using assms(2) unfolding partly_def
  by (induction rule: list_all2_induct) (auto simp: where_idem [of P, OF assms(1)])

lemma partly_after_map:
  assumes "\<And>x. P (step x) = P x" and "partly (stepWhere P step) (map (stepWhere P step) xs) ys"
  shows "ys = map (stepWhere P step) xs"
  using assms(2) unfolding partly_def
  by (induction "map (stepWhere P step) xs" ys arbitrary: xs rule: list_all2_induct)
     (auto simp: where_idem [of P, OF assms(1)])

end

interpretation scaling: idempotent_step "wanted sched up" for sched up
  by unfold_locales (rule wanted_idem)

section \<open>The night as a step relation\<close>

text \<open>A workload without what its controller writes into it.\<close>

fun bare :: "workload \<Rightarrow> workload" where
  "bare (WDeployment d) = WDeployment (d\<lparr>obj_generation := 0, st_observedGeneration := 0, st_replicas := 0, st_readyReplicas := 0\<rparr>)"
| "bare (WStatefulSet d) = WStatefulSet (d\<lparr>obj_generation := 0, st_observedGeneration := 0, st_replicas := 0, st_readyReplicas := 0\<rparr>)"
| "bare (WCronJob c) = WCronJob (c\<lparr>obj_generation := 0\<rparr>)"

definition passOf :: "string \<Rightarrow> string list \<Rightarrow> bool \<Rightarrow> scaleWorkloadsConfig \<Rightarrow> bool" where
  "passOf sched nss up cfg \<longleftrightarrow>
     cfg_ScheduleName cfg = sched \<and> cfg_Namespaces cfg = nss \<and> cfg_ScaleUp cfg = up \<and> \<not> cfg_TransferOwnership cfg"

inductive nightStep ::
  "('h, 'sel) surroundings \<Rightarrow> LightsOutScheduleCore \<Rightarrow> string \<Rightarrow> string list \<Rightarrow> bool \<Rightarrow> 'h world \<Rightarrow> 'h world \<Rightarrow> bool"
  for su core sched nss up where
  pass: "scaleWorkloads (fleetCluster su) core cfg recorder W = (r, err, obs, W') \<Longrightarrow> passOf sched nss up cfg \<Longrightarrow>
     nightStep su core sched nss up W W'"
| settle: "map bare (fleet W') = map bare (fleet W) \<Longrightarrow> nightStep su core sched nss up W W'"

text \<open>A pass that has visited everything without an error.\<close>

definition completePass ::
  "('h, 'sel) surroundings \<Rightarrow> LightsOutScheduleCore \<Rightarrow> string \<Rightarrow> string list \<Rightarrow> bool \<Rightarrow> 'h world \<Rightarrow> 'h world \<Rightarrow> bool" where
  "completePass su core sched nss up W W' \<longleftrightarrow>
     (\<exists>cfg recorder r err obs. passOf sched nss up cfg \<and> passDone r err \<and>
        scaleWorkloads (fleetCluster su) core cfg recorder W = (r, err, obs, W'))"

text \<open>Exclusion labels that do not ask for the label that LightsOut sets.\<close>

definition blindToMark :: "'sel selectors \<Rightarrow> LightsOutScheduleCore \<Rightarrow> bool" where
  "blindToMark sels core \<longleftrightarrow>
     (\<forall>labels v. ShouldExcludeWorkload sels (labels(ManagedByLabel := v)) (ExcludeLabels core) =
        ShouldExcludeWorkload sels labels (ExcludeLabels core))"

lemma bare_wanted: "bare (wanted sched up w) = wanted sched up (bare w)"
  by (cases w) (auto simp: downReplicas_def upReplicas_def heldReplicas_def recordedReplicas_def
      downCronJob_def upCronJob_def heldCronJob_def isSuspended_def)

lemma keyOf_bare: "keyOf (bare w) = keyOf w"
  by (cases w) auto

lemma consistent_bare: "map bare F = map bare F' \<Longrightarrow> consistent F \<Longrightarrow> consistent F'"
proof -
  assume e: "map bare F = map bare F'" and "consistent F"
  have "map keyOf F = map keyOf F'"
    using arg_cong [OF e, of "map keyOf"] by (simp add: o_def keyOf_bare del: keyOf.simps)
  with \<open>consistent F\<close> show ?thesis by (simp add: consistent_def)
qed

lemma inScope_bare: "inScope sels core nss (bare w) = inScope sels core nss w"
  by (cases w) (auto simp: inScope_def)

lemma inScope_wanted:
  assumes "blindToMark sels core"
  shows "inScope sels core nss (wanted sched up w) = inScope sels core nss w"
proof -
  have l: "labelsOf (wanted sched up w) = labelsOf w \<or> (\<exists>v. labelsOf (wanted sched up w) = (labelsOf w)(ManagedByLabel := v))"
    by (cases w) (auto simp: downReplicas_def upReplicas_def downCronJob_def upCronJob_def)
  have "ownersOf (wanted sched up w) = ownersOf w" "workloadNamespace (wanted sched up w) = workloadNamespace w"
    "workloadType (wanted sched up w) = workloadType w"
    by (cases w; auto simp: downReplicas_def upReplicas_def downCronJob_def upCronJob_def)+
  moreover have "ShouldExcludeWorkload sels (labelsOf (wanted sched up w)) (ExcludeLabels core) =
      ShouldExcludeWorkload sels (labelsOf w) (ExcludeLabels core)"
    using l assms unfolding blindToMark_def by metis
  ultimately show ?thesis by (simp add: inScope_def)
qed

text \<open>What a schedule makes of a workload it works on, and of every other.\<close>

definition nightly :: "'sel selectors \<Rightarrow> LightsOutScheduleCore \<Rightarrow> string \<Rightarrow> string list \<Rightarrow> bool \<Rightarrow> workload \<Rightarrow> workload" where
  "nightly sels core sched nss up = stepWhere (inScope sels core nss) (wanted sched up)"

lemma advance_partly:
  assumes "U \<subseteq> {w \<in> set F. inScope sels core nss w}"
  shows "partly (nightly sels core sched nss up) (map bare F) (map bare (advance (wanted sched up) U F))"
  using assms
  by (auto simp: partly_def advance_def list_all2_conv_all_nth nightly_def stepWhere_def inScope_bare bare_wanted)

lemma advance_all:
  assumes "U = {w \<in> set F. inScope sels core nss w}"
  shows "map bare (advance (wanted sched up) U F) = map (nightly sels core sched nss up) (map bare F)"
  using assms by (auto simp: advance_def nightly_def stepWhere_def inScope_bare bare_wanted)

lemma nightStep_partly:
  assumes "nightStep su core sched nss up W W'" and "distinct nss" and "consistent (fleet W)"
  shows "partly (nightly (su_selectors su) core sched nss up) (map bare (fleet W)) (map bare (fleet W')) \<and> consistent (fleet W')"
  using assms(1)
proof cases
  case (pass cfg recorder r err obs)
  then have cfg: "cfg_ScheduleName cfg = sched" "cfg_Namespaces cfg = nss" "cfg_ScaleUp cfg = up" "\<not> cfg_TransferOwnership cfg"
    by (auto simp: passOf_def)
  with assms(2) have "distinct (cfg_Namespaces cfg)" by simp
  from pass_here [OF pass(1) cfg(4) this assms(3)] obtain U where
    U: "U \<subseteq> {w \<in> set (fleet W). worksOn su core cfg w}" "fleet W' = advance (wanted sched up) U (fleet W)"
    unfolding cfg by blast
  have "U \<subseteq> {w \<in> set (fleet W). inScope (su_selectors su) core nss w}"
    using U(1) by (simp add: worksOn_def cfg)
  moreover have "consistent (fleet W')"
    using assms(3) keys_advance [of "wanted sched up" U "fleet W", OF keyOf_wanted] unfolding U(2) consistent_def by simp
  ultimately show ?thesis unfolding U(2) using advance_partly by blast
next
  case settle
  then show ?thesis using consistent_bare [of "fleet W" "fleet W'"] assms(3) by simp
qed

lemma nightSteps_partly:
  assumes "(nightStep su core sched nss up)\<^sup>*\<^sup>* W W'" and "distinct nss" and "consistent (fleet W)"
    and "blindToMark (su_selectors su) core"
  shows "partly (nightly (su_selectors su) core sched nss up) (map bare (fleet W)) (map bare (fleet W')) \<and> consistent (fleet W')"
  using assms(1)
proof (induction rule: rtranclp_induct)
  case base
  with assms(3) show ?case by simp
next
  case (step W1 W2)
  note s = nightStep_partly [OF step(2) assms(2) conjunct2 [OF step(3)]]
  show ?case
    using scaling.partly_trans [where P = "inScope (su_selectors su) core nss", OF inScope_wanted [OF assms(4)]] step(3) s unfolding nightly_def by blast
qed

lemma completePass_all:
  assumes "completePass su core sched nss up W W'" and "distinct nss" and "consistent (fleet W)"
  shows "map bare (fleet W') = map (nightly (su_selectors su) core sched nss up) (map bare (fleet W)) \<and> consistent (fleet W')"
proof -
  from assms(1) obtain cfg recorder r err obs where p: "passOf sched nss up cfg" "passDone r err"
    and run: "scaleWorkloads (fleetCluster su) core cfg recorder W = (r, err, obs, W')" by (auto simp: completePass_def)
  from p(1) have cfg: "cfg_ScheduleName cfg = sched" "cfg_Namespaces cfg = nss" "cfg_ScaleUp cfg = up" "\<not> cfg_TransferOwnership cfg"
    by (auto simp: passOf_def)
  with assms(2) have "distinct (cfg_Namespaces cfg)" by simp
  from pass_here [OF run cfg(4) this assms(3)] p(2) have
    W': "fleet W' = advance (wanted sched up) {w \<in> set (fleet W). worksOn su core cfg w} (fleet W)"
    unfolding cfg by blast
  have "consistent (fleet W')" using nightStep_partly [OF nightStep.pass [OF run p(1)] assms(2,3)] by blast
  then show ?thesis unfolding W' by (intro conjI advance_all) (simp_all add: worksOn_def cfg)
qed

section \<open>One workload through the night\<close>

definition markedBy :: "string \<Rightarrow> string \<Rightarrow> workload \<Rightarrow> bool" where
  "markedBy key value w \<longleftrightarrow> mget (workloadAnnotations w) key = value"

fun unmarked :: "workload \<Rightarrow> bool" where
  "unmarked (WDeployment d) \<longleftrightarrow> obj_labels d ManagedByLabel = None \<and> obj_annotations d ManagedByAnnotation = None \<and>
     obj_annotations d OriginalReplicasAnnotation = None"
| "unmarked (WStatefulSet d) \<longleftrightarrow> obj_labels d ManagedByLabel = None \<and> obj_annotations d ManagedByAnnotation = None \<and>
     obj_annotations d OriginalReplicasAnnotation = None"
| "unmarked (WCronJob c) \<longleftrightarrow> obj_labels c ManagedByLabel = None \<and> obj_annotations c ManagedByAnnotation = None \<and>
     obj_annotations c OriginalSuspendAnnotation = None"

text \<open>Held by another schedule; a CronJob is only known as held by what it was before.\<close>

definition heldByOther :: "string \<Rightarrow> workload \<Rightarrow> bool" where
  "heldByOther sched w \<longleftrightarrow>
     mget (workloadAnnotations w) ManagedByAnnotation \<notin> {[], sched} \<and>
     (workloadType w = WorkloadTypeCronJob \<longrightarrow> mget (workloadAnnotations w) OriginalSuspendAnnotation \<noteq> [])"

fun asleep :: "workload \<Rightarrow> bool" where
  "asleep (WDeployment d) \<longleftrightarrow> spec_replicas d = Some 0"
| "asleep (WStatefulSet d) \<longleftrightarrow> spec_replicas d = Some 0"
| "asleep (WCronJob c) \<longleftrightarrow> isSuspended c"

definition replicasBack :: "replica_workload \<Rightarrow> replica_workload \<Rightarrow> bool" where
  "replicasBack d d' \<longleftrightarrow> obj_labels d' = obj_labels d \<and> obj_annotations d' = obj_annotations d \<and>
     derefReplicas (spec_replicas d') = derefReplicas (spec_replicas d)"

text \<open>A CronJob its user had suspended stays suspended and gets the mark that says so.\<close>

fun backAgain :: "workload \<Rightarrow> workload \<Rightarrow> bool" where
  "backAgain (WDeployment d) (WDeployment d') \<longleftrightarrow> replicasBack d d'"
| "backAgain (WStatefulSet d) (WStatefulSet d') \<longleftrightarrow> replicasBack d d'"
| "backAgain (WCronJob c) (WCronJob c') \<longleftrightarrow>
     obj_labels c' = obj_labels c \<and> isSuspended c' = isSuspended c \<and>
     obj_annotations c' = (if isSuspended c then (obj_annotations c)(OriginalSuspendAnnotation \<mapsto> SuspendedByUser)
                           else obj_annotations c)"
| "backAgain _ _ \<longleftrightarrow> False"

lemma bare_invariant:
  "unmarked (bare w) = unmarked w" "heldByOther sched (bare w) = heldByOther sched w" "asleep (bare w) = asleep w"
  "backAgain (bare w) (bare w') = backAgain w w'"
proof -
  show "unmarked (bare w) = unmarked w" "heldByOther sched (bare w) = heldByOther sched w" "asleep (bare w) = asleep w"
    by (cases w; auto simp: heldByOther_def isSuspended_def)+
  show "backAgain (bare w) (bare w') = backAgain w w'"
    by (cases w; cases w') (auto simp: replicasBack_def isSuspended_def)
qed

lemma unmarked_asleep:
  assumes "unmarked w"
  shows "asleep (wanted sched False w)"
proof -
  have "spec_replicas (downReplicas sched d) = Some 0"
    if "obj_annotations d ManagedByAnnotation = None" "obj_annotations d OriginalReplicasAnnotation = None" for d
    using that by (auto simp: downReplicas_def mget_def derefReplicas_def split: option.splits)
  moreover have "isSuspended (downCronJob sched c)"
    if "obj_annotations c ManagedByAnnotation = None" "obj_annotations c OriginalSuspendAnnotation = None" for c
    using that by (auto simp: downCronJob_def mget_def isSuspended_def)
  ultimately show ?thesis using assms by (cases w) auto
qed

lemma unmarked_back:
  assumes "unmarked w"
  shows "backAgain w (wanted sched True (wanted sched False w))"
proof -
  have "replicasBack d (upReplicas sched (downReplicas sched d))"
    if "obj_labels d ManagedByLabel = None" "obj_annotations d ManagedByAnnotation = None"
      "obj_annotations d OriginalReplicasAnnotation = None" for d
  proof (cases "derefReplicas (spec_replicas d) = 0")
    case True
    with that show ?thesis by (simp add: downReplicas_def upReplicas_def heldReplicas_def mget_def replicasBack_def)
  next
    case False
    then have "downReplicas sched d = d\<lparr>obj_labels := (obj_labels d)(ManagedByLabel \<mapsto> sched),
             obj_annotations := (obj_annotations d)
               (OriginalReplicasAnnotation \<mapsto> itoa (sint (derefReplicas (spec_replicas d))), ManagedByAnnotation \<mapsto> sched),
             spec_replicas := Some 0\<rparr>" (is "_ = ?d")
      using that by (simp add: downReplicas_def mget_def)
    moreover have "heldReplicas sched ?d" "recordedReplicas ?d = derefReplicas (spec_replicas d)"
      by (simp_all add: heldReplicas_def recordedReplicas_def parseInt32_sint)
    ultimately show ?thesis using that
      by (auto simp: upReplicas_def replicasBack_def derefReplicas_def fun_eq_iff)
  qed
  moreover have "backAgain (WCronJob c) (WCronJob (upCronJob sched (downCronJob sched c)))"
    if "obj_labels c ManagedByLabel = None" "obj_annotations c ManagedByAnnotation = None"
      "obj_annotations c OriginalSuspendAnnotation = None" for c
    using that by (auto simp: downCronJob_def upCronJob_def heldCronJob_def mget_def isSuspended_def
        SuspendedByLightsOut_def fun_eq_iff)
  ultimately show ?thesis using assms by (cases w) auto
qed

lemma other_idle:
  assumes "heldByOther sched w"
  shows "wanted sched up w = w"
  using assms by (cases w) (auto simp: heldByOther_def downReplicas_def upReplicas_def heldReplicas_def
      downCronJob_def upCronJob_def heldCronJob_def)

lemma list_all2_bare:
  assumes "map bare G = map f (map bare F)"
  shows "list_all2 (\<lambda>w w'. bare w' = f (bare w)) F G"
  using assms by (auto simp: list_all2_conv_all_nth list_eq_iff_nth_eq)

lemma pass_facts:
  assumes "scaleWorkloads (fleetCluster su) core cfg recorder W = (r, err, obs, W')"
    and "passOf sched nss up cfg" and "distinct nss" and "consistent (fleet W)"
  shows "list_all2 (\<lambda>w w'. w' = w \<or> inScope (su_selectors su) core nss w \<and> w' = wanted sched up w) (fleet W) (fleet W') \<and>
    (passDone r err \<longrightarrow>
       fleet W' = map (\<lambda>w. if inScope (su_selectors su) core nss w then wanted sched up w else w) (fleet W))"
proof -
  have cfg: "cfg_ScheduleName cfg = sched" "cfg_Namespaces cfg = nss" "cfg_ScaleUp cfg = up" "\<not> cfg_TransferOwnership cfg"
    using assms(2) by (auto simp: passOf_def)
  with assms(3) have "distinct (cfg_Namespaces cfg)" by simp
  from pass_here [OF assms(1) cfg(4) this assms(4)] obtain U where
    U: "U \<subseteq> {w \<in> set (fleet W). inScope (su_selectors su) core nss w}" "fleet W' = advance (wanted sched up) U (fleet W)"
      "passDone r err \<longrightarrow> U = {w \<in> set (fleet W). inScope (su_selectors su) core nss w}"
    unfolding cfg worksOn_def by blast
  have "list_all2 (\<lambda>w w'. w' = w \<or> inScope (su_selectors su) core nss w \<and> w' = wanted sched up w) (fleet W) (fleet W')"
    using U(1) unfolding U(2) advance_def by (auto simp: list_all2_conv_all_nth)
  moreover have "fleet W' = map (\<lambda>w. if inScope (su_selectors su) core nss w then wanted sched up w else w) (fleet W)"
    if "passDone r err"
    using U(2,3) that by (auto simp: advance_def)
  ultimately show ?thesis by blast
qed

section \<open>Properties\<close>

text \<open>
  C3: A scaling pass over the workloads of a cluster, under any budget, waves, refused patches
  and cancellation, makes of some of the workloads in its scope what the schedule wants and
  leaves all others alone; a pass that completes makes it of all of them.
\<close>

theorem pass_refines_wanted:
  assumes "scaleWorkloads (fleetCluster su) core cfg recorder W = (r, err, obs, W')"
    and "passOf sched nss up cfg" and "distinct nss" and "consistent (fleet W)"
  shows "list_all2 (\<lambda>w w'. w' = w \<or> inScope (su_selectors su) core nss w \<and> w' = wanted sched up w) (fleet W) (fleet W') \<and>
    (passDone r err \<longrightarrow>
       fleet W' = map (\<lambda>w. if inScope (su_selectors su) core nss w then wanted sched up w else w) (fleet W))"
  by (rule pass_facts [OF assms])

text \<open>
  Over a whole night, however many passes it takes and however the cluster settles between
  them: once a downscale pass has completed, every workload in scope that carried no marks is
  at zero replicas or suspended for the rest of the night, and once an upscale pass has completed
  it has its replica count, labels and annotations back. Workloads out of scope, and those another
  schedule holds, have not changed.
\<close>

theorem whole_night:
  assumes "consistent (fleet W0)" and "distinct nss" and "blindToMark (su_selectors su) core"
    and "(nightStep su core sched nss False)\<^sup>*\<^sup>* W0 W1" and "completePass su core sched nss False W1 W2"
    and "(nightStep su core sched nss False)\<^sup>*\<^sup>* W2 W3"
    and "(nightStep su core sched nss True)\<^sup>*\<^sup>* W3 W4" and "completePass su core sched nss True W4 W5"
  shows "list_all2 (\<lambda>w w'. if \<not> inScope (su_selectors su) core nss w \<or> heldByOther sched w then bare w' = bare w
      else unmarked w \<longrightarrow> asleep w') (fleet W0) (fleet W3) \<and>
    list_all2 (\<lambda>w w'. if \<not> inScope (su_selectors su) core nss w \<or> heldByOther sched w then bare w' = bare w
      else unmarked w \<longrightarrow> backAgain w w') (fleet W0) (fleet W5)"
proof -
  let ?S = "inScope (su_selectors su) core nss"
  let ?f = "nightly (su_selectors su) core sched nss False" and ?g = "nightly (su_selectors su) core sched nss True"
  let ?B = "\<lambda>W. map bare (fleet W)"
  note steps = nightSteps_partly [OF _ assms(2) _ assms(3)] and full = completePass_all [OF _ assms(2)]
  note after = scaling.map_after_partly [where P = ?S, OF inScope_wanted [OF assms(3)], folded nightly_def]
    and still = scaling.partly_after_map [where P = ?S, OF inScope_wanted [OF assms(3)], folded nightly_def]
  have 1: "partly ?f (?B W0) (?B W1)" "consistent (fleet W1)" using steps [OF assms(4,1)] by blast+
  have 2: "?B W2 = map ?f (?B W0)" "consistent (fleet W2)" using full [OF assms(5) 1(2)] after [OF 1(1)] by simp_all
  have 3: "?B W3 = map ?f (?B W0)" "consistent (fleet W3)" using steps [OF assms(6) 2(2)] still unfolding 2(1) by blast+
  have 4: "partly ?g (?B W3) (?B W4)" "consistent (fleet W4)" using steps [OF assms(7) 3(2)] by blast+
  have 5: "?B W5 = map (?g \<circ> ?f) (?B W0)" using full [OF assms(8) 4(2)] after [OF 4(1)] 3(1) by simp
  have f: "?f (bare w) = (if ?S w then bare (wanted sched False w) else bare w)"
    and g: "?g (bare w) = (if ?S w then bare (wanted sched True w) else bare w)" for w
    by (simp_all add: nightly_def stepWhere_def inScope_bare bare_wanted)
  have night: "if \<not> ?S w \<or> heldByOther sched w then bare w' = bare w else unmarked w \<longrightarrow> asleep w'"
    if "bare w' = ?f (bare w)" for w w'
    using that other_idle [of sched w False] unmarked_asleep [of w sched] bare_invariant(3) unfolding f by metis
  have morning: "if \<not> ?S w \<or> heldByOther sched w then bare w' = bare w else unmarked w \<longrightarrow> backAgain w w'"
    if "bare w' = (?g \<circ> ?f) (bare w)" for w w'
  proof -
    have gf: "(?g \<circ> ?f) (bare w) = (if ?S w then bare (wanted sched True (wanted sched False w)) else bare w)"
      using f [of w] g [of w] g [of "wanted sched False w"] inScope_wanted [OF assms(3), of nss sched False w] by simp
    show ?thesis
      using that other_idle [of sched w] unmarked_back [of w sched] bare_invariant(4) [of w] unfolding gf by metis
  qed
  show ?thesis
    by (intro conjI list_all2_mono [OF list_all2_bare [OF 3(1)]] list_all2_mono [OF list_all2_bare [OF 5]] night morning)
qed

text \<open>A cluster with two Deployments and a CronJob, and what the schedule makes of it.\<close>

definition shopWorld :: "unit world" where
  "shopWorld = \<lparr>fleet = [WDeployment (sampleWorkload (Some 3)),
     WDeployment ((sampleWorkload (Some 2))\<lparr>obj_name := ''api''\<rparr>), WCronJob (sampleCronJob None Map.empty)],
     autoscalers = ()\<rparr>"

definition after :: "bool \<Rightarrow> unit world \<Rightarrow> unit world" where
  "after up W = W\<lparr>fleet := map (wanted ''night'' up) (fleet W)\<rparr>"

definition passCfg :: "bool \<Rightarrow> scaleWorkloadsConfig" where
  "passCfg up = (sampleConfig None)\<lparr>cfg_ScaleUp := up, cfg_RateLimit := None\<rparr>"

definition shopPass :: "bool \<Rightarrow> unit world \<Rightarrow> scaleWorkloadsResult option \<times> string option \<times> observation list \<times> unit world" where
  "shopPass up W = scaleWorkloads (fleetCluster sampleSurroundings) emptyCore (passCfg up) False W"

lemma passCfg_passOf: "passOf ''night'' [''shop''] up (passCfg up)"
  by (simp add: passOf_def passCfg_def sampleConfig_def)

definition smooth :: "bool \<Rightarrow> unit world \<Rightarrow> bool" where
  "smooth up W \<longleftrightarrow> consistent (fleet W) \<and>
     (\<forall>w \<in> set (fleet W). inScope (su_selectors sampleSurroundings) emptyCore [''shop''] w) \<and>
     (case shopPass up W of (Some r, None, _) \<Rightarrow> \<not> stoppedEarly r \<and> totalFailed r = 0 | _ \<Rightarrow> False)"

lemma shopPass_smooth:
  assumes "smooth up W"
  shows "\<exists>r err obs. shopPass up W = (r, err, obs, after up W) \<and> passDone r err"
proof -
  obtain r err obs W' where run: "shopPass up W = (r, err, obs, W')" by (rule prod_cases4)
  have d: "passDone r err" using assms run by (auto simp: smooth_def passDone_def split: option.splits)
  from pass_facts [OF run [unfolded shopPass_def] passCfg_passOf] assms d
  have "fleet W' = map (wanted ''night'' up) (fleet W)" by (simp add: smooth_def)
  then have "W' = after up W" by (simp add: after_def)
  with run d show ?thesis by blast
qed

lemma shop_smooth: "smooth False shopWorld" "smooth True (after False shopWorld)"
  by code_simp+

lemma shop_complete:
  assumes "smooth up W"
  shows "completePass sampleSurroundings emptyCore ''night'' [''shop''] up W (after up W)"
  using shopPass_smooth [OF assms] passCfg_passOf unfolding completePass_def shopPass_def by blast

lemma shop_blind: "blindToMark (su_selectors sampleSurroundings) emptyCore"
  by (simp add: blindToMark_def emptyCore_def ShouldExcludeWorkload_def)

theorem pass_refines_wanted_witness:
  "\<exists>r err obs W'. shopPass False shopWorld = (r, err, obs, W') \<and> passDone r err \<and>
     fleet W' = map (wanted ''night'' False) (fleet shopWorld)"
proof -
  obtain r err obs where run: "shopPass False shopWorld = (r, err, obs, after False shopWorld)" "passDone r err"
    using shopPass_smooth [OF shop_smooth(1)] by blast
  have "distinct [''shop'']" "consistent (fleet shopWorld)" using shop_smooth(1) by (simp_all add: smooth_def)
  from pass_refines_wanted [OF run(1) [unfolded shopPass_def] passCfg_passOf this] run shop_smooth(1)
  show ?thesis by (auto simp: smooth_def)
qed

theorem whole_night_witness:
  "\<exists>(W3 :: unit world) (W5 :: unit world). list_all2 (\<lambda>w w'. asleep w') (fleet shopWorld) (fleet W3) \<and> list_all2 backAgain (fleet shopWorld) (fleet W5)"
proof -
  let ?W2 = "after False shopWorld"
  let ?W5 = "after True ?W2"
  have w: "consistent (fleet shopWorld)" "distinct [''shop'']" using shop_smooth(1) by (simp_all add: smooth_def)
  have s: "\<forall>w \<in> set (fleet shopWorld). inScope (su_selectors sampleSurroundings) emptyCore [''shop''] w \<and>
      \<not> heldByOther ''night'' w \<and> unmarked w" by code_simp
  note n = whole_night [OF w shop_blind rtranclp.rtrancl_refl shop_complete [OF shop_smooth(1)] rtranclp.rtrancl_refl
    rtranclp.rtrancl_refl shop_complete [OF shop_smooth(2)]]
  have "list_all2 (\<lambda>w w'. asleep w') (fleet shopWorld) (fleet ?W2)"
    using conjunct1 [OF n] by (rule list.rel_mono_strong) (use s in auto)
  moreover have "list_all2 backAgain (fleet shopWorld) (fleet ?W5)"
    using conjunct2 [OF n] by (rule list.rel_mono_strong) (use s in auto)
  ultimately show ?thesis by blast
qed

end
