(* ===== verification/Controller.thy ===== *)
theory Controller
  imports Restore
begin

text \<open>
  The two reconcilers: \<^verbatim>\<open>lightsoutschedule_controller.go\<close> for the cluster-scoped schedule and
  \<^verbatim>\<open>lightsoutnamespaceschedule_controller.go\<close> for the namespace-scoped one. The second repeats
  the middle of the first; here that part is \<open>runSchedule\<close>, with what differs as arguments,
  and both \<open>Reconcile\<close> functions call it. The clock is read once, so the times of one
  reconcile are the same; the finalizers of an object are a set; the map of conditions is
  updated by the library.
\<close>

section \<open>Schedules\<close>

record 'spec schedule =
  sc_Name :: string
  sc_Namespace :: string
  sc_Generation :: int
  sc_Finalizers :: "string set"
  sc_DeletionTimestamp :: "time option"
  sc_Spec :: 'spec
  sc_Status :: LightsOutScheduleStatus

datatype get_error = Missing | GetFailed string

text \<open>The client calls for the schedule itself: Get by name, Update, and Update of the status.\<close>

record ('s, 'spec) store =
  get_schedule :: "string \<times> string \<Rightarrow> 's \<Rightarrow> get_error + 'spec schedule"
  update_schedule :: "'spec schedule \<Rightarrow> 's \<Rightarrow> string option \<times> 's"
  update_status :: "'spec schedule \<Rightarrow> 's \<Rightarrow> string option \<times> 's"

text \<open>The result of a reconcile: an error, or the time to requeue after, where 0 is not at all.\<close>

type_synonym ctrl_result = "string + duration"

type_synonym 's reconciled = "ctrl_result \<times> observation list \<times> periodCache \<times> 's"

definition periodErrorText :: "period_error \<Rightarrow> string" where
  "periodErrorText e =
     (case e of
        InvalidTimezone tz t \<Rightarrow> ''invalid timezone '' @ goQuote tz @ '': '' @ t
      | InvalidUpscaleCron c t \<Rightarrow> ''invalid upscale cron '' @ goQuote c @ '': '' @ t
      | InvalidDownscaleCron c t \<Rightarrow> ''invalid downscale cron '' @ goQuote c @ '': '' @ t)"

section \<open>Small parts\<close>

definition carriedWaveProgress :: "LightsOutScheduleStatus \<Rightarrow> PeriodResult \<Rightarrow> WaveProgress option" where
  "carriedWaveProgress status period =
     (if st_State status \<noteq> State period then None else st_WaveProgress status)"

definition noTermination :: terminationReport where
  "noTermination = \<lparr>Terminating = 0, Stuck = 0, StuckByNamespace = [], StuckNames = []\<rparr>"

definition checkTermination ::
  "'s api \<Rightarrow> bool \<Rightarrow> string \<Rightarrow> string \<Rightarrow> string list \<Rightarrow> bool \<Rightarrow> time \<Rightarrow> 's \<Rightarrow>
     terminationReport \<times> observation list" where
  "checkTermination api recorder scheduleObj scheduleLabel namespaces scaleUp now s =
     (if scaleUp then (noTermination, clearStuckTerminatingPods scheduleLabel namespaces)
      else
        (case countTerminatingPods (api_listPods api) namespaces now s of
           (report, Some e) \<Rightarrow> (noTermination, [])
         | (report, None) \<Rightarrow>
             (report, reportStuckTerminatingPods recorder (Some scheduleObj) scheduleLabel report)))"

definition readyCond :: "string \<Rightarrow> string \<Rightarrow> string \<Rightarrow> int \<Rightarrow> Condition" where
  "readyCond status reason message generation =
     \<lparr>cond_Type = ConditionTypeReady, cond_Status = status, cond_Reason = reason,
      cond_Message = message, cond_ObservedGeneration = generation\<rparr>"

definition withCondition ::
  "('s, 'sel, 'l, 'c) env \<Rightarrow> Condition \<Rightarrow> 'spec schedule \<Rightarrow> 'spec schedule" where
  "withCondition env cond schedule =
     schedule\<lparr>sc_Status := (sc_Status schedule)
       \<lparr>st_Conditions := e_setCondition env (st_Conditions (sc_Status schedule)) cond\<rparr>\<rparr>"

text \<open>A failed update of the error status is only logged.\<close>

definition setErrorCondition ::
  "('s, 'sel, 'l, 'c) env \<Rightarrow> ('s, 'spec) store \<Rightarrow> 'spec schedule \<Rightarrow> string \<Rightarrow> 's \<Rightarrow> 's" where
  "setErrorCondition env st schedule err s =
     snd (update_status st
       (withCondition env (readyCond ''False'' ''ReconcileFailed'' err (sc_Generation schedule)) schedule) s)"

definition calculateRequeueAfter ::
  "PeriodResult \<Rightarrow> bool \<Rightarrow> scaleWorkloadsResult \<Rightarrow> RateLimitConfig option \<Rightarrow> bool \<Rightarrow> time \<Rightarrow> duration" where
  "calculateRequeueAfter period scaleUp scaleResult rateLimit stillWarmingUp now =
     (let timeUntilNext = (if scaleUp then timeSub (NextDownscale period) now else timeSub (NextUpscale period) now)
      in if batchLimitReached scaleResult then
           (let requeueAfter =
                  (case rateLimit of
                     None \<Rightarrow> timeUntilNext
                   | Some rl \<Rightarrow>
                       (case DelayBetweenBatches rl of
                          None \<Rightarrow> timeUntilNext
                        | Some delay \<Rightarrow> if delay < timeUntilNext then delay else timeUntilNext))
            in max requeueAfter second)
         else if stillWarmingUp \<or> waveGateReached scaleResult then
           max (min WarmupCheckInterval timeUntilNext) second
         else max timeUntilNext minute)"

section \<open>Orphaned namespaces\<close>

definition discoverOrphanedNamespaces ::
  "('s, 'sel, 'l, 'c) env \<Rightarrow> string \<Rightarrow> string list \<Rightarrow> 's \<Rightarrow> string + string list" where
  "discoverOrphanedNamespaces env scheduleName targetNamespaces s =
     (let sel = (ManagedByLabel, scheduleName) in
      case e_allDeployments env sel s of
        Inl e \<Rightarrow> Inl e
      | Inr deploys \<Rightarrow>
     (case e_allStatefulSets env sel s of
        Inl e \<Rightarrow> Inl e
      | Inr statefulsets \<Rightarrow>
     (case e_allCronJobs env sel s of
        Inl e \<Rightarrow> Inl e
      | Inr cronjobs \<Rightarrow>
          Inr (sorted_list_of_set
            ((set (map obj_namespace deploys) \<union> set (map obj_namespace statefulsets) \<union>
              set (map obj_namespace cronjobs)) - set targetNamespaces)))))"

definition releaseOrphanedNamespaces ::
  "('s, 'sel, 'l, 'c) env \<Rightarrow> LightsOutScheduleCore \<Rightarrow> string \<Rightarrow> string list \<Rightarrow> time \<Rightarrow> 's \<Rightarrow>
     observation list \<times> 's" where
  "releaseOrphanedNamespaces env core scheduleName targetNamespaces now s =
     (case discoverOrphanedNamespaces env scheduleName targetNamespaces s of
        Inl e \<Rightarrow> ([], s)
      | Inr orphaned \<Rightarrow>
          if orphaned = [] then ([], s)
          else
            (case restoreManagedWorkloads env core scheduleName ''schedule'' orphaned now s of
               (errs, obs, s') \<Rightarrow> (obs, s')))"

section \<open>One run of a schedule\<close>

text \<open>What tells the two kinds of schedule apart: the scope, the object of the events, the metric label.\<close>

record scheduleKind =
  sk_Local :: bool
  sk_Ref :: string
  sk_Label :: string

definition kindName :: "scheduleKind \<Rightarrow> string" where
  "kindName k = (if sk_Local k then ''namespace schedule'' else ''schedule'')"

definition scaleConfig ::
  "scheduleKind \<Rightarrow> string \<Rightarrow> string list \<Rightarrow> bool \<Rightarrow> RateLimitConfig option \<Rightarrow> WaveProgress option \<Rightarrow> time \<Rightarrow>
     scaleWorkloadsConfig" where
  "scaleConfig k name namespaces scaleUp rateLimit waveProgress now =
     \<lparr>cfg_ScheduleName = name, cfg_ScheduleLabel = sk_Label k, cfg_ScheduleKind = kindName k,
      cfg_Namespaces = namespaces, cfg_ScaleUp = scaleUp, cfg_RateLimit = rateLimit,
      cfg_TransferOwnership = sk_Local k, cfg_ScheduleObj = sk_Ref k, cfg_WaveProgress = waveProgress,
      cfg_Now = now\<rparr>"

text \<open>The cluster-scoped reconciler wraps the error of a pass.\<close>

definition scaleErrorText :: "scheduleKind \<Rightarrow> string \<Rightarrow> string" where
  "scaleErrorText k e = (if sk_Local k then e else ''failed to scale workloads: '' @ e)"

text \<open>
  The integrations in front of the workloads and the pass itself. A deferred pass has the
  empty result. \<open>scaleWorkloads\<close> returns a result whenever it returns no error.
\<close>

definition scalePhase ::
  "('s, 'sel, 'l, 'c) env \<Rightarrow> LightsOutScheduleCore \<Rightarrow> integrationConfig \<Rightarrow> scaleWorkloadsConfig \<Rightarrow> time \<Rightarrow> 's \<Rightarrow>
     (string + bool \<times> scaleWorkloadsResult) \<times> observation list \<times> 's" where
  "scalePhase env core integrations cfg now s =
     (case (if cfg_ScaleUp cfg then integrationsUp (e_codec env) (e_api env) (e_recorder env) integrations now s
            else (case integrationsDown (e_codec env) (e_api env) (e_recorder env) integrations s of
                    (obs, s') \<Rightarrow> (False, obs, s'))) of
        (True, obs1, s1) \<Rightarrow> (Inr (True, emptyResult), obs1, s1)
      | (False, obs1, s1) \<Rightarrow>
          (case scaleWorkloads (e_cluster env) core cfg (e_recorder env) s1 of
             (r, Some e, obs2, s2) \<Rightarrow> (Inl e, obs1 @ obs2, s2)
           | (r, None, obs2, s2) \<Rightarrow>
               (Inr (False, case r of None \<Rightarrow> emptyResult | Some result \<Rightarrow> result), obs1 @ obs2, s2)))"

definition warmupPhase ::
  "('s, 'sel, 'l, 'c) env \<Rightarrow> integrationConfig \<Rightarrow> bool \<Rightarrow> bool \<Rightarrow> scaleWorkloadsResult \<Rightarrow> time \<Rightarrow> 's \<Rightarrow>
     bool \<times> observation list \<times> 's" where
  "warmupPhase env integrations scaleUp deferWorkloadScaleUp scaleResult now s =
     (let stillWarmingUp = (deferWorkloadScaleUp \<or> scaleUp \<and> waveGateReached scaleResult) in
      if warmupMayStart scaleUp deferWorkloadScaleUp scaleResult then
        (case integrationsWarmup (e_api env) (e_recorder env) integrations now s of
           (warming, obs, s') \<Rightarrow> (warming \<or> stillWarmingUp, obs, s'))
      else (stillWarmingUp, [], s))"

definition statusAfter ::
  "('s, 'sel, 'l, 'c) env \<Rightarrow> scheduleKind \<Rightarrow> string list \<Rightarrow> PeriodResult \<Rightarrow> bool \<Rightarrow> scaleWorkloadsResult \<Rightarrow>
     terminationReport \<Rightarrow> 'spec schedule \<Rightarrow> 'spec schedule" where
  "statusAfter env k namespaces period deferWorkloadScaleUp scaleResult termination schedule =
     withCondition env
       (readyCond ''True'' ''ReconcileSucceeded'' (''Successfully reconciled '' @ kindName k) (sc_Generation schedule))
       (schedule\<lparr>sc_Status := (sc_Status schedule)
          \<lparr>st_State := State period,
           st_Namespaces := (if sk_Local k then st_Namespaces (sc_Status schedule) else namespaces),
           st_WorkloadStats := (if deferWorkloadScaleUp then st_WorkloadStats (sc_Status schedule)
                                else r_stats scaleResult),
           st_ObservedGeneration := sc_Generation schedule,
           st_NextUpscaleTime := Some (NextUpscale period),
           st_NextDownscaleTime := Some (NextDownscale period),
           st_StuckTerminatingPods := Stuck termination,
           st_ScalingProgress :=
             (if stoppedEarly scaleResult then
                Some \<lparr>sp_Total = totalWorkloads scaleResult,
                      sp_Completed = totalProcessed scaleResult + totalSkipped scaleResult,
                      sp_Failed = totalFailed scaleResult, sp_InProgress = True\<rparr>
              else None),
           st_WaveProgress := r_waveProgress scaleResult\<rparr>\<rparr>)"

definition scheduleMetrics :: "string \<Rightarrow> bool \<Rightarrow> LightsOutScheduleStatus \<Rightarrow> observation list" where
  "scheduleMetrics label stillWarmingUp status =
     (let stateValue = (if stillWarmingUp then 2 else if st_State status = ScheduleStateUp then 1 else 0);
          reported = st_WorkloadStats status
      in [GaugeSet ScheduleState [label] stateValue,
          GaugeClock NextTransitionSeconds [label, ''upscale''],
          GaugeClock NextTransitionSeconds [label, ''downscale''],
          GaugeSet ManagedWorkloads [label, ''deployment''] (DeploymentsManaged reported),
          GaugeSet ManagedWorkloads [label, ''statefulset''] (StatefulSetsManaged reported),
          GaugeSet ManagedWorkloads [label, ''cronjob''] (CronJobsManaged reported),
          GaugeSet ScaledWorkloads [label, ''deployment''] (DeploymentsScaled reported),
          GaugeSet ScaledWorkloads [label, ''statefulset''] (StatefulSetsScaled reported),
          GaugeSet ScaledWorkloads [label, ''cronjob''] (CronJobsSuspended reported),
          GaugeClock LastReconcileTime [label]])"

definition requeueTime ::
  "PeriodResult \<Rightarrow> bool \<Rightarrow> scaleWorkloadsResult \<Rightarrow> RateLimitConfig option \<Rightarrow> bool \<Rightarrow> terminationReport \<Rightarrow> time \<Rightarrow>
     duration" where
  "requeueTime period scaleUp scaleResult rateLimit stillWarmingUp termination now =
     applyTerminationRequeue (calculateRequeueAfter period scaleUp scaleResult rateLimit stillWarmingUp now)
       termination (\<not> scaleUp \<and> totalProcessed scaleResult > 0)"

text \<open>The status is read back after its update; it is the one that was sent.\<close>

definition runSchedule ::
  "('s, 'sel, 'l, 'c) env \<Rightarrow> ('s, 'spec) store \<Rightarrow> scheduleKind \<Rightarrow> LightsOutScheduleCore \<Rightarrow> 'spec schedule \<Rightarrow>
     string list \<Rightarrow> PeriodResult \<Rightarrow> time \<Rightarrow> 's \<Rightarrow> ctrl_result \<times> observation list \<times> 's" where
  "runSchedule env st k core schedule namespaces period now s =
     (let scaleUp = (State period = ''Up'');
          rateLimit = (if scaleUp then UpscaleRateLimit core else DownscaleRateLimit core);
          integrations = \<lparr>ic_ScheduleObj = sk_Ref k, ic_Core = core, ic_ScheduleName = sc_Name schedule,
                          ic_ScheduleLabel = sk_Label k, ic_Namespaces = namespaces\<rparr>;
          cfg = scaleConfig k (sc_Name schedule) namespaces scaleUp rateLimit
                  (carriedWaveProgress (sc_Status schedule) period) now
      in case scalePhase env core integrations cfg now s of
           (Inl e, obs1, s1) \<Rightarrow>
             (Inl (scaleErrorText k e), obs1, setErrorCondition env st schedule (scaleErrorText k e) s1)
         | (Inr (deferWorkloadScaleUp, scaleResult), obs1, s1) \<Rightarrow>
         (case warmupPhase env integrations scaleUp deferWorkloadScaleUp scaleResult now s1 of
            (stillWarmingUp, obs2, s2) \<Rightarrow>
         (case checkTermination (e_api env) (e_recorder env) (sk_Ref k) (sk_Label k) namespaces scaleUp now s2 of
            (termination, obs3) \<Rightarrow>
              (let schedule' = statusAfter env k namespaces period deferWorkloadScaleUp scaleResult termination schedule in
               case update_status st schedule' s2 of
                 (Some e, s3) \<Rightarrow> (Inl e, obs1 @ obs2 @ obs3, s3)
               | (None, s3) \<Rightarrow>
                   (Inr (requeueTime period scaleUp scaleResult rateLimit stillWarmingUp termination now),
                    obs1 @ obs2 @ obs3 @
                      (if deferWorkloadScaleUp then []
                       else recordScalingEvents (e_recorder env) (sk_Ref k) scaleUp (r_stats scaleResult) namespaces) @
                      scheduleMetrics (sk_Label k) stillWarmingUp (sc_Status schedule'),
                    s3)))))"

section \<open>Deletion\<close>

definition cleanup ::
  "('s, 'sel, 'l, 'c) env \<Rightarrow> ('s, 'spec) store \<Rightarrow> scheduleKind \<Rightarrow> LightsOutScheduleCore \<Rightarrow> 'spec schedule \<Rightarrow>
     string list \<Rightarrow> time \<Rightarrow> 's \<Rightarrow> ctrl_result \<times> observation list \<times> 's" where
  "cleanup env st k core schedule namespaces now s =
     (case restoreManagedWorkloads env core (sc_Name schedule) (kindName k) namespaces now s of
        (restoreErrors, obs, s1) \<Rightarrow>
          if restoreErrors \<noteq> [] then
            (Inr (5 * second),
             obs @ (if e_recorder env then
                      [EventRecorded (sk_Ref k) ''Warning'' ''CleanupPartialFailure'' ''Cleanup''
                         (''Failed to restore '' @ itoa (int (length restoreErrors)) @
                          '' workload(s) during deletion: '' @ joinWith ''; '' restoreErrors)]
                    else []), s1)
          else
            (case update_schedule st (schedule\<lparr>sc_Finalizers := sc_Finalizers schedule - {FinalizerName}\<rparr>) s1 of
               (err, s2) \<Rightarrow>
                 (case err of None \<Rightarrow> Inr 0 | Some e \<Rightarrow> Inl e,
                  obs @ (if e_recorder env then
                           [EventRecorded (sk_Ref k) ''Normal'' ''CleanupComplete'' ''Cleanup''
                              ''All managed workloads restored to original state'']
                         else []) @ clearScheduleMetrics (sk_Label k), s2)))"

section \<open>The cluster-scoped reconciler\<close>

type_synonym ClusterSchedule = "LightsOutScheduleSpec schedule"

definition globalKind :: "ClusterSchedule \<Rightarrow> scheduleKind" where
  "globalKind schedule =
     \<lparr>sk_Local = False, sk_Ref = ''LightsOutSchedule '' @ sc_Name schedule, sk_Label = sc_Name schedule\<rparr>"

text \<open>A failed discovery leaves no namespace to clean up.\<close>

definition handleDeletion ::
  "('s, 'sel, 'l, 'c) env \<Rightarrow> ('s, LightsOutScheduleSpec) store \<Rightarrow> ClusterSchedule \<Rightarrow> time \<Rightarrow> 's \<Rightarrow>
     ctrl_result \<times> observation list \<times> 's" where
  "handleDeletion env st schedule now s =
     (let discovered =
            (case DiscoverNamespaces (cl_selectors (e_cluster env)) (e_listNamespaces env) (sc_Spec schedule) s of
               Inl e \<Rightarrow> []
             | Inr namespaces \<Rightarrow> namespaces)
      in case FilterNamespacesWithLocalSchedules (e_listLocal env) discovered s of
           Inl e \<Rightarrow> (Inl e, [], s)
         | Inr namespaces \<Rightarrow> cleanup env st (globalKind schedule) (Core (sc_Spec schedule)) schedule namespaces now s)"

definition timezoneOf :: "LightsOutScheduleCore \<Rightarrow> string" where
  "timezoneOf core = (if Timezone core = [] then DefaultTimezone else Timezone core)"

definition ReconcileActive ::
  "('s, 'sel, 'l, 'c) env \<Rightarrow> ('s, LightsOutScheduleSpec) store \<Rightarrow> ClusterSchedule \<Rightarrow> time \<Rightarrow> periodCache \<Rightarrow> 's \<Rightarrow>
     's reconciled" where
  "ReconcileActive env st schedule now cache s =
     (let core = Core (sc_Spec schedule); failed = (\<lambda>e. setErrorCondition env st schedule e) in
      case CalculatePeriod (e_cron env) cache (Upscale core) (Downscale core) (timezoneOf core) now of
        (Inl e, cache') \<Rightarrow> (Inl (periodErrorText e), [], cache', failed (periodErrorText e) s)
      | (Inr period, cache') \<Rightarrow>
      (case DiscoverNamespaces (cl_selectors (e_cluster env)) (e_listNamespaces env) (sc_Spec schedule) s of
         Inl e \<Rightarrow> (Inl e, [], cache', failed e s)
       | Inr targetNamespaces \<Rightarrow>
      (case releaseOrphanedNamespaces env core (sc_Name schedule) targetNamespaces now s of
         (obs1, s1) \<Rightarrow>
      (case FilterNamespacesWithLocalSchedules (e_listLocal env) targetNamespaces s1 of
         Inl e \<Rightarrow> (Inl e, obs1, cache', failed e s1)
       | Inr namespaces \<Rightarrow>
           (case runSchedule env st (globalKind schedule) core schedule namespaces period now s1 of
              (r, obs2, s2) \<Rightarrow> (r, obs1 @ obs2, cache', s2))))))"

definition Reconcile ::
  "('s, 'sel, 'l, 'c) env \<Rightarrow> ('s, LightsOutScheduleSpec) store \<Rightarrow> string \<times> string \<Rightarrow> time \<Rightarrow> periodCache \<Rightarrow> 's \<Rightarrow>
     's reconciled" where
  "Reconcile env st key now cache s =
     (case get_schedule st key s of
        Inl Missing \<Rightarrow> (Inr 0, [], cache, s)
      | Inl (GetFailed e) \<Rightarrow> (Inl e, [], cache, s)
      | Inr schedule \<Rightarrow>
          if FinalizerName \<notin> sc_Finalizers schedule then
            (case update_schedule st (schedule\<lparr>sc_Finalizers := insert FinalizerName (sc_Finalizers schedule)\<rparr>) s of
               (Some e, s') \<Rightarrow> (Inl e, [], cache, s')
             | (None, s') \<Rightarrow> (Inr second, [], cache, s'))
          else if sc_DeletionTimestamp schedule \<noteq> None then
            (case handleDeletion env st schedule now s of (r, obs, s') \<Rightarrow> (r, obs, cache, s'))
          else if Suspend (Core (sc_Spec schedule)) then (Inr 0, [], cache, s)
          else ReconcileActive env st schedule now cache s)"

section \<open>The namespace-scoped reconciler\<close>

type_synonym NamespaceSchedule = "LightsOutScheduleCore schedule"

definition localKind :: "NamespaceSchedule \<Rightarrow> scheduleKind" where
  "localKind schedule =
     \<lparr>sk_Local = True,
      sk_Ref = ''LightsOutNamespaceSchedule '' @ sc_Namespace schedule @ ''/'' @ sc_Name schedule,
      sk_Label = sc_Namespace schedule @ ''/'' @ sc_Name schedule\<rparr>"

definition handleNamespaceDeletion ::
  "('s, 'sel, 'l, 'c) env \<Rightarrow> ('s, LightsOutScheduleCore) store \<Rightarrow> NamespaceSchedule \<Rightarrow> time \<Rightarrow> 's \<Rightarrow>
     ctrl_result \<times> observation list \<times> 's" where
  "handleNamespaceDeletion env st schedule now s =
     cleanup env st (localKind schedule) (sc_Spec schedule) schedule [sc_Namespace schedule] now s"

definition ReconcileNamespaceActive ::
  "('s, 'sel, 'l, 'c) env \<Rightarrow> ('s, LightsOutScheduleCore) store \<Rightarrow> NamespaceSchedule \<Rightarrow> time \<Rightarrow> periodCache \<Rightarrow>
     's \<Rightarrow> 's reconciled" where
  "ReconcileNamespaceActive env st schedule now cache s =
     (let core = sc_Spec schedule in
      case CalculatePeriod (e_cron env) cache (Upscale core) (Downscale core) (timezoneOf core) now of
        (Inl e, cache') \<Rightarrow>
          (Inl (periodErrorText e), [], cache', setErrorCondition env st schedule (periodErrorText e) s)
      | (Inr period, cache') \<Rightarrow>
          (case runSchedule env st (localKind schedule) core schedule [sc_Namespace schedule] period now s of
             (r, obs, s') \<Rightarrow> (r, obs, cache', s')))"

definition ReconcileNamespace ::
  "('s, 'sel, 'l, 'c) env \<Rightarrow> ('s, LightsOutScheduleCore) store \<Rightarrow> string \<times> string \<Rightarrow> time \<Rightarrow> periodCache \<Rightarrow> 's \<Rightarrow>
     's reconciled" where
  "ReconcileNamespace env st key now cache s =
     (case get_schedule st key s of
        Inl Missing \<Rightarrow> (Inr 0, [], cache, s)
      | Inl (GetFailed e) \<Rightarrow> (Inl e, [], cache, s)
      | Inr schedule \<Rightarrow>
          if FinalizerName \<notin> sc_Finalizers schedule then
            (case update_schedule st (schedule\<lparr>sc_Finalizers := insert FinalizerName (sc_Finalizers schedule)\<rparr>) s of
               (Some e, s') \<Rightarrow> (Inl e, [], cache, s')
             | (None, s') \<Rightarrow> (Inr second, [], cache, s'))
          else if sc_DeletionTimestamp schedule \<noteq> None then
            (case handleNamespaceDeletion env st schedule now s of (r, obs, s') \<Rightarrow> (r, obs, cache, s'))
          else if Suspend (sc_Spec schedule) then (Inr 0, [], cache, s)
          else ReconcileNamespaceActive env st schedule now cache s)"

end
