(* ===== verification/Controller_Facts.thy ===== *)
theory Controller_Facts
  imports Controller
begin

text \<open>
  What the reconcilers promise over all their parts: they wake up in time, they hold the
  workloads back while the databases start and the GitOps controllers back while workloads
  wait, what they publish about an unfinished pass adds up, and a deletion gives back what
  the schedule holds, except when the namespaces cannot be discovered.
\<close>

section \<open>Waking up\<close>

definition untilNext :: "PeriodResult \<Rightarrow> bool \<Rightarrow> time \<Rightarrow> duration" where
  "untilNext period scaleUp now = (if scaleUp then timeSub (NextDownscale period) now else timeSub (NextUpscale period) now)"

lemma durations_ordered:
  "second \<le> WarmupCheckInterval" "second \<le> TerminationCheckInterval" "second \<le> minute" "0 < second"
  by (simp_all add: WarmupCheckInterval_def TerminationCheckInterval_def second_def minute_def)

lemma calculateRequeueAfter_bounds:
  "second \<le> calculateRequeueAfter period scaleUp r rl warming now \<and>
   calculateRequeueAfter period scaleUp r rl warming now \<le>
     (if batchLimitReached r then max (untilNext period scaleUp now) second
      else if warming \<or> waveGateReached r then WarmupCheckInterval
      else max (untilNext period scaleUp now) minute)"
  using durations_ordered
  by (auto simp: calculateRequeueAfter_def untilNext_def Let_def split: option.splits)

lemma requeueTime_bounds:
  "second \<le> requeueTime period scaleUp r rl warming t now \<and>
   requeueTime period scaleUp r rl warming t now \<le> calculateRequeueAfter period scaleUp r rl warming now"
  using calculateRequeueAfter_bounds [of period scaleUp r rl warming now] durations_ordered
  by (auto simp: requeueTime_def applyTerminationRequeue_def)

section \<open>A run that leaves the rest alone\<close>

text \<open>How a run that succeeded has gone.\<close>

lemma runSchedule_stages:
  assumes "runSchedule env st k core schedule namespaces period now s = (Inr d, obs, s')"
    and "scaleUp = (State period = ''Up'')"
    and "rl = (if scaleUp then UpscaleRateLimit core else DownscaleRateLimit core)"
    and "integrations = \<lparr>ic_ScheduleObj = sk_Ref k, ic_Core = core, ic_ScheduleName = sc_Name schedule,
           ic_ScheduleLabel = sk_Label k, ic_Namespaces = namespaces\<rparr>"
    and "cfg = scaleConfig k (sc_Name schedule) namespaces scaleUp rl
           (carriedWaveProgress (sc_Status schedule) period) now"
  obtains later r obs1 s1 warming obs2 s2 t obs3 where
    "scalePhase env core integrations cfg now s = (Inr (later, r), obs1, s1)"
    "warmupPhase env integrations scaleUp later r now s1 = (warming, obs2, s2)"
    "checkTermination (e_api env) (e_recorder env) (sk_Ref k) (sk_Label k) namespaces scaleUp now s2 = (t, obs3)"
    "update_status st (statusAfter env k namespaces period later r t schedule) s2 = (None, s')"
    "d = requeueTime period scaleUp r rl warming t now"
proof -
  obtain res obs1 s1 where sp: "scalePhase env core integrations cfg now s = (res, obs1, s1)" by (rule prod_cases3)
  from assms(1) sp obtain later r where res: "res = Inr (later, r)"
    unfolding runSchedule_def Let_def assms(2-5) by (cases res) auto
  obtain warming obs2 s2 where w: "warmupPhase env integrations scaleUp later r now s1 = (warming, obs2, s2)" by (rule prod_cases3)
  obtain t obs3 where t: "checkTermination (e_api env) (e_recorder env) (sk_Ref k) (sk_Label k) namespaces scaleUp now s2 = (t, obs3)"
    by (rule prod.exhaust)
  obtain err s3 where u: "update_status st (statusAfter env k namespaces period later r t schedule) s2 = (err, s3)"
    by (rule prod.exhaust)
  have "err = None \<and> s3 = s' \<and> d = requeueTime period scaleUp r rl warming t now"
    using assms(1) sp res w t u unfolding runSchedule_def Let_def assms(2-5) by (cases err) auto
  with that [OF _ w t, of obs1] sp res u show ?thesis by simp
qed

lemma runSchedule_done:
  assumes "runSchedule env st k core schedule namespaces period now s = (Inr d, obs, s')"
    and "scaleUp = (State period = ''Up'')"
    and "rl = (if scaleUp then UpscaleRateLimit core else DownscaleRateLimit core)"
    and "integrations = \<lparr>ic_ScheduleObj = sk_Ref k, ic_Core = core, ic_ScheduleName = sc_Name schedule,
           ic_ScheduleLabel = sk_Label k, ic_Namespaces = namespaces\<rparr>"
    and "cfg = scaleConfig k (sc_Name schedule) namespaces scaleUp rl
           (carriedWaveProgress (sc_Status schedule) period) now"
  obtains later r obs1 s1 warming obs2 s2 t where
    "scalePhase env core integrations cfg now s = (Inr (later, r), obs1, s1)"
    "warmupPhase env integrations scaleUp later r now s1 = (warming, obs2, s2)"
    "update_status st (statusAfter env k namespaces period later r t schedule) s2 = (None, s')"
    "d = requeueTime period scaleUp r rl warming t now"
  by (rule runSchedule_stages [OF assms]) (rule that)

text \<open>
  In the morning a pass that was not held back has no other clock than the batch delay: what it
  leaves, or has failed to scale, is not looked at before the next transition.
\<close>

lemma runSchedule_waits:
  assumes "runSchedule env st k core schedule namespaces period now s = (Inr d, obs, s')" and "State period = ''Up''"
    and "integrations = \<lparr>ic_ScheduleObj = sk_Ref k, ic_Core = core, ic_ScheduleName = sc_Name schedule,
           ic_ScheduleLabel = sk_Label k, ic_Namespaces = namespaces\<rparr>"
    and "cfg = scaleConfig k (sc_Name schedule) namespaces True (UpscaleRateLimit core) (carriedWaveProgress (sc_Status schedule) period) now"
    and "scalePhase env core integrations cfg now s = (Inr (False, r), obs1, s1)"
    and "batchLimitReached r \<and> Option.bind (UpscaleRateLimit core) DelayBetweenBatches = None \<or>
         \<not> stoppedEarly r \<and> ArgoCD core = None \<and> FluxCD core = None"
  shows "untilNext period True now \<le> d"
proof -
  from assms(1) refl refl refl refl obtain later r2 obs0 s0 warming obs2 s2 t obs3 where
    st: "scalePhase env core integrations cfg now s = (Inr (later, r2), obs0, s0)"
    "warmupPhase env integrations True later r2 now s0 = (warming, obs2, s2)"
    "checkTermination (e_api env) (e_recorder env) (sk_Ref k) (sk_Label k) namespaces True now s2 = (t, obs3)"
    "d = requeueTime period True r2 (UpscaleRateLimit core) warming t now"
    unfolding assms(3,4) by (rule runSchedule_stages) (simp add: assms(2))
  have r: "later = False" "r2 = r" using st(1) assms(5) by simp_all
  have "t = noTermination" using st(3) by (simp add: checkTermination_def)
  then have d: "d = calculateRequeueAfter period True r (UpscaleRateLimit core) warming now"
    using st(4) by (simp add: r requeueTime_def applyTerminationRequeue_def noTermination_def)
  show ?thesis
  proof (cases "batchLimitReached r")
    case True
    with assms(6) show ?thesis
      by (auto simp: d calculateRequeueAfter_def untilNext_def Let_def stoppedEarly_def split: option.splits)
  next
    case False
    with assms(6) have quiet: "\<not> stoppedEarly r" "ArgoCD core = None" "FluxCD core = None" by auto
    then have "\<not> warming"
      using st(2) by (auto simp: warmupPhase_def warmupMayStart_def Let_def r stoppedEarly_def integrationsWarmup_def
          argoWarmup_def fluxWarmup_def assms(3) split: if_splits prod.splits)
    with quiet show ?thesis by (simp add: d calculateRequeueAfter_def untilNext_def Let_def stoppedEarly_def)
  qed
qed

lemma run_requeues_in_time:
  assumes "runSchedule env st k core schedule namespaces period now s = (Inr d, obs, s')"
  shows "second \<le> d \<and> d \<le> max (untilNext period (State period = ''Up'') now) minute"
proof -
  from assms refl refl refl refl obtain later r obs1 s1 warming obs2 s2 t where
    d: "d = requeueTime period (State period = ''Up'') r
       (if State period = ''Up'' then UpscaleRateLimit core else DownscaleRateLimit core) warming t now"
    and "warmupPhase env \<lparr>ic_ScheduleObj = sk_Ref k, ic_Core = core, ic_ScheduleName = sc_Name schedule,
           ic_ScheduleLabel = sk_Label k, ic_Namespaces = namespaces\<rparr> (State period = ''Up'') later r now s1 = (warming, obs2, s2)"
    by (rule runSchedule_done)
  let ?rl = "if State period = ''Up'' then UpscaleRateLimit core else DownscaleRateLimit core"
  have "calculateRequeueAfter period (State period = ''Up'') r ?rl warming now \<le> max (untilNext period (State period = ''Up'') now) minute"
    using calculateRequeueAfter_bounds [of period "State period = ''Up''" r ?rl warming now]
    by (auto simp: WarmupCheckInterval_def minute_def second_def split: if_splits)
  with requeueTime_bounds [of period "State period = ''Up''" r ?rl warming t now] d show ?thesis by auto
qed

section \<open>Properties\<close>

text \<open>
  C17: An active schedule whose reconcile succeeds comes back: after at least a second, and not
  after its next transition, or within a minute when that is closer.
\<close>

theorem reconcile_requeues_in_time:
  assumes "get_schedule st key s = Inr schedule" and "FinalizerName \<in> sc_Finalizers schedule"
    and "sc_DeletionTimestamp schedule = None" and "\<not> Suspend (Core (sc_Spec schedule))"
    and "CalculatePeriod (e_cron env) cache (Upscale (Core (sc_Spec schedule))) (Downscale (Core (sc_Spec schedule)))
      (timezoneOf (Core (sc_Spec schedule))) now = (Inr period, cache')"
    and "Reconcile env st key now cache s = (Inr d, obs, cache'', s')"
  shows "second \<le> d \<and> d \<le> max (untilNext period (State period = ''Up'') now) minute \<and> cache'' = cache'"
proof -
  from assms obtain nss obs1 s1 where c: "cache'' = cache'"
    and r: "runSchedule env st (globalKind schedule) (Core (sc_Spec schedule)) schedule nss period now s1 = (Inr d, obs1, s')"
    by (auto simp: Reconcile_def ReconcileActive_def Let_def split: sum.splits prod.splits)
  from run_requeues_in_time [OF r] c show ?thesis by simp
qed

text \<open>
  C14: While custom resources start, or a pass has stopped at its batch limit or in front of a
  sync wave, no GitOps controller is released: the server's state after the pass is the one
  the status is written to. While they start, no workload is touched either, the status keeps
  the numbers of the last pass, and the schedule polls every half minute.
\<close>

theorem unfinished_run_holds_back:
  assumes "runSchedule env st k core schedule namespaces period now s = (Inr d, obs, s')"
    and "integrations = \<lparr>ic_ScheduleObj = sk_Ref k, ic_Core = core, ic_ScheduleName = sc_Name schedule,
           ic_ScheduleLabel = sk_Label k, ic_Namespaces = namespaces\<rparr>"
    and "cfg = scaleConfig k (sc_Name schedule) namespaces (State period = ''Up'')
           (if State period = ''Up'' then UpscaleRateLimit core else DownscaleRateLimit core)
           (carriedWaveProgress (sc_Status schedule) period) now"
    and "scalePhase env core integrations cfg now s = (Inr (later, r), obs1, s1)"
    and "later \<or> stoppedEarly r"
  shows "\<exists>schedule'. update_status st schedule' s1 = (None, s') \<and> st_State (sc_Status schedule') = State period \<and>
    (later \<longrightarrow> integrationsUp (e_codec env) (e_api env) (e_recorder env) integrations now s = (True, obs1, s1) \<and>
       st_WorkloadStats (sc_Status schedule') = st_WorkloadStats (sc_Status schedule) \<and> d \<le> WarmupCheckInterval)"
proof -
  from assms(1) refl refl assms(2) assms(3) obtain later' r' obs1' s1' warming obs2 s2 t where
    sp: "scalePhase env core integrations cfg now s = (Inr (later', r'), obs1', s1')"
    and w: "warmupPhase env integrations (State period = ''Up'') later' r' now s1' = (warming, obs2, s2)"
    and u: "update_status st (statusAfter env k namespaces period later' r' t schedule) s2 = (None, s')"
    and d: "d = requeueTime period (State period = ''Up'') r'
      (if State period = ''Up'' then UpscaleRateLimit core else DownscaleRateLimit core) warming t now"
    by (rule runSchedule_done)
  from sp assms(4) have e: "later' = later" "r' = r" "s1' = s1" by simp_all
  from w assms(5) have s2: "s2 = s1" and warm: "later \<Longrightarrow> warming"
    unfolding e by (auto simp: warmupPhase_def warmupMayStart_def Let_def)
  have up: "integrationsUp (e_codec env) (e_api env) (e_recorder env) integrations now s = (True, obs1, s1) \<and> r = emptyResult"
    if later
    using assms(4) that by (auto simp: scalePhase_def split: if_splits prod.splits bool.splits option.splits)
  have "d \<le> WarmupCheckInterval" if later
  proof -
    have "\<not> batchLimitReached r" using up that by (simp add: emptyResult_def)
    let ?rl = "if State period = ''Up'' then UpscaleRateLimit core else DownscaleRateLimit core"
    have "calculateRequeueAfter period (State period = ''Up'') r ?rl warming now \<le> WarmupCheckInterval"
      using calculateRequeueAfter_bounds [of period "State period = ''Up''" r ?rl warming now]
        \<open>\<not> batchLimitReached r\<close> warm [OF that] by simp
    then show ?thesis
      using requeueTime_bounds [of period "State period = ''Up''" r ?rl warming t now] unfolding d e by linarith
  qed
  moreover have "st_State (sc_Status (statusAfter env k namespaces period later r t schedule)) = State period"
    "later \<Longrightarrow> st_WorkloadStats (sc_Status (statusAfter env k namespaces period later r t schedule)) =
       st_WorkloadStats (sc_Status schedule)"
    by (simp_all add: statusAfter_def withCondition_def)
  ultimately show ?thesis using u up unfolding e s2 by blast
qed

text \<open>
  The progress a status shows for an unfinished pass adds up: what is completed and what
  failed is at most the total, and something is left, so a pass is reported as in progress
  only while workloads are waiting.
\<close>

theorem reported_progress_adds_up:
  assumes "scaleWorkloads c core cfg recorder s = (Some r, None, obs, s1)" and "stoppedEarly r"
  shows "\<exists>p. st_ScalingProgress (sc_Status (statusAfter env k namespaces period False r t schedule)) = Some p \<and>
    sp_InProgress p \<and> sp_Completed p + sp_Failed p < sp_Total p \<and>
    (0 < passBudget (cfg_RateLimit cfg) \<longrightarrow> totalProcessed r \<le> passBudget (cfg_RateLimit cfg))"
proof -
  obtain collected s0 q where run: "runPass c recorder core cfg collected s0 = (r, None, q)"
    using assms(1) by (auto simp: scaleWorkloads_def split: sum.splits prod.splits)
  note f = pass_accounting_facts [OF run refl]
  have "totalProcessed r + totalSkipped r + totalFailed r < totalWorkloads r"
    using f assms(2) unfolding stoppedEarly_def by linarith
  moreover have "st_ScalingProgress (sc_Status (statusAfter env k namespaces period False r t schedule)) =
      Some \<lparr>sp_Total = totalWorkloads r, sp_Completed = totalProcessed r + totalSkipped r,
            sp_Failed = totalFailed r, sp_InProgress = True\<rparr>"
    using assms(2) by (simp add: statusAfter_def withCondition_def)
  ultimately show ?thesis using f by simp
qed

text \<open>
  A cluster-scoped schedule whose deletion went through has given back every workload
  that was listed as managed in its namespaces. A single error keeps the finalizer, so the
  deletion is tried again.
\<close>

theorem deletion_gives_back:
  assumes "mergingCluster (e_cluster env)"
    and "DiscoverNamespaces (cl_selectors (e_cluster env)) (e_listNamespaces env) (sc_Spec schedule) s = Inr discovered"
    and "FilterNamespacesWithLocalSchedules (e_listLocal env) discovered s = Inr nss"
    and "handleDeletion env st schedule now s = (Inr 0, obs, s')"
  shows "\<exists>wss s1. length wss = 3 * length nss \<and>
    re_read (restorePass env (sc_Name schedule) ''schedule'' nss s) = map Inr wss \<and>
    list_all2 (givenBack (sc_Name schedule)) (concat wss)
      (re_workloads (restorePass env (sc_Name schedule) ''schedule'' nss s)) \<and>
    update_schedule st (schedule\<lparr>sc_Finalizers := sc_Finalizers schedule - {FinalizerName}\<rparr>) s1 = (None, s')"
proof -
  from assms(2-4) have c: "cleanup env st (globalKind schedule) (Core (sc_Spec schedule)) schedule nss now s = (Inr 0, obs, s')"
    by (simp add: handleDeletion_def)
  obtain errs o1 s1 where r:
    "restoreManagedWorkloads env (Core (sc_Spec schedule)) (sc_Name schedule) ''schedule'' nss now s = (errs, o1, s1)"
    by (rule prod_cases3)
  have errs: "errs = []" using c r by (auto simp: cleanup_def globalKind_def kindName_def second_def split: if_splits)
  with c r have "update_schedule st (schedule\<lparr>sc_Finalizers := sc_Finalizers schedule - {FinalizerName}\<rparr>) s1 = (None, s')"
    by (auto simp: cleanup_def globalKind_def kindName_def split: prod.splits option.splits)
  with restore_gives_back [OF assms(1) r [unfolded errs]] show ?thesis by blast
qed

text \<open>A restore in no namespace does nothing.\<close>

lemma argoMatches_nowhere [simp]: "\<not> argoMatches [] app"
  by (simp add: argoMatches_def split: option.split json.split)

lemma argo_nowhere: "DiscoverArgoCDApps api cfg [] s = Inr apps \<Longrightarrow> apps = []"
  by (auto simp: DiscoverArgoCDApps_def Let_def split: sum.splits list_error.splits)

lemma flux_nowhere: "DiscoverFluxResources api cfg [] s = Inr r \<Longrightarrow> r = []"
proof -
  have f: "fold (addUnseen (\<lambda>i. targetNamespaceOf i \<noteq> [] \<and> targetNamespaceOf i \<in> set [])) items m = m" for items m
    by (induction items) (auto simp: addUnseen_def)
  then have k: "discoverKind api ns [] g s m = Inr r' \<Longrightarrow> r' = m" for ns g m r'
    by (auto simp: discoverKind_def split: sum.splits)
  show "DiscoverFluxResources api cfg [] s = Inr r \<Longrightarrow> r = []"
    by (auto simp: DiscoverFluxResources_def Let_def dest!: k split: sum.splits list_error.splits)
qed

lemma restoreEntry_nowhere: "restoreEntry jc api name [] now cfg p = p"
  by (simp add: restoreEntry_def DiscoverCustomResources_def case_prod_unfold)

lemma restoreAll_nowhere: "restoreAllCustomResources jc api core name [] now s = ([], s)"
proof -
  have "fold (restoreEntry jc api name [] now) cfgs p = p" for cfgs p
    by (induction cfgs) (simp_all add: restoreEntry_nowhere)
  then show ?thesis by (simp add: restoreAllCustomResources_def)
qed

lemma restore_nowhere: "restoreManagedWorkloads env core name kind [] now s = ([], [], s)"
proof -
  have "releaseArgo (e_api env) core name [] s = s"
    by (auto simp: releaseArgo_def dest!: argo_nowhere split: option.splits sum.splits)
  moreover have "releaseFlux (e_api env) core name [] s = s"
    by (auto simp: releaseFlux_def dest!: flux_nowhere split: option.splits sum.splits)
  ultimately show ?thesis by (simp add: restoreManagedWorkloads_def restorePass_def restoreAll_nowhere Let_def)
qed

text \<open>
  C33: When the namespaces of a deleted schedule cannot be discovered, for example because its
  selector is invalid, the deletion goes through at once: the finalizer is removed from a
  server on which nothing has been restored, and the event says that everything has been.
\<close>

theorem failed_discovery_abandons:
  assumes "DiscoverNamespaces (cl_selectors (e_cluster env)) (e_listNamespaces env) (sc_Spec schedule) s = Inl e"
    and "update_schedule st (schedule\<lparr>sc_Finalizers := sc_Finalizers schedule - {FinalizerName}\<rparr>) s = (None, s')"
    and "e_recorder env"
  shows "handleDeletion env st schedule now s =
    (Inr 0,
     EventRecorded (''LightsOutSchedule '' @ sc_Name schedule) ''Normal'' ''CleanupComplete'' ''Cleanup''
       ''All managed workloads restored to original state'' # clearScheduleMetrics (sc_Name schedule),
     s')"
  using assms by (simp add: handleDeletion_def cleanup_def restore_nowhere globalKind_def)

section \<open>Witnesses\<close>

definition sampleStore :: "(unit, 'spec) store" where
  "sampleStore = \<lparr>get_schedule = (\<lambda>key s. Inl Missing), update_schedule = (\<lambda>sc s. (None, s)),
     update_status = (\<lambda>sc s. (None, s))\<rparr>"

definition emptyStatus :: LightsOutScheduleStatus where
  "emptyStatus = \<lparr>st_State = [], st_LastUpscaleTime = None, st_LastDownscaleTime = None, st_NextUpscaleTime = None,
     st_NextDownscaleTime = None, st_ObservedGeneration = 0, st_Namespaces = [], st_WorkloadStats = emptyStats,
     st_ScalingProgress = None, st_WaveProgress = None, st_StuckTerminatingPods = 0, st_Conditions = []\<rparr>"

definition nightSchedule :: "'spec \<Rightarrow> 'spec schedule" where
  "nightSchedule spec = \<lparr>sc_Name = ''night'', sc_Namespace = ''shop'', sc_Generation = 1, sc_Finalizers = {FinalizerName},
     sc_DeletionTimestamp = None, sc_Spec = spec, sc_Status = emptyStatus\<rparr>"

definition morning :: PeriodResult where
  "morning = \<lparr>State = ''Up'', NextUpscale = 24 * hour, NextDownscale = 8 * hour, LastUpscale = 0, LastDownscale = - (16 * hour)\<rparr>"

text \<open>A schedule with one custom resource.\<close>

definition databaseCore :: LightsOutScheduleCore where
  "databaseCore = emptyCore\<lparr>CustomResources := [sampleEntry]\<rparr>"

text \<open>A cluster on which the pod of the database is or is not ready.\<close>

definition databaseEnv :: "string \<Rightarrow> (unit, string, unit, time \<Rightarrow> time) env" where
  "databaseEnv status = sampleEnv\<lparr>e_api := databaseApi\<lparr>api_listPods := (\<lambda>ns s. Inr [databasePod status])\<rparr>\<rparr>"

definition shopSpec :: "LabelSelector option \<Rightarrow> LightsOutScheduleSpec" where
  "shopSpec sel = \<lparr>Core = emptyCore, NamespaceSelector = sel, Namespaces = [''shop''], ExcludeNamespaces = []\<rparr>"

definition morningCache :: periodCache where
  "morningCache = [generateCacheKey (ce_sha256hex sampleCron) [] [] DefaultTimezone \<mapsto>
     \<lparr>cp_result = morning, cp_validUntil = 8 * hour\<rparr>]"

theorem reconcile_requeues_in_time_witness:
  "\<exists>d obs s'. Reconcile sampleEnv (sampleStore\<lparr>get_schedule := (\<lambda>key s. Inr (nightSchedule (shopSpec None)))\<rparr>)
       ([], ''night'') 0 morningCache () = (Inr d, obs, morningCache, s') \<and> second \<le> d \<and> d \<le> 8 * hour"
proof -
  let ?sc = "nightSchedule (shopSpec None)"
  let ?st = "sampleStore\<lparr>get_schedule := (\<lambda>key s. Inr ?sc)\<rparr>"
  let ?run = "Reconcile sampleEnv ?st ([], ''night'') 0 morningCache ()"
  have sc: "FinalizerName \<in> sc_Finalizers ?sc" "sc_DeletionTimestamp ?sc = None" "\<not> Suspend (Core (sc_Spec ?sc))"
    by (simp_all add: nightSchedule_def shopSpec_def emptyCore_def)
  have period: "CalculatePeriod (e_cron sampleEnv) morningCache (Upscale (Core (sc_Spec ?sc))) (Downscale (Core (sc_Spec ?sc)))
      (timezoneOf (Core (sc_Spec ?sc))) 0 = (Inr morning, morningCache)"
    by (simp add: CalculatePeriod_def getCachedPeriod_def morningCache_def nightSchedule_def shopSpec_def emptyCore_def
        timezoneOf_def sampleEnv_def hour_def minute_def second_def)
  have "\<not> isl (fst ?run)" by code_simp
  then obtain d obs c s' where run: "?run = (Inr d, obs, c, s')"
    by (metis prod.collapse sum.collapse(2))
  have "get_schedule ?st ([], ''night'') () = Inr ?sc" by simp
  from reconcile_requeues_in_time [OF this sc period run]
  have "second \<le> d \<and> d \<le> 8 * hour \<and> c = morningCache"
    by (simp add: untilNext_def morning_def timeSub_def hour_def minute_def second_def maxDuration_def minDuration_def)
  with run show ?thesis by blast
qed

theorem unfinished_run_holds_back_witness:
  "\<exists>d obs s'. runSchedule (databaseEnv ''False'') sampleStore (localKind (nightSchedule databaseCore)) databaseCore
       (nightSchedule databaseCore) [''shop''] morning 0 () = (Inr d, obs, s') \<and> d \<le> WarmupCheckInterval"
proof -
  let ?env = "databaseEnv ''False''" and ?sc = "nightSchedule databaseCore"
  let ?run = "runSchedule ?env sampleStore (localKind ?sc) databaseCore ?sc [''shop''] morning 0 ()"
  let ?cfg = "scaleConfig (localKind ?sc) (sc_Name ?sc) [''shop''] (State morning = ''Up'')
    (if State morning = ''Up'' then UpscaleRateLimit databaseCore else DownscaleRateLimit databaseCore)
    (carriedWaveProgress (sc_Status ?sc) morning) 0"
  let ?int = "\<lparr>ic_ScheduleObj = sk_Ref (localKind ?sc), ic_Core = databaseCore, ic_ScheduleName = sc_Name ?sc,
    ic_ScheduleLabel = sk_Label (localKind ?sc), ic_Namespaces = [''shop'']\<rparr>"
  have "\<not> isl (fst ?run)" by code_simp
  then obtain d obs s' where run: "?run = (Inr d, obs, s')"
    by (metis prod.collapse sum.collapse(2))
  have "(case fst (scalePhase ?env databaseCore ?int ?cfg 0 ()) of Inl e \<Rightarrow> False | Inr (later, r) \<Rightarrow> later)" by code_simp
  then obtain r obs1 s1 where sp: "scalePhase ?env databaseCore ?int ?cfg 0 () = (Inr (True, r), obs1, s1)"
    by (cases "scalePhase ?env databaseCore ?int ?cfg 0 ()") (auto split: sum.splits)
  from unfinished_run_holds_back [OF run refl refl sp] have "d \<le> WarmupCheckInterval" by blast
  with run show ?thesis by blast
qed

definition busyCluster :: "(unit, string) cluster" where
  "busyCluster = sampleCluster\<lparr>cl_listDeployments := (\<lambda>ns s.
     Inr [sampleWorkload (Some 3), sampleWorkload (Some 2), sampleWorkload (Some 1)])\<rparr>"

theorem reported_progress_adds_up_witness:
  "\<exists>r obs s1 p. scaleWorkloads busyCluster emptyCore (sampleConfig None) True () = (Some r, None, obs, s1) \<and>
     st_ScalingProgress (sc_Status (statusAfter sampleEnv (localKind (nightSchedule emptyCore)) [''shop''] morning False r
       noTermination (nightSchedule emptyCore))) = Some p \<and>
     sp_Completed p + sp_Failed p < sp_Total p"
proof -
  let ?run = "scaleWorkloads busyCluster emptyCore (sampleConfig None) True ()"
  have "(case ?run of (Some r, None, obs, s1) \<Rightarrow> stoppedEarly r | _ \<Rightarrow> False)" by code_simp
  then obtain r obs s1 where run: "?run = (Some r, None, obs, s1)" "stoppedEarly r"
    by (auto split: prod.splits option.splits)
  from reported_progress_adds_up [OF run] run(1) show ?thesis by blast
qed

theorem deletion_gives_back_witness:
  "\<exists>d'. re_workloads (restorePass sampleEnv ''night'' ''schedule'' [''shop''] ()) = [WDeployment d'] \<and>
     spec_replicas d' = Some 3"
proof -
  let ?sc = "nightSchedule (shopSpec None)"
  have disc: "DiscoverNamespaces (cl_selectors (e_cluster sampleEnv)) (e_listNamespaces sampleEnv) (sc_Spec ?sc) () = Inr [''shop'']"
    by (simp add: DiscoverNamespaces_def selectedNamespaces_def nightSchedule_def shopSpec_def SystemNamespaces_def)
  have filt: "FilterNamespacesWithLocalSchedules (e_listLocal sampleEnv) [''shop''] () = Inr [''shop'']" by simp
  have "fst (handleDeletion sampleEnv sampleStore ?sc 0 ()) = Inr 0" by code_simp
  then obtain obs s' where run: "handleDeletion sampleEnv sampleStore ?sc 0 () = (Inr 0, obs, s')"
    by (metis prod.collapse)
  have name: "sc_Name ?sc = ''night''" by (simp add: nightSchedule_def)
  from deletion_gives_back [OF sampleEnv_ok disc filt run] sample_given_back show ?thesis
    unfolding name by blast
qed

theorem failed_discovery_abandons_witness:
  "\<exists>obs. handleDeletion sampleEnv sampleStore (nightSchedule (shopSpec (Some \<lparr>MatchLabels = [], MatchExpressions = []\<rparr>))) 0 () =
     (Inr 0, obs, ())"
proof -
  let ?sc = "nightSchedule (shopSpec (Some \<lparr>MatchLabels = [], MatchExpressions = []\<rparr>))"
  have "DiscoverNamespaces (cl_selectors (e_cluster sampleEnv)) (e_listNamespaces sampleEnv) (sc_Spec ?sc) () = Inl ''unsupported''"
    by (simp add: DiscoverNamespaces_def selectedNamespaces_def nightSchedule_def shopSpec_def sampleCluster_def sampleSelectors_def)
  from failed_discovery_abandons [OF this, of sampleStore "()" 0]
  show ?thesis by (simp add: sampleStore_def)
qed

end
