(* ===== verification/Release.thy ===== *)
theory Release
  imports Fleet Controller_Facts
begin

text \<open>
  What the deletion of a schedule, cluster-scoped or namespace-scoped, comes to on the workloads
  of a cluster: exactly the workloads that carry the label of the schedule in its namespaces
  are released, each as \<open>wanted\<close> says, and nothing else changes.
\<close>

section \<open>The environment\<close>

text \<open>The label that the server selects by, and the lists it answers from the fleet.\<close>

definition labelled :: "string \<times> string \<Rightarrow> 'a kmeta_scheme list \<Rightarrow> 'a kmeta_scheme list" where
  "labelled sel objs = filter (\<lambda>o1. obj_labels o1 (fst sel) = Some (snd sel)) objs"

definition fleetEnv ::
  "('h, 'sel) surroundings \<Rightarrow> ('h world, 'sel, 'l, 'c) env \<Rightarrow> ('h world, 'sel, 'l, 'c) env" where
  "fleetEnv su base = base
     \<lparr>e_cluster := fleetCluster su,
      e_managedDeployments := (\<lambda>ns sel W. Inr (labelled sel (inNamespace ns (List.map_filter asDeployment (fleet W))))),
      e_managedStatefulSets := (\<lambda>ns sel W. Inr (labelled sel (inNamespace ns (List.map_filter asStatefulSet (fleet W))))),
      e_managedCronJobs := (\<lambda>ns sel W. Inr (labelled sel (inNamespace ns (List.map_filter asCronJob (fleet W)))))\<rparr>"

lemma fleetEnv_fields [simp]:
  "e_cluster (fleetEnv su base) = fleetCluster su" "e_recorder (fleetEnv su base) = e_recorder base"
  "e_api (fleetEnv su base) = e_api base" "e_codec (fleetEnv su base) = e_codec base"
  "e_managedDeployments (fleetEnv su base) ns sel W = Inr (labelled sel (inNamespace ns (List.map_filter asDeployment (fleet W))))"
  "e_managedStatefulSets (fleetEnv su base) ns sel W = Inr (labelled sel (inNamespace ns (List.map_filter asStatefulSet (fleet W))))"
  "e_managedCronJobs (fleetEnv su base) ns sel W = Inr (labelled sel (inNamespace ns (List.map_filter asCronJob (fleet W))))"
  by (simp_all add: fleetEnv_def)

text \<open>Writing GitOps objects, custom resources and schedules does not write workloads.\<close>

definition apartFromFleet :: "'h world api \<Rightarrow> ('h world, 'spec) store \<Rightarrow> bool" where
  "apartFromFleet api st \<longleftrightarrow>
     (\<forall>obj p W. fleet (snd (api_patch api obj p W)) = fleet W) \<and>
     (\<forall>obj W. fleet (snd (api_update api obj W)) = fleet W) \<and>
     (\<forall>sc W. fleet (snd (update_schedule st sc W)) = fleet W)"

lemma applyMergePatch_fleet:
  assumes "apartFromFleet api st" and "applyMergePatch (api_patch api) obj p W = (err, obj', W')"
  shows "fleet W' = fleet W"
proof -
  have "fleet (snd (api_patch api obj (build p) W)) = fleet W" using assms(1) by (simp add: apartFromFleet_def)
  with assms(2) show ?thesis by (auto simp: applyMergePatch_def split: prod.splits sum.splits)
qed

lemma patchIf_fleet:
  assumes "apartFromFleet api st" and "patchIf api po obj W = (r, obj', W')"
  shows "fleet W' = fleet W"
  using assms(2) by (auto simp: patchIf_def dest: applyMergePatch_fleet [OF assms(1)] split: option.splits prod.splits)

lemma forAll_fleet:
  assumes "\<And>obj W r obj' W'. one obj W = (r, obj', W') \<Longrightarrow> fleet W' = fleet W"
  shows "fleet (snd (forAll one objs W)) = fleet W"
proof (induction objs arbitrary: W)
  case (Cons obj objs)
  obtain r obj' W1 where "one obj W = (r, obj', W1)" by (rule prod_cases3)
  with assms [OF this] Cons [of W1] show ?case by (auto split: prod.splits)
qed simp

lemma release_fleet:
  assumes "apartFromFleet api st"
  shows "fleet (releaseArgo api core sched nss W) = fleet W" "fleet (releaseFlux api core sched nss W) = fleet W"
proof -
  have "fleet (snd (forAll (\<lambda>app. RemoveArgoCDAppLabels api app sched) apps W)) = fleet W"
    and "fleet (snd (forAll (\<lambda>r. ResumeFluxResource api r sched) apps W)) = fleet W" for apps
    by (rule forAll_fleet, simp add: RemoveArgoCDAppLabels_def ResumeFluxResource_def patchIf_fleet [OF assms])+
  then show "fleet (releaseArgo api core sched nss W) = fleet W" "fleet (releaseFlux api core sched nss W) = fleet W"
    by (auto simp: releaseArgo_def releaseFlux_def split: option.splits sum.splits)
qed

lemma clear_fleet:
  assumes "apartFromFleet api st" and "clearCustomResourceState api obj W = (err, obj', W')"
  shows "fleet W' = fleet W"
  using assms(2) by (auto simp: clearCustomResourceState_def dest: applyMergePatch_fleet [OF assms(1)])

lemma RestoreCustomResourceFields_fleet:
  assumes "apartFromFleet api st" and "RestoreCustomResourceFields jc api obj sched now W = (r, obj', W')"
  shows "fleet W' = fleet W"
proof -
  have u: "fleet W2 = fleet W" if "update api o1 W = (r2, o2, W2)" for o1 r2 o2 W2
  proof -
    have "fleet (snd (api_update api o1 W)) = fleet W" using assms(1) by (simp add: apartFromFleet_def)
    with that show ?thesis by (auto simp: update_def split: prod.splits sum.splits)
  qed
  show ?thesis using assms(2)
    by (auto simp: RestoreCustomResourceFields_def Let_def dest: u clear_fleet [OF assms(1)]
        split: if_splits prod.splits option.splits sum.splits)
qed

lemma restoreAll_fleet:
  assumes "apartFromFleet api st"
  shows "fleet (snd (restoreAllCustomResources jc api core sched nss now W)) = fleet W"
proof -
  have one: "fleet (snd (restoreOne jc api sched now cfg obj p)) = fleet (snd p)" for cfg obj p
    by (auto simp: restoreOne_def dest!: clear_fleet [OF assms] RestoreCustomResourceFields_fleet [OF assms]
        split: prod.splits sum.splits option.splits)
  have all: "fleet (snd (fold (restoreOne jc api sched now cfg) objs p)) = fleet (snd p)" for cfg objs p
    by (induction objs arbitrary: p) (simp_all add: one)
  have entry: "fleet (snd (restoreEntry jc api sched nss now cfg p)) = fleet (snd p)" for cfg p
    using all [of cfg] by (auto simp: restoreEntry_def split: prod.splits sum.splits)
  have "fleet (snd (fold (restoreEntry jc api sched nss now) cfgs p)) = fleet (snd p)" for cfgs p
    by (induction cfgs arbitrary: p) (simp_all add: entry)
  then show ?thesis by (simp add: restoreAllCustomResources_def)
qed

section \<open>The restore of the workloads\<close>

text \<open>The workloads a schedule's label is on, in the namespaces given.\<close>

definition carries :: "string \<Rightarrow> workload \<Rightarrow> bool" where
  "carries sched w \<longleftrightarrow> labelsOf w ManagedByLabel = Some sched"

lemma restoreWorkload_state:
  assumes "restoreWorkload c recorder sched kindS kind ns w p = p'"
    and "scaleOne c sched True w (re_hpas p) (re_state p) = (outcome, w', hpas', s')"
  shows "re_state p' = s'" "re_errors p' = [] \<longleftrightarrow> re_errors p = [] \<and> \<not> isl outcome"
  using assms by (cases outcome; auto simp: restoreWorkload_def Let_def)+

lemma errors_stay:
  "re_errors p \<noteq> [] \<Longrightarrow> re_errors (fold (restoreWorkload c recorder sched kindS kind ns) ws p) \<noteq> []"
  by (induction ws arbitrary: p) (auto simp: restoreWorkload_def Let_def split: prod.splits sum.splits)

text \<open>
  A restore releases some of the workloads it lists, and all of them if it reports no error.
\<close>

lemma restoreLoop_fleet:
  assumes "f = wanted sched True" and "consistent F"
    and "fleet (re_state p) = advance f V F" and "set ws \<subseteq> set F - V" and "distinct ws"
  shows "\<exists>U \<subseteq> set ws.
    fleet (re_state (fold (restoreWorkload (fleetCluster su) recorder sched kindS kind ns) ws p)) = advance f (V \<union> U) F \<and>
    (re_errors (fold (restoreWorkload (fleetCluster su) recorder sched kindS kind ns) ws p) = [] \<longrightarrow> re_errors p = [] \<and> U = set ws)"
  using assms(3-)
proof (induction ws arbitrary: p V)
  case (Cons w ws)
  obtain outcome w' hpas' s' where one: "scaleOne (fleetCluster su) sched True w (re_hpas p) (re_state p) = (outcome, w', hpas', s')"
    by (rule prod_cases4)
  let ?q = "restoreWorkload (fleetCluster su) recorder sched kindS kind ns w p"
  let ?rest = "\<lambda>q. fold (restoreWorkload (fleetCluster su) recorder sched kindS kind ns) ws q"
  note q = restoreWorkload_state [OF refl one, of recorder kindS kind ns]
  have f: "keyOf (f x) = keyOf x" for x unfolding assms(1) by (rule keyOf_wanted)
  have w: "w \<in> set F" "w \<notin> V" using Cons.prems(2) by auto
  then have here: "w \<in> set (fleet (re_state p))" unfolding Cons.prems(1) by (force simp: advance_def)
  have "consistent (fleet (re_state p))"
    using assms(2) keys_advance [of f V F, OF f] unfolding Cons.prems(1) consistent_def by simp
  note step = scaleOne_here [OF this here one]
  show ?case
  proof (cases outcome)
    case (Inl e)
    then have "fleet (re_state ?q) = advance f V F" using step Cons.prems(1) by (simp add: becomes_def q(1))
    then obtain U where U: "U \<subseteq> set ws" "fleet (re_state (?rest ?q)) = advance f (V \<union> U) F"
      using Cons.IH [of ?q V] Cons.prems(2,3) by auto
    moreover have "re_errors (?rest ?q) \<noteq> []"
      using Inl q(2) errors_stay [of ?q "fleetCluster su" recorder sched kindS kind ns ws] by simp
    ultimately show ?thesis by auto
  next
    case (Inr r)
    with step advance_insert [OF assms(2) w, of f, OF f] Cons.prems(1) have
      "fleet (re_state ?q) = advance f (insert w V) F" unfolding q(1) by (simp add: becomes_def assms(1))
    moreover have "set ws \<subseteq> set F - insert w V" "distinct ws" using Cons.prems(2,3) by auto
    ultimately obtain U where U: "U \<subseteq> set ws" "fleet (re_state (?rest ?q)) = advance f (insert w V \<union> U) F"
      "re_errors (?rest ?q) = [] \<longrightarrow> re_errors ?q = [] \<and> U = set ws" using Cons.IH by blast
    have "insert w V \<union> U = V \<union> insert w U" by simp
    with U q(2) show ?thesis by (intro exI [of _ "insert w U"]) (simp, blast)
  qed
qed simp

text \<open>What a kind of object lists does not depend on what was done to the others.\<close>

lemma ofKind_advance:
  assumes "\<forall>w \<in> V. (workloadNamespace w, workloadType w) \<noteq> (ns, ty)" and "\<And>x. keyOf (f x) = keyOf x"
  shows "ofKind ns ty (advance f V F) = ofKind ns ty F"
  using assms by (induction F) (auto simp: ofKind_def advance_def)

definition releasedIn :: "string \<Rightarrow> string list \<Rightarrow> workload list \<Rightarrow> workload set" where
  "releasedIn sched nss F = {w \<in> set F. workloadNamespace w \<in> set nss \<and> carries sched w}"

lemma restoreKind_fleet:
  assumes "f = wanted sched True" and "consistent F" and "fleet (re_state p) = advance f V F"
    and "answer = filter (carries sched) (ofKind ns ty (fleet (re_state p)))"
    and "\<forall>w \<in> V. (workloadNamespace w, workloadType w) \<noteq> (ns, ty)"
  shows "\<exists>U \<subseteq> {w \<in> set F. (workloadNamespace w, workloadType w) = (ns, ty) \<and> carries sched w}.
    fleet (re_state (restoreKind (fleetCluster su) recorder sched kindS kind kinds ns (Inr answer) p)) = advance f (V \<union> U) F \<and>
    (re_errors (restoreKind (fleetCluster su) recorder sched kindS kind kinds ns (Inr answer) p) = [] \<longrightarrow>
       re_errors p = [] \<and> U = {w \<in> set F. (workloadNamespace w, workloadType w) = (ns, ty) \<and> carries sched w})"
proof -
  let ?p = "p\<lparr>re_read := re_read p @ [Inr answer]\<rparr>"
  have k: "restoreKind (fleetCluster su) recorder sched kindS kind kinds ns (Inr answer) p =
      fold (restoreWorkload (fleetCluster su) recorder sched kindS kind ns) answer ?p"
    by (simp add: restoreKind_def)
  have "ofKind ns ty (fleet (re_state p)) = ofKind ns ty F"
    unfolding assms(3) by (rule ofKind_advance [OF assms(5)]) (unfold assms(1), rule keyOf_wanted)
  then have a: "answer = filter (carries sched) (ofKind ns ty F)" using assms(4) by simp
  have s: "set answer = {w \<in> set F. (workloadNamespace w, workloadType w) = (ns, ty) \<and> carries sched w}"
    by (auto simp: a ofKind_def)
  have d: "distinct answer" using assms(2) by (simp add: a ofKind_def consistent_def distinct_map)
  have "fleet (re_state ?p) = advance f V F" "set answer \<subseteq> set F - V" using assms(3,5) s by auto
  from restoreLoop_fleet [OF assms(1,2) this d] show ?thesis unfolding k s by simp
qed

lemma listed_labelled:
  "listed WorkloadFromDeployment (Inr (labelled (managedSelector sched) (inNamespace ns (List.map_filter asDeployment F)))) =
     Inr (filter (carries sched) (ofKind ns WorkloadTypeDeployment F))"
  "listed WorkloadFromStatefulSet (Inr (labelled (managedSelector sched) (inNamespace ns (List.map_filter asStatefulSet F)))) =
     Inr (filter (carries sched) (ofKind ns WorkloadTypeStatefulSet F))"
  "listed WorkloadFromCronJob (Inr (labelled (managedSelector sched) (inNamespace ns (List.map_filter asCronJob F)))) =
     Inr (filter (carries sched) (ofKind ns WorkloadTypeCronJob F))"
  unfolding listed_of_kind [symmetric]
  by (simp_all add: listed_def labelled_def managedSelector_def filter_map o_def carries_def
      WorkloadFromDeployment_def WorkloadFromStatefulSet_def WorkloadFromCronJob_def)

lemma restoreNamespace_fleet:
  assumes "f = wanted sched True" and "consistent F" and "fleet (re_state p) = advance f V F"
    and "\<forall>w \<in> V. workloadNamespace w \<noteq> ns"
  shows "\<exists>U \<subseteq> releasedIn sched [ns] F.
    fleet (re_state (restoreNamespace (fleetEnv su base) sched kindS ns p)) = advance f (V \<union> U) F \<and>
    (re_errors (restoreNamespace (fleetEnv su base) sched kindS ns p) = [] \<longrightarrow> re_errors p = [] \<and> U = releasedIn sched [ns] F)"
proof -
  let ?h = "case listHPAs (cl_listHPAs (fleetCluster su)) ns (re_state p) of Inl e \<Rightarrow> None | Inr lst \<Rightarrow> lst"
  let ?K = "\<lambda>kind kinds ty q. restoreKind (fleetCluster su) (e_recorder base) sched kindS kind kinds ns
    (Inr (filter (carries sched) (ofKind ns ty (fleet (re_state q))))) q"
  define p0 where "p0 = p\<lparr>re_hpas := ?h\<rparr>"
  define p1 where "p1 = ?K ''deployment'' ''deployments'' WorkloadTypeDeployment p0"
  define p2 where "p2 = ?K ''statefulset'' ''statefulsets'' WorkloadTypeStatefulSet p1"
  define p3 where "p3 = ?K ''cronjob'' ''cronjobs'' WorkloadTypeCronJob p2"
  let ?N = "\<lambda>ty. {w \<in> set F. (workloadNamespace w, workloadType w) = (ns, ty) \<and> carries sched w}"
  have run: "restoreNamespace (fleetEnv su base) sched kindS ns p = p3"
    unfolding restoreNamespace_def Let_def p3_def p2_def p1_def p0_def
    by (simp only: fleetEnv_fields listManagedDeployments_def listManagedStatefulSets_def listManagedCronJobs_def listed_labelled)
  note types = WorkloadTypeDeployment_def WorkloadTypeStatefulSet_def WorkloadTypeCronJob_def
  note kind = restoreKind_fleet [OF assms(1,2) _ refl]
  have F0: "fleet (re_state p0) = advance f V F" by (simp add: p0_def assms(3))
  have "\<forall>w \<in> V. (workloadNamespace w, workloadType w) \<noteq> (ns, WorkloadTypeDeployment)" using assms(4) by auto
  from kind [OF F0 this, where su = su and recorder = "e_recorder base" and kindS = kindS and kind = "''deployment''" and kinds = "''deployments''", folded p1_def] obtain A where A: "A \<subseteq> ?N WorkloadTypeDeployment" "fleet (re_state p1) = advance f (V \<union> A) F"
    "re_errors p1 = [] \<longrightarrow> re_errors p0 = [] \<and> A = ?N WorkloadTypeDeployment" by blast
  have "\<forall>w \<in> V \<union> A. (workloadNamespace w, workloadType w) \<noteq> (ns, WorkloadTypeStatefulSet)"
    using assms(4) A(1) by (auto simp: types)
  from kind [OF A(2) this, where su = su and recorder = "e_recorder base" and kindS = kindS and kind = "''statefulset''" and kinds = "''statefulsets''", folded p2_def] obtain B where B: "B \<subseteq> ?N WorkloadTypeStatefulSet" "fleet (re_state p2) = advance f (V \<union> A \<union> B) F"
    "re_errors p2 = [] \<longrightarrow> re_errors p1 = [] \<and> B = ?N WorkloadTypeStatefulSet" by blast
  have "\<forall>w \<in> V \<union> A \<union> B. (workloadNamespace w, workloadType w) \<noteq> (ns, WorkloadTypeCronJob)"
    using assms(4) A(1) B(1) by (auto simp: types)
  from kind [OF B(2) this, where su = su and recorder = "e_recorder base" and kindS = kindS and kind = "''cronjob''" and kinds = "''cronjobs''", folded p3_def] obtain C where C: "C \<subseteq> ?N WorkloadTypeCronJob" "fleet (re_state p3) = advance f (V \<union> A \<union> B \<union> C) F"
    "re_errors p3 = [] \<longrightarrow> re_errors p2 = [] \<and> C = ?N WorkloadTypeCronJob" by blast
  have "workloadType w \<in> {WorkloadTypeDeployment, WorkloadTypeStatefulSet, WorkloadTypeCronJob}" for w by (cases w) simp_all
  then have all: "?N WorkloadTypeDeployment \<union> ?N WorkloadTypeStatefulSet \<union> ?N WorkloadTypeCronJob = releasedIn sched [ns] F"
    by (auto simp: releasedIn_def)
  have "A \<union> B \<union> C \<subseteq> releasedIn sched [ns] F" using A(1) B(1) C(1) unfolding all [symmetric] by blast
  moreover have "fleet (re_state p3) = advance f (V \<union> (A \<union> B \<union> C)) F" using C(2) by (simp add: Un_assoc)
  moreover have "re_errors p3 = [] \<longrightarrow> re_errors p = [] \<and> A \<union> B \<union> C = releasedIn sched [ns] F"
  proof
    assume "re_errors p3 = []"
    with A(3) B(3) C(3) have "A = ?N WorkloadTypeDeployment" "B = ?N WorkloadTypeStatefulSet" "C = ?N WorkloadTypeCronJob"
      "re_errors p0 = []" by blast+
    then show "re_errors p = [] \<and> A \<union> B \<union> C = releasedIn sched [ns] F" unfolding all [symmetric] by (simp only: p0_def) simp
  qed
  ultimately show ?thesis unfolding run by blast
qed

lemma restorePass_fleet:
  assumes "f = wanted sched True" and "consistent F" and "fleet (re_state p) = advance f V F"
    and "\<forall>w \<in> V. workloadNamespace w \<notin> set nss" and "distinct nss"
  shows "\<exists>U \<subseteq> releasedIn sched nss F.
    fleet (re_state (fold (restoreNamespace (fleetEnv su base) sched kindS) nss p)) = advance f (V \<union> U) F \<and>
    (re_errors (fold (restoreNamespace (fleetEnv su base) sched kindS) nss p) = [] \<longrightarrow> re_errors p = [] \<and> U = releasedIn sched nss F)"
  using assms(3-)
proof (induction nss arbitrary: p V)
  case Nil
  then show ?case by (simp add: releasedIn_def)
next
  case (Cons ns nss)
  let ?q = "restoreNamespace (fleetEnv su base) sched kindS ns p"
  let ?rest = "fold (restoreNamespace (fleetEnv su base) sched kindS) nss ?q"
  have V: "\<forall>w \<in> V. workloadNamespace w \<noteq> ns" using Cons.prems(2) by auto
  from restoreNamespace_fleet [OF assms(1,2) Cons.prems(1) V] obtain A where
    A: "A \<subseteq> releasedIn sched [ns] F" "fleet (re_state ?q) = advance f (V \<union> A) F"
    "re_errors ?q = [] \<longrightarrow> re_errors p = [] \<and> A = releasedIn sched [ns] F" by blast
  have "\<forall>w \<in> V \<union> A. workloadNamespace w \<notin> set nss" "distinct nss"
    using Cons.prems(2,3) A(1) by (auto simp: releasedIn_def)
  from Cons.IH [OF A(2) this] obtain B where
    B: "B \<subseteq> releasedIn sched nss F" "fleet (re_state ?rest) = advance f (V \<union> A \<union> B) F"
    "re_errors ?rest = [] \<longrightarrow> re_errors ?q = [] \<and> B = releasedIn sched nss F" by blast
  have all: "releasedIn sched (ns # nss) F = releasedIn sched [ns] F \<union> releasedIn sched nss F" by (auto simp: releasedIn_def)
  have "A \<union> B \<subseteq> releasedIn sched (ns # nss) F" using A(1) B(1) unfolding all by blast
  moreover have "fleet (re_state ?rest) = advance f (V \<union> (A \<union> B)) F" using B(2) by (simp add: Un_assoc)
  moreover have "re_errors ?rest = [] \<longrightarrow> re_errors p = [] \<and> A \<union> B = releasedIn sched (ns # nss) F"
    using A(3) B(3) unfolding all by blast
  ultimately show ?case unfolding fold_simps by blast
qed

text \<open>The restore of everything the schedule holds.\<close>

lemma restoreManaged_fleet:
  assumes "restoreManagedWorkloads (fleetEnv su base) core sched kindS nss now W = (errs, obs, W')"
    and "apartFromFleet (e_api base) st" and "consistent (fleet W)" and "distinct nss"
  shows "\<exists>U \<subseteq> releasedIn sched nss (fleet W). fleet W' = advance (wanted sched True) U (fleet W) \<and>
    (errs = [] \<longrightarrow> U = releasedIn sched nss (fleet W))"
proof -
  let ?env = "fleetEnv su base"
  let ?p = "restorePass ?env sched kindS nss W"
  have f1: "fleet W' = fleet (re_state ?p)"
    using assms(1) restoreAll_fleet [OF assms(2), of "e_codec base" core sched nss now] release_fleet [OF assms(2)]
    by (auto simp: restoreManagedWorkloads_def Let_def split: if_splits prod.splits) (metis snd_conv)
  have e: "errs = [] \<longrightarrow> re_errors ?p = []"
    using assms(1) by (auto simp: restoreManagedWorkloads_def Let_def split: if_splits prod.splits)
  have "\<exists>U \<subseteq> releasedIn sched nss (fleet W). fleet (re_state ?p) = advance (wanted sched True) ({} \<union> U) (fleet W) \<and>
      (re_errors ?p = [] \<longrightarrow> re_errors \<lparr>re_errors = [], re_obs = [], re_read = [], re_workloads = [], re_hpas = None, re_state = W\<rparr> = [] \<and>
         U = releasedIn sched nss (fleet W))"
    unfolding restorePass_def by (intro restorePass_fleet [OF refl assms(3)]) (simp_all add: assms(4))
  with f1 e show ?thesis by auto
qed

text \<open>A cleanup releases some of the workloads, and all of them when it goes through.\<close>

lemma cleanup_some:
  assumes "cleanup (fleetEnv su base) st k core schedule nss now W = (r, obs, W')"
    and "apartFromFleet (e_api base) st" and "consistent (fleet W)" and "distinct nss"
  shows "\<exists>U \<subseteq> releasedIn (sc_Name schedule) nss (fleet W).
    fleet W' = advance (wanted (sc_Name schedule) True) U (fleet W) \<and>
    (r = Inr 0 \<longrightarrow> U = releasedIn (sc_Name schedule) nss (fleet W))"
proof -
  let ?s = "sc_Name schedule" and ?env = "fleetEnv su base"
  obtain errs o1 W1 where m: "restoreManagedWorkloads ?env core ?s (kindName k) nss now W = (errs, o1, W1)"
    by (rule prod_cases3)
  have u: "fleet (snd (update_schedule st sc W1)) = fleet W1" for sc using assms(2) by (simp add: apartFromFleet_def)
  have "W' = (if errs = [] then snd (update_schedule st (schedule\<lparr>sc_Finalizers := sc_Finalizers schedule - {FinalizerName}\<rparr>) W1) else W1)"
    using assms(1) m by (auto simp: cleanup_def split: prod.splits)
  then have "fleet W' = fleet W1" using u by simp
  moreover have "r = Inr 0 \<longrightarrow> errs = []" using assms(1) m by (auto simp: cleanup_def second_def split: if_splits)
  ultimately show ?thesis using restoreManaged_fleet [OF m assms(2-4)] by auto
qed

lemma cleanup_fleet:
  assumes "cleanup (fleetEnv su base) st k core schedule nss now W = (Inr 0, obs, W')"
    and "apartFromFleet (e_api base) st" and "consistent (fleet W)" and "distinct nss"
  shows "fleet W' = map (\<lambda>w. if workloadNamespace w \<in> set nss \<and> carries (sc_Name schedule) w
      then wanted (sc_Name schedule) True w else w) (fleet W)"
  using cleanup_some [OF assms] by (auto simp: advance_def releasedIn_def)

lemma filtered_distinct:
  "distinct nss \<Longrightarrow> FilterNamespacesWithLocalSchedules lst nss s = Inr nss' \<Longrightarrow> distinct nss'"
  by (induction nss arbitrary: nss') (use FilterNamespaces_subset in \<open>fastforce split: sum.splits if_splits\<close>)+

section \<open>Properties\<close>

text \<open>
  C2: The deletion of a cluster-scoped schedule that goes through has released exactly the
  workloads that carry its label in the namespaces it selects and no namespace schedule has:
  each has its recorded replica count or runs again, without the marks. No other workload has
  changed, whatever passes, autoscalers and GitOps objects were involved.
\<close>

theorem deletion_releases:
  assumes "handleDeletion (fleetEnv su base) st schedule now W = (Inr 0, obs, W')"
    and "DiscoverNamespaces (su_selectors su) (e_listNamespaces base) (sc_Spec schedule) W = Inr discovered"
    and "FilterNamespacesWithLocalSchedules (e_listLocal base) discovered W = Inr nss"
    and "apartFromFleet (e_api base) st" and "consistent (fleet W)"
  shows "fleet W' = map (\<lambda>w. if workloadNamespace w \<in> set nss \<and> carries (sc_Name schedule) w
      then wanted (sc_Name schedule) True w else w) (fleet W)"
proof -
  have "distinct discovered"
    using assms(2) by (auto simp: DiscoverNamespaces_def Let_def split: sum.splits)
  then have "distinct nss" by (rule filtered_distinct [OF _ assms(3)])
  moreover have "cleanup (fleetEnv su base) st (globalKind schedule) (Core (sc_Spec schedule)) schedule nss now W = (Inr 0, obs, W')"
    using assms(1-3) by (simp add: handleDeletion_def fleetEnv_def)
  ultimately show ?thesis using cleanup_fleet assms(4,5) by blast
qed

text \<open>
  C11: The deletion of a namespace schedule that goes through has released exactly the workloads
  of its namespace that carry its label, with their recorded replica counts, and changed no other.
\<close>

theorem namespace_deletion_releases:
  assumes "handleNamespaceDeletion (fleetEnv su base) st schedule now W = (Inr 0, obs, W')"
    and "apartFromFleet (e_api base) st" and "consistent (fleet W)"
  shows "fleet W' = map (\<lambda>w. if workloadNamespace w = sc_Namespace schedule \<and> carries (sc_Name schedule) w
      then wanted (sc_Name schedule) True w else w) (fleet W)"
  using cleanup_fleet [OF assms(1) [unfolded handleNamespaceDeletion_def] assms(2,3)] by simp

text \<open>A cluster with one Deployment the schedule holds and one it has never touched.\<close>

definition heldWorld :: "unit world" where
  "heldWorld = \<lparr>fleet = [WDeployment sampleDown, WDeployment ((sampleWorkload (Some 2))\<lparr>obj_name := ''api''\<rparr>)], autoscalers = ()\<rparr>"

definition heldEnv :: "(unit world, string, unit, time \<Rightarrow> time) env" where
  "heldEnv = \<lparr>e_cluster = fleetCluster sampleSurroundings, e_api = emptyApi, e_codec = sampleCodec, e_cron = sampleCron,
     e_recorder = True, e_listNamespaces = (\<lambda>sel s. Inr [''shop'']), e_listLocal = (\<lambda>ns n s. Inr []),
     e_managedDeployments = (\<lambda>ns sel s. Inr []), e_managedStatefulSets = (\<lambda>ns sel s. Inr []),
     e_managedCronJobs = (\<lambda>ns sel s. Inr []), e_allDeployments = (\<lambda>sel s. Inr []), e_allStatefulSets = (\<lambda>sel s. Inr []),
     e_allCronJobs = (\<lambda>sel s. Inr []), e_setCondition = (\<lambda>cs c. cs)\<rparr>"

definition quietStore :: "(unit world, 'spec) store" where
  "quietStore = \<lparr>get_schedule = (\<lambda>key s. Inl Missing), update_schedule = (\<lambda>sc s. (None, s)),
     update_status = (\<lambda>sc s. (None, s))\<rparr>"

lemma held_apart: "apartFromFleet (e_api heldEnv) quietStore"
  by (simp add: apartFromFleet_def heldEnv_def emptyApi_def quietStore_def mergingServer_def)

lemma held_consistent: "consistent (fleet heldWorld)"
  by code_simp

lemma held_back:
  assumes "F = map (\<lambda>w. if workloadNamespace w = ''shop'' \<and> carries ''night'' w then wanted ''night'' True w else w) (fleet heldWorld)"
  shows "\<exists>d'. F = [WDeployment d', WDeployment ((sampleWorkload (Some 2))\<lparr>obj_name := ''api''\<rparr>)] \<and>
    spec_replicas d' = Some 3 \<and> obj_labels d' ManagedByLabel = None"
proof -
  have r: "recordedReplicas sampleDown = 3" by code_simp
  have f: "obj_namespace sampleDown = ''shop''" "obj_labels sampleDown = [ManagedByLabel \<mapsto> ''night'']"
    "mget (obj_annotations sampleDown) OriginalReplicasAnnotation = ''3''" "mget (obj_annotations sampleDown) ManagedByAnnotation = ''night''"
    by (simp_all add: sampleDown_def sampleWorkload_def)
  show ?thesis unfolding assms
    by (simp add: heldWorld_def carries_def f upReplicas_def heldReplicas_def r sampleWorkload_def)
qed

theorem deletion_releases_witness:
  "\<exists>obs W' d'. handleDeletion (fleetEnv sampleSurroundings heldEnv) quietStore (nightSchedule (shopSpec None)) 0 heldWorld = (Inr 0, obs, W') \<and>
     fleet W' = [WDeployment d', WDeployment ((sampleWorkload (Some 2))\<lparr>obj_name := ''api''\<rparr>)] \<and>
     spec_replicas d' = Some 3 \<and> obj_labels d' ManagedByLabel = None"
proof -
  let ?sc = "nightSchedule (shopSpec None)"
  have disc: "DiscoverNamespaces (su_selectors sampleSurroundings) (e_listNamespaces heldEnv) (sc_Spec ?sc) heldWorld = Inr [''shop'']"
    by (simp add: DiscoverNamespaces_def selectedNamespaces_def nightSchedule_def shopSpec_def SystemNamespaces_def)
  have filt: "FilterNamespacesWithLocalSchedules (e_listLocal heldEnv) [''shop''] heldWorld = Inr [''shop'']"
    by (simp add: heldEnv_def)
  have "fst (handleDeletion (fleetEnv sampleSurroundings heldEnv) quietStore ?sc 0 heldWorld) = Inr 0" by code_simp
  then obtain obs W' where run: "handleDeletion (fleetEnv sampleSurroundings heldEnv) quietStore ?sc 0 heldWorld = (Inr 0, obs, W')"
    by (metis prod.collapse)
  have "sc_Name ?sc = ''night''" by (simp add: nightSchedule_def)
  with deletion_releases [OF run disc filt held_apart held_consistent] held_back [of "fleet W'"] run show ?thesis by auto
qed

theorem namespace_deletion_releases_witness:
  "\<exists>obs W' d'. handleNamespaceDeletion (fleetEnv sampleSurroundings heldEnv) quietStore (nightSchedule emptyCore) 0 heldWorld = (Inr 0, obs, W') \<and>
     fleet W' = [WDeployment d', WDeployment ((sampleWorkload (Some 2))\<lparr>obj_name := ''api''\<rparr>)] \<and>
     spec_replicas d' = Some 3 \<and> obj_labels d' ManagedByLabel = None"
proof -
  let ?sc = "nightSchedule emptyCore"
  have "fst (handleNamespaceDeletion (fleetEnv sampleSurroundings heldEnv) quietStore ?sc 0 heldWorld) = Inr 0" by code_simp
  then obtain obs W' where run: "handleNamespaceDeletion (fleetEnv sampleSurroundings heldEnv) quietStore ?sc 0 heldWorld = (Inr 0, obs, W')"
    by (metis prod.collapse)
  have "sc_Name ?sc = ''night''" "sc_Namespace ?sc = ''shop''" by (simp_all add: nightSchedule_def)
  with namespace_deletion_releases [OF run held_apart held_consistent] held_back [of "fleet W'"] run show ?thesis by auto
qed

end
