(* ===== verification/Operator.thy ===== *)
theory Operator
  imports Night Release
begin

text \<open>
  The night of \<open>Night\<close> as the cluster-scoped reconciler lives it: whole reconciles, with the
  orphan search, the integrations, the pass, the warm-up, the termination check and the status,
  on a server that stores the workloads. A reconcile comes to a pass between two steps in which
  nothing is written into a workload.
\<close>

section \<open>What leaves the workloads alone\<close>

text \<open>No other write of the program writes a workload.\<close>

definition separate :: "'h world api \<Rightarrow> ('h world, 'spec) store \<Rightarrow> bool" where
  "separate api st \<longleftrightarrow> apartFromFleet api st \<and>
     (\<forall>obj W. fleet (snd (api_delete api obj W)) = fleet W) \<and>
     (\<forall>sc W. fleet (snd (update_status st sc W)) = fleet W)"

lemma separate_apart: "separate api st \<Longrightarrow> apartFromFleet api st"
  by (simp add: separate_def)

text \<open>An operation on one object that leaves the workloads alone.\<close>

definition keepsFleet :: "(json \<Rightarrow> 'h world \<Rightarrow> 'r \<times> json \<times> 'h world) \<Rightarrow> bool" where
  "keepsFleet one \<longleftrightarrow> (\<forall>obj W. fleet (snd (snd (one obj W))) = fleet W)"

lemma keepsFleetI:
  "(\<And>obj W r obj' W'. one obj W = (r, obj', W') \<Longrightarrow> fleet W' = fleet W) \<Longrightarrow> keepsFleet one"
  unfolding keepsFleet_def by (metis prod.collapse)

lemma keepsFleetD: "keepsFleet one \<Longrightarrow> one obj W = (r, obj', W') \<Longrightarrow> fleet W' = fleet W"
  unfolding keepsFleet_def by (metis snd_conv)

lemma driveAll_fleet:
  assumes "driveAll one objs W = (r, objs', W')" and "keepsFleet one"
  shows "fleet W' = fleet W"
  using assms(1)
proof (induction objs arbitrary: W r objs' W')
  case (Cons obj objs)
  obtain r1 o1 W1 where 1: "one obj W = (r1, o1, W1)" by (rule prod_cases3)
  obtain r2 o2 W2 where 2: "driveAll one objs W1 = (r2, o2, W2)" by (rule prod_cases3)
  from Cons.IH [OF 2] keepsFleetD [OF assms(2) 1] Cons.prems 1 2 show ?case by simp
qed simp

lemma finishWarmup_fleet:
  assumes "apartFromFleet api st" and "finishWarmup api completion ns timedOut obj W = (r, obj', W')"
  shows "fleet W' = fleet W"
  using assms(2) by (auto simp: finishWarmup_def dest: applyMergePatch_fleet [OF assms(1)]
      split: sum.splits bool.splits prod.splits option.splits)

lemma forAll_keeps:
  assumes "forAll one objs W = (objs', W')" and "keepsFleet one"
  shows "fleet W' = fleet W"
proof -
  have "fleet (snd (forAll one objs W)) = fleet W" by (rule forAll_fleet) (rule keepsFleetD [OF assms(2)])
  with assms(1) show ?thesis by simp
qed

lemma gitops_fleet:
  assumes a: "apartFromFleet api st"
  shows "labelArgoCDAppsDown api recorder obj cfgA sched nss W = (apps, obs, W') \<Longrightarrow> fleet W' = fleet W"
    "labelFluxResourcesDown api recorder obj cfgF sched nss W = (apps, obs, W') \<Longrightarrow> fleet W' = fleet W"
    "handleArgoCDWarmup api recorder obj cfgA sched nss now W = (t, apps, obs, W') \<Longrightarrow> fleet W' = fleet W"
    "handleFluxCDWarmup api recorder obj cfgF sched nss now W = (t, apps, obs, W') \<Longrightarrow> fleet W' = fleet W"
proof -
  note p = patchIf_fleet [OF a] and w = finishWarmup_fleet [OF a]
  have ad: "keepsFleet (\<lambda>app. LabelArgoCDAppDown api app sched)" by (rule keepsFleetI) (simp add: LabelArgoCDAppDown_def p)
  have fd: "keepsFleet (\<lambda>r. SuspendFluxResource api r sched)" by (rule keepsFleetI) (simp add: SuspendFluxResource_def p)
  show "labelArgoCDAppsDown api recorder obj cfgA sched nss W = (apps, obs, W') \<Longrightarrow> fleet W' = fleet W"
    by (auto simp: labelArgoCDAppsDown_def dest: forAll_keeps [OF _ ad] split: sum.splits prod.splits)
  show "labelFluxResourcesDown api recorder obj cfgF sched nss W = (apps, obs, W') \<Longrightarrow> fleet W' = fleet W"
    by (auto simp: labelFluxResourcesDown_def dest: forAll_keeps [OF _ fd] split: sum.splits prod.splits)
  have aw: "keepsFleet (argoWarmupOne api sched timeout now)" for timeout
    by (rule keepsFleetI) (auto simp: argoWarmupOne_def Let_def LabelArgoCDAppWarmingUp_def dest: w p split: if_splits prod.splits)
  have fw: "keepsFleet (fluxWarmupOne api sched timeout now)" for timeout
    by (rule keepsFleetI)
      (auto simp: fluxWarmupOne_def Let_def TransitionFluxResourceToWarmingUp_def dest: w p split: if_splits prod.splits)
  show "handleArgoCDWarmup api recorder obj cfgA sched nss now W = (t, apps, obs, W') \<Longrightarrow> fleet W' = fleet W"
    by (auto simp: handleArgoCDWarmup_def dest: driveAll_fleet [OF _ aw] split: sum.splits prod.splits)
  show "handleFluxCDWarmup api recorder obj cfgF sched nss now W = (t, apps, obs, W') \<Longrightarrow> fleet W' = fleet W"
    by (auto simp: handleFluxCDWarmup_def dest: driveAll_fleet [OF _ fw] split: sum.splits prod.splits)
qed

lemma scaleEach_fleet:
  assumes "scaleEach scale failed done objs W = (t, obs, W')" and "keepsFleet scale"
  shows "fleet W' = fleet W"
  using assms(1)
proof (induction objs arbitrary: W t obs W')
  case (Cons obj objs)
  obtain r1 o1 W1 where 1: "scale obj W = (r1, o1, W1)" by (rule prod_cases3)
  obtain t2 o2 W2 where 2: "scaleEach scale failed done objs W1 = (t2, o2, W2)" by (rule prod_cases3)
  from Cons.IH [OF 2] keepsFleetD [OF assms(2) 1] Cons.prems 1 2 show ?case by (auto split: sum.splits bool.splits)
qed simp

lemma turnDown_fleet:
  assumes "apartFromFleet api st" and "TurnCustomResourceDown jc api obj cfg sched W = (r, obj', W')"
  shows "fleet W' = fleet W"
proof -
  have u: "fleet W2 = fleet W" if "update api o1 W = (r2, o2, W2)" for o1 r2 o2 W2
  proof -
    have "fleet (snd (api_update api o1 W)) = fleet W" using assms(1) by (simp add: apartFromFleet_def)
    with that show ?thesis by (auto simp: update_def split: prod.splits sum.splits)
  qed
  show ?thesis using assms(2) by (auto simp: TurnCustomResourceDown_def dest: u split: if_splits sum.splits prod.splits)
qed

lemma deleteLoop_fleet:
  assumes "separate api st" and "deleteLoop api cfg objs n W = (m, e, W')"
  shows "fleet W' = fleet W"
  using assms(2)
proof (induction objs arbitrary: n W)
  case (Cons obj objs)
  have "fleet (snd (api_delete api obj W)) = fleet W" using assms(1) by (simp add: separate_def)
  with Cons show ?case by (auto split: prod.splits option.splits delete_error.splits)
qed simp

lemma customResources_fleet:
  assumes s: "separate api st"
  shows "customResourcesDown jc api recorder obj sched label nss cfgs W = (obs, W') \<Longrightarrow> fleet W' = fleet W"
    "customResourcesUp jc api recorder obj sched label nss now cfgs W = (t, obs, W') \<Longrightarrow> fleet W' = fleet W"
proof -
  note a = separate_apart [OF s]
  have td: "keepsFleet (\<lambda>obj. TurnCustomResourceDown jc api obj cfg sched)" for cfg
    by (rule keepsFleetI) (rule turnDown_fleet [OF a])
  have rs: "keepsFleet (\<lambda>obj. RestoreCustomResourceFields jc api obj sched now)"
    by (rule keepsFleetI) (rule RestoreCustomResourceFields_fleet [OF a])
  have d: "downEntry jc api recorder obj sched label nss cfg W = (obs, W') \<Longrightarrow> fleet W' = fleet W" for cfg W obs W'
    by (auto simp: downEntry_def DeleteCustomResources_def dest: deleteLoop_fleet [OF s]
        dest: scaleEach_fleet [OF _ td] split: if_splits prod.splits option.splits sum.splits)
  have u: "upEntry jc api recorder obj sched label nss now cfg W = (t, obs, W') \<Longrightarrow> fleet W' = fleet W" for cfg W t obs W'
    by (auto simp: upEntry_def Let_def dest: scaleEach_fleet [OF _ rs]
        split: if_splits prod.splits sum.splits)
  show "customResourcesDown jc api recorder obj sched label nss cfgs W = (obs, W') \<Longrightarrow> fleet W' = fleet W"
    by (induction cfgs arbitrary: W obs W') (auto dest: d split: prod.splits)
  show "customResourcesUp jc api recorder obj sched label nss now cfgs W = (t, obs, W') \<Longrightarrow> fleet W' = fleet W"
    by (induction cfgs arbitrary: W t obs W') (auto dest: u split: prod.splits)
qed

lemma crWarmup_fleet:
  assumes a: "apartFromFleet api st" and "handleCustomResourceWarmup jc api recorder obj core sched nss now W = (t, obs, W')"
  shows "fleet W' = fleet W"
proof -
  have one: "fleet (pass_state (crWarmupOne jc api recorder obj sched timeout now cfg o1 p)) = fleet (pass_state p)"
    for timeout cfg o1 p
    by (auto simp: crWarmupOne_def Let_def dest: clear_fleet [OF a] split: sum.splits prod.splits option.splits)
  have all: "fleet (pass_state (fold (crWarmupOne jc api recorder obj sched timeout now cfg) objs p)) = fleet (pass_state p)"
    for timeout cfg objs p by (induction objs arbitrary: p) (simp_all add: one)
  have entry: "fleet (pass_state (crWarmupEntry jc api recorder obj sched timeout nss now cfg p)) = fleet (pass_state p)"
    for timeout cfg p by (auto simp: crWarmupEntry_def all split: sum.splits)
  have "fleet (pass_state (fold (crWarmupEntry jc api recorder obj sched timeout nss now) cfgs p)) = fleet (pass_state p)"
    for timeout cfgs p by (induction cfgs arbitrary: p) (simp_all add: entry)
  with assms(2) show ?thesis by (auto simp: handleCustomResourceWarmup_def Let_def)
qed

lemma integrations_fleet:
  assumes s: "separate api st"
  shows "integrationsDown jc api recorder cfg W = (obs, W') \<Longrightarrow> fleet W' = fleet W"
    "integrationsUp jc api recorder cfg now W = (t, obs, W') \<Longrightarrow> fleet W' = fleet W"
    "integrationsWarmup api recorder cfg now W = (t, obs, W') \<Longrightarrow> fleet W' = fleet W"
proof -
  note g = gitops_fleet [OF separate_apart [OF s]] and c = customResources_fleet [OF s]
  have ad: "argoDown api recorder cfg W = (obs, W') \<Longrightarrow> fleet W' = fleet W" for W obs W'
    by (auto simp: argoDown_def dest: g(1) split: option.splits prod.splits)
  have fd: "fluxDown api recorder cfg W = (obs, W') \<Longrightarrow> fleet W' = fleet W" for W obs W'
    by (auto simp: fluxDown_def dest: g(2) split: option.splits prod.splits)
  show "integrationsDown jc api recorder cfg W = (obs, W') \<Longrightarrow> fleet W' = fleet W"
    by (auto simp: integrationsDown_def dest!: ad fd dest: c(1) split: prod.splits if_splits)
  show "integrationsUp jc api recorder cfg now W = (t, obs, W') \<Longrightarrow> fleet W' = fleet W"
    by (auto simp: integrationsUp_def dest!: c(2) crWarmup_fleet [OF separate_apart [OF s]]
        split: prod.splits if_splits bool.splits)
  have aw: "argoWarmup api recorder cfg now W = (t, obs, W') \<Longrightarrow> fleet W' = fleet W" for W t obs W'
    by (auto simp: argoWarmup_def dest: g(3) split: option.splits prod.splits)
  have fw: "fluxWarmup api recorder cfg now W = (t, obs, W') \<Longrightarrow> fleet W' = fleet W" for W t obs W'
    by (auto simp: fluxWarmup_def dest: g(4) split: option.splits prod.splits)
  show "integrationsWarmup api recorder cfg now W = (t, obs, W') \<Longrightarrow> fleet W' = fleet W"
    by (auto simp: integrationsWarmup_def dest!: aw fw split: prod.splits)
qed

section \<open>The reconciler on a server that stores the workloads\<close>

definition operatorEnv ::
  "('h, 'sel) surroundings \<Rightarrow> ('h world, 'sel, 'l, 'c) env \<Rightarrow> ('h world, 'sel, 'l, 'c) env" where
  "operatorEnv su base = (fleetEnv su base)
     \<lparr>e_allDeployments := (\<lambda>sel W. Inr (labelled sel (List.map_filter asDeployment (fleet W)))),
      e_allStatefulSets := (\<lambda>sel W. Inr (labelled sel (List.map_filter asStatefulSet (fleet W)))),
      e_allCronJobs := (\<lambda>sel W. Inr (labelled sel (List.map_filter asCronJob (fleet W))))\<rparr>"

lemma operatorEnv_fields [simp]:
  "e_cluster (operatorEnv su base) = fleetCluster su" "e_recorder (operatorEnv su base) = e_recorder base"
  "e_api (operatorEnv su base) = e_api base" "e_codec (operatorEnv su base) = e_codec base"
  "e_cron (operatorEnv su base) = e_cron base" "e_listNamespaces (operatorEnv su base) = e_listNamespaces base"
  "e_listLocal (operatorEnv su base) = e_listLocal base"
  "e_allDeployments (operatorEnv su base) sel W = Inr (labelled sel (List.map_filter asDeployment (fleet W)))"
  "e_allStatefulSets (operatorEnv su base) sel W = Inr (labelled sel (List.map_filter asStatefulSet (fleet W)))"
  "e_allCronJobs (operatorEnv su base) sel W = Inr (labelled sel (List.map_filter asCronJob (fleet W)))"
  by (simp_all add: operatorEnv_def fleetEnv_def)

text \<open>No workload outside the target namespaces carries the label of the schedule.\<close>

definition strayFree :: "string \<Rightarrow> string list \<Rightarrow> workload list \<Rightarrow> bool" where
  "strayFree sched targets F \<longleftrightarrow> (\<forall>w \<in> set F. carries sched w \<longrightarrow> workloadNamespace w \<in> set targets)"

lemma viewed:
  "asDeployment w = Some d \<longleftrightarrow> w = WDeployment d" "asStatefulSet w = Some d \<longleftrightarrow> w = WStatefulSet d"
  "asCronJob w = Some c \<longleftrightarrow> w = WCronJob c"
  by (cases w; auto)+

lemma labelled_namespaces:
  "obj_namespace ` set (labelled (ManagedByLabel, sched) (List.map_filter asDeployment F)) \<subseteq>
     workloadNamespace ` {w \<in> set F. carries sched w}" (is "?D \<subseteq> ?N")
  "obj_namespace ` set (labelled (ManagedByLabel, sched) (List.map_filter asStatefulSet F)) \<subseteq>
     workloadNamespace ` {w \<in> set F. carries sched w}" (is "?S \<subseteq> ?N")
  "obj_namespace ` set (labelled (ManagedByLabel, sched) (List.map_filter asCronJob F)) \<subseteq>
     workloadNamespace ` {w \<in> set F. carries sched w}" (is "?C \<subseteq> ?N")
proof -
  have n: "workloadNamespace w \<in> ?N" if "w \<in> set F" "carries sched w" for w using that by blast
  show "?D \<subseteq> ?N"
    using n [of "WDeployment d" for d] by (auto simp: labelled_def List.map_filter_def viewed carries_def)
  show "?S \<subseteq> ?N"
    using n [of "WStatefulSet d" for d] by (auto simp: labelled_def List.map_filter_def viewed carries_def)
  show "?C \<subseteq> ?N"
    using n [of "WCronJob d" for d] by (auto simp: labelled_def List.map_filter_def viewed carries_def)
qed

lemma no_orphans:
  assumes "strayFree sched targets (fleet W)"
  shows "releaseOrphanedNamespaces (operatorEnv su base) core sched targets now W = ([], W)"
proof -
  let ?ns = "workloadNamespace ` {w \<in> set (fleet W). carries sched w}"
  have "?ns \<subseteq> set targets" using assms by (auto simp: strayFree_def)
  with labelled_namespaces [of sched "fleet W"] have
    "(obj_namespace ` set (labelled (ManagedByLabel, sched) (List.map_filter asDeployment (fleet W))) \<union>
      obj_namespace ` set (labelled (ManagedByLabel, sched) (List.map_filter asStatefulSet (fleet W))) \<union>
      obj_namespace ` set (labelled (ManagedByLabel, sched) (List.map_filter asCronJob (fleet W)))) - set targets = {}" by blast
  then have "discoverOrphanedNamespaces (operatorEnv su base) sched targets W = Inr []"
    by (simp add: discoverOrphanedNamespaces_def Let_def del: Diff_eq_empty_iff)
  then show ?thesis by (simp add: releaseOrphanedNamespaces_def)
qed

text \<open>The pass of a reconcile, with the integrations in front of it.\<close>

definition schedulePass ::
  "('s, 'sel, 'l, 'c) env \<Rightarrow> ClusterSchedule \<Rightarrow> string list \<Rightarrow> PeriodResult \<Rightarrow> time \<Rightarrow> 's \<Rightarrow>
     (string + bool \<times> scaleWorkloadsResult) \<times> observation list \<times> 's" where
  "schedulePass env schedule nss period now s =
     (let core = Core (sc_Spec schedule); k = globalKind schedule; up = (State period = ''Up'') in
      scalePhase env core
        \<lparr>ic_ScheduleObj = sk_Ref k, ic_Core = core, ic_ScheduleName = sc_Name schedule, ic_ScheduleLabel = sk_Label k,
         ic_Namespaces = nss\<rparr>
        (scaleConfig k (sc_Name schedule) nss up (if up then UpscaleRateLimit core else DownscaleRateLimit core)
           (carriedWaveProgress (sc_Status schedule) period) now)
        now s)"

lemma setErrorCondition_fleet:
  "separate api st \<Longrightarrow> fleet (setErrorCondition env st schedule e W) = fleet W"
  by (simp add: setErrorCondition_def separate_def Let_def)

text \<open>What a run of the schedule does to the workloads is what its pass does.\<close>

lemma runSchedule_fleet:
  assumes "runSchedule env st (globalKind schedule) (Core (sc_Spec schedule)) schedule nss period now W = (r, obs, W')"
    and s: "separate (e_api env) st" and sp: "schedulePass env schedule nss period now W = (res, obs1, W1)"
  shows "fleet W' = fleet W1"
proof -
  let ?up = "State period = ''Up''" and ?core = "Core (sc_Spec schedule)" and ?k = "globalKind schedule"
  let ?int = "\<lparr>ic_ScheduleObj = sk_Ref ?k, ic_Core = ?core, ic_ScheduleName = sc_Name schedule,
               ic_ScheduleLabel = sk_Label ?k, ic_Namespaces = nss\<rparr>"
  note sp' = sp [unfolded schedulePass_def Let_def]
  show ?thesis
  proof (cases res)
    case (Inl e)
    with assms(1) sp' have "W' = setErrorCondition env st schedule (scaleErrorText ?k e) W1"
      by (simp add: runSchedule_def Let_def)
    with setErrorCondition_fleet [OF s] show ?thesis by simp
  next
    case (Inr ok)
    obtain later result where ok: "ok = (later, result)" by fastforce
    obtain warming obs2 W2 where w: "warmupPhase env ?int ?up later result now W1 = (warming, obs2, W2)" by (rule prod_cases3)
    obtain t obs3 where t: "checkTermination (e_api env) (e_recorder env) (sk_Ref ?k) (sk_Label ?k) nss ?up now W2 = (t, obs3)"
      by fastforce
    have f2: "fleet W2 = fleet W1"
      using w integrations_fleet(3) [OF s, of "e_recorder env" ?int now W1 _ obs2 W2]
      by (cases "warmupMayStart ?up later result") (auto simp: warmupPhase_def Let_def split: prod.splits)
    have "\<exists>sc. W' = snd (update_status st sc W2)"
      using assms(1) sp' Inr ok w t by (auto simp: runSchedule_def Let_def split: prod.splits option.splits intro: sym [OF snd_conv])
         (metis snd_conv)+
    moreover have "fleet (snd (update_status st sc W2)) = fleet W2" for sc using s by (simp add: separate_def)
    ultimately show ?thesis using f2 by auto
  qed
qed

text \<open>\<open>passStep\<close> is a step \<open>pass\<close> of the night; with \<open>full\<close> one that has visited everything.\<close>

definition passStep ::
  "('h, 'sel) surroundings \<Rightarrow> LightsOutScheduleCore \<Rightarrow> string \<Rightarrow> string list \<Rightarrow> bool \<Rightarrow> bool \<Rightarrow> 'h world \<Rightarrow> 'h world \<Rightarrow> bool" where
  "passStep su core sched nss up full W W' \<longleftrightarrow>
     (\<exists>cfg recorder r err obs. passOf sched nss up cfg \<and> (full \<longrightarrow> passDone r err) \<and>
        scaleWorkloads (fleetCluster su) core cfg recorder W = (r, err, obs, W'))"

lemma scaleWorkloads_result:
  "scaleWorkloads c core cfg recorder s = (r, None, obs, s') \<Longrightarrow> \<exists>result. r = Some result"
  by (auto simp: scaleWorkloads_def split: prod.splits sum.splits)

text \<open>The pass of the workloads in it, unless custom resources that are not ready put it off.\<close>

lemma schedulePass_pass:
  assumes run: "schedulePass (operatorEnv su base) schedule nss period now W = (res, obs, W')"
    and s: "separate (e_api base) st" and core: "core = Core (sc_Spec schedule)" and up: "up = (State period = ''Up'')"
  obtains (deferred) "up" "res = Inr (True, emptyResult)" "fleet W' = fleet W"
    | (pass) W1 cfg r err o2 where "fleet W1 = fleet W" "passOf (sc_Name schedule) nss up cfg"
        "cfg_RateLimit cfg = (if up then UpscaleRateLimit core else DownscaleRateLimit core)"
        "scaleWorkloads (fleetCluster su) core cfg (e_recorder base) W1 = (r, err, o2, W')"
        "err = None \<longrightarrow> (\<exists>result. r = Some result \<and> res = Inr (False, result))" "err \<noteq> None \<longrightarrow> isl res"
proof -
  let ?k = "globalKind schedule"
  let ?int = "\<lparr>ic_ScheduleObj = sk_Ref ?k, ic_Core = core, ic_ScheduleName = sc_Name schedule,
               ic_ScheduleLabel = sk_Label ?k, ic_Namespaces = nss\<rparr>"
  let ?cfg = "scaleConfig ?k (sc_Name schedule) nss up (if up then UpscaleRateLimit core else DownscaleRateLimit core)
           (carriedWaveProgress (sc_Status schedule) period) now"
  have cfg: "passOf (sc_Name schedule) nss up ?cfg"
    "cfg_RateLimit ?cfg = (if up then UpscaleRateLimit core else DownscaleRateLimit core)"
    by (simp_all add: passOf_def scaleConfig_def globalKind_def)
  have scaleUp: "cfg_ScaleUp ?cfg = up" by (simp add: scaleConfig_def)
  obtain later o1 W1 where int: "(if up then integrationsUp (e_codec base) (e_api base) (e_recorder base) ?int now W
      else (case integrationsDown (e_codec base) (e_api base) (e_recorder base) ?int W of (obs, s') \<Rightarrow> (False, obs, s'))) =
      (later, o1, W1)" by (rule prod_cases3)
  have f1: "fleet W1 = fleet W"
    using int integrations_fleet(1,2) [OF s] by (auto split: if_splits prod.splits)
  note run' = run [unfolded schedulePass_def Let_def core [symmetric] up [symmetric] scalePhase_def operatorEnv_fields scaleUp int]
  show ?thesis
  proof (cases later)
    case True
    with int have "up" by (auto split: if_splits prod.splits)
    with run' True f1 deferred show ?thesis by simp
  next
    case False
    obtain r err o2 W2 where sw: "scaleWorkloads (fleetCluster su) core ?cfg (e_recorder base) W1 = (r, err, o2, W2)"
      by (rule prod_cases4)
    have "W' = W2" "err = None \<longrightarrow> res = Inr (False, case r of None \<Rightarrow> emptyResult | Some result \<Rightarrow> result)"
      "err \<noteq> None \<longrightarrow> isl res"
      using run' False sw by (auto split: option.splits)
    moreover have "\<exists>result. r = Some result" if "err = None"
      using scaleWorkloads_result [of "fleetCluster su" core ?cfg "e_recorder base" W1 r o2 W2] sw that by simp
    ultimately show ?thesis using f1 cfg sw by (intro pass [of W1 ?cfg r err o2]) auto
  qed
qed

lemma schedulePass_fleet:
  assumes run: "schedulePass (operatorEnv su base) schedule nss period now W = (res, obs, W')"
    and s: "separate (e_api base) st"
    and full: "full \<Longrightarrow> \<exists>result. res = Inr (False, result) \<and> passDone (Some result) None"
  shows "\<exists>W1. fleet W1 = fleet W \<and>
    (\<not> full \<and> fleet W' = fleet W1 \<or>
     passStep su (Core (sc_Spec schedule)) (sc_Name schedule) nss (State period = ''Up'') full W1 W')"
  using run s refl refl
proof (cases rule: schedulePass_pass)
  case deferred
  with full show ?thesis by auto
next
  case (pass W1 cfg r err o2)
  have "passDone r err" if full
  proof -
    from full [OF that] obtain result where result: "res = Inr (False, result)" "passDone (Some result) None" by blast
    with pass(5,6) show ?thesis by (cases err) auto
  qed
  with pass show ?thesis unfolding passStep_def by blast
qed

section \<open>Steps of the operator\<close>

text \<open>
  A schedule that is active and does not change: what it is called, what it says, the
  namespaces it selects and those among them that no namespace schedule has.
\<close>

definition steady ::
  "('h, 'sel) surroundings \<Rightarrow> ('h world, 'sel, 'l, 'c) env \<Rightarrow> ('h world, LightsOutScheduleSpec) store \<Rightarrow> string \<times> string \<Rightarrow>
     string \<Rightarrow> LightsOutScheduleSpec \<Rightarrow> string list \<Rightarrow> string list \<Rightarrow> bool" where
  "steady su base st key name spec targets nss \<longleftrightarrow>
     (\<forall>W. \<exists>schedule. get_schedule st key W = Inr schedule \<and> sc_Name schedule = name \<and> sc_Spec schedule = spec \<and>
        FinalizerName \<in> sc_Finalizers schedule \<and> sc_DeletionTimestamp schedule = None) \<and>
     \<not> Suspend (Core spec) \<and>
     (\<forall>W. DiscoverNamespaces (su_selectors su) (e_listNamespaces base) spec W = Inr targets) \<and>
     (\<forall>W. FilterNamespacesWithLocalSchedules (e_listLocal base) targets W = Inr nss)"

text \<open>
  A reconcile at an instant at which the schedule is up or down. A complete one has not been held
  back by custom resources, and its pass has visited everything without a failure.
\<close>

definition reconciles ::
  "('h, 'sel) surroundings \<Rightarrow> ('h world, 'sel, 'l, 'c) env \<Rightarrow> ('h world, LightsOutScheduleSpec) store \<Rightarrow> string \<times> string \<Rightarrow>
     string list \<Rightarrow> bool \<Rightarrow> bool \<Rightarrow> 'h world \<Rightarrow> 'h world \<Rightarrow> bool" where
  "reconciles su base st key nss up full W W' \<longleftrightarrow>
     (\<exists>now cache r obs cache' schedule period.
        Reconcile (operatorEnv su base) st key now cache W = (r, obs, cache', W') \<and>
        get_schedule st key W = Inr schedule \<and>
        fst (CalculatePeriod (e_cron base) cache (Upscale (Core (sc_Spec schedule))) (Downscale (Core (sc_Spec schedule)))
               (timezoneOf (Core (sc_Spec schedule))) now) = Inr period \<and>
        (State period = ''Up'') = up \<and>
        (full \<longrightarrow> (\<exists>result obs' W''. schedulePass (operatorEnv su base) schedule nss period now W =
                          (Inr (False, result), obs', W'') \<and> passDone (Some result) None)))"

lemma Reconcile_pass:
  assumes run: "Reconcile (operatorEnv su base) st key now cache W = (r, obs, cache', W')"
    and get: "get_schedule st key W = Inr schedule"
    and per: "fst (CalculatePeriod (e_cron base) cache (Upscale (Core (sc_Spec schedule))) (Downscale (Core (sc_Spec schedule)))
               (timezoneOf (Core (sc_Spec schedule))) now) = Inr period"
    and st: "steady su base st key name spec targets nss"
    and s: "separate (e_api base) st" and stray: "strayFree name targets (fleet W)"
  obtains res obs1 W1 where "sc_Name schedule = name" "sc_Spec schedule = spec"
    "schedulePass (operatorEnv su base) schedule nss period now W = (res, obs1, W1)" "fleet W' = fleet W1"
proof -
  have "\<exists>schedule. get_schedule st key W = Inr schedule \<and> sc_Name schedule = name \<and> sc_Spec schedule = spec \<and>
      FinalizerName \<in> sc_Finalizers schedule \<and> sc_DeletionTimestamp schedule = None"
    using st by (simp add: steady_def)
  with get have sc: "sc_Name schedule = name" "sc_Spec schedule = spec" "FinalizerName \<in> sc_Finalizers schedule"
    "sc_DeletionTimestamp schedule = None" by auto
  have scope: "\<not> Suspend (Core spec)"
    "DiscoverNamespaces (su_selectors su) (e_listNamespaces base) spec W = Inr targets"
    "FilterNamespacesWithLocalSchedules (e_listLocal base) targets W = Inr nss"
    using st by (simp_all add: steady_def)
  obtain cache1 where per': "CalculatePeriod (e_cron base) cache (Upscale (Core spec)) (Downscale (Core spec))
      (timezoneOf (Core spec)) now = (Inr period, cache1)" using per sc(2) by (metis prod.collapse)
  obtain r2 obs2 W2 where rs: "runSchedule (operatorEnv su base) st (globalKind schedule) (Core (sc_Spec schedule)) schedule
      nss period now W = (r2, obs2, W2)" by (rule prod_cases3)
  have "W' = W2"
    using run get sc per' scope rs no_orphans [OF stray, of su base "Core spec" now]
    by (simp add: Reconcile_def ReconcileActive_def Let_def fleetCluster_fields)
  moreover obtain res obs3 W3 where sp: "schedulePass (operatorEnv su base) schedule nss period now W = (res, obs3, W3)"
    by (rule prod_cases3)
  ultimately have "fleet W' = fleet W3" using runSchedule_fleet [OF rs _ sp] s by simp
  from that [OF sc(1,2) sp this] show ?thesis .
qed

lemma reconciles_fleet:
  assumes rc: "reconciles su base st key nss up full W W'"
    and st: "steady su base st key name spec targets nss"
    and s: "separate (e_api base) st" and stray: "strayFree name targets (fleet W)"
  shows "\<exists>W1 W2. fleet W1 = fleet W \<and> fleet W' = fleet W2 \<and>
    (\<not> full \<and> W2 = W1 \<or> passStep su (Core spec) name nss up full W1 W2)"
proof -
  from rc obtain now cache r obs cache' schedule period where
    run: "Reconcile (operatorEnv su base) st key now cache W = (r, obs, cache', W')" and
    get: "get_schedule st key W = Inr schedule" and
    per: "fst (CalculatePeriod (e_cron base) cache (Upscale (Core (sc_Spec schedule))) (Downscale (Core (sc_Spec schedule)))
               (timezoneOf (Core (sc_Spec schedule))) now) = Inr period" and
    up: "(State period = ''Up'') = up" and
    comp: "full \<longrightarrow> (\<exists>result obs' W''. schedulePass (operatorEnv su base) schedule nss period now W =
                          (Inr (False, result), obs', W'') \<and> passDone (Some result) None)"
    unfolding reconciles_def by blast
  obtain res obs3 W3 where sc: "sc_Name schedule = name" "sc_Spec schedule = spec"
    and sp: "schedulePass (operatorEnv su base) schedule nss period now W = (res, obs3, W3)" and f: "fleet W' = fleet W3"
    by (rule Reconcile_pass [OF run get per st s stray])
  have "full \<Longrightarrow> \<exists>result. res = Inr (False, result) \<and> passDone (Some result) None" using comp sp by auto
  from schedulePass_fleet [OF sp s this] f show ?thesis unfolding sc up by metis
qed

text \<open>Between the reconciles the cluster settles.\<close>

inductive operatorStep ::
  "('h, 'sel) surroundings \<Rightarrow> ('h world, 'sel, 'l, 'c) env \<Rightarrow> ('h world, LightsOutScheduleSpec) store \<Rightarrow> string \<times> string \<Rightarrow>
     string list \<Rightarrow> bool \<Rightarrow> 'h world \<Rightarrow> 'h world \<Rightarrow> bool"
  for su base st key nss up where
  reconcile: "reconciles su base st key nss up False W W' \<Longrightarrow> operatorStep su base st key nss up W W'"
| settle: "map bare (fleet W') = map bare (fleet W) \<Longrightarrow> operatorStep su base st key nss up W W'"

lemma carries_bare: "carries sched (bare w) = carries sched w" "workloadNamespace (bare w) = workloadNamespace w"
  by (cases w; simp add: carries_def)+

lemma workloadNamespace_wanted [simp]: "workloadNamespace (wanted sched up w) = workloadNamespace w"
  by (cases w) (auto simp: downReplicas_def upReplicas_def downCronJob_def upCronJob_def)

text \<open>A night that starts without strays stays without.\<close>

lemma strayFree_partly:
  assumes "partly (nightly sels core sched nss up) (map bare F) (map bare F')" and "set nss \<subseteq> set targets"
    and "strayFree sched targets F"
  shows "strayFree sched targets F'"
proof -
  have "workloadNamespace w' \<in> set targets"
    if p: "bare w' = bare w \<or> bare w' = nightly sels core sched nss up (bare w)" and c: "carries sched w'"
      and o: "carries sched w \<longrightarrow> workloadNamespace w \<in> set targets" for w w'
  proof (cases "bare w' = bare w")
    case True
    with c o show ?thesis by (metis carries_bare)
  next
    case False
    with p have n: "bare w' = stepWhere (inScope sels core nss) (wanted sched up) (bare w)" by (simp add: nightly_def)
    with False have "inScope sels core nss (bare w)" by (auto simp: stepWhere_def split: if_splits)
    moreover have "workloadNamespace w' = workloadNamespace w"
      using arg_cong [OF n, of workloadNamespace] by (simp add: stepWhere_def carries_bare split: if_splits)
    ultimately show ?thesis using assms(2) by (auto simp: inScope_def carries_bare)
  qed
  moreover have all: "list_all2 (\<lambda>w w'. bare w' = bare w \<or> bare w' = nightly sels core sched nss up (bare w)) F F'"
    using assms(1) by (simp add: partly_def list_all2_map1 list_all2_map2)
  have "\<exists>w \<in> set F. bare w' = bare w \<or> bare w' = nightly sels core sched nss up (bare w)" if "w' \<in> set F'" for w'
  proof -
    from that obtain i where "i < length F'" "w' = F' ! i" by (auto simp: in_set_conv_nth)
    with list_all2_nthD2 [OF all, of i] list_all2_lengthD [OF all] show ?thesis by (metis nth_mem)
  qed
  ultimately show ?thesis using assms(3) unfolding strayFree_def by blast
qed

lemma passStep_night:
  assumes "passStep su core sched nss up full W W'"
  shows "nightStep su core sched nss up W W'" "full \<Longrightarrow> completePass su core sched nss up W W'"
  using assms unfolding passStep_def completePass_def by (blast intro: nightStep.pass)+

lemma steady_scope:
  assumes "steady su base st key name spec targets nss"
  shows "distinct nss" "set nss \<subseteq> set targets"
proof -
  have d: "DiscoverNamespaces (su_selectors su) (e_listNamespaces base) spec W = Inr targets"
    and f: "FilterNamespacesWithLocalSchedules (e_listLocal base) targets W = Inr nss" for W
    using assms by (simp_all add: steady_def)
  have "distinct targets" using d [of undefined] by (auto simp: DiscoverNamespaces_def Let_def split: sum.splits)
  then show "distinct nss" using f by (rule filtered_distinct)
  show "set nss \<subseteq> set targets" by (rule FilterNamespaces_subset [OF f])
qed

lemma same_fleet: "fleet W' = fleet W \<Longrightarrow> nightStep su core sched nss up W W'"
  by (rule nightStep.settle) simp

lemma operatorStep_night:
  assumes step: "operatorStep su base st key nss up W W'"
    and st: "steady su base st key name spec targets nss" and s: "separate (e_api base) st"
    and "consistent (fleet W)" and stray: "strayFree name targets (fleet W)"
  shows "(nightStep su (Core spec) name nss up)\<^sup>*\<^sup>* W W'"
  using step
proof cases
  case reconcile
  from reconciles_fleet [OF this st s stray] obtain W1 W2 where
    f: "fleet W1 = fleet W" "fleet W' = fleet W2" and p: "W2 = W1 \<or> passStep su (Core spec) name nss up False W1 W2" by blast
  have 1: "nightStep su (Core spec) name nss up W W1" by (rule same_fleet) (rule f)
  have 2: "(nightStep su (Core spec) name nss up)\<^sup>*\<^sup>* W1 W2"
    using p passStep_night(1) [of su "Core spec" name nss up False W1 W2] by blast
  have 3: "nightStep su (Core spec) name nss up W2 W'" by (rule same_fleet) (rule f)
  show ?thesis
    by (rule rtranclp.rtrancl_into_rtrancl [OF rtranclp_trans [OF r_into_rtranclp [of "nightStep su (Core spec) name nss up", OF 1] 2] 3])
next
  case settle
  then show ?thesis by (intro r_into_rtranclp nightStep.settle)
qed

text \<open>What holds between two reconciles.\<close>

definition orderly :: "string \<Rightarrow> string list \<Rightarrow> 'h world \<Rightarrow> bool" where
  "orderly name targets W \<longleftrightarrow> consistent (fleet W) \<and> strayFree name targets (fleet W)"

lemma nightSteps_orderly:
  assumes "(nightStep su (Core spec) name nss up)\<^sup>*\<^sup>* W W'" and "steady su base st key name spec targets nss"
    and "blindToMark (su_selectors su) (Core spec)" and "orderly name targets W"
  shows "orderly name targets W'"
  using nightSteps_partly [OF assms(1) steady_scope(1) [OF assms(2)] _ assms(3)]
    strayFree_partly [OF _ steady_scope(2) [OF assms(2)]] assms(4) unfolding orderly_def by blast

lemma operatorSteps_night:
  assumes "(operatorStep su base st key nss up)\<^sup>*\<^sup>* W W'"
    and st: "steady su base st key name spec targets nss" and s: "separate (e_api base) st"
    and blind: "blindToMark (su_selectors su) (Core spec)" and "orderly name targets W"
  shows "(nightStep su (Core spec) name nss up)\<^sup>*\<^sup>* W W' \<and> orderly name targets W'"
  using assms(1)
proof (induction rule: rtranclp_induct)
  case base
  with assms(5) show ?case by simp
next
  case (step W1 W2)
  have "(nightStep su (Core spec) name nss up)\<^sup>*\<^sup>* W1 W2"
    using operatorStep_night [OF step(2) st s] step(3) by (simp add: orderly_def)
  with nightSteps_orderly [OF this st blind] step(3) show ?case by (meson rtranclp_trans)
qed

text \<open>A complete reconcile, up to what it does before and after its pass.\<close>

lemma reconciles_full:
  assumes "reconciles su base st key nss up True W W'" and "steady su base st key name spec targets nss"
    and "separate (e_api base) st" and "orderly name targets W"
  shows "\<exists>W1 W2. fleet W1 = fleet W \<and> completePass su (Core spec) name nss up W1 W2 \<and> fleet W' = fleet W2"
  using reconciles_fleet [OF assms(1-3)] assms(4) passStep_night(2) [of su "Core spec" name nss up True]
  unfolding orderly_def by blast

lemma full_orderly:
  assumes "fleet W1 = fleet W" and "completePass su (Core spec) name nss up W1 W2" and "fleet W' = fleet W2"
    and "steady su base st key name spec targets nss" and "blindToMark (su_selectors su) (Core spec)"
    and "orderly name targets W"
  shows "orderly name targets W'"
proof -
  have "nightStep su (Core spec) name nss up W1 W2"
    using assms(2) unfolding completePass_def by (blast intro: nightStep.pass)
  moreover have "orderly name targets W1" using assms(1,6) by (simp add: orderly_def)
  ultimately have "orderly name targets W2" using nightSteps_orderly [OF _ assms(4,5)] by blast
  with assms(3) show ?thesis by (simp add: orderly_def)
qed

section \<open>Properties\<close>

text \<open>
  C1: The operator keeps its promise over a whole night. A cluster schedule is reconciled any number
  of times, at any instants of its night and then of its day, with integrations, waves, batches,
  refused patches and restarts, while the cluster settles in between. Once a reconcile of the night
  has completed its pass, every workload in scope that carried no marks is at zero replicas or
  suspended until the morning; once one of the day has, it has its replica count, labels and
  annotations back. Workloads out of scope, and those another schedule holds, have not changed.
\<close>

theorem operator_night:
  assumes "steady su base st key name spec targets nss" and "separate (e_api base) st"
    and "blindToMark (su_selectors su) (Core spec)" and "orderly name targets W0"
    and "(operatorStep su base st key nss False)\<^sup>*\<^sup>* W0 W1" and "reconciles su base st key nss False True W1 W2"
    and "(operatorStep su base st key nss False)\<^sup>*\<^sup>* W2 W3"
    and "(operatorStep su base st key nss True)\<^sup>*\<^sup>* W3 W4" and "reconciles su base st key nss True True W4 W5"
  shows "list_all2 (\<lambda>w w'. if \<not> inScope (su_selectors su) (Core spec) nss w \<or> heldByOther name w then bare w' = bare w
      else unmarked w \<longrightarrow> asleep w') (fleet W0) (fleet W3) \<and>
    list_all2 (\<lambda>w w'. if \<not> inScope (su_selectors su) (Core spec) nss w \<or> heldByOther name w then bare w' = bare w
      else unmarked w \<longrightarrow> backAgain w w') (fleet W0) (fleet W5)"
proof -
  let ?night = "\<lambda>up. nightStep su (Core spec) name nss up"
  note steps = operatorSteps_night [OF _ assms(1-3)]
  have 1: "(?night False)\<^sup>*\<^sup>* W0 W1" "orderly name targets W1" using steps [OF assms(5,4)] by blast+
  from reconciles_full [OF assms(6,1,2) 1(2)] obtain A B where
    a: "fleet A = fleet W1" "completePass su (Core spec) name nss False A B" "fleet W2 = fleet B" by blast
  have 2: "orderly name targets W2" by (rule full_orderly [OF a assms(1,3) 1(2)])
  have 3: "(?night False)\<^sup>*\<^sup>* W2 W3" "orderly name targets W3" using steps [OF assms(7) 2] by blast+
  have 4: "(?night True)\<^sup>*\<^sup>* W3 W4" "orderly name targets W4" using steps [OF assms(8) 3(2)] by blast+
  from reconciles_full [OF assms(9,1,2) 4(2)] obtain C D where
    c: "fleet C = fleet W4" "completePass su (Core spec) name nss True C D" "fleet W5 = fleet D" by blast
  have n1: "(?night False)\<^sup>*\<^sup>* W0 A" by (rule rtranclp.rtrancl_into_rtrancl [OF 1(1) same_fleet [OF a(1)]])
  have n2: "(?night False)\<^sup>*\<^sup>* B W3" by (rule converse_rtranclp_into_rtranclp [of "?night False", OF same_fleet [OF a(3)] 3(1)])
  have n3: "(?night True)\<^sup>*\<^sup>* W3 C" by (rule rtranclp.rtrancl_into_rtrancl [OF 4(1) same_fleet [OF c(1)]])
  have "consistent (fleet W0)" using assms(4) by (simp add: orderly_def)
  from whole_night [OF this steady_scope(1) [OF assms(1)] assms(3) n1 a(2) n2 n3 c(2)] show ?thesis
    unfolding c(3) .
qed

section \<open>Witness\<close>

text \<open>The shop of \<open>Night\<close>, with a schedule that is reconciled once in the night and once in the day.\<close>

definition shopSchedule :: ClusterSchedule where
  "shopSchedule = nightSchedule (shopSpec None)"

definition shopStore :: "(unit world, LightsOutScheduleSpec) store" where
  "shopStore = quietStore\<lparr>get_schedule := \<lambda>key W. Inr shopSchedule\<rparr>"

definition shopPeriod :: "bool \<Rightarrow> PeriodResult" where
  "shopPeriod up = morning\<lparr>State := if up then ''Up'' else ''Down''\<rparr>"

definition shopCache :: "bool \<Rightarrow> periodCache" where
  "shopCache up = [generateCacheKey (ce_sha256hex sampleCron) [] [] DefaultTimezone \<mapsto>
     \<lparr>cp_result = shopPeriod up, cp_validUntil = 8 * hour\<rparr>]"

definition shopDone :: "bool \<Rightarrow> unit world \<Rightarrow> bool" where
  "shopDone up W \<longleftrightarrow> strayFree ''night'' [''shop''] (fleet W) \<and>
     (case schedulePass (operatorEnv sampleSurroundings heldEnv) shopSchedule [''shop''] (shopPeriod up) 0 W of
        (Inr (False, result), _) \<Rightarrow> \<not> stoppedEarly result \<and> totalFailed result = 0
      | _ \<Rightarrow> False)"

lemma shop_fields:
  "sc_Name shopSchedule = ''night''" "sc_Spec shopSchedule = shopSpec None" "FinalizerName \<in> sc_Finalizers shopSchedule"
  "sc_DeletionTimestamp shopSchedule = None" "Core (shopSpec None) = emptyCore"
  by (simp_all add: shopSchedule_def nightSchedule_def shopSpec_def)

lemma shop_steady: "steady sampleSurroundings heldEnv shopStore ([], ''night'') ''night'' (shopSpec None) [''shop''] [''shop'']"
proof -
  have "DiscoverNamespaces (su_selectors sampleSurroundings) (e_listNamespaces heldEnv) (shopSpec None) W = Inr [''shop'']" for W
    by (simp add: DiscoverNamespaces_def selectedNamespaces_def shopSpec_def SystemNamespaces_def)
  moreover have "\<not> Suspend emptyCore" by (simp add: emptyCore_def)
  ultimately show ?thesis by (simp add: steady_def shopStore_def shop_fields heldEnv_def)
qed

lemma shop_separate: "separate (e_api heldEnv) shopStore"
  using held_apart
  by (simp add: separate_def apartFromFleet_def shopStore_def heldEnv_def emptyApi_def quietStore_def)

lemma shop_done: "shopDone False shopWorld" "shopDone True (after False shopWorld)"
  by code_simp+

lemma shop_reconciles:
  assumes "smooth up W" and "shopDone up W"
  shows "reconciles sampleSurroundings heldEnv shopStore ([], ''night'') [''shop''] up True W (after up W)"
proof -
  let ?env = "operatorEnv sampleSurroundings heldEnv"
  obtain r obs c W' where run: "Reconcile ?env shopStore ([], ''night'') 0 (shopCache up) W = (r, obs, c, W')"
    by (rule prod_cases4)
  obtain res o1 W1 where sp: "schedulePass ?env shopSchedule [''shop''] (shopPeriod up) 0 W = (res, o1, W1)" by (rule prod_cases3)
  from assms(2) sp obtain result where res: "res = Inr (False, result)" "passDone (Some result) None"
    by (auto simp: shopDone_def passDone_def split: sum.splits bool.splits)
  have get: "get_schedule shopStore ([], ''night'') W = Inr shopSchedule" by (simp add: shopStore_def)
  have per: "fst (CalculatePeriod (e_cron heldEnv) (shopCache up) (Upscale (Core (sc_Spec shopSchedule)))
      (Downscale (Core (sc_Spec shopSchedule))) (timezoneOf (Core (sc_Spec shopSchedule))) 0) = Inr (shopPeriod up)"
    by (simp add: CalculatePeriod_def getCachedPeriod_def shopCache_def shop_fields emptyCore_def timezoneOf_def heldEnv_def
        duration_defs)
  have up: "(State (shopPeriod up) = ''Up'') = up" by (simp add: shopPeriod_def)
  have rc: "reconciles sampleSurroundings heldEnv shopStore ([], ''night'') [''shop''] up True W W'"
    unfolding reconciles_def using run get per up sp res by blast
  have stray: "strayFree ''night'' [''shop''] (fleet W)" using assms(2) by (simp add: shopDone_def)
  from reconciles_fleet [OF rc shop_steady shop_separate stray] obtain A B where
    ab: "fleet A = fleet W" "fleet W' = fleet B" "passStep sampleSurroundings emptyCore ''night'' [''shop''] up True A B"
    unfolding shop_fields by blast
  from ab(3) obtain cfg recorder r2 err o2 where p: "passOf ''night'' [''shop''] up cfg" "passDone r2 err"
    "scaleWorkloads (fleetCluster sampleSurroundings) emptyCore cfg recorder A = (r2, err, o2, B)"
    unfolding passStep_def by blast
  have "consistent (fleet A)" using assms(1) ab(1) by (simp add: smooth_def)
  from pass_facts [OF p(3,1) _ this] p(2) have
    "fleet B = map (\<lambda>w. if inScope (su_selectors sampleSurroundings) emptyCore [''shop''] w then wanted ''night'' up w else w) (fleet W)"
    unfolding ab(1) by simp
  then have "fleet W' = map (wanted ''night'' up) (fleet W)" using assms(1) ab(2) by (simp add: smooth_def)
  then have "W' = after up W" by (simp add: after_def)
  with rc show ?thesis by simp
qed

theorem operator_night_witness:
  "\<exists>(W3 :: unit world) (W5 :: unit world).
     reconciles sampleSurroundings heldEnv shopStore ([], ''night'') [''shop''] False True shopWorld W3 \<and>
     reconciles sampleSurroundings heldEnv shopStore ([], ''night'') [''shop''] True True W3 W5 \<and>
     list_all2 (\<lambda>w w'. asleep w') (fleet shopWorld) (fleet W3) \<and> list_all2 backAgain (fleet shopWorld) (fleet W5)"
proof -
  let ?W3 = "after False shopWorld"
  let ?W5 = "after True ?W3"
  note r1 = shop_reconciles [OF shop_smooth(1) shop_done(1)] and r2 = shop_reconciles [OF shop_smooth(2) shop_done(2)]
  have o: "orderly ''night'' [''shop''] shopWorld"
    using shop_smooth(1) shop_done(1) by (simp add: orderly_def smooth_def shopDone_def)
  have blind: "blindToMark (su_selectors sampleSurroundings) (Core (shopSpec None))" using shop_blind by (simp add: shop_fields)
  have s: "\<forall>w \<in> set (fleet shopWorld). inScope (su_selectors sampleSurroundings) (Core (shopSpec None)) [''shop''] w \<and>
      \<not> heldByOther ''night'' w \<and> unmarked w" unfolding shop_fields by code_simp
  note n = operator_night [OF shop_steady shop_separate blind o rtranclp.rtrancl_refl r1 rtranclp.rtrancl_refl
    rtranclp.rtrancl_refl r2]
  have "list_all2 (\<lambda>w w'. asleep w') (fleet shopWorld) (fleet ?W3)"
    using conjunct1 [OF n] by (rule list.rel_mono_strong) (use s in auto)
  moreover have "list_all2 backAgain (fleet shopWorld) (fleet ?W5)"
    using conjunct2 [OF n] by (rule list.rel_mono_strong) (use s in auto)
  ultimately show ?thesis using r1 r2 by blast
qed

end
