(* ===== verification/Convergence.thy ===== *)
theory Convergence
  imports Operator
begin

text \<open>
  How many reconciles a night takes. On a server that refuses no patch, with sync waves off,
  a pass scales pending workloads until the batch size is used up, and a workload it has scaled
  is not pending again. The theorem counts reconciles against the workloads that were pending
  at the start.
\<close>

section \<open>A server that refuses nothing\<close>

definition calm :: "('h, 'sel) surroundings \<Rightarrow> bool" where
  "calm su \<longleftrightarrow> (\<forall>w p W. su_refuse su w p W = None) \<and> (\<forall>i W. su_cancelled su i W = None)"

lemma applyMergePatch_calm:
  assumes "kindView view wrap" and "consistent (fleet W)" and "wrap obj \<in> set (fleet W)" and "calm su"
  shows "fst (applyMergePatch (patchStored view wrap merge (su_refuse su)) obj p W) = None"
  using storedObject_here [OF assms(1-3)] assms(4)
  by (simp add: applyMergePatch_def patchStored_def calm_def)

lemma scaleReplicas_calm:
  assumes "kindView view wrap" and "consistent (fleet W)" and "wrap d \<in> set (fleet W)" and "calm su" and "sched \<noteq> []"
    and run: "scaleReplicas (patchStored view wrap merge_workload (su_refuse su)) (cl_patchHPA (fleetCluster su)) d kind
      (spec_replicas d) sched up hpas W = (r, d', hpas', W')"
  shows "\<exists>sr. r = Inr sr \<and> (Skipped sr \<longleftrightarrow> \<not> pendingReplicas sched up d)"
proof (cases up)
  case False
  then have run': "scaleReplicas (patchStored view wrap merge_workload (su_refuse su)) (cl_patchHPA (fleetCluster su)) d kind
      (spec_replicas d) sched False hpas W = (r, d', hpas', W')" using run by simp
  have "\<exists>sr. r = Inr sr"
    using run'
  proof (cases rule: scaleReplicas_down_cases)
    case (call hpaErr s1)
    have "fleet s1 = fleet W" by (rule HPA_fleet(1) [OF call(4)])
    with call(5) applyMergePatch_calm [of view wrap s1 d, OF assms(1) _ _ assms(4)] assms(2,3)
    have "(case r of Inl e \<Rightarrow> Some e | Inr _ \<Rightarrow> None) = None" by (metis fst_conv)
    then show ?thesis by (cases r) auto
  qed auto
  then obtain sr where r: "r = Inr sr" by blast
  with run' have "Skipped sr \<longleftrightarrow> \<not> pendingReplicas sched False d"
    by (auto simp: scaleReplicas_def scaleReplicasDown_def Let_def skipped_def scaled_def pendingReplicas_def
        split: if_splits prod.splits option.splits)
  with r False show ?thesis by simp
next
  case True
  then have "scaleReplicas (patchStored view wrap merge_workload (su_refuse su)) (cl_patchHPA (fleetCluster su)) d kind
      (spec_replicas d) sched True hpas W = (r, d', hpas', W')" using run by simp
  then show ?thesis
  proof (cases rule: scaleReplicas_up_cases)
    case (call n s1)
    have "(case r of Inl e \<Rightarrow> Some e | Inr _ \<Rightarrow> None) = None"
      using call(6) applyMergePatch_calm [OF assms(1-4)] by (metis fst_conv)
    then obtain sr where "r = Inr sr" by (cases r) auto
    with call True show ?thesis by (simp add: pendingReplicas_def scaled_def)
  qed (use True in \<open>auto simp: pendingReplicas_def skipped_def\<close>)
qed

lemma scaleCronJob_calm:
  assumes "consistent (fleet W)" and "WCronJob cj \<in> set (fleet W)" and "calm su" and sched: "sched \<noteq> []"
    and run: "ScaleCronJob (patchStored asCronJob WCronJob merge_cronjob (su_refuse su)) cj sched up W = (r, cj', W')"
  shows "\<exists>sr. r = Inr sr \<and> (Skipped sr \<longleftrightarrow> \<not> pendingCronJob sched up cj)"
proof -
  let ?send = "patchStored asCronJob WCronJob merge_cronjob (su_refuse su)"
  have ok: "\<exists>c2 W2. ?send cj patch W = (Inr c2, W2)" for patch
    using storedObject_here [of asCronJob WCronJob "fleet W" cj] assms(1-3) by (simp add: patchStored_def calm_def)
  show ?thesis
  proof (cases "pendingCronJob sched up cj")
    case True
    obtain c2 W2 where "?send cj (build (cronPatch up sched)) W = (Inr c2, W2)" using ok by blast
    from cron_pending [where send = ?send, OF True sched this] run True show ?thesis by (simp add: scaled_def)
  next
    case False
    obtain c2 W2 where "?send cj (build (emptyPatch\<lparr>SetAnnotations := [(OriginalSuspendAnnotation, SuspendedByUser)]\<rparr>)) W = (Inr c2, W2)"
      using ok by blast
    from cron_not_pending [where send = ?send, OF False sched this] run False show ?thesis by (auto simp: skipped_def)
  qed
qed

text \<open>On such a server a call succeeds, and it scales the workload if that was pending.\<close>

lemma scaleOne_calm:
  assumes "consistent (fleet W)" and "w \<in> set (fleet W)" and "calm su" and "sched \<noteq> []"
    and "scaleOne (fleetCluster su) sched up w hpas W = (outcome, w', hpas', W')"
  shows "(isProcessed (w, w', outcome) \<longleftrightarrow> pending sched up w) \<and> \<not> isFailed (w, w', outcome) \<and>
    fleet W' = swap w (wanted sched up w) (fleet W)"
proof -
  have "\<exists>sr. outcome = Inr sr \<and> (Skipped sr \<longleftrightarrow> \<not> pending sched up w)"
  proof (cases w)
    case (WDeployment d)
    with assms(5) obtain d' where "scaleReplicas (patchStored asDeployment WDeployment merge_workload (su_refuse su))
        (cl_patchHPA (fleetCluster su)) d ''Deployment'' (spec_replicas d) sched up hpas W = (outcome, d', hpas', W')"
      by (auto simp: ScaleDeployment_def split: prod.splits)
    from scaleReplicas_calm [OF kindViews(1) assms(1) _ assms(3,4) this] assms(2) WDeployment show ?thesis by simp
  next
    case (WStatefulSet d)
    with assms(5) obtain d' where "scaleReplicas (patchStored asStatefulSet WStatefulSet merge_workload (su_refuse su))
        (cl_patchHPA (fleetCluster su)) d ''StatefulSet'' (spec_replicas d) sched up hpas W = (outcome, d', hpas', W')"
      by (auto simp: ScaleStatefulSet_def split: prod.splits)
    from scaleReplicas_calm [OF kindViews(2) assms(1) _ assms(3,4) this] assms(2) WStatefulSet show ?thesis by simp
  next
    case (WCronJob cj)
    with assms(5) obtain cj' where
      "ScaleCronJob (patchStored asCronJob WCronJob merge_cronjob (su_refuse su)) cj sched up W = (outcome, cj', W')"
      by (auto split: prod.splits)
    from scaleCronJob_calm [OF assms(1) _ assms(3,4) this] assms(2) WCronJob show ?thesis by simp
  qed
  with scaleOne_here [OF assms(1,2,5)] show ?thesis by (auto simp: becomes_def)
qed

section \<open>A pass\<close>

definition countPending :: "string \<Rightarrow> bool \<Rightarrow> workload list \<Rightarrow> nat" where
  "countPending sched up ws = length (filter (pending sched up) ws)"

lemma countPending_simps [simp]:
  "countPending sched up [] = 0"
  "countPending sched up (w # ws) = (if pending sched up w then 1 else 0) + countPending sched up ws"
  by (simp_all add: countPending_def)

text \<open>A pass without waves works off a prefix of its list, all of it unless the batch is used up.\<close>

lemma loop_calm:
  assumes "scaleLoop (fleetCluster su) recorder cfg False timeout nws i ws p = (r, err, q)"
    and "calm su" and "cfg_ScheduleName cfg \<noteq> []" and "consistent F"
    and "fleet (p_state p) = advance (wanted (cfg_ScheduleName cfg) (cfg_ScaleUp cfg)) V F"
    and "set ws \<subseteq> set F - V" and "distinct ws"
  shows "\<exists>k. fleet (p_state q) = advance (wanted (cfg_ScheduleName cfg) (cfg_ScaleUp cfg)) (V \<union> set (take k ws)) F \<and>
    err = None \<and>
    (take k ws = ws \<or>
     0 < p_budget p \<and> int (countPending (cfg_ScheduleName cfg) (cfg_ScaleUp cfg) (take k ws)) = p_budget p)"
  using assms(1,5-)
proof (induction ws arbitrary: i p V)
  case Nil
  then have "endComplete cfg p = (r, err, q)" by simp
  from endings(1) [OF this] Nil show ?case by (auto simp: ended_def)
next
  case (Cons w rest)
  let ?sched = "cfg_ScheduleName cfg" and ?up = "cfg_ScaleUp cfg"
  let ?f = "wanted ?sched ?up"
  obtain p2 ex where v: "visit (fleetCluster su) recorder cfg False w p = (p2, ex)" by fastforce
  from v obtain outcome w' hpas' where
    one: "scaleOne (fleetCluster su) ?sched ?up w (p_hpas p (workloadNamespace w)) (p_state p) = (outcome, w', hpas', p_state p2)"
    and budget: "p_budget p2 = (if isProcessed (w, w', outcome) \<and> p_budget p > 0 then p_budget p - 1 else p_budget p)"
    and ex: "ex \<longleftrightarrow> isProcessed (w, w', outcome) \<and> p_budget p = 1"
    by (rule visit_eq) blast
  have w: "w \<in> set F" "w \<notin> V" using Cons.prems(3) by auto
  then have here: "w \<in> set (fleet (p_state p))" unfolding Cons.prems(2) by (force simp: advance_def)
  have "consistent (fleet (p_state p))"
    using assms(4) keys_advance [of ?f V F, OF keyOf_wanted] unfolding Cons.prems(2) consistent_def by simp
  note step = scaleOne_calm [OF this here assms(2,3) one]
  have F2: "fleet (p_state p2) = advance ?f (insert w V) F"
    using step advance_insert [OF assms(4) w, of ?f, OF keyOf_wanted] Cons.prems(2) by simp
  have loop: "(if ex \<and> rest \<noteq> [] then endBatch cfg nws p2
      else scaleLoop (fleetCluster su) recorder cfg False timeout nws (Suc i) rest p2) = (r, err, q)"
    using Cons.prems(1) v assms(2) by (simp add: boundary_def calm_def)
  show ?case
  proof (cases "ex \<and> rest \<noteq> []")
    case True
    with loop have "endBatch cfg nws p2 = (r, err, q)" by simp
    from endings(3) [OF this] F2 True ex step show ?thesis by (intro exI [of _ 1]) (auto simp: ended_def)
  next
    case False
    with loop have run: "scaleLoop (fleetCluster su) recorder cfg False timeout nws (Suc i) rest p2 = (r, err, q)" by simp
    have "set rest \<subseteq> set F - insert w V" "distinct rest" using Cons.prems(3,4) by auto
    from Cons.IH [OF run F2 this] obtain k where k: "fleet (p_state q) = advance ?f (insert w V \<union> set (take k rest)) F"
      "err = None" "take k rest = rest \<or> 0 < p_budget p2 \<and> int (countPending ?sched ?up (take k rest)) = p_budget p2" by blast
    have "take (Suc k) (w # rest) = w # rest \<or>
        0 < p_budget p \<and> int (countPending ?sched ?up (take (Suc k) (w # rest))) = p_budget p"
      using k(3) budget step by (auto split: if_splits)
    with k(1,2) show ?thesis by (intro exI [of _ "Suc k"]) auto
  qed
qed

text \<open>The workloads in scope that are still to be scaled.\<close>

definition backlog ::
  "'sel selectors \<Rightarrow> LightsOutScheduleCore \<Rightarrow> string \<Rightarrow> string list \<Rightarrow> bool \<Rightarrow> workload list \<Rightarrow> nat" where
  "backlog sels core sched nss up F = length (filter (\<lambda>w. inScope sels core nss w \<and> pending sched up w) F)"

lemma pending_bare: "pending sched up (bare w) = pending sched up w"
  by (cases w) (simp_all add: pendingReplicas_def pendingCronJob_def isSuspended_def)

lemma backlog_bare: "backlog sels core sched nss up (map bare F) = backlog sels core sched nss up F"
  by (simp add: backlog_def filter_map o_def inScope_bare pending_bare)

lemma pending_wanted: "\<not> pending sched up (wanted sched up w)"
  by (cases w) (auto simp: pendingReplicas_def pendingCronJob_def downReplicas_def upReplicas_def heldReplicas_def
      downCronJob_def upCronJob_def heldCronJob_def isSuspended_def SuspendedByLightsOut_def SuspendedByUser_def)

lemma backlog_advance:
  assumes "distinct F" and "U \<subseteq> {w \<in> set F. inScope sels core nss w}"
  shows "backlog sels core sched nss up (advance (wanted sched up) U F) + card {w \<in> U. pending sched up w} \<le>
    backlog sels core sched nss up F"
proof -
  let ?Q = "\<lambda>w. inScope sels core nss w \<and> pending sched up w"
  have "length (filter ?Q (advance (wanted sched up) U F)) = length (filter (\<lambda>w. ?Q (if w \<in> U then wanted sched up w else w)) F)"
    by (simp add: advance_def filter_map o_def)
  also have "\<dots> = length (filter (\<lambda>w. w \<notin> U) (filter ?Q F))"
    by (simp add: filter_filter) (intro arg_cong [of _ _ length] filter_cong refl, auto simp: pending_wanted)
  finally have left: "backlog sels core sched nss up (advance (wanted sched up) U F) = length (filter (\<lambda>w. w \<notin> U) (filter ?Q F))"
    by (simp add: backlog_def)
  have "{w \<in> U. pending sched up w} = set (filter (\<lambda>w. w \<in> U) (filter ?Q F))" using assms(2) by auto
  then have "card {w \<in> U. pending sched up w} = length (filter (\<lambda>w. w \<in> U) (filter ?Q F))"
    using assms(1) by (metis distinct_card distinct_filter)
  then show ?thesis unfolding left
    using sum_length_filter_compl [of "\<lambda>w. w \<in> U" "filter ?Q F"] by (simp add: backlog_def)
qed

text \<open>A pass makes its step for the whole scope, or it scales a batch of pending workloads.\<close>

lemma pass_calm:
  assumes run: "scaleWorkloads (fleetCluster su) core cfg recorder W = (r, err, obs, W')"
    and cfg: "passOf sched nss up cfg" and "distinct nss" and con: "consistent (fleet W)"
    and "calm su" and "sched \<noteq> []" and "\<not> fst (syncWaveSettings core)" and b: "b = passBudget (cfg_RateLimit cfg)"
  shows "err = None \<and>
    (map bare (fleet W') = map (nightly (su_selectors su) core sched nss up) (map bare (fleet W)) \<or>
     0 < b \<and> backlog (su_selectors su) core sched nss up (fleet W') + nat b \<le> backlog (su_selectors su) core sched nss up (fleet W))"
proof -
  have c: "cfg_ScheduleName cfg = sched" "cfg_Namespaces cfg = nss" "cfg_ScaleUp cfg = up" "\<not> cfg_TransferOwnership cfg"
    using cfg by (auto simp: passOf_def)
  with assms(3) have nss: "distinct (cfg_Namespaces cfg)" by simp
  obtain waves timeout ws res q where sw: "syncWaveSettings core = (waves, timeout)" and r: "r = Some res"
    and W': "W' = p_state q"
    and loop: "scaleLoop (fleetCluster su) recorder cfg waves timeout (int (length ws)) 0 ws
      (startPass (fleetCluster su) cfg waves ws W) = (res, err, q)"
    and ws: "set ws = {w \<in> set (fleet W). worksOn su core cfg w}" "distinct ws"
    by (rule pass_list [OF run c(4) nss con])
  have waves: "waves = False" using sw assms(7) by simp
  have scope: "set ws = {w \<in> set (fleet W). inScope (su_selectors su) core nss w}" using ws(1) by (simp add: worksOn_def c)
  let ?p = "startPass (fleetCluster su) cfg False ws W"
  have name: "cfg_ScheduleName cfg \<noteq> []" using assms(6) c by simp
  have start: "fleet (p_state ?p) = advance (wanted (cfg_ScheduleName cfg) (cfg_ScaleUp cfg)) {} (fleet W)" "p_budget ?p = b"
    by (simp_all add: startPass_def b)
  have "set ws \<subseteq> set (fleet W) - {}" using scope by simp
  from loop_calm [OF loop [unfolded waves] assms(5) name con start(1) this ws(2)] obtain k where
    k: "fleet W' = advance (wanted sched up) (set (take k ws)) (fleet W)" "err = None"
      "take k ws = ws \<or> 0 < b \<and> int (countPending sched up (take k ws)) = b"
    unfolding c W' start(2) by (simp only: Un_empty_left) blast
  show ?thesis
  proof (cases "take k ws = ws")
    case True
    with k(1,2) advance_all [OF scope] show ?thesis by simp
  next
    case False
    have "distinct (take k ws)" using ws(2) by simp
    then have "card {w \<in> set (take k ws). pending sched up w} = countPending sched up (take k ws)"
      unfolding countPending_def by (metis distinct_card distinct_filter set_filter)
    moreover have "set (take k ws) \<subseteq> {w \<in> set (fleet W). inScope (su_selectors su) core nss w}"
      using scope set_take_subset [of k ws] by simp
    moreover have "distinct (fleet W)" using con by (simp add: consistent_def distinct_map)
    ultimately show ?thesis using False k backlog_advance [of "fleet W" "set (take k ws)" "su_selectors su" core nss sched up] by auto
  qed
qed

section \<open>Reconciles that come to a pass\<close>

text \<open>A reconcile that custom resources which are not ready have not put off.\<close>

definition comesToPass ::
  "('h, 'sel) surroundings \<Rightarrow> ('h world, 'sel, 'l, 'c) env \<Rightarrow> ('h world, LightsOutScheduleSpec) store \<Rightarrow> string \<times> string \<Rightarrow>
     string list \<Rightarrow> bool \<Rightarrow> 'h world \<Rightarrow> 'h world \<Rightarrow> bool" where
  "comesToPass su base st key nss up W W' \<longleftrightarrow>
     (\<exists>now cache r obs cache' schedule period result obs' W''.
        Reconcile (operatorEnv su base) st key now cache W = (r, obs, cache', W') \<and>
        get_schedule st key W = Inr schedule \<and>
        fst (CalculatePeriod (e_cron base) cache (Upscale (Core (sc_Spec schedule))) (Downscale (Core (sc_Spec schedule)))
               (timezoneOf (Core (sc_Spec schedule))) now) = Inr period \<and>
        (State period = ''Up'') = up \<and>
        schedulePass (operatorEnv su base) schedule nss period now W = (Inr (False, result), obs', W''))"

text \<open>\<open>rounds k\<close> is any number of steps of the operator, at least \<open>k\<close> of them with a pass.\<close>

inductive rounds ::
  "('h, 'sel) surroundings \<Rightarrow> ('h world, 'sel, 'l, 'c) env \<Rightarrow> ('h world, LightsOutScheduleSpec) store \<Rightarrow> string \<times> string \<Rightarrow>
     string list \<Rightarrow> bool \<Rightarrow> nat \<Rightarrow> 'h world \<Rightarrow> 'h world \<Rightarrow> bool"
  for su base st key nss up where
  start: "rounds su base st key nss up 0 W W"
| other: "rounds su base st key nss up k W W1 \<Longrightarrow> operatorStep su base st key nss up W1 W2 \<Longrightarrow> rounds su base st key nss up k W W2"
| pass: "rounds su base st key nss up k W W1 \<Longrightarrow> comesToPass su base st key nss up W1 W2 \<Longrightarrow>
     rounds su base st key nss up (Suc k) W W2"

lemma comesToPass_step: "comesToPass su base st key nss up W W' \<Longrightarrow> operatorStep su base st key nss up W W'"
  unfolding comesToPass_def by (rule operatorStep.reconcile) (simp only: reconciles_def simp_thms, blast)

text \<open>What a schedule needs for its batches to get through.\<close>

definition batchesRun :: "('h, 'sel) surroundings \<Rightarrow> string \<Rightarrow> LightsOutScheduleCore \<Rightarrow> bool" where
  "batchesRun su name core \<longleftrightarrow> calm su \<and> name \<noteq> [] \<and> \<not> fst (syncWaveSettings core)"

definition batchOf :: "LightsOutScheduleCore \<Rightarrow> bool \<Rightarrow> int" where
  "batchOf core up = passBudget (if up then UpscaleRateLimit core else DownscaleRateLimit core)"

lemma comesToPass_calm:
  assumes rc: "comesToPass su base st key nss up W W'"
    and st: "steady su base st key name spec targets nss" and s: "separate (e_api base) st"
    and o: "orderly name targets W" and calm: "batchesRun su name (Core spec)"
  shows "map bare (fleet W') = map (nightly (su_selectors su) (Core spec) name nss up) (map bare (fleet W)) \<or>
    0 < batchOf (Core spec) up \<and>
    backlog (su_selectors su) (Core spec) name nss up (fleet W') + nat (batchOf (Core spec) up) \<le>
      backlog (su_selectors su) (Core spec) name nss up (fleet W)"
proof -
  from rc obtain now cache r obs cache' schedule period result obs' W'' where
    run: "Reconcile (operatorEnv su base) st key now cache W = (r, obs, cache', W')" and
    get: "get_schedule st key W = Inr schedule" and
    per: "fst (CalculatePeriod (e_cron base) cache (Upscale (Core (sc_Spec schedule))) (Downscale (Core (sc_Spec schedule)))
               (timezoneOf (Core (sc_Spec schedule))) now) = Inr period" and
    up: "(State period = ''Up'') = up" and
    sp: "schedulePass (operatorEnv su base) schedule nss period now W = (Inr (False, result), obs', W'')"
    unfolding comesToPass_def by blast
  have stray: "strayFree name targets (fleet W)" and con: "consistent (fleet W)" using o by (simp_all add: orderly_def)
  obtain res obs3 W3 where sc: "sc_Name schedule = name" "sc_Spec schedule = spec"
    and sp3: "schedulePass (operatorEnv su base) schedule nss period now W = (res, obs3, W3)" and f3: "fleet W' = fleet W3"
    by (rule Reconcile_pass [OF run get per st s stray])
  have f: "fleet W' = fleet W''" using sp sp3 f3 by simp
  have core: "Core spec = Core (sc_Spec schedule)" using sc by simp
  show ?thesis
    using sp s core up [symmetric]
  proof (cases rule: schedulePass_pass)
    case (pass W1 cfg r err o2)
    have "consistent (fleet W1)" using con pass(1) by simp
    from pass_calm [OF pass(4) pass(2) [unfolded sc] steady_scope(1) [OF st] this _ _ _ refl] calm show ?thesis
      unfolding f pass(1,3) batchOf_def batchesRun_def by blast
  qed simp
qed

text \<open>In the night every reconcile that gets as far as the pass makes one.\<close>

lemma night_comesToPass:
  assumes rc: "reconciles su base st key nss False full W W'"
    and st: "steady su base st key name spec targets nss" and s: "separate (e_api base) st"
    and con: "consistent (fleet W)" and calm: "batchesRun su name (Core spec)"
  shows "comesToPass su base st key nss False W W'"
proof -
  from rc obtain now cache r obs cache' schedule period where
    run: "Reconcile (operatorEnv su base) st key now cache W = (r, obs, cache', W')" and
    get: "get_schedule st key W = Inr schedule" and
    per: "fst (CalculatePeriod (e_cron base) cache (Upscale (Core (sc_Spec schedule))) (Downscale (Core (sc_Spec schedule)))
               (timezoneOf (Core (sc_Spec schedule))) now) = Inr period" and
    up: "(State period = ''Up'') = False"
    unfolding reconciles_def by blast
  have "\<exists>schedule. get_schedule st key W = Inr schedule \<and> sc_Name schedule = name \<and> sc_Spec schedule = spec"
    using st by (auto simp: steady_def)
  with get have sc: "sc_Name schedule = name" "sc_Spec schedule = spec" by auto
  obtain res obs1 W1 where sp: "schedulePass (operatorEnv su base) schedule nss period now W = (res, obs1, W1)"
    by (rule prod_cases3)
  have core: "Core spec = Core (sc_Spec schedule)" using sc by simp
  have "\<exists>result. res = Inr (False, result)"
    using sp s core up [symmetric]
  proof (cases rule: schedulePass_pass)
    case (pass W2 cfg r err o2)
    have "consistent (fleet W2)" using con pass(1) by simp
    from pass_calm [OF pass(4) pass(2) [unfolded sc] steady_scope(1) [OF st] this _ _ _ refl] calm pass(5) show ?thesis
      by (auto simp: batchesRun_def)
  qed simp
  with run get per up sp show ?thesis unfolding comesToPass_def by blast
qed

lemma backlog_partly:
  assumes "partly (nightly sels core sched nss up) xs ys"
  shows "backlog sels core sched nss up ys \<le> backlog sels core sched nss up xs"
  using assms unfolding partly_def
  by (induction rule: list_all2_induct)
     (auto simp: backlog_def nightly_def stepWhere_def pending_wanted split: if_splits)

lemma backlog_done: "backlog sels core sched nss up (map (nightly sels core sched nss up) xs) = 0"
  by (auto simp: backlog_def nightly_def stepWhere_def pending_wanted filter_empty_conv split: if_splits)

text \<open>What is left after \<open>k\<close> passes: nothing, or all but \<open>k\<close> batches of what was there.\<close>

definition worked ::
  "'sel selectors \<Rightarrow> LightsOutScheduleCore \<Rightarrow> string \<Rightarrow> string list \<Rightarrow> bool \<Rightarrow> nat \<Rightarrow> workload list \<Rightarrow> workload list \<Rightarrow> bool" where
  "worked sels core sched nss up k F F' \<longleftrightarrow>
     map bare F' = map (nightly sels core sched nss up) (map bare F) \<or>
     (0 < k \<longrightarrow> 0 < batchOf core up) \<and>
     backlog sels core sched nss up F' + k * nat (batchOf core up) \<le> backlog sels core sched nss up F"

lemma rounds_worked:
  assumes "rounds su base st key nss up k W0 W"
    and st: "steady su base st key name spec targets nss" and s: "separate (e_api base) st"
    and blind: "blindToMark (su_selectors su) (Core spec)" and o: "orderly name targets W0"
    and calm: "batchesRun su name (Core spec)"
  shows "orderly name targets W \<and>
    partly (nightly (su_selectors su) (Core spec) name nss up) (map bare (fleet W0)) (map bare (fleet W)) \<and>
    worked (su_selectors su) (Core spec) name nss up k (fleet W0) (fleet W)"
proof -
  let ?P = "inScope (su_selectors su) (Core spec) nss" and ?f = "nightly (su_selectors su) (Core spec) name nss up"
  note trans = scaling.partly_trans [where P = ?P, OF inScope_wanted [OF blind], folded nightly_def]
    and after = scaling.map_after_partly [where P = ?P, OF inScope_wanted [OF blind], folded nightly_def]
    and still = scaling.partly_after_map [where P = ?P, OF inScope_wanted [OF blind], folded nightly_def]
  have move: "orderly name targets W2 \<and> partly ?f (map bare (fleet W1)) (map bare (fleet W2))"
    if "operatorStep su base st key nss up W1 W2" "orderly name targets W1" for W1 W2
    using operatorSteps_night [OF r_into_rtranclp [of "operatorStep su base st key nss up", OF that(1)] st s blind that(2)]
      nightSteps_partly [OF _ steady_scope(1) [OF st] _ blind] that(2) by (auto simp: orderly_def)
  from assms(1) o show ?thesis
  proof induction
    case start
    then show ?case by (simp add: worked_def)
  next
    case (other k W W1 W2)
    from move [OF other(2)] other(3) [OF other(4)] have m: "orderly name targets W2" "partly ?f (map bare (fleet W1)) (map bare (fleet W2))" by auto
    have "backlog (su_selectors su) (Core spec) name nss up (fleet W2) \<le> backlog (su_selectors su) (Core spec) name nss up (fleet W1)"
      using backlog_partly [OF m(2)] by (simp add: backlog_bare)
    moreover have "map bare (fleet W2) = map ?f (map bare (fleet W))" if "map bare (fleet W1) = map ?f (map bare (fleet W))"
      using still m(2) unfolding that by blast
    ultimately have "worked (su_selectors su) (Core spec) name nss up k (fleet W) (fleet W2)"
      using other(3) [OF other(4)] by (auto simp: worked_def)
    with m trans other(3) [OF other(4)] show ?case by blast
  next
    case (pass k W W1 W2)
    from move [OF comesToPass_step [OF pass(2)]] pass(3) [OF pass(4)] have m: "orderly name targets W2" "partly ?f (map bare (fleet W1)) (map bare (fleet W2))"
      by auto
    from pass(3) [OF pass(4)] have 1: "orderly name targets W1" "partly ?f (map bare (fleet W)) (map bare (fleet W1))"
      "worked (su_selectors su) (Core spec) name nss up k (fleet W) (fleet W1)" by auto
    have fin: "map bare (fleet W2) = map ?f (map bare (fleet W))" if "map bare (fleet W1) = map ?f (map bare (fleet W))"
      using still m(2) unfolding that by blast
    have "worked (su_selectors su) (Core spec) name nss up (Suc k) (fleet W) (fleet W2)"
      using comesToPass_calm [OF pass(2) st s 1(1) calm] after [OF 1(2)] fin 1(3) unfolding worked_def by auto
    with m trans 1 show ?case by blast
  qed
qed

section \<open>Properties\<close>

text \<open>
  C5: Batches get through. On a server that refuses nothing, with sync waves off and a batch size \<open>b\<close>,
  each reconcile that comes to its pass scales \<open>b\<close> of the pending workloads or is the last one that is
  needed: of \<open>n\<close> pending workloads at most \<open>n - k * b\<close> are left after \<open>k\<close> such reconciles, and when
  \<open>n < k * b\<close>, or after the first of them without a batch size, every workload in scope is as the schedule
  wants it, whatever other reconciles and changes of status came in between. In the night no reconcile is put off.
\<close>

theorem batches_get_through:
  assumes "steady su base st key name spec targets nss" and "separate (e_api base) st"
    and "blindToMark (su_selectors su) (Core spec)" and "orderly name targets W0" and "batchesRun su name (Core spec)"
    and "rounds su base st key nss up k W0 W" and "b = batchOf (Core spec) up"
    and "n = backlog (su_selectors su) (Core spec) name nss up (fleet W0)"
  shows "backlog (su_selectors su) (Core spec) name nss up (fleet W) \<le> n - k * nat b \<and>
    (0 < k \<and> (0 < b \<longrightarrow> n < k * nat b) \<longrightarrow>
       map bare (fleet W) = map (nightly (su_selectors su) (Core spec) name nss up) (map bare (fleet W0))) \<and>
    (\<forall>W'. \<not> up \<and> reconciles su base st key nss up False W W' \<longrightarrow> comesToPass su base st key nss up W W')"
proof -
  from rounds_worked [OF assms(6,1-5)] have o: "orderly name targets W"
    and w: "worked (su_selectors su) (Core spec) name nss up k (fleet W0) (fleet W)" by auto
  have "comesToPass su base st key nss up W W'" if "\<not> up" "reconciles su base st key nss up False W W'" for W'
    using night_comesToPass [OF _ assms(1,2) _ assms(5)] that o by (auto simp: orderly_def)
  moreover have "backlog (su_selectors su) (Core spec) name nss up (fleet W) = 0"
    if "map bare (fleet W) = map (nightly (su_selectors su) (Core spec) name nss up) (map bare (fleet W0))"
    using backlog_done unfolding that [symmetric] by (metis backlog_bare that)
  ultimately show ?thesis using w unfolding worked_def assms(7,8) by auto
qed

section \<open>Witness\<close>

text \<open>The shop with one workload per batch: three workloads, four reconciles.\<close>

definition slowSpec :: LightsOutScheduleSpec where
  "slowSpec = (shopSpec None)\<lparr>Core := emptyCore\<lparr>DownscaleRateLimit := Some \<lparr>BatchSize = Some 1, DelayBetweenBatches = None\<rparr>\<rparr>\<rparr>"

definition slowStore :: "(unit world, LightsOutScheduleSpec) store" where
  "slowStore = shopStore\<lparr>get_schedule := \<lambda>key W. Inr (nightSchedule slowSpec)\<rparr>"

lemma slow_steady: "steady sampleSurroundings heldEnv slowStore ([], ''night'') ''night'' slowSpec [''shop''] [''shop'']"
proof -
  have "DiscoverNamespaces (su_selectors sampleSurroundings) (e_listNamespaces heldEnv) slowSpec W = Inr [''shop'']" for W
    by (simp add: DiscoverNamespaces_def selectedNamespaces_def slowSpec_def shopSpec_def SystemNamespaces_def)
  moreover have "\<not> Suspend (Core slowSpec)" by (simp add: slowSpec_def emptyCore_def)
  ultimately show ?thesis by (simp add: steady_def slowStore_def nightSchedule_def heldEnv_def)
qed

lemma slow_separate: "separate (e_api heldEnv) slowStore"
  using shop_separate by (simp add: separate_def apartFromFleet_def slowStore_def)

lemma slow_reconciles: "\<exists>W'. reconciles sampleSurroundings heldEnv slowStore ([], ''night'') [''shop''] False False W W'"
proof -
  obtain r obs c W' where run: "Reconcile (operatorEnv sampleSurroundings heldEnv) slowStore ([], ''night'') 0 (shopCache False) W = (r, obs, c, W')"
    by (rule prod_cases4)
  have get: "get_schedule slowStore ([], ''night'') W = Inr (nightSchedule slowSpec)" by (simp add: slowStore_def)
  have per: "fst (CalculatePeriod (e_cron heldEnv) (shopCache False) (Upscale (Core (sc_Spec (nightSchedule slowSpec))))
      (Downscale (Core (sc_Spec (nightSchedule slowSpec)))) (timezoneOf (Core (sc_Spec (nightSchedule slowSpec)))) 0) = Inr (shopPeriod False)"
    by (simp add: CalculatePeriod_def getCachedPeriod_def shopCache_def slowSpec_def nightSchedule_def emptyCore_def timezoneOf_def
        heldEnv_def duration_defs)
  have up: "(State (shopPeriod False) = ''Up'') = False" by (simp add: shopPeriod_def)
  from run get per up have "reconciles sampleSurroundings heldEnv slowStore ([], ''night'') [''shop''] False False W W'"
    unfolding reconciles_def by (simp only: simp_thms) blast
  then show ?thesis by blast
qed

lemma slow_conditions:
  "blindToMark (su_selectors sampleSurroundings) (Core slowSpec)" "orderly ''night'' [''shop''] shopWorld"
  "batchesRun sampleSurroundings ''night'' (Core slowSpec)" "batchOf (Core slowSpec) False = 1"
  "backlog (su_selectors sampleSurroundings) (Core slowSpec) ''night'' [''shop''] False (fleet shopWorld) = 3"
proof -
  show "blindToMark (su_selectors sampleSurroundings) (Core slowSpec)" using shop_blind by (simp add: slowSpec_def blindToMark_def)
  show "orderly ''night'' [''shop''] shopWorld" using shop_smooth(1) shop_done(1) by (simp add: orderly_def smooth_def shopDone_def)
  show "batchesRun sampleSurroundings ''night'' (Core slowSpec)"
    by (simp add: batchesRun_def calm_def sampleSurroundings_def slowSpec_def emptyCore_def syncWaveSettings_def)
  show "batchOf (Core slowSpec) False = 1" by (simp add: batchOf_def passBudget_def slowSpec_def)
  show "backlog (su_selectors sampleSurroundings) (Core slowSpec) ''night'' [''shop''] False (fleet shopWorld) = 3" by code_simp
qed

theorem batches_get_through_witness:
  "\<exists>W :: unit world. rounds sampleSurroundings heldEnv slowStore ([], ''night'') [''shop''] False 4 shopWorld W \<and>
     map bare (fleet W) = map (nightly (su_selectors sampleSurroundings) (Core slowSpec) ''night'' [''shop''] False) (map bare (fleet shopWorld))"
proof -
  let ?R = "rounds sampleSurroundings heldEnv slowStore ([], ''night'') [''shop''] False"
  note t = batches_get_through [OF slow_steady slow_separate slow_conditions(1-3) _ refl refl]
  have "\<exists>W. ?R k shopWorld W" for k
  proof (induction k)
    case 0
    show ?case by (rule exI) (rule rounds.start)
  next
    case (Suc k)
    then obtain W where W: "?R k shopWorld W" by blast
    obtain W' where "reconciles sampleSurroundings heldEnv slowStore ([], ''night'') [''shop''] False False W W'"
      using slow_reconciles by blast
    with t [OF W] have "comesToPass sampleSurroundings heldEnv slowStore ([], ''night'') [''shop''] False W W'" by blast
    with W show ?case by (blast intro: rounds.pass)
  qed
  then obtain W where "?R 4 shopWorld W" by blast
  with t [OF this] show ?thesis by (auto simp: slow_conditions(4,5))
qed

end
