(* ===== verification/Leftovers.thy ===== *)
theory Leftovers
  imports Convergence
begin

text \<open>
  What a morning leaves behind. \<open>batches_get_through\<close> counts reconciles; this theory is about when
  they come. Events of the workloads and of the status wake no reconciler (\<open>SetupWithManager\<close>), so a
  reconcile that asks to come back at the next transition is followed by one that scales down.
\<close>

text \<open>
  C18: Workloads that a morning reconcile does not get to, because the batch size is used up and no delay
  between batches is set, stay down until the next downscale and beyond: the reconcile asks to come back
  at the next transition. So do those it fails to scale, whatever their number, unless ArgoCD or FluxCD
  has something to warm up.
\<close>

theorem morning_leftovers_wait:
  assumes "steady su base st key name spec targets nss" and "strayFree name targets (fleet W)"
    and "get_schedule st key W = Inr schedule"
    and "CalculatePeriod (e_cron base) cache (Upscale (Core spec)) (Downscale (Core spec)) (timezoneOf (Core spec)) now
      = (Inr period, cache')" and "State period = ''Up''"
    and "Reconcile (operatorEnv su base) st key now cache W = (Inr d, obs, cache'', W')"
    and "schedulePass (operatorEnv su base) schedule nss period now W = (Inr (False, r), obs1, W1)"
    and "batchLimitReached r \<and> Option.bind (UpscaleRateLimit (Core spec)) DelayBetweenBatches = None \<or>
         \<not> stoppedEarly r \<and> ArgoCD (Core spec) = None \<and> FluxCD (Core spec) = None"
  shows "untilNext period True now \<le> d"
proof -
  have "\<exists>sc. get_schedule st key W = Inr sc \<and> sc_Name sc = name \<and> sc_Spec sc = spec \<and>
      FinalizerName \<in> sc_Finalizers sc \<and> sc_DeletionTimestamp sc = None"
    using assms(1) by (simp add: steady_def)
  with assms(3) have sc: "sc_Name schedule = name" "sc_Spec schedule = spec" "FinalizerName \<in> sc_Finalizers schedule"
    "sc_DeletionTimestamp schedule = None" by auto
  have scope: "\<not> Suspend (Core spec)"
    "DiscoverNamespaces (su_selectors su) (e_listNamespaces base) spec W = Inr targets"
    "FilterNamespacesWithLocalSchedules (e_listLocal base) targets W = Inr nss"
    using assms(1) by (simp_all add: steady_def)
  obtain obs2 where run: "runSchedule (operatorEnv su base) st (globalKind schedule) (Core spec) schedule nss period now W = (Inr d, obs2, W')"
    using assms(4,6) assms(3) sc scope no_orphans [OF assms(2), of su base "Core spec" now]
    by (auto simp: Reconcile_def ReconcileActive_def Let_def split: prod.splits)
  have "scalePhase (operatorEnv su base) (Core spec)
      \<lparr>ic_ScheduleObj = sk_Ref (globalKind schedule), ic_Core = Core spec, ic_ScheduleName = sc_Name schedule,
         ic_ScheduleLabel = sk_Label (globalKind schedule), ic_Namespaces = nss\<rparr>
      (scaleConfig (globalKind schedule) (sc_Name schedule) nss True (UpscaleRateLimit (Core spec))
         (carriedWaveProgress (sc_Status schedule) period) now) now W = (Inr (False, r), obs1, W1)"
    using assms(5,7) by (simp add: schedulePass_def Let_def sc(2))
  from runSchedule_waits [OF run assms(5) refl refl this assms(8)] show ?thesis .
qed

section \<open>Witness\<close>

text \<open>The shop in the morning, one workload per batch and no delay: two workloads stay down all day.\<close>

definition stuckSpec :: LightsOutScheduleSpec where
  "stuckSpec = (shopSpec None)\<lparr>Core := emptyCore\<lparr>UpscaleRateLimit := Some \<lparr>BatchSize = Some 1, DelayBetweenBatches = None\<rparr>\<rparr>\<rparr>"

definition stuckStore :: "(unit world, LightsOutScheduleSpec) store" where
  "stuckStore = shopStore\<lparr>get_schedule := \<lambda>key W. Inr (nightSchedule stuckSpec)\<rparr>"

definition stuckPass :: "(string + bool \<times> scaleWorkloadsResult) \<times> observation list \<times> unit world" where
  "stuckPass = schedulePass (operatorEnv sampleSurroundings heldEnv) (nightSchedule stuckSpec) [''shop''] (shopPeriod True) 0 (after False shopWorld)"

lemma stuck_pass:
  "case stuckPass of (Inr (False, r), _, W1) \<Rightarrow> batchLimitReached r \<and> length (filter asleep (fleet W1)) = 2 | _ \<Rightarrow> False"
  by code_simp

lemma stuck_reconciles:
  "\<not> isl (fst (Reconcile (operatorEnv sampleSurroundings heldEnv) stuckStore ([], ''night'') 0 (shopCache True) (after False shopWorld)))"
  by code_simp

lemma stuck_steady: "steady sampleSurroundings heldEnv stuckStore ([], ''night'') ''night'' stuckSpec [''shop''] [''shop'']"
proof -
  have "DiscoverNamespaces (su_selectors sampleSurroundings) (e_listNamespaces heldEnv) stuckSpec W = Inr [''shop'']" for W
    by (simp add: DiscoverNamespaces_def selectedNamespaces_def stuckSpec_def shopSpec_def SystemNamespaces_def)
  moreover have "\<not> Suspend (Core stuckSpec)" by (simp add: stuckSpec_def emptyCore_def)
  ultimately show ?thesis by (simp add: steady_def stuckStore_def nightSchedule_def heldEnv_def)
qed

theorem morning_leftovers_wait_witness:
  "\<exists>d obs c W'. Reconcile (operatorEnv sampleSurroundings heldEnv) stuckStore ([], ''night'') 0 (shopCache True) (after False shopWorld)
       = (Inr d, obs, c, W') \<and> 8 * hour \<le> d \<and> length (filter asleep (fleet W')) = 2"
proof -
  let ?W = "after False shopWorld"
  obtain d obs c W' where run: "Reconcile (operatorEnv sampleSurroundings heldEnv) stuckStore ([], ''night'') 0 (shopCache True) ?W
      = (Inr d, obs, c, W')" using stuck_reconciles by (metis prod.collapse sum.collapse(2))
  obtain res obs1 W1 where sp0: "stuckPass = (res, obs1, W1)" by (rule prod_cases3)
  from stuck_pass [unfolded sp0] obtain r where res: "res = Inr (False, r)"
    and r: "batchLimitReached r" "length (filter asleep (fleet W1)) = 2"
    by (cases res) (auto split: bool.splits)
  note sp = sp0 [unfolded res]
  have get: "get_schedule stuckStore ([], ''night'') ?W = Inr (nightSchedule stuckSpec)" by (simp add: stuckStore_def)
  have per: "CalculatePeriod (e_cron heldEnv) (shopCache True) (Upscale (Core stuckSpec)) (Downscale (Core stuckSpec))
      (timezoneOf (Core stuckSpec)) 0 = (Inr (shopPeriod True), shopCache True)"
    by (simp add: CalculatePeriod_def getCachedPeriod_def shopCache_def stuckSpec_def emptyCore_def timezoneOf_def heldEnv_def duration_defs)
  have spec: "sc_Spec (nightSchedule stuckSpec) = stuckSpec" by (simp add: nightSchedule_def)
  have up: "State (shopPeriod True) = ''Up''" by (simp add: shopPeriod_def)
  have stray: "strayFree ''night'' [''shop''] (fleet ?W)" using shop_done(2) by (simp add: shopDone_def)
  have left: "batchLimitReached r \<and> Option.bind (UpscaleRateLimit (Core stuckSpec)) DelayBetweenBatches = None \<or>
      \<not> stoppedEarly r \<and> ArgoCD (Core stuckSpec) = None \<and> FluxCD (Core stuckSpec) = None"
    using r(1) by (simp add: stuckSpec_def)
  from morning_leftovers_wait [OF stuck_steady stray get per up run sp [unfolded stuckPass_def] left]
  have d: "8 * hour \<le> d" by (simp add: untilNext_def shopPeriod_def morning_def timeSub_def duration_defs maxDuration_def minDuration_def)
  have sep: "separate (e_api heldEnv) stuckStore"
    using shop_separate by (simp add: separate_def apartFromFleet_def stuckStore_def)
  have per': "fst (CalculatePeriod (e_cron heldEnv) (shopCache True) (Upscale (Core (sc_Spec (nightSchedule stuckSpec))))
      (Downscale (Core (sc_Spec (nightSchedule stuckSpec)))) (timezoneOf (Core (sc_Spec (nightSchedule stuckSpec)))) 0) = Inr (shopPeriod True)"
    unfolding spec per by simp
  from Reconcile_pass [OF run get per' stuck_steady sep stray] sp [unfolded stuckPass_def] have "fleet W' = fleet W1" by auto
  with run d r(2) show ?thesis by auto
qed

end
