(* ===== verification/Takeover.thy ===== *)
theory Takeover
  imports Operator
begin

text \<open>
  The passes of a namespace schedule on a server that stores the workloads. They differ from those of a
  cluster schedule in that collecting the workloads writes: one that carries the label of another
  schedule is given to this one first. A night in which a namespace schedule appears in a namespace of
  a cluster schedule is the composition of the two.
\<close>

section \<open>Taking over one workload\<close>

definition foreign :: "string \<Rightarrow> workload \<Rightarrow> bool" where
  "foreign sched w \<longleftrightarrow> mget (labelsOf w) ManagedByLabel \<noteq> [] \<and> mget (labelsOf w) ManagedByLabel \<noteq> sched"

definition stampObject :: "string \<Rightarrow> 'a kmeta_scheme \<Rightarrow> 'a kmeta_scheme" where
  "stampObject sched d = d\<lparr>obj_labels := (obj_labels d)(ManagedByLabel \<mapsto> sched),
     obj_annotations := (obj_annotations d)(ManagedByAnnotation \<mapsto> sched)\<rparr>"

fun stamp :: "string \<Rightarrow> workload \<Rightarrow> workload" where
  "stamp sched (WDeployment d) = WDeployment (stampObject sched d)"
| "stamp sched (WStatefulSet d) = WStatefulSet (stampObject sched d)"
| "stamp sched (WCronJob c) = WCronJob (stampObject sched c)"

definition takeOver :: "string \<Rightarrow> workload \<Rightarrow> workload" where
  "takeOver sched w = (if foreign sched w then stamp sched w else w)"

lemma keyOf_takeOver [simp]: "keyOf (takeOver sched w) = keyOf w"
  by (cases w) (simp_all add: takeOver_def stampObject_def)

lemma workloadNamespace_takeOver [simp]: "workloadNamespace (takeOver sched w) = workloadNamespace w"
  by (cases w) (simp_all add: takeOver_def stampObject_def)

lemma takeOver_idem: "takeOver sched (takeOver sched w) = takeOver sched w"
  by (cases w) (simp_all add: takeOver_def foreign_def stampObject_def)

section \<open>Collecting with transfer\<close>

text \<open>The patch that hands a workload over.\<close>

definition transferPatch :: "string \<Rightarrow> objectPatch" where
  "transferPatch sched = emptyPatch\<lparr>SetAnnotations := [(ManagedByAnnotation, sched)], SetLabels := [(ManagedByLabel, sched)]\<rparr>"

lemma transferPatch_merges:
  "merge_workload (build (transferPatch sched)) d = stampObject sched d"
  "merge_cronjob (build (transferPatch sched)) c = stampObject sched c"
  by (simp_all add: transferPatch_def stampObject_def merge_workload_build merge_cronjob_build)

text \<open>A workload of another schedule whose transfer the server refuses in some state.\<close>

definition refused :: "(workload \<Rightarrow> json \<Rightarrow> 'h world \<Rightarrow> string option) \<Rightarrow> string \<Rightarrow> workload \<Rightarrow> bool" where
  "refused refuse sched w \<longleftrightarrow> foreign sched w \<and> (\<exists>W. refuse w (build (transferPatch sched)) W \<noteq> None)"

lemma applyMergePatch_refused:
  assumes "kindView view wrap" and "consistent (fleet W)" and "wrap obj \<in> set (fleet W)"
    and "keyOf (wrap (merge (build p) obj)) = keyOf (wrap obj)"
    and "applyMergePatch (patchStored view wrap merge refuse) obj p W = (Some e, obj', W')"
  shows "refuse (wrap obj) (build p) W \<noteq> None"
  using assms(5) unfolding applyMergePatch_def patchStored_here [of view wrap W obj merge "build p", OF assms(1-4)]
  by (auto split: option.splits)

text \<open>
  What collecting a list of objects does to the fleet: it takes over some of the eligible ones and
  returns them; an eligible one that it leaves out belongs to another schedule, and the server has
  refused to transfer it.
\<close>

lemma collectItems_transfer:
  assumes view: "kindView view wrap" and m: "\<And>d. wrap (merge (build (transferPatch sched)) d) = stamp sched (wrap d)"
    and wrap: "\<And>obj. labelsOf (wrap obj) = obj_labels obj \<and> ownersOf (wrap obj) = obj_ownerReferences obj"
    and "consistent F" and "distinct objs" and "wrap ` set objs \<subseteq> set F - V" and "V \<subseteq> set F"
    and "fleet W = advance (takeOver sched) V F"
    and "collectItems sels core sched True (patchStored view wrap merge refuse) wrap objs W = (ws, W')"
  shows "\<exists>T \<subseteq> {w \<in> wrap ` set objs. eligible sels core w}.
    fleet W' = advance (takeOver sched) (V \<union> T) F \<and> set ws = takeOver sched ` T \<and> distinct (map keyOf ws) \<and>
    (\<forall>w \<in> {w \<in> wrap ` set objs. eligible sels core w} - T. refused refuse sched w)"
  using assms(5-)
proof (induction objs arbitrary: W V ws)
  case Nil
  then show ?case by auto
next
  case (Cons obj objs)
  let ?send = "patchStored view wrap merge refuse" and ?E = "\<lambda>objs. {w \<in> wrap ` set objs. eligible sels core w}"
  have inj: "wrap a = wrap b \<Longrightarrow> a = b" for a b using view unfolding kindView_def by (metis option.inject)
  have here: "wrap obj \<in> set F" "wrap obj \<notin> V" "wrap ` set objs \<subseteq> set F - V" "distinct objs" using Cons.prems(1,2) by auto
  have new: "wrap obj \<notin> wrap ` set objs" using Cons.prems(1) inj by auto
  have el: "eligible sels core (wrap obj) \<longleftrightarrow> ShouldExcludeWorkload sels (obj_labels obj) (ExcludeLabels core) = Inr False \<and>
      (IncludeOwnedWorkloads core \<or> \<not> hasControllerOwner (obj_ownerReferences obj))"
    by (simp add: eligible_def wrap)
  have E: "?E (obj # objs) = (if eligible sels core (wrap obj) then insert (wrap obj) (?E objs) else ?E objs)" by auto
  show ?case
  proof (cases "eligible sels core (wrap obj)")
    case False
    then have "collectItems sels core sched True ?send wrap objs W = (ws, W')"
      using Cons.prems(5) unfolding el by (auto split: sum.splits bool.splits if_splits)
    from Cons.IH [OF here(4,3) Cons.prems(3,4) this] False show ?thesis unfolding E by (simp only: if_False)
  next
    case True
    note ok = True [unfolded el]
    have step: ?thesis
      if rest: "collectItems sels core sched True ?send wrap objs W1 = (ws1, W')" and ws: "ws = takeOver sched (wrap obj) # ws1"
        and F1: "fleet W1 = advance (takeOver sched) (insert (wrap obj) V) F" for W1 ws1
    proof -
      have "wrap ` set objs \<subseteq> set F - insert (wrap obj) V" using here(3) new by (metis Diff_insert subset_Diff_insert)
      moreover have "insert (wrap obj) V \<subseteq> set F" using here(1) Cons.prems(3) by simp
      ultimately obtain T where T: "T \<subseteq> ?E objs" "fleet W' = advance (takeOver sched) (insert (wrap obj) V \<union> T) F"
        "set ws1 = takeOver sched ` T" "distinct (map keyOf ws1)" "\<forall>w \<in> ?E objs - T. refused refuse sched w"
        using Cons.IH [OF here(4) _ _ F1 rest] by blast
      have other: "keyOf (wrap obj) \<noteq> keyOf w" if "w \<in> T" for w
      proof
        assume k: "keyOf (wrap obj) = keyOf w"
        have w: "w \<in> wrap ` set objs" using T(1) that by blast
        then have "w \<in> set F" using here(3) by blast
        from consistent_inj [OF assms(4) here(1) this k] w new show False by simp
      qed
      have "keyOf (takeOver sched (wrap obj)) \<notin> keyOf ` takeOver sched ` T"
        unfolding keyOf_takeOver image_image using other by blast
      then have "keyOf (takeOver sched (wrap obj)) \<notin> set (map keyOf ws1)" unfolding list.set_map T(3) .
      then have "distinct (map keyOf ws)" using T(4) by (simp add: ws del: keyOf.simps)
      moreover have "insert (wrap obj) T \<subseteq> ?E (obj # objs)" "\<forall>w \<in> ?E (obj # objs) - insert (wrap obj) T. refused refuse sched w"
        using T(1,5) True unfolding E by auto
      moreover have "fleet W' = advance (takeOver sched) (V \<union> insert (wrap obj) T) F" using T(2) by simp
      moreover have "set ws = takeOver sched ` insert (wrap obj) T" by (simp add: ws T(3))
      ultimately show ?thesis by blast
    qed
    show ?thesis
    proof (cases "foreign sched (wrap obj)")
      case False
      then have same: "takeOver sched (wrap obj) = wrap obj" by (simp add: takeOver_def)
      obtain ws1 where r: "collectItems sels core sched True ?send wrap objs W = (ws1, W')" "ws = wrap obj # ws1"
        using Cons.prems(5) ok False by (auto simp: foreign_def wrap split: prod.splits)
      have "advance (takeOver sched) (insert (wrap obj) V) F = advance (takeOver sched) V F"
        using same by (auto simp: advance_def)
      with Cons.prems(4) have "fleet W = advance (takeOver sched) (insert (wrap obj) V) F" by simp
      from step [OF r(1) _ this] r(2) show ?thesis unfolding same by blast
    next
      case foreign: True
      obtain err obj' W1 where patch: "applyMergePatch ?send obj (transferPatch sched) W = (err, obj', W1)" by (rule prod_cases3)
      have con: "consistent (fleet W)"
        using assms(4) keys_advance [of "takeOver sched" V F, OF keyOf_takeOver] unfolding Cons.prems(4) consistent_def by simp
      have mem: "wrap obj \<in> set (fleet W)" using here unfolding Cons.prems(4) by (force simp: advance_def)
      have stampKey: "keyOf (stamp sched (wrap obj)) = keyOf (wrap obj)"
        using keyOf_takeOver [of sched "wrap obj"] foreign by (simp add: takeOver_def del: keyOf.simps)
      note a = applyMergePatch_here [OF view con mem _ patch, unfolded m, OF stampKey]
      show ?thesis
      proof (cases err)
        case (Some e)
        have no: "refused refuse sched (wrap obj)"
          using applyMergePatch_refused [OF view con mem _ patch [unfolded Some], unfolded m, OF stampKey] foreign
          unfolding refused_def by blast
        from a Some have "W1 = W" by simp
        then have "collectItems sels core sched True ?send wrap objs W = (ws, W')"
          using Cons.prems(5) ok foreign patch Some by (auto simp: foreign_def wrap transferPatch_def split: prod.splits)
        from Cons.IH [OF here(4,3) Cons.prems(3,4) this] obtain T where T: "T \<subseteq> ?E objs"
          "fleet W' = advance (takeOver sched) (V \<union> T) F" "set ws = takeOver sched ` T" "distinct (map keyOf ws)"
          "\<forall>w \<in> ?E objs - T. refused refuse sched w" by blast
        moreover have "T \<subseteq> ?E (obj # objs)" "\<forall>w \<in> ?E (obj # objs) - T. refused refuse sched w"
          using T(1,5) no True unfolding E by auto
        ultimately show ?thesis by blast
      next
        case None
        with a have F1: "fleet W1 = swap (wrap obj) (takeOver sched (wrap obj)) (fleet W)" and obj': "wrap obj' = takeOver sched (wrap obj)"
          using foreign m by (simp_all add: takeOver_def)
        obtain ws1 where r: "collectItems sels core sched True ?send wrap objs W1 = (ws1, W')" "ws = wrap obj' # ws1"
          using Cons.prems(5) ok foreign patch None by (auto simp: foreign_def wrap transferPatch_def split: prod.splits)
        have "fleet W1 = advance (takeOver sched) (insert (wrap obj) V) F"
          unfolding F1 Cons.prems(4) by (rule advance_insert [OF assms(4) here(1,2) keyOf_takeOver])
        from step [OF r(1) _ this] r(2) show ?thesis unfolding obj' by blast
      qed
    qed
  qed
qed

text \<open>
  What collecting the workloads under some keys does, and which it may leave out (\<open>N\<close>); collecting
  under other keys adds to it.
\<close>

definition gathers ::
  "(workload \<Rightarrow> bool) \<Rightarrow> string \<Rightarrow> (workload \<Rightarrow> bool) \<Rightarrow> (string \<times> string \<times> string \<Rightarrow> bool) \<Rightarrow> workload list \<Rightarrow> workload list \<Rightarrow> workload list \<Rightarrow> bool" where
  "gathers N sched E K F ws F' \<longleftrightarrow>
     (\<exists>T \<subseteq> {w \<in> set F. K (keyOf w) \<and> E w}. F' = advance (takeOver sched) T F \<and> set ws = takeOver sched ` T \<and>
        (\<forall>w \<in> {w \<in> set F. K (keyOf w) \<and> E w} - T. N w)) \<and>
     distinct (map keyOf ws)"

lemma gathers_keys: "gathers N sched E K F ws F' \<Longrightarrow> k \<in> set (map keyOf ws) \<Longrightarrow> K k"
  unfolding gathers_def list.set_map by (auto simp del: keyOf.simps) blast

lemma gathers_consistent: "gathers N sched E K F ws F' \<Longrightarrow> consistent F \<Longrightarrow> consistent F'"
  unfolding gathers_def consistent_def using keys_advance [of "takeOver sched", OF keyOf_takeOver] by auto

lemma gathers_append:
  assumes g1: "gathers N sched E K1 F ws1 F1" and g2: "gathers N sched E K2 F1 ws2 F2" and K: "\<And>k. \<not> (K1 k \<and> K2 k)"
  shows "gathers N sched E (\<lambda>k. K1 k \<or> K2 k) F (ws1 @ ws2) F2"
proof -
  let ?S = "\<lambda>K F. {w \<in> set F. K (keyOf w) \<and> E w}"
  from g1 obtain T1 where T1: "T1 \<subseteq> ?S K1 F" "F1 = advance (takeOver sched) T1 F" "set ws1 = takeOver sched ` T1"
    "\<forall>w \<in> ?S K1 F - T1. N w" by (auto simp: gathers_def)
  from g2 obtain T2 where T2: "T2 \<subseteq> ?S K2 F1" "F2 = advance (takeOver sched) T2 F1" "set ws2 = takeOver sched ` T2"
    "\<forall>w \<in> ?S K2 F1 - T2. N w" by (auto simp: gathers_def)
  have not2: "\<not> K2 (keyOf x)" if "x \<in> T1" for x using that T1(1) K by blast
  have S2: "?S K2 F1 = ?S K2 F"
  proof (intro set_eqI iffI)
    fix w
    assume "w \<in> ?S K2 F1"
    then obtain x where x: "x \<in> set F" "w = (if x \<in> T1 then takeOver sched x else x)" "K2 (keyOf w)" "E w"
      unfolding T1(2) advance_def by auto
    with not2 [of x] have "x \<notin> T1" using keyOf_takeOver by (metis (full_types))
    with x show "w \<in> ?S K2 F" by simp
  next
    fix w
    assume w: "w \<in> ?S K2 F"
    then have "w \<notin> T1" using not2 by blast
    with w show "w \<in> ?S K2 F1" unfolding T1(2) advance_def by force
  qed
  have "F2 = advance (takeOver sched) (T1 \<union> T2) F"
  proof -
    have "takeOver sched x \<notin> T2" if "x \<in> T1" for x
      using not2 [OF that] T2(1) keyOf_takeOver [of sched x] by (metis (no_types, lifting) mem_Collect_eq subsetD)
    then show ?thesis unfolding T2(2) T1(2) by (auto simp: advance_def)
  qed
  moreover have "T1 \<union> T2 \<subseteq> ?S (\<lambda>k. K1 k \<or> K2 k) F" using T1(1) T2(1) unfolding S2 by blast
  moreover have "\<forall>w \<in> ?S (\<lambda>k. K1 k \<or> K2 k) F - (T1 \<union> T2). N w" using T1(4) T2(4) unfolding S2 by blast
  moreover have "set (ws1 @ ws2) = takeOver sched ` (T1 \<union> T2)" by (simp add: T1(3) T2(3) image_Un)
  moreover have "distinct (map keyOf (ws1 @ ws2))"
  proof -
    have "set (map keyOf ws1) \<inter> set (map keyOf ws2) = {}"
      using gathers_keys [OF g1] gathers_keys [OF g2] K by blast
    then show ?thesis using g1 g2 unfolding gathers_def map_append distinct_append by blast
  qed
  ultimately show ?thesis unfolding gathers_def by blast
qed

text \<open>A step of the collection that succeeds on every server state.\<close>

definition collects ::
  "(workload \<Rightarrow> bool) \<Rightarrow> string \<Rightarrow> (workload \<Rightarrow> bool) \<Rightarrow> (string \<times> string \<times> string \<Rightarrow> bool) \<Rightarrow>
     ('h world \<Rightarrow> (string + workload list) \<times> 'h world) \<Rightarrow> bool" where
  "collects N sched E K step \<longleftrightarrow>
     (\<forall>W. consistent (fleet W) \<longrightarrow> (\<exists>ws W'. step W = (Inr ws, W') \<and> gathers N sched E K (fleet W) ws (fleet W')))"

lemma collects_andThen:
  assumes "collects N sched E K1 step" and "collects N sched E K2 rest" and "\<And>k. \<not> (K1 k \<and> K2 k)"
  shows "collects N sched E (\<lambda>k. due \<and> K1 k \<or> K2 k) (andThen due step rest)"
  unfolding collects_def
proof (intro allI impI)
  fix W :: "'a world"
  assume con: "consistent (fleet W)"
  show "\<exists>ws W'. andThen due step rest W = (Inr ws, W') \<and> gathers N sched E (\<lambda>k. due \<and> K1 k \<or> K2 k) (fleet W) ws (fleet W')"
  proof (cases due)
    case False
    with assms(2) con show ?thesis by (auto simp: collects_def andThen_def)
  next
    case True
    from assms(1) con obtain ws1 W1 where 1: "step W = (Inr ws1, W1)" "gathers N sched E K1 (fleet W) ws1 (fleet W1)"
      unfolding collects_def by blast
    from assms(2) gathers_consistent [OF 1(2) con] obtain ws2 W2 where
      2: "rest W1 = (Inr ws2, W2)" "gathers N sched E K2 (fleet W1) ws2 (fleet W2)" unfolding collects_def by blast
    from gathers_append [OF 1(2) 2(2) assms(3)] 1(1) 2(1) True show ?thesis by (simp add: andThen_def)
  qed
qed

lemma collectKind_transfer:
  fixes refuse :: "workload \<Rightarrow> json \<Rightarrow> 'h world \<Rightarrow> string option"
  assumes view: "kindView view wrap" and m: "\<And>d. wrap (merge (build (transferPatch sched)) d) = stamp sched (wrap d)"
    and wrap: "\<And>obj. labelsOf (wrap obj) = obj_labels obj \<and> ownersOf (wrap obj) = obj_ownerReferences obj"
    and list: "\<And>F. map wrap (inNamespace ns (List.map_filter view F)) = ofKind ns ty F"
  shows "collects (refused refuse sched) sched (eligible sels core) (\<lambda>(t, n, _). (n, t) = (ns, ty))
    (\<lambda>W. case collectItems sels core sched True (patchStored view wrap merge refuse) wrap
            (inNamespace ns (List.map_filter view (fleet W))) W of (ws, W') \<Rightarrow> (Inr ws, W'))"
  unfolding collects_def
proof (intro allI impI)
  fix W :: "'h world"
  assume con: "consistent (fleet W)"
  let ?objs = "inNamespace ns (List.map_filter view (fleet W))"
  obtain ws W' where run: "collectItems sels core sched True (patchStored view wrap merge refuse) wrap ?objs W = (ws, W')" by fastforce
  have set: "wrap ` set ?objs = {w \<in> set (fleet W). (workloadNamespace w, workloadType w) = (ns, ty)}"
    using arg_cong [OF list [of "fleet W"], of set] by (simp add: ofKind_def)
  have "distinct (map wrap ?objs)"
    unfolding list ofKind_def using con by (simp add: consistent_def distinct_map)
  then have "distinct ?objs" by (simp add: distinct_map)
  moreover have "wrap ` set ?objs \<subseteq> set (fleet W) - {}" unfolding set by blast
  ultimately obtain T where T: "T \<subseteq> {w \<in> wrap ` set ?objs. eligible sels core w}" "fleet W' = advance (takeOver sched) ({} \<union> T) (fleet W)"
    "set ws = takeOver sched ` T" "distinct (map keyOf ws)" "\<forall>w \<in> {w \<in> wrap ` set ?objs. eligible sels core w} - T. refused refuse sched w"
    using collectItems_transfer [OF view m wrap con _ _ _ _ run, of "{}"] by auto
  have "{w \<in> wrap ` set ?objs. eligible sels core w} = {w \<in> set (fleet W). (case keyOf w of (t, n, _) \<Rightarrow> (n, t) = (ns, ty)) \<and> eligible sels core w}"
    unfolding set by auto
  with T have "gathers (refused refuse sched) sched (eligible sels core) (\<lambda>(t, n, _). (n, t) = (ns, ty)) (fleet W) ws (fleet W')"
    unfolding gathers_def by (simp only: Un_empty_left) blast
  with run show "\<exists>ws W'. (case collectItems sels core sched True (patchStored view wrap merge refuse) wrap ?objs W of (ws, W') \<Rightarrow> (Inr ws, W')) = (Inr ws, W') \<and>
      gathers (refused refuse sched) sched (eligible sels core) (\<lambda>(t, n, _). (n, t) = (ns, ty)) (fleet W) ws (fleet W')" by simp
qed

lemma collectNamespace_transfer:
  "collects (refused (su_refuse su) sched) sched (eligible (su_selectors su) core) (\<lambda>(t, n, _). (n, t) = (ns, WorkloadTypeDeployment))
     (collectNamespaceDeployments (fleetCluster su) ns core sched True)"
  "collects (refused (su_refuse su) sched) sched (eligible (su_selectors su) core) (\<lambda>(t, n, _). (n, t) = (ns, WorkloadTypeStatefulSet))
     (collectNamespaceStatefulSets (fleetCluster su) ns core sched True)"
  "collects (refused (su_refuse su) sched) sched (eligible (su_selectors su) core) (\<lambda>(t, n, _). (n, t) = (ns, WorkloadTypeCronJob))
     (collectNamespaceCronJobs (fleetCluster su) ns core sched True)"
proof -
  have w: "WorkloadFromDeployment = WDeployment" "WorkloadFromStatefulSet = WStatefulSet" "WorkloadFromCronJob = WCronJob"
    by (simp_all add: fun_eq_iff WorkloadFromDeployment_def WorkloadFromStatefulSet_def WorkloadFromCronJob_def)
  show "collects (refused (su_refuse su) sched) sched (eligible (su_selectors su) core) (\<lambda>(t, n, _). (n, t) = (ns, WorkloadTypeDeployment))
      (collectNamespaceDeployments (fleetCluster su) ns core sched True)"
    unfolding collectNamespaceDeployments_def fleetCluster_fields w sum.case
    by (rule collectKind_transfer) (simp_all add: transferPatch_merges listed_of_kind)
  show "collects (refused (su_refuse su) sched) sched (eligible (su_selectors su) core) (\<lambda>(t, n, _). (n, t) = (ns, WorkloadTypeStatefulSet))
      (collectNamespaceStatefulSets (fleetCluster su) ns core sched True)"
    unfolding collectNamespaceStatefulSets_def fleetCluster_fields w sum.case
    by (rule collectKind_transfer) (simp_all add: transferPatch_merges listed_of_kind)
  show "collects (refused (su_refuse su) sched) sched (eligible (su_selectors su) core) (\<lambda>(t, n, _). (n, t) = (ns, WorkloadTypeCronJob))
      (collectNamespaceCronJobs (fleetCluster su) ns core sched True)"
    unfolding collectNamespaceCronJobs_def fleetCluster_fields w sum.case
    by (rule collectKind_transfer) (simp_all add: transferPatch_merges listed_of_kind)
qed

lemma collects_cong: "collects N sched E K step \<Longrightarrow> (\<And>w. E w \<Longrightarrow> K (keyOf w) = K' (keyOf w)) \<Longrightarrow> (\<And>W. step W = step' W) \<Longrightarrow> collects N sched E K' step'"
proof -
  assume c: "collects N sched E K step" and K: "\<And>w. E w \<Longrightarrow> K (keyOf w) = K' (keyOf w)" and s: "\<And>W. step W = step' W"
  have "{w \<in> set F. K (keyOf w) \<and> E w} = {w \<in> set F. K' (keyOf w) \<and> E w}" for F using K by blast
  with c show ?thesis unfolding collects_def gathers_def s by simp
qed

lemma collectWorkloads_transfer:
  assumes "distinct nss"
  shows "collects (refused (su_refuse su) sched) sched (eligible (su_selectors su) core)
    (\<lambda>(t, n, _). n \<in> set nss \<and> shouldProcessWorkloadType (WorkloadTypes core) t)
    (collectWorkloads (fleetCluster su) nss core sched True)"
  using assms
proof (induction nss)
  case Nil
  then show ?case by (auto simp: collects_def gathers_def advance_def intro!: exI [of _ "{}"])
next
  case (Cons ns nss)
  let ?due = "shouldProcessWorkloadType (WorkloadTypes core)"
  note types = WorkloadTypeDeployment_def WorkloadTypeStatefulSet_def WorkloadTypeCronJob_def
  have "collects (refused (su_refuse su) sched) sched (eligible (su_selectors su) core) (\<lambda>(t, n, _). n \<in> set nss \<and> ?due t) (collectWorkloads (fleetCluster su) nss core sched True)"
    using Cons by simp
  note c = collects_andThen [where due = "?due WorkloadTypeCronJob", OF collectNamespace_transfer(3) [of su sched core ns] this]
  note b = collects_andThen [where due = "?due WorkloadTypeStatefulSet", OF collectNamespace_transfer(2) [of su sched core ns] c]
  note a = collects_andThen [where due = "?due WorkloadTypeDeployment", OF collectNamespace_transfer(1) [of su sched core ns] b]
  show ?case
  proof (rule collects_cong [OF a])
    show "(?due WorkloadTypeDeployment \<and> (case keyOf w of (t, n, _) \<Rightarrow> (n, t) = (ns, WorkloadTypeDeployment)) \<or>
        ?due WorkloadTypeStatefulSet \<and> (case keyOf w of (t, n, _) \<Rightarrow> (n, t) = (ns, WorkloadTypeStatefulSet)) \<or>
        ?due WorkloadTypeCronJob \<and> (case keyOf w of (t, n, _) \<Rightarrow> (n, t) = (ns, WorkloadTypeCronJob)) \<or>
        (case keyOf w of (t, n, _) \<Rightarrow> n \<in> set nss \<and> ?due t)) =
      (case keyOf w of (t, n, _) \<Rightarrow> n \<in> set (ns # nss) \<and> ?due t)" for w
      by (cases w) auto
  qed (use Cons.prems in \<open>auto simp: types\<close>)
qed

section \<open>A pass with transfer\<close>

definition takingPass :: "string \<Rightarrow> string list \<Rightarrow> bool \<Rightarrow> scaleWorkloadsConfig \<Rightarrow> bool" where
  "takingPass sched nss up cfg \<longleftrightarrow>
     cfg_ScheduleName cfg = sched \<and> cfg_Namespaces cfg = nss \<and> cfg_ScaleUp cfg = up \<and> cfg_TransferOwnership cfg"

text \<open>What it may make of a workload, and what it makes of it when it completes.\<close>

definition takeStep :: "string \<Rightarrow> bool \<Rightarrow> workload \<Rightarrow> workload \<Rightarrow> bool" where
  "takeStep sched up w w' \<longleftrightarrow> w' = w \<or> w' = takeOver sched w \<or> w' = wanted sched up (takeOver sched w)"

lemma inScope_keys:
  "inScope sels core nss w \<longleftrightarrow>
     (case keyOf w of (t, n, _) \<Rightarrow> n \<in> set nss \<and> shouldProcessWorkloadType (WorkloadTypes core) t) \<and> eligible sels core w"
  by (auto simp: inScope_def eligible_def)

lemma taking_pass_facts:
  assumes run: "scaleWorkloads (fleetCluster su) core cfg recorder W = (r, err, obs, W')"
    and cfg: "takingPass sched nss up cfg" and "distinct nss" and con: "consistent (fleet W)"
  shows "list_all2 (\<lambda>w w'. if inScope (su_selectors su) core nss w then takeStep sched up w w' else w' = w) (fleet W) (fleet W') \<and>
    (passDone r err \<longrightarrow> list_all2 (\<lambda>w w'. inScope (su_selectors su) core nss w \<longrightarrow>
       w' = wanted sched up (takeOver sched w) \<or> refused (su_refuse su) sched w \<and> w' = w) (fleet W) (fleet W')) \<and>
    consistent (fleet W')"
proof -
  let ?S = "inScope (su_selectors su) core nss"
  have c: "cfg_ScheduleName cfg = sched" "cfg_Namespaces cfg = nss" "cfg_ScaleUp cfg = up" "cfg_TransferOwnership cfg"
    using cfg by (auto simp: takingPass_def)
  obtain collected W1 where coll: "collectWorkloads (fleetCluster su) nss core sched True W = (Inr collected, W1)"
    and g: "gathers (refused (su_refuse su) sched) sched (eligible (su_selectors su) core) (\<lambda>(t, n, _). n \<in> set nss \<and> shouldProcessWorkloadType (WorkloadTypes core) t)
      (fleet W) collected (fleet W1)"
    using collectWorkloads_transfer [OF assms(3), of su sched core] con unfolding collects_def by blast
  from g obtain T where T: "T \<subseteq> {w \<in> set (fleet W). ?S w}" "fleet W1 = advance (takeOver sched) T (fleet W)"
    "set collected = takeOver sched ` T" "\<forall>w \<in> {w \<in> set (fleet W). ?S w} - T. refused (su_refuse su) sched w" "distinct (map keyOf collected)"
    unfolding gathers_def inScope_keys by blast
  obtain res q where runP: "runPass (fleetCluster su) recorder core cfg collected W1 = (res, err, q)" and out: "r = Some res" "W' = p_state q"
    using run coll by (auto simp: scaleWorkloads_def c split: prod.splits)
  obtain waves timeout where sw: "syncWaveSettings core = (waves, timeout)" by fastforce
  define ws where "ws = orderedWorkloads cfg waves collected"
  let ?p = "startPass (fleetCluster su) cfg waves ws W1"
  have loop: "scaleLoop (fleetCluster su) recorder cfg waves timeout (int (length ws)) 0 ws ?p = (res, err, q)"
    using runP sw by (simp add: runPass_def ws_def Let_def)
  have con1: "consistent (fleet W1)" by (rule gathers_consistent [OF g con])
  have ws: "set ws = takeOver sched ` T" "distinct ws" using T(3,5) by (auto simp: ws_def set_ordered distinct_map)
  have sub: "set ws \<subseteq> set (fleet W1) - {}" unfolding ws T(2) advance_def using T(1) by force
  have start: "fleet (p_state ?p) = advance (wanted (cfg_ScheduleName cfg) (cfg_ScaleUp cfg)) {} (fleet W1)" by (simp add: startPass_def)
  obtain U where "U \<subseteq> {} \<union> set ws" "fleet (p_state q) = advance (wanted sched up) U (fleet W1)"
    "err = None \<and> \<not> stoppedEarly res \<and> totalFailed res = p_failed ?p \<longrightarrow> U = {} \<union> set ws"
    using loop_here [OF loop refl con1 start sub ws(2)] unfolding c by blast
  then have U: "U \<subseteq> takeOver sched ` T" "fleet W' = advance (wanted sched up) U (fleet W1)" "passDone r err \<longrightarrow> U = takeOver sched ` T"
    unfolding ws(1) out passDone_def by (auto simp: startPass_def)
  have F': "fleet W' = map (\<lambda>w. let v = (if w \<in> T then takeOver sched w else w) in if v \<in> U then wanted sched up v else v) (fleet W)"
    unfolding U(2) T(2) advance_def by (simp add: Let_def o_def)
  have apart: "w \<notin> U" if "w \<in> set (fleet W)" "w \<notin> T" for w
  proof
    assume "w \<in> U"
    then obtain y where y: "y \<in> T" "w = takeOver sched y" using U(1) by blast
    have "w = y" using consistent_inj [OF con that(1), of y] y T(1) keyOf_takeOver [of sched y] by blast
    with y that show False by simp
  qed
  have each: "(if ?S w then takeStep sched up w w' else w' = w) \<and>
      (passDone r err \<longrightarrow> ?S w \<longrightarrow> w' = wanted sched up (takeOver sched w) \<or> refused (su_refuse su) sched w \<and> w' = w)"
    if w: "w \<in> set (fleet W)" and w': "w' = (let v = (if w \<in> T then takeOver sched w else w) in if v \<in> U then wanted sched up v else v)" for w w'
  proof (cases "w \<in> T")
    case True
    then have "?S w" using T(1) by blast
    with True w' U(3) show ?thesis by (auto simp: takeStep_def Let_def)
  next
    case False
    then have "w' = w" using apart [OF w] w' by simp
    moreover have "?S w \<Longrightarrow> refused (su_refuse su) sched w" using T(4) w False by blast
    ultimately show ?thesis by (simp add: takeStep_def)
  qed
  have "consistent (fleet W')"
    using con1 keys_advance [of "wanted sched up" U "fleet W1", OF keyOf_wanted] unfolding U(2) consistent_def by simp
  moreover have "list_all2 (\<lambda>w w'. if ?S w then takeStep sched up w w' else w' = w) (fleet W) (fleet W')"
    using each unfolding F' by (auto simp: list_all2_conv_all_nth)
  moreover have "list_all2 (\<lambda>w w'. ?S w \<longrightarrow> w' = wanted sched up (takeOver sched w) \<or> refused (su_refuse su) sched w \<and> w' = w) (fleet W) (fleet W')"
    if "passDone r err"
    using each that unfolding F' by (auto simp: list_all2_conv_all_nth)
  ultimately show ?thesis by blast
qed

section \<open>A workload that is handed over\<close>

lemma bare_takeOver: "bare (takeOver sched w) = takeOver sched (bare w)"
  by (cases w) (simp_all add: takeOver_def foreign_def stampObject_def)

lemma foreign_bare: "foreign sched (bare w) = foreign sched w"
  by (cases w) (simp_all add: foreign_def)

lemma inScope_takeOver:
  assumes "blindToMark sels core"
  shows "inScope sels core nss (takeOver sched w) = inScope sels core nss w"
proof -
  have l: "labelsOf (takeOver sched w) = labelsOf w \<or> (\<exists>v. labelsOf (takeOver sched w) = (labelsOf w)(ManagedByLabel := v))"
    by (cases w) (auto simp: takeOver_def stampObject_def)
  have "ownersOf (takeOver sched w) = ownersOf w" "workloadType (takeOver sched w) = workloadType w"
    by (cases w; simp add: takeOver_def stampObject_def)+
  moreover have "ShouldExcludeWorkload sels (labelsOf (takeOver sched w)) (ExcludeLabels core) =
      ShouldExcludeWorkload sels (labelsOf w) (ExcludeLabels core)"
    using l assms unfolding blindToMark_def by metis
  ultimately show ?thesis by (simp add: inScope_def)
qed

text \<open>
  An unmarked workload \<open>x\<close> that the schedule \<open>c\<close> has put to sleep is, once \<open>n\<close> has taken it over, what it
  would be had \<open>n\<close> put it to sleep itself.
\<close>

lemma handed_over:
  assumes "unmarked x" and "c \<noteq> []"
  shows "takeOver n x = x" "takeOver n (wanted n False x) = wanted n False x"
    "takeOver n (wanted c False x) \<in> {wanted c False x, wanted n False x}"
    "takeOver n (wanted n True (wanted n False x)) = wanted n True (wanted n False x)"
    "foreign n (wanted c False x) \<longrightarrow> takeOver n (wanted c False x) = wanted n False x"
  using assms
  by (cases x; auto simp: takeOver_def foreign_def stampObject_def mget_def downReplicas_def upReplicas_def heldReplicas_def
      downCronJob_def upCronJob_def heldCronJob_def isSuspended_def fun_upd_twist split: option.splits)+

lemma morning_after:
  assumes "unmarked x"
  shows "wanted n True x \<in> {x, wanted n True (wanted n False x)}" "backAgain x (wanted n True x)"
proof -
  show "wanted n True x \<in> {x, wanted n True (wanted n False x)}"
    using assms by (cases x) (auto simp: mget_def upReplicas_def heldReplicas_def upCronJob_def heldCronJob_def
        downCronJob_def isSuspended_def SuspendedByLightsOut_def)
  show "backAgain x (wanted n True x)"
    using assms by (cases x) (auto simp: mget_def upReplicas_def heldReplicas_def upCronJob_def heldCronJob_def
        replicasBack_def isSuspended_def SuspendedByLightsOut_def)
qed

section \<open>The handover as a step relation\<close>

text \<open>
  The passes of the namespace schedule, and whatever else goes on: controllers in its namespaces, anything
  at all in the others.
\<close>

definition elsewhere :: "string list \<Rightarrow> 'h world \<Rightarrow> 'h world \<Rightarrow> bool" where
  "elsewhere nss W W' \<longleftrightarrow>
     list_all2 (\<lambda>w w'. keyOf w' = keyOf w \<and> (workloadNamespace w \<in> set nss \<longrightarrow> bare w' = bare w)) (fleet W) (fleet W')"

inductive takingStep ::
  "('h, 'sel) surroundings \<Rightarrow> LightsOutScheduleCore \<Rightarrow> string \<Rightarrow> string list \<Rightarrow> bool \<Rightarrow> 'h world \<Rightarrow> 'h world \<Rightarrow> bool"
  for su core sched nss up where
  pass: "scaleWorkloads (fleetCluster su) core cfg recorder W = (r, err, obs, W') \<Longrightarrow> takingPass sched nss up cfg \<Longrightarrow>
     takingStep su core sched nss up W W'"
| other: "elsewhere nss W W' \<Longrightarrow> takingStep su core sched nss up W W'"

definition completeTaking ::
  "('h, 'sel) surroundings \<Rightarrow> LightsOutScheduleCore \<Rightarrow> string \<Rightarrow> string list \<Rightarrow> bool \<Rightarrow> 'h world \<Rightarrow> 'h world \<Rightarrow> bool" where
  "completeTaking su core sched nss up W W' \<longleftrightarrow>
     (\<exists>cfg recorder r err obs. takingPass sched nss up cfg \<and> passDone r err \<and>
        scaleWorkloads (fleetCluster su) core cfg recorder W = (r, err, obs, W'))"

text \<open>Every workload in scope is, but for its status, one of those its first state allows.\<close>

definition allowed ::
  "'sel selectors \<Rightarrow> LightsOutScheduleCore \<Rightarrow> string list \<Rightarrow> (workload \<Rightarrow> workload set) \<Rightarrow> workload list \<Rightarrow> workload list \<Rightarrow> bool" where
  "allowed sels core nss A F0 F \<longleftrightarrow>
     list_all2 (\<lambda>w0 w. inScope sels core nss w0 \<and> unmarked w0 \<longrightarrow> inScope sels core nss w \<and> bare w \<in> A (bare w0)) F0 F"

lemma allowed_step:
  assumes "allowed sels core nss A F0 F" and "list_all2 R F F'"
    and "\<And>w0 w w'. inScope sels core nss w \<Longrightarrow> unmarked w0 \<Longrightarrow> bare w \<in> A (bare w0) \<Longrightarrow> R w w' \<Longrightarrow>
      inScope sels core nss w' \<and> bare w' \<in> B (bare w0)"
  shows "allowed sels core nss B F0 F'"
proof -
  have "list_all2 ((\<lambda>w0 w. inScope sels core nss w0 \<and> unmarked w0 \<longrightarrow> inScope sels core nss w \<and> bare w \<in> A (bare w0)) OO R) F0 F'"
    using assms(1,2) unfolding allowed_def list.rel_compp by blast
  then show ?thesis unfolding allowed_def by (rule list_all2_mono) (use assms(3) in blast)
qed

lemma elsewhere_scope:
  assumes "keyOf w' = keyOf w" and "workloadNamespace w \<in> set nss \<longrightarrow> bare w' = bare w" and "inScope sels core nss w"
  shows "inScope sels core nss w' \<and> bare w' = bare w"
proof -
  have "bare w' = bare w" using assms(2,3) by (simp add: inScope_def)
  with assms(3) inScope_bare [of sels core nss w] inScope_bare [of sels core nss w'] show ?thesis by simp
qed

lemma elsewhere_consistent: "elsewhere nss W W' \<Longrightarrow> consistent (fleet W) \<Longrightarrow> consistent (fleet W')"
proof -
  assume "elsewhere nss W W'" and c: "consistent (fleet W)"
  then have "map keyOf (fleet W') = map keyOf (fleet W)"
    unfolding elsewhere_def list_all2_conv_all_nth by (intro nth_equalityI) (auto simp del: keyOf.simps)
  with c show ?thesis by (simp add: consistent_def del: keyOf.simps)
qed

text \<open>A set of states that the passes do not leave is kept by every step.\<close>

lemma takingSteps_allowed:
  assumes steps: "(takingStep su core sched nss up)\<^sup>*\<^sup>* W W'" and nss: "distinct nss" and blind: "blindToMark (su_selectors su) core"
    and closed: "\<And>x v. unmarked x \<Longrightarrow> v \<in> A x \<Longrightarrow> takeOver sched v \<in> A x \<and> wanted sched up (takeOver sched v) \<in> A x"
    and "consistent (fleet W)" and "allowed (su_selectors su) core nss A F0 (fleet W)"
  shows "consistent (fleet W') \<and> allowed (su_selectors su) core nss A F0 (fleet W')"
  using steps
proof (induction rule: rtranclp_induct)
  case base
  with assms(5,6) show ?case by simp
next
  case (step W1 W2)
  let ?S = "inScope (su_selectors su) core nss"
  from step(3) have con: "consistent (fleet W1)" and w1: "allowed (su_selectors su) core nss A F0 (fleet W1)" by auto
  from step(2) show ?case
  proof cases
    case (pass cfg recorder r err obs)
    note f = taking_pass_facts [OF pass(1,2) nss con]
    have "allowed (su_selectors su) core nss A F0 (fleet W2)"
    proof (rule allowed_step [OF w1 conjunct1 [OF f]])
      fix w0 w w'
      assume w: "?S w" "unmarked w0" "bare w \<in> A (bare w0)" "if ?S w then takeStep sched up w w' else w' = w"
      have "bare w' \<in> {bare w, takeOver sched (bare w), wanted sched up (takeOver sched (bare w))}"
        using w(1,4) by (auto simp: takeStep_def bare_takeOver bare_wanted)
      then have "bare w' \<in> A (bare w0)" using closed [of "bare w0" "bare w"] w(2,3) by (auto simp: bare_invariant)
      moreover have "?S w'"
        using w(1,4) inScope_takeOver [OF blind] inScope_wanted [OF blind] by (auto simp: takeStep_def)
      ultimately show "?S w' \<and> bare w' \<in> A (bare w0)" by simp
    qed
    with f show ?thesis by blast
  next
    case other
    have "allowed (su_selectors su) core nss A F0 (fleet W2)"
      using w1 other [unfolded elsewhere_def] by (rule allowed_step) (use elsewhere_scope in metis)
    with elsewhere_consistent [OF other con] show ?thesis by blast
  qed
qed

text \<open>
  A workload that still carries the label of another schedule because the server refuses, in some state
  and with some status of the workload, the patch that would hand it over.
\<close>

definition refusedTransfer :: "('h, 'sel) surroundings \<Rightarrow> string \<Rightarrow> workload \<Rightarrow> bool" where
  "refusedTransfer su sched w \<longleftrightarrow>
     foreign sched w \<and> (\<exists>v W. bare v = bare w \<and> su_refuse su v (build (transferPatch sched)) W \<noteq> None)"

lemma refused_transfer: "refused (su_refuse su) sched w \<Longrightarrow> refusedTransfer su sched w"
  unfolding refused_def refusedTransfer_def by blast

lemma refusedTransfer_bare: "refusedTransfer su sched (bare w) = refusedTransfer su sched w"
proof -
  have "bare (bare w) = bare w" by (cases w) simp_all
  then show ?thesis by (simp add: refusedTransfer_def foreign_bare)
qed

lemma completeTaking_allowed:
  assumes pass: "completeTaking su core sched nss up W W'" and nss: "distinct nss" and blind: "blindToMark (su_selectors su) core"
    and con: "consistent (fleet W)" and w1: "allowed (su_selectors su) core nss A F0 (fleet W)"
    and closed: "\<And>x v. unmarked x \<Longrightarrow> v \<in> A x \<Longrightarrow> wanted sched up (takeOver sched v) \<in> B x \<and> (refusedTransfer su sched v \<longrightarrow> v \<in> B x)"
  shows "consistent (fleet W') \<and> allowed (su_selectors su) core nss B F0 (fleet W')"
proof -
  let ?S = "inScope (su_selectors su) core nss"
  from pass obtain cfg recorder r err obs where p: "takingPass sched nss up cfg" "passDone r err"
    "scaleWorkloads (fleetCluster su) core cfg recorder W = (r, err, obs, W')" by (auto simp: completeTaking_def)
  note f = taking_pass_facts [OF p(3,1) nss con]
  then have f2: "list_all2 (\<lambda>w w'. ?S w \<longrightarrow> w' = wanted sched up (takeOver sched w) \<or> refused (su_refuse su) sched w \<and> w' = w) (fleet W) (fleet W')"
    using p(2) by blast
  have "allowed (su_selectors su) core nss B F0 (fleet W')"
  proof (rule allowed_step [OF w1 f2])
    fix w0 w w'
    assume w: "?S w" "unmarked w0" "bare w \<in> A (bare w0)" "?S w \<longrightarrow> w' = wanted sched up (takeOver sched w) \<or> refused (su_refuse su) sched w \<and> w' = w"
    have "bare w' \<in> B (bare w0)"
      using w closed [of "bare w0" "bare w"] by (auto simp: bare_invariant bare_takeOver bare_wanted refusedTransfer_bare dest: refused_transfer)
    moreover have "?S w'" using w(1,4) inScope_takeOver [OF blind] inScope_wanted [OF blind] by auto
    ultimately show "?S w' \<and> bare w' \<in> B (bare w0)" by simp
  qed
  with f show ?thesis by blast
qed

section \<open>What a workload can be\<close>

lemma not_foreign:
  assumes "unmarked x" and "c \<noteq> []" and "\<not> foreign n (wanted c False x)"
  shows "wanted c False x \<in> {x, wanted n False x}"
  using assms
  by (cases x) (auto simp: foreign_def mget_def downReplicas_def downCronJob_def isSuspended_def split: if_splits option.splits)

text \<open>During the night, and during the morning.\<close>

definition atNight :: "string \<Rightarrow> string \<Rightarrow> workload \<Rightarrow> workload set" where
  "atNight c n x = {x, wanted c False x, wanted n False x}"

definition fastAsleep :: "('h, 'sel) surroundings \<Rightarrow> string \<Rightarrow> string \<Rightarrow> workload \<Rightarrow> workload set" where
  "fastAsleep su c n x = {v. v = wanted n False x \<or> v = wanted c False x \<and> refusedTransfer su n v}"

definition inTheMorning :: "string \<Rightarrow> string \<Rightarrow> workload \<Rightarrow> workload set" where
  "inTheMorning c n x = {x, wanted c False x, wanted n False x, wanted n True (wanted n False x)}"

definition upOrKept :: "('h, 'sel) surroundings \<Rightarrow> string \<Rightarrow> workload \<Rightarrow> workload set" where
  "upOrKept su n x = {v. backAgain x v \<or> refusedTransfer su n v}"

lemma own_or_none:
  assumes "unmarked x"
  shows "\<not> foreign n x" "\<not> foreign n (wanted n False x)"
  using assms by (cases x; auto simp: foreign_def mget_def downReplicas_def downCronJob_def)+

lemma down_from:
  assumes "unmarked x" and "c \<noteq> []" and "v \<in> atNight c n x"
  shows "takeOver n v \<in> {v, wanted n False x}" "wanted n False (takeOver n v) = wanted n False x"
proof -
  note h = handed_over [OF assms(1,2), of n] and i = wanted_idem [of n False x]
  show "takeOver n v \<in> {v, wanted n False x}" using assms(3) h(1-3) by (auto simp: atNight_def)
  have "wanted n False (takeOver n (wanted c False x)) = wanted n False x"
  proof (cases "foreign n (wanted c False x)")
    case True
    with h(5) i show ?thesis by simp
  next
    case False
    with not_foreign [OF assms(1,2) False] i show ?thesis by (auto simp: takeOver_def)
  qed
  with assms(3) h(1,2) i show "wanted n False (takeOver n v) = wanted n False x" by (auto simp: atNight_def)
qed

lemma up_from:
  assumes "unmarked x" and "c \<noteq> []" and "v \<in> inTheMorning c n x"
  shows "takeOver n v \<in> {v, wanted n False x}"
    "wanted n True (takeOver n v) \<in> {x, wanted n True (wanted n False x)}" "backAgain x (wanted n True (takeOver n v))"
proof -
  let ?u = "wanted n True (wanted n False x)"
  note h = handed_over [OF assms(1,2), of n] and i = wanted_idem [of n True "wanted n False x"]
  show "takeOver n v \<in> {v, wanted n False x}" using assms(3) h(1-4) by (auto simp: inTheMorning_def)
  have "takeOver n v \<in> {x, wanted n False x, ?u}"
  proof (cases "foreign n (wanted c False x)")
    case True
    with assms(3) h(1,2,4,5) show ?thesis by (auto simp: inTheMorning_def)
  next
    case False
    then have "takeOver n (wanted c False x) = wanted c False x" by (simp add: takeOver_def)
    with assms(3) h(1,2,4) not_foreign [OF assms(1,2) False] show ?thesis by (auto simp: inTheMorning_def)
  qed
  then show "wanted n True (takeOver n v) \<in> {x, ?u}" "backAgain x (wanted n True (takeOver n v))"
    using morning_after [OF assms(1), of n] unmarked_back [OF assms(1), of n] i by (auto simp del: wanted.simps)
qed

section \<open>A night with a handover\<close>

text \<open>What the night of the schedule \<open>c\<close> leaves to the schedule \<open>n\<close>.\<close>

lemma allowed_start:
  assumes "(nightStep su core_c c nss_c False)\<^sup>*\<^sup>* W0 W1" and "distinct nss_c" and "consistent (fleet W0)"
    and "blindToMark (su_selectors su) core_c" and "blindToMark (su_selectors su) core"
  shows "consistent (fleet W1) \<and> allowed (su_selectors su) core nss (atNight c n) (fleet W0) (fleet W1)"
proof -
  let ?f = "nightly (su_selectors su) core_c c nss_c False"
  note p = nightSteps_partly [OF assms(1-4)]
  then have "list_all2 (\<lambda>w0 w. bare w = bare w0 \<or> bare w = ?f (bare w0)) (fleet W0) (fleet W1)"
    by (simp add: partly_def list.rel_map)
  then have "list_all2 (\<lambda>w0 w. bare w = bare w0 \<or> bare w = wanted c False (bare w0)) (fleet W0) (fleet W1)"
    by (rule list_all2_mono) (auto simp: nightly_def stepWhere_def)
  then have "allowed (su_selectors su) core nss (atNight c n) (fleet W0) (fleet W1)" unfolding allowed_def
  proof (rule list_all2_mono)
    fix w0 w
    assume w: "bare w = bare w0 \<or> bare w = wanted c False (bare w0)"
    have "inScope (su_selectors su) core nss (bare w) = inScope (su_selectors su) core nss (bare w0)"
      using w inScope_wanted [OF assms(5), of nss c False "bare w0"] by auto
    with w show "inScope (su_selectors su) core nss w0 \<and> unmarked w0 \<longrightarrow>
        inScope (su_selectors su) core nss w \<and> bare w \<in> atNight c n (bare w0)"
      unfolding inScope_bare by (auto simp: atNight_def)
  qed
  with p show ?thesis by blast
qed

lemma allowed_mono:
  "allowed sels core nss A F0 F \<Longrightarrow> (\<And>x. A x \<subseteq> B x) \<Longrightarrow> allowed sels core nss B F0 F"
  unfolding allowed_def by (erule list_all2_mono) blast

text \<open>
  C4: A namespace schedule that appears in a namespace of a cluster schedule, on any day or night
  and whatever the cluster schedule has done by then, keeps the promise of the night. Through every
  sequence of its passes and of whatever else goes on (the cluster schedule in its other namespaces
  included): once one of its downscale passes has completed, every workload in its scope that had been
  unmarked is at zero replicas or suspended, whichever of the two put it there, and carries the label of
  no other schedule unless the server refuses the patch that hands it over; once an upscale pass has
  completed, each has its replica count, labels and annotations back as they were before the first night,
  unless it still carries the label of the other schedule and the server refuses that patch.
\<close>

theorem handover_keeps_promise:
  assumes "consistent (fleet W0)" and "distinct nss_c" and "distinct nss" and "c \<noteq> []"
    and "blindToMark (su_selectors su) core_c" and "blindToMark (su_selectors su) core"
    and "(nightStep su core_c c nss_c False)\<^sup>*\<^sup>* W0 W1"
    and "(takingStep su core n nss False)\<^sup>*\<^sup>* W1 W2" and "completeTaking su core n nss False W2 W3"
    and "(takingStep su core n nss False)\<^sup>*\<^sup>* W3 W4"
    and "(takingStep su core n nss True)\<^sup>*\<^sup>* W4 W5" and "completeTaking su core n nss True W5 W6"
  shows "list_all2 (\<lambda>w w'. inScope (su_selectors su) core nss w \<and> unmarked w \<longrightarrow>
      asleep w' \<and> (foreign n w' \<longrightarrow> refusedTransfer su n w')) (fleet W0) (fleet W4) \<and>
    list_all2 (\<lambda>w w'. inScope (su_selectors su) core nss w \<and> unmarked w \<longrightarrow>
      backAgain w w' \<or> refusedTransfer su n w') (fleet W0) (fleet W6)"
proof -
  note steps = takingSteps_allowed [OF _ assms(3,6)] and full = completeTaking_allowed [OF _ assms(3,6)]
  let ?A = "\<lambda>A W. consistent (fleet W) \<and> allowed (su_selectors su) core nss A (fleet W0) (fleet W)"
  have 1: "?A (atNight c n) W1" by (rule allowed_start [OF assms(7,2,1,5,6)])
  have 2: "?A (atNight c n) W2"
  proof (rule steps [OF assms(8) _ conjunct1 [OF 1] conjunct2 [OF 1]])
    fix x v
    assume x: "unmarked x" "v \<in> atNight c n x"
    from down_from [OF x(1) assms(4) x(2)] x(2)
    show "takeOver n v \<in> atNight c n x \<and> wanted n False (takeOver n v) \<in> atNight c n x" by (auto simp: atNight_def)
  qed
  have 3: "?A (fastAsleep su c n) W3"
  proof (rule full [OF assms(9) conjunct1 [OF 2] conjunct2 [OF 2]])
    fix x v
    assume x: "unmarked x" "v \<in> atNight c n x"
    have "refusedTransfer su n v \<Longrightarrow> v = wanted c False x"
      using x(2) own_or_none [OF x(1), of n] by (auto simp: atNight_def refusedTransfer_def)
    then show "wanted n False (takeOver n v) \<in> fastAsleep su c n x \<and> (refusedTransfer su n v \<longrightarrow> v \<in> fastAsleep su c n x)"
      using down_from(2) [OF x(1) assms(4) x(2)] by (auto simp: fastAsleep_def)
  qed
  have 4: "?A (fastAsleep su c n) W4"
  proof (rule steps [OF assms(10) _ conjunct1 [OF 3] conjunct2 [OF 3]])
    fix x v
    assume x: "unmarked x" "v \<in> fastAsleep su c n x"
    then have "v \<in> atNight c n x" by (auto simp: atNight_def fastAsleep_def)
    from down_from [OF x(1) assms(4) this] x(2)
    show "takeOver n v \<in> fastAsleep su c n x \<and> wanted n False (takeOver n v) \<in> fastAsleep su c n x" by (auto simp: fastAsleep_def)
  qed
  have "?A (inTheMorning c n) W4"
    using 4 allowed_mono [of _ core nss "fastAsleep su c n" _ _ "inTheMorning c n"] by (auto simp: fastAsleep_def inTheMorning_def)
  note w4 = this
  have 5: "?A (inTheMorning c n) W5"
  proof (rule steps [OF assms(11) _ conjunct1 [OF w4] conjunct2 [OF w4]])
    fix x v
    assume x: "unmarked x" "v \<in> inTheMorning c n x"
    from up_from(1,2) [OF x(1) assms(4) x(2)] x(2)
    show "takeOver n v \<in> inTheMorning c n x \<and> wanted n True (takeOver n v) \<in> inTheMorning c n x" by (auto simp: inTheMorning_def)
  qed
  have 6: "?A (upOrKept su n) W6"
    by (rule full [OF assms(12) conjunct1 [OF 5] conjunct2 [OF 5]]) (simp add: up_from(3) [OF _ assms(4)] upOrKept_def)
  have night: "asleep w' \<and> (foreign n w' \<longrightarrow> refusedTransfer su n w')" if "unmarked w" "bare w' \<in> fastAsleep su c n (bare w)" for w w'
  proof -
    have "unmarked (bare w)" using that(1) by (simp add: bare_invariant)
    note f = unmarked_asleep [OF this] own_or_none [OF this, of n]
    have "asleep (bare w') \<and> (foreign n (bare w') \<longrightarrow> refusedTransfer su n (bare w'))"
      using that(2) f by (auto simp: fastAsleep_def)
    then show ?thesis by (simp add: bare_invariant foreign_bare refusedTransfer_bare)
  qed
  have morning: "backAgain w w' \<or> refusedTransfer su n w'" if "bare w' \<in> upOrKept su n (bare w)" for w w'
    using that by (simp add: upOrKept_def bare_invariant refusedTransfer_bare)
  show ?thesis
    by (intro conjI list_all2_mono [OF conjunct2 [OF 4, unfolded allowed_def]] list_all2_mono [OF conjunct2 [OF 6, unfolded allowed_def]])
      (use night morning in blast)+
qed

text \<open>
  The schedule \<open>night\<close> has put a shop of two workloads to sleep when \<open>team\<close> appears in its namespace, on a server that
  transfers and on one that does not.
\<close>

definition twoWorld :: "unit world" where
  "twoWorld = \<lparr>fleet = [WDeployment (sampleWorkload (Some 3)), WCronJob (sampleCronJob None Map.empty)], autoscalers = ()\<rparr>"

definition teamPass ::
  "(unit, string) surroundings \<Rightarrow> bool \<Rightarrow> unit world \<Rightarrow> scaleWorkloadsResult option \<times> string option \<times> observation list \<times> unit world" where
  "teamPass su up W =
     scaleWorkloads (fleetCluster su) emptyCore ((passCfg up)\<lparr>cfg_ScheduleName := ''team'', cfg_TransferOwnership := True\<rparr>) False W"

definition teamAfter :: "(unit, string) surroundings \<Rightarrow> bool \<Rightarrow> unit world \<Rightarrow> unit world" where
  "teamAfter su up W = snd (snd (snd (teamPass su up W)))"

definition teamSmooth :: "(unit, string) surroundings \<Rightarrow> bool \<Rightarrow> unit world \<Rightarrow> bool" where
  "teamSmooth su up W \<longleftrightarrow> (case teamPass su up W of (Some r, None, _) \<Rightarrow> \<not> stoppedEarly r \<and> totalFailed r = 0 | _ \<Rightarrow> False)"

definition holdingServer :: "(unit, string) surroundings" where
  "holdingServer = sampleSurroundings\<lparr>su_refuse := (\<lambda>w p W. Some ''forbidden'')\<rparr>"

lemma team_complete:
  assumes "teamSmooth su up W"
  shows "completeTaking su emptyCore ''team'' [''shop''] up W (teamAfter su up W)"
proof -
  let ?cfg = "(passCfg up)\<lparr>cfg_ScheduleName := ''team'', cfg_TransferOwnership := True\<rparr>"
  obtain r err obs W' where run: "teamPass su up W = (r, err, obs, W')" by (rule prod_cases4)
  with assms have "passDone r err" by (auto simp: teamSmooth_def passDone_def split: option.splits)
  moreover have "takingPass ''team'' [''shop''] up ?cfg" by (simp add: takingPass_def passCfg_def sampleConfig_def)
  moreover have "scaleWorkloads (fleetCluster su) emptyCore ?cfg False W = (r, err, obs, teamAfter su up W)"
    using run unfolding teamPass_def teamAfter_def by simp
  ultimately show ?thesis unfolding completeTaking_def by blast
qed

definition teamNight :: "unit world" where
  "teamNight = twoWorld\<lparr>fleet := map (wanted ''team'' False) (fleet twoWorld)\<rparr>"

lemma sample_transfers: "\<not> refused (su_refuse sampleSurroundings) sched w" "\<not> refusedTransfer sampleSurroundings sched w"
  by (simp_all add: refused_def refusedTransfer_def sampleSurroundings_def)

lemma team_smooth:
  "smooth False twoWorld" "teamSmooth sampleSurroundings False (after False twoWorld)" "teamSmooth sampleSurroundings True teamNight"
proof -
  show "smooth False twoWorld" by code_simp
  show "teamSmooth sampleSurroundings False (after False twoWorld)" by code_simp
  show "teamSmooth sampleSurroundings True teamNight" by code_simp
qed

lemma shop_scope:
  "\<forall>w \<in> set (fleet twoWorld). inScope (su_selectors sampleSurroundings) emptyCore [''shop''] w \<and> unmarked w"
  "\<forall>w \<in> set (fleet (after False twoWorld)). inScope (su_selectors sampleSurroundings) emptyCore [''shop''] w"
  by code_simp+

lemma team_evening: "teamAfter sampleSurroundings False (after False twoWorld) = teamNight"
proof -
  let ?W = "after False twoWorld" and ?W' = "teamAfter sampleSurroundings False (after False twoWorld)"
  from team_complete [OF team_smooth(2)] obtain cfg recorder r err obs where p: "takingPass ''team'' [''shop''] False cfg" "passDone r err"
    "scaleWorkloads (fleetCluster sampleSurroundings) emptyCore cfg recorder ?W = (r, err, obs, ?W')" unfolding completeTaking_def by blast
  have "consistent (fleet ?W)" "distinct [''shop'']" using team_smooth(1) by (simp_all add: smooth_def after_def consistent_def o_def keyOf_wanted del: keyOf.simps)
  from taking_pass_facts [OF p(3,1) this(2,1)] p(2) have
    "list_all2 (\<lambda>w w'. inScope (su_selectors sampleSurroundings) emptyCore [''shop''] w \<longrightarrow>
       w' = wanted ''team'' False (takeOver ''team'' w) \<or> refused (su_refuse sampleSurroundings) ''team'' w \<and> w' = w) (fleet ?W) (fleet ?W')" by blast
  then have "list_all2 (\<lambda>w w'. w' = wanted ''team'' False (takeOver ''team'' w)) (fleet ?W) (fleet ?W')"
    by (rule list.rel_mono_strong) (use shop_scope(2) in \<open>auto simp: sample_transfers\<close>)
  then have "fleet ?W' = map (\<lambda>w. wanted ''team'' False (takeOver ''team'' w)) (fleet ?W)"
    by (auto simp: list_all2_conv_all_nth list_eq_iff_nth_eq)
  also have "\<dots> = map (wanted ''team'' False) (fleet twoWorld)"
    using down_from(2) [of _ "''night''"] shop_scope(1) by (simp add: after_def atNight_def)
  finally show ?thesis by (simp add: teamNight_def)
qed

text \<open>A server that refuses every transfer: the pass says that it is done, with nothing failed, and all stay down.\<close>

lemma refused_transfer_unreported:
  "teamSmooth holdingServer True (after False twoWorld)"
  "list_all asleep (fleet (teamAfter holdingServer True (after False twoWorld)))"
  by code_simp+

theorem handover_keeps_promise_witness:
  "\<exists>(W3 :: unit world) (W6 :: unit world).
     completeTaking sampleSurroundings emptyCore ''team'' [''shop''] False (after False twoWorld) W3 \<and>
     completeTaking sampleSurroundings emptyCore ''team'' [''shop''] True W3 W6 \<and>
     list_all2 (\<lambda>w w'. asleep w') (fleet twoWorld) (fleet W3) \<and> list_all2 backAgain (fleet twoWorld) (fleet W6)"
proof -
  let ?W6 = "teamAfter sampleSurroundings True teamNight"
  have w: "consistent (fleet twoWorld)" "distinct [''shop'']" using team_smooth(1) by (simp_all add: smooth_def)
  have night: "(nightStep sampleSurroundings emptyCore ''night'' [''shop''] False)\<^sup>*\<^sup>* twoWorld (after False twoWorld)"
    using shopPass_smooth [OF team_smooth(1)] passCfg_passOf nightStep.pass unfolding shopPass_def by blast
  note c = team_complete [OF team_smooth(2), unfolded team_evening] team_complete [OF team_smooth(3)]
  note n = handover_keeps_promise [OF w(1,2,2) _ shop_blind shop_blind night rtranclp.rtrancl_refl c(1) rtranclp.rtrancl_refl
    rtranclp.rtrancl_refl c(2), simplified]
  have "list_all2 (\<lambda>w w'. asleep w') (fleet twoWorld) (fleet teamNight)"
    using conjunct1 [OF n] by (rule list.rel_mono_strong) (use shop_scope(1) in auto)
  moreover have "list_all2 backAgain (fleet twoWorld) (fleet ?W6)"
    using conjunct2 [OF n] by (rule list.rel_mono_strong) (use shop_scope(1) in \<open>auto simp: sample_transfers\<close>)
  ultimately show ?thesis using c by blast
qed

end
