(* ===== verification/Reach.thy ===== *)
theory Reach
  imports Operator
begin

text \<open>
  How far a reconcile of a cluster-scoped schedule reaches: on a server that stores the workloads, from
  any state, with any cache, whatever the server refuses and wherever the reconcile fails.
\<close>

section \<open>The scope of a schedule\<close>





section \<open>The parts of a reconcile\<close>






section \<open>Property\<close>



end
