(* ===== verification/Gomem.thy ===== *)
theory Gomem
  imports Json
begin

text \<open>
  Go values in memory, for the code whose point is what is shared and what is not: the generated
  deep copies. A struct is a value, with its fields inside; a pointer, a slice and a map are
  addresses of cells. A tree is what is read from a value when all of them are followed, and
  \<open>holds\<close> says that a value holds a tree. Copying is described by the interface \<open>copies\<close> and its
  locale \<open>deep_copier\<close>.
\<close>

section \<open>Values and memory\<close>

datatype goval =
    GScalar json
  | GPtr "nat option"
  | GSlice "(nat \<times> nat) option"
  | GMap "nat option"
  | GStruct "(string \<times> goval) list"

text \<open>A slice is the address of its array and its length.\<close>

datatype cell =
    CellVal goval
  | CellArray "goval list"
  | CellMap "string \<rightharpoonup> goval"

text \<open>Addresses from \<open>lim\<close> on have not been handed out.\<close>

record memory =
  cells :: "nat \<rightharpoonup> cell"
  lim :: nat

definition wf_memory :: "memory \<Rightarrow> bool" where
  "wf_memory m \<longleftrightarrow> (\<forall>a. lim m \<le> a \<longrightarrow> cells m a = None)"

definition store :: "nat \<Rightarrow> cell \<Rightarrow> memory \<Rightarrow> memory" where
  "store a c m = m\<lparr>cells := (cells m)(a \<mapsto> c)\<rparr>"

text \<open>\<^verbatim>\<open>new\<close> and \<^verbatim>\<open>make\<close>: an address is handed out, then the cell is filled.\<close>

definition allocate :: "(memory \<Rightarrow> cell \<times> memory) \<Rightarrow> memory \<Rightarrow> nat \<times> memory" where
  "allocate fill m =
     (case fill (m\<lparr>lim := lim m + 1\<rparr>) of (c, m') \<Rightarrow> (lim m, store (lim m) c m'))"

section \<open>What a value holds\<close>

datatype gotree =
    VScalar json
  | VPtr "gotree option"
  | VSlice "gotree list option"
  | VMap "(string \<Rightarrow> gotree option) option"
  | VStruct "(string \<times> gotree) list"

inductive holds :: "memory \<Rightarrow> goval \<Rightarrow> gotree \<Rightarrow> bool" for m where
  scalar: "holds m (GScalar x) (VScalar x)"
| nilPtr: "holds m (GPtr None) (VPtr None)"
| ptr: "cells m a = Some (CellVal u) \<Longrightarrow> holds m u t \<Longrightarrow> holds m (GPtr (Some a)) (VPtr (Some t))"
| nilSlice: "holds m (GSlice None) (VSlice None)"
| slice: "cells m a = Some (CellArray us) \<Longrightarrow> n \<le> length us \<Longrightarrow> list_all2 (holds m) (take n us) ts \<Longrightarrow>
     holds m (GSlice (Some (a, n))) (VSlice (Some ts))"
| nilMap: "holds m (GMap None) (VMap None)"
| map: "cells m a = Some (CellMap f) \<Longrightarrow> (\<And>k. rel_option (holds m) (f k) (g k)) \<Longrightarrow>
     holds m (GMap (Some a)) (VMap (Some g))"
| struct: "map fst fs = map fst ts \<Longrightarrow> list_all2 (holds m) (map snd fs) (map snd ts) \<Longrightarrow> holds m (GStruct fs) (VStruct ts)"
monos option.rel_mono

inductive_simps holds_simps:
  "holds m v (VScalar x)" "holds m v (VPtr None)" "holds m v (VPtr (Some t))" "holds m v (VSlice None)" "holds m v (VSlice (Some ts))"
  "holds m v (VMap None)" "holds m v (VMap (Some g))" "holds m v (VStruct ts)"

inductive_simps holds_value:
  "holds m (GScalar x) t" "holds m (GPtr None) t" "holds m (GPtr (Some a)) t" "holds m (GSlice None) t" "holds m (GSlice (Some s)) t"
  "holds m (GMap None) t" "holds m (GMap (Some a)) t" "holds m (GStruct fs) t"

lemma holds_mono:
  assumes "holds m v t" and "\<And>a c. cells m a = Some c \<Longrightarrow> cells m2 a = Some c"
  shows "holds m2 v t"
  using assms(1)
proof induction
  case (slice a us n ts)
  then show ?case using assms(2) by (auto intro!: holds.slice elim: list_all2_mono)
next
  case (map a f g)
  have "rel_option (holds m2) (f k) (g k)" for k
    using map(2) [of k] by (rule option.rel_mono_strong) blast
  with map(1) assms(2) show ?case by (blast intro: holds.map)
next
  case (struct fs ts)
  then show ?case by (auto intro!: holds.struct elim: list_all2_mono)
qed (auto intro: holds.intros assms(2))

text \<open>A value holds one tree.\<close>

lemma list_all2_unique:
  "list_all2 (\<lambda>x y. R x y \<and> (\<forall>z. R x z \<longrightarrow> y = z)) xs ys \<Longrightarrow> list_all2 R xs zs \<Longrightarrow> ys = zs"
  by (induction xs ys arbitrary: zs rule: list_all2_induct) (auto simp: list_all2_Cons1)

lemma rel_option_unique:
  "rel_option (\<lambda>x y. R x y \<and> (\<forall>z. R x z \<longrightarrow> y = z)) x y \<Longrightarrow> rel_option R x z \<Longrightarrow> y = z"
  by (auto elim!: option.rel_cases)

lemma holds_unique: "holds m v t \<Longrightarrow> holds m v t' \<Longrightarrow> t = t'"
proof (induction arbitrary: t' rule: holds.induct)
  case (ptr a u t)
  from ptr.prems ptr.hyps obtain t2 where t2: "t' = VPtr (Some t2)" "holds m u t2" by (auto simp: holds_value)
  from ptr.IH [OF t2(2)] t2(1) show ?case by simp
next
  case (slice a us n ts)
  from slice.prems slice.hyps obtain ts' where t': "t' = VSlice (Some ts')" "list_all2 (holds m) (take n us) ts'"
    by (auto simp: holds_value)
  with list_all2_unique [OF slice.IH] show ?case by simp
next
  case (map a f g)
  from map.prems map.hyps obtain g' where t': "t' = VMap (Some g')" "\<And>k. rel_option (holds m) (f k) (g' k)"
    by (auto simp: holds_value)
  have "g k = g' k" for k by (rule rel_option_unique [OF map(2) t'(2)])
  with t' show ?case by (simp add: fun_eq_iff)
next
  case (struct fs ts)
  from struct.prems obtain ts' where t': "t' = VStruct ts'" "map fst fs = map fst ts'" "list_all2 (holds m) (map snd fs) (map snd ts')"
    by (auto simp: holds_value)
  have "map snd ts = map snd ts'" by (rule list_all2_unique [OF struct.IH t'(3)])
  moreover have "map fst ts = map fst ts'" using struct.hyps(1) t'(2) by simp
  ultimately have "zip (map fst ts) (map snd ts) = zip (map fst ts') (map snd ts')" by (simp only:)
  with t'(1) show ?case by (simp only: zip_map_fst_snd)
qed (simp_all add: holds_value)

section \<open>What a copy is\<close>

text \<open>Memory only grows: what was there is as it was.\<close>

definition grows :: "memory \<Rightarrow> memory \<Rightarrow> bool" where
  "grows m m' \<longleftrightarrow> lim m \<le> lim m' \<and> (\<forall>a < lim m. cells m' a = cells m a)"

text \<open>A value that holds \<open>t\<close> whatever is done to the addresses that were there before.\<close>

definition fresh :: "memory \<Rightarrow> memory \<Rightarrow> goval \<Rightarrow> gotree \<Rightarrow> bool" where
  "fresh m m' v t \<longleftrightarrow> (\<forall>m2. (\<forall>a. lim m \<le> a \<and> a < lim m' \<longrightarrow> cells m2 a = cells m' a) \<longrightarrow> holds m2 v t)"

type_synonym copier = "goval \<Rightarrow> memory \<Rightarrow> goval \<times> memory"

definition copies :: "copier \<Rightarrow> (gotree \<Rightarrow> bool) \<Rightarrow> bool" where
  "copies into P \<longleftrightarrow> (\<forall>m v t. wf_memory m \<and> holds m v t \<and> P t \<longrightarrow>
     (case into v m of (v', m') \<Rightarrow> wf_memory m' \<and> grows m m' \<and> fresh m m' v' t))"

lemma copiesD:
  assumes "copies into P" and "into v m = (v', m')" and "wf_memory m" and "holds m v t" and "P t"
  shows "wf_memory m'" "grows m m'" "fresh m m' v' t"
  using assms unfolding copies_def by (metis (mono_tags, lifting) prod.case)+

lemma copiesI:
  assumes "\<And>m v t v' m'. wf_memory m \<Longrightarrow> holds m v t \<Longrightarrow> P t \<Longrightarrow> into v m = (v', m') \<Longrightarrow>
    wf_memory m' \<and> grows m m' \<and> fresh m m' v' t"
  shows "copies into P"
  using assms by (auto simp: copies_def split: prod.split)

lemma grows_refl [simp]: "grows m m"
  by (simp add: grows_def)

lemma grows_trans: "grows m1 m2 \<Longrightarrow> grows m2 m3 \<Longrightarrow> grows m1 m3"
  by (simp add: grows_def)

lemma grows_holds:
  assumes "grows m m'" and "wf_memory m" and "holds m v t"
  shows "holds m' v t"
proof (rule holds_mono [OF assms(3)])
  fix a c
  assume "cells m a = Some c"
  then have "a < lim m" using assms(2) by (metis linorder_not_le option.distinct(1) wf_memory_def)
  with \<open>cells m a = Some c\<close> assms(1) show "cells m' a = Some c" by (simp add: grows_def)
qed

lemma fresh_holds: "fresh m m' v t \<Longrightarrow> holds m' v t"
  by (simp add: fresh_def)

text \<open>What is fresh stays fresh when memory has grown at either end.\<close>

lemma fresh_widen:
  assumes "fresh m1 m2 v t" and "grows m m1" and "grows m2 m3"
  shows "fresh m m3 v t"
  using assms unfolding fresh_def grows_def by (metis le_trans less_le_trans)

lemma wf_reserve [simp]: "wf_memory m \<Longrightarrow> wf_memory (m\<lparr>lim := lim m + 1\<rparr>)"
  by (simp add: wf_memory_def)

lemma grows_reserve [simp]: "grows m (m\<lparr>lim := lim m + 1\<rparr>)"
  by (simp add: grows_def)

text \<open>A new cell in which everything is fresh.\<close>

lemma allocate_grows:
  assumes "allocate fill m = (a, m')" and "wf_memory m" and "fill (m\<lparr>lim := lim m + 1\<rparr>) = (c, m1)"
    and "wf_memory m1" and "grows (m\<lparr>lim := lim m + 1\<rparr>) m1"
  shows "a = lim m" "m' = store a c m1" "wf_memory m'" "grows m m'" "lim m1 = lim m'" "lim m < lim m'"
    "\<And>m2. (\<forall>b. lim m \<le> b \<and> b < lim m' \<longrightarrow> cells m2 b = cells m' b) \<Longrightarrow>
       cells m2 a = Some c \<and> (\<forall>b. lim m + 1 \<le> b \<and> b < lim m1 \<longrightarrow> cells m2 b = cells m1 b)"
  using assms by (auto simp: allocate_def store_def wf_memory_def grows_def)

section \<open>The blocks a generated copy is made of\<close>

text \<open>\<^verbatim>\<open>*out = *in\<close>: the value, with the addresses in it.\<close>

definition shallow :: copier where
  "shallow v m = (v, m)"

text \<open>\<^verbatim>\<open>if in != nil { *out = new(T); (*in).DeepCopyInto(*out) }\<close>; \<^verbatim>\<open>**out = **in\<close> is the shallow one.\<close>

definition copyPointer :: "copier \<Rightarrow> copier" where
  "copyPointer into v m =
     (case v of
        GPtr (Some a) \<Rightarrow>
          (case cells m a of
             Some (CellVal u) \<Rightarrow>
               (case allocate (\<lambda>m. case into u m of (u', m') \<Rightarrow> (CellVal u', m')) m of
                  (a', m') \<Rightarrow> (GPtr (Some a'), m'))
           | _ \<Rightarrow> (v, m))
      | _ \<Rightarrow> (v, m))"

text \<open>\<^verbatim>\<open>for i := range *in { (*in)[i].DeepCopyInto(&(*out)[i]) }\<close>, or \<^verbatim>\<open>copy(*out, *in)\<close> with the shallow one.\<close>

fun copyEach :: "copier \<Rightarrow> goval list \<Rightarrow> memory \<Rightarrow> goval list \<times> memory" where
  "copyEach into [] m = ([], m)"
| "copyEach into (u # us) m =
     (case into u m of (u', m1) \<Rightarrow> case copyEach into us m1 of (us', m2) \<Rightarrow> (u' # us', m2))"

definition copySlice :: "copier \<Rightarrow> copier" where
  "copySlice into v m =
     (case v of
        GSlice (Some (a, n)) \<Rightarrow>
          (case cells m a of
             Some (CellArray us) \<Rightarrow>
               (case allocate (\<lambda>m. case copyEach into (take n us) m of (us', m') \<Rightarrow> (CellArray us', m')) m of
                  (a', m') \<Rightarrow> (GSlice (Some (a', n)), m'))
           | _ \<Rightarrow> (v, m))
      | _ \<Rightarrow> (v, m))"

text \<open>\<^verbatim>\<open>for key, val := range *in { (*out)[key] = val }\<close>\<close>

definition copyMap :: copier where
  "copyMap v m =
     (case v of
        GMap (Some a) \<Rightarrow>
          (case cells m a of
             Some (CellMap f) \<Rightarrow>
               (case allocate (\<lambda>m. (CellMap f, m)) m of (a', m') \<Rightarrow> (GMap (Some a'), m'))
           | _ \<Rightarrow> (v, m))
      | _ \<Rightarrow> (v, m))"

text \<open>
  \<^verbatim>\<open>*out = *in\<close> for a struct, then a block for each of some of its fields. A block reads the
  field of \<open>in\<close> and writes that of \<open>out\<close>.
\<close>

definition setField :: "string \<Rightarrow> goval \<Rightarrow> (string \<times> goval) list \<Rightarrow> (string \<times> goval) list" where
  "setField name v fs = map (\<lambda>(n, u). if n = name then (n, v) else (n, u)) fs"

fun runBlocks ::
  "(string \<times> copier) list \<Rightarrow> (string \<times> goval) list \<Rightarrow> (string \<times> goval) list \<Rightarrow> memory \<Rightarrow> (string \<times> goval) list \<times> memory" where
  "runBlocks [] ins outs m = (outs, m)"
| "runBlocks ((name, into) # blocks) ins outs m =
     (case map_of ins name of
        None \<Rightarrow> runBlocks blocks ins outs m
      | Some u \<Rightarrow> (case into u m of (u', m') \<Rightarrow> runBlocks blocks ins (setField name u' outs) m'))"

definition copyStruct :: "(string \<times> copier) list \<Rightarrow> copier" where
  "copyStruct blocks v m =
     (case v of
        GStruct fs \<Rightarrow> (case runBlocks blocks fs fs m of (fs', m') \<Rightarrow> (GStruct fs', m'))
      | _ \<Rightarrow> (v, m))"

section \<open>The types they copy\<close>

fun flat :: "gotree \<Rightarrow> bool" where
  "flat (VScalar x) \<longleftrightarrow> True"
| "flat (VStruct ts) \<longleftrightarrow> (\<forall>t \<in> set (map snd ts). flat t)"
| "flat _ \<longleftrightarrow> False"

fun isScalar :: "gotree \<Rightarrow> bool" where
  "isScalar (VScalar x) \<longleftrightarrow> True"
| "isScalar _ \<longleftrightarrow> False"

fun isPointer :: "(gotree \<Rightarrow> bool) \<Rightarrow> gotree \<Rightarrow> bool" where
  "isPointer P (VPtr x) \<longleftrightarrow> (case x of None \<Rightarrow> True | Some t \<Rightarrow> P t)"
| "isPointer P _ \<longleftrightarrow> False"

fun isSlice :: "(gotree \<Rightarrow> bool) \<Rightarrow> gotree \<Rightarrow> bool" where
  "isSlice P (VSlice x) \<longleftrightarrow> (case x of None \<Rightarrow> True | Some ts \<Rightarrow> list_all P ts)"
| "isSlice P _ \<longleftrightarrow> False"

fun isMap :: "(gotree \<Rightarrow> bool) \<Rightarrow> gotree \<Rightarrow> bool" where
  "isMap P (VMap x) \<longleftrightarrow> (case x of None \<Rightarrow> True | Some g \<Rightarrow> \<forall>k t. g k = Some t \<longrightarrow> P t)"
| "isMap P _ \<longleftrightarrow> False"

text \<open>A struct type is the list of its fields, in the order of its declaration.\<close>

fun isStruct :: "(string \<times> (gotree \<Rightarrow> bool)) list \<Rightarrow> gotree \<Rightarrow> bool" where
  "isStruct decl (VStruct ts) \<longleftrightarrow> list_all2 (\<lambda>(name, P) (n, t). n = name \<and> P t) decl ts"
| "isStruct decl _ \<longleftrightarrow> False"

lemma flat_holds: "holds m v t \<Longrightarrow> flat t \<Longrightarrow> holds m2 v t"
proof (induction rule: holds.induct)
  case (struct fs ts)
  have "list_all2 (holds m2) (map snd fs) (map snd ts)"
    using struct(2,3) by (elim list.rel_mono_strong) auto
  with struct(1) show ?case by (rule holds.struct)
qed (auto intro: holds.intros)

lemma copies_shallow: "(\<And>t. P t \<Longrightarrow> flat t) \<Longrightarrow> copies shallow P"
  by (rule copiesI) (auto simp: shallow_def fresh_def intro: flat_holds)

lemma copies_weaken: "copies into P \<Longrightarrow> (\<And>t. Q t \<Longrightarrow> P t) \<Longrightarrow> copies into Q"
  by (auto simp: copies_def)

text \<open>Each block copies what it is for, if its part does.\<close>

lemma copies_pointer:
  assumes "copies into P"
  shows "copies (copyPointer into) (isPointer P)"
proof (rule copiesI)
  fix m v t v' m'
  assume wf: "wf_memory m" and v: "holds m v t" and P: "isPointer P t" and run: "copyPointer into v m = (v', m')"
  from P obtain x where t: "t = VPtr x" by (cases t) auto
  with P have x: "P t1" if "x = Some t1" for t1 using that by simp
  show "wf_memory m' \<and> grows m m' \<and> fresh m m' v' t"
  proof (cases x)
    case None
    with v t run wf show ?thesis by (auto simp: holds_simps copyPointer_def fresh_def)
  next
    case (Some t1)
    with v t obtain a u where a: "v = GPtr (Some a)" "cells m a = Some (CellVal u)" "holds m u t1" by (auto simp: holds_simps)
    let ?m = "m\<lparr>lim := lim m + 1\<rparr>"
    obtain u' m1 where into: "into u ?m = (u', m1)" by fastforce
    obtain a' m2 where al: "allocate (\<lambda>m. case into u m of (u', m') \<Rightarrow> (CellVal u', m')) m = (a', m2)" by fastforce
    have out: "v' = GPtr (Some a')" "m' = m2" using run a al by (simp_all add: copyPointer_def)
    have u: "holds ?m u t1" by (rule grows_holds [OF grows_reserve wf a(3)])
    note c = copiesD [OF assms into wf_reserve [OF wf] u x [OF Some]]
    have fill: "(\<lambda>m. case into u m of (u', m') \<Rightarrow> (CellVal u', m')) ?m = (CellVal u', m1)" using into by simp
    note g = allocate_grows [OF al wf fill c(1,2)]
    have "holds m3 v' t" if agree: "\<forall>b. lim m \<le> b \<and> b < lim m' \<longrightarrow> cells m3 b = cells m' b" for m3
    proof -
      from g(7) [OF agree [unfolded out]] have m3: "cells m3 a' = Some (CellVal u')"
        "\<forall>b. lim m + 1 \<le> b \<and> b < lim m1 \<longrightarrow> cells m3 b = cells m1 b" by auto
      have "holds m3 u' t1" using c(3) m3(2) by (simp add: fresh_def)
      with m3(1) show ?thesis unfolding t Some out by (rule holds.ptr)
    qed
    then have "fresh m m' v' t" by (simp add: fresh_def)
    with g(3,4) out show ?thesis by simp
  qed
qed

lemma copyEach_copies:
  assumes "copies into P" and "copyEach into us m = (us', m')" and "wf_memory m" and "list_all2 (holds m) us ts" and "list_all P ts"
  shows "wf_memory m' \<and> grows m m' \<and> list_all2 (fresh m m') us' ts"
  using assms(2-)
proof (induction us arbitrary: m ts us' m')
  case Nil
  then show ?case by simp
next
  case (Cons u us)
  from Cons.prems(3) obtain t ts2 where ts: "ts = t # ts2" and u: "holds m u t" and us: "list_all2 (holds m) us ts2"
    by (auto simp: list_all2_Cons1)
  obtain u1 m1 where 1: "into u m = (u1, m1)" by fastforce
  obtain us2 m2 where 2: "copyEach into us m1 = (us2, m2)" by fastforce
  have out: "us' = u1 # us2" "m' = m2" using Cons.prems(1) 1 2 by simp_all
  have P: "P t" "list_all P ts2" using Cons.prems(4) ts by simp_all
  note c = copiesD [OF assms(1) 1 Cons.prems(2) u P(1)]
  have "list_all2 (holds m1) us ts2" using us grows_holds [OF c(2) Cons.prems(2)] by (rule list_all2_mono)
  note r = Cons.IH [OF 2 c(1) this P(2)]
  have "list_all2 (fresh m m2) us2 ts2"
    using r fresh_widen [OF _ c(2) grows_refl] by (auto elim: list_all2_mono)
  moreover have "fresh m m2 u1 t" using fresh_widen [OF c(3) grows_refl] r by blast
  ultimately show ?case using r grows_trans [OF c(2)] by (simp add: out ts)
qed

lemma copyEach_length: "copyEach into us m = (us', m') \<Longrightarrow> length us' = length us"
  by (induction us arbitrary: m us' m') (auto split: prod.splits)

lemma copies_slice:
  assumes "copies into P"
  shows "copies (copySlice into) (isSlice P)"
proof (rule copiesI)
  fix m v t v' m'
  assume wf: "wf_memory m" and v: "holds m v t" and P: "isSlice P t" and run: "copySlice into v m = (v', m')"
  from P obtain x where t: "t = VSlice x" by (cases t) auto
  with P have x: "list_all P ts" if "x = Some ts" for ts using that by simp
  show "wf_memory m' \<and> grows m m' \<and> fresh m m' v' t"
  proof (cases x)
    case None
    with v t run wf show ?thesis by (auto simp: holds_simps copySlice_def fresh_def)
  next
    case (Some ts)
    with v t obtain a us n where a: "v = GSlice (Some (a, n))" "cells m a = Some (CellArray us)" "n \<le> length us"
      "list_all2 (holds m) (take n us) ts" by (auto simp: holds_simps)
    let ?m = "m\<lparr>lim := lim m + 1\<rparr>"
    obtain us' m1 where each: "copyEach into (take n us) ?m = (us', m1)" by fastforce
    obtain a' m2 where al: "allocate (\<lambda>m. case copyEach into (take n us) m of (us', m') \<Rightarrow> (CellArray us', m')) m = (a', m2)"
      by fastforce
    have out: "v' = GSlice (Some (a', n))" "m' = m2" using run a al by (simp_all add: copySlice_def)
    have us: "list_all2 (holds ?m) (take n us) ts" using a(4) grows_holds [OF grows_reserve wf] by (rule list_all2_mono)
    have c: "wf_memory m1" "grows ?m m1" "list_all2 (fresh ?m m1) us' ts"
      using copyEach_copies [OF assms each wf_reserve [OF wf] us x [OF Some]] by auto
    have fill: "(\<lambda>m. case copyEach into (take n us) m of (us', m') \<Rightarrow> (CellArray us', m')) ?m = (CellArray us', m1)"
      using each by simp
    note g = allocate_grows [OF al wf fill c(1,2)]
    have n: "length us' = n" using copyEach_length [OF each] a(3) by simp
    have "holds m3 v' t" if agree: "\<forall>b. lim m \<le> b \<and> b < lim m' \<longrightarrow> cells m3 b = cells m' b" for m3
    proof -
      from g(7) [OF agree [unfolded out]] have m3: "cells m3 a' = Some (CellArray us')"
        "\<forall>b. lim m + 1 \<le> b \<and> b < lim m1 \<longrightarrow> cells m3 b = cells m1 b" by auto
      have "list_all2 (holds m3) us' ts" using c(3) by (rule list_all2_mono) (use m3(2) in \<open>auto simp: fresh_def\<close>)
      with m3(1) n show ?thesis unfolding t Some out by (auto intro!: holds.slice)
    qed
    then have "fresh m m' v' t" by (simp add: fresh_def)
    with g(3,4) out show ?thesis by simp
  qed
qed

lemma copies_map:
  assumes "\<And>t. P t \<Longrightarrow> flat t"
  shows "copies copyMap (isMap P)"
proof (rule copiesI)
  fix m v t v' m'
  assume wf: "wf_memory m" and v: "holds m v t" and P: "isMap P t" and run: "copyMap v m = (v', m')"
  from P obtain x where t: "t = VMap x" by (cases t) auto
  with P have x: "P t1" if "x = Some g" "g k = Some t1" for g k t1 using that by simp
  show "wf_memory m' \<and> grows m m' \<and> fresh m m' v' t"
  proof (cases x)
    case None
    with v t run wf show ?thesis by (auto simp: holds_simps copyMap_def fresh_def)
  next
    case (Some g)
    with v t obtain a f where a: "v = GMap (Some a)" "cells m a = Some (CellMap f)" "\<And>k. rel_option (holds m) (f k) (g k)"
      by (auto simp: holds_simps)
    obtain a' m2 where al: "allocate (\<lambda>m. (CellMap f, m)) m = (a', m2)" by fastforce
    have out: "v' = GMap (Some a')" "m' = m2" using run a al by (simp_all add: copyMap_def)
    note g = allocate_grows [OF al wf refl wf_reserve [OF wf] grows_refl]
    have "rel_option (holds m3) (f k) (g k)" for m3 k
      using a(3) [of k] by (rule option.rel_mono_strong) (use assms x [OF Some] in \<open>auto intro: flat_holds\<close>)
    then have "holds m3 v' t" if "cells m3 a' = Some (CellMap f)" for m3
      using that unfolding t Some out by (blast intro: holds.map)
    with g(7) have "fresh m m' v' t" unfolding fresh_def out by blast
    with g(3,4) out show ?thesis by simp
  qed
qed

text \<open>A struct: every field has a block that copies it, or nothing in it can be shared.\<close>

definition fits :: "(string \<times> copier) list \<Rightarrow> (string \<times> (gotree \<Rightarrow> bool)) list \<Rightarrow> bool" where
  "fits blocks decl \<longleftrightarrow> distinct (map fst decl) \<and> distinct (map fst blocks) \<and>
     list_all (\<lambda>(n, P). case map_of blocks n of None \<Rightarrow> \<forall>t. P t \<longrightarrow> flat t | Some into \<Rightarrow> copies into P) decl"

lemma holds_struct:
  "holds m (GStruct fs) (VStruct ts) \<longleftrightarrow> list_all2 (\<lambda>f t. fst f = fst t \<and> holds m (snd f) (snd t)) fs ts"
  by (auto simp: holds_simps list_all2_conv_all_nth list_eq_iff_nth_eq)

lemma setField_alt: "setField n v fs = map (\<lambda>f. (fst f, if fst f = n then v else snd f)) fs"
  by (auto simp: setField_def)

lemma runBlocks_copies:
  assumes ins: "list_all2 (\<lambda>f t. fst f = fst t \<and> holds m0 (snd f) (snd t)) ins ts" and names: "distinct (map fst ins)"
    and "wf_memory m0" and "runBlocks blocks ins outs m = (outs', m')" and "wf_memory m" and "grows m0 m"
    and "distinct (map fst blocks)"
    and "\<And>n into t. (n, into) \<in> set blocks \<Longrightarrow> (n, t) \<in> set ts \<Longrightarrow> \<exists>P. copies into P \<and> P t"
    and "list_all2 (\<lambda>f t. fst f = fst t \<and> (fst f \<notin> fst ` set blocks \<longrightarrow> fresh m0 m (snd f) (snd t))) outs ts"
  shows "wf_memory m' \<and> grows m0 m' \<and> list_all2 (\<lambda>f t. fst f = fst t \<and> fresh m0 m' (snd f) (snd t)) outs' ts"
  using assms(4-)
proof (induction blocks arbitrary: outs m)
  case Nil
  then show ?case by simp
next
  case (Cons b blocks)
  obtain n into where b: "b = (n, into)" by fastforce
  have ts: "map fst ts = map fst ins" using ins by (auto simp: list_all2_conv_all_nth list_eq_iff_nth_eq)
  show ?case
  proof (cases "map_of ins n")
    case None
    then have "n \<notin> fst ` set ts" using ts by (metis list.set_map map_of_eq_None_iff)
    then have o: "list_all2 (\<lambda>f t. fst f = fst t \<and> (fst f \<notin> fst ` set blocks \<longrightarrow> fresh m0 m (snd f) (snd t))) outs ts"
      using Cons.prems(6) by (elim list.rel_mono_strong) (force simp: b)
    have run: "runBlocks blocks ins outs m = (outs', m')" using Cons.prems(1) None by (simp add: b)
    from Cons.IH [OF run Cons.prems(2,3) _ _ o] Cons.prems(4,5) b show ?thesis by auto
  next
    case (Some u)
    then have "(n, u) \<in> set ins" by (rule map_of_SomeD)
    then obtain t where t: "(n, t) \<in> set ts" "holds m0 u t"
      using ins unfolding list_all2_conv_all_nth in_set_conv_nth by (metis prod.collapse fst_conv snd_conv)
    obtain P where P: "copies into P" "P t" using Cons.prems(5) [of n into t] t(1) b by auto
    obtain u' m1 where into: "into u m = (u', m1)" by fastforce
    note c = copiesD [OF P(1) into Cons.prems(2) grows_holds [OF Cons.prems(3) assms(3) t(2)] P(2)]
    have run: "runBlocks blocks ins (setField n u' outs) m1 = (outs', m')" using Cons.prems(1) Some into by (simp add: b)
    have u': "fresh m0 m1 u' t" by (rule fresh_widen [OF c(3) Cons.prems(3) grows_refl])
    have "distinct (map fst ts)" using names ts by simp
    then have only: "t2 = t" if "(n, t2) \<in> set ts" for t2 using that t(1) by (metis eq_key_imp_eq_value)
    have "list_all2 (\<lambda>f t. fst f = fst t \<and> (fst f \<notin> fst ` set blocks \<longrightarrow> fresh m0 m1 (snd f) (snd t))) (setField n u' outs) ts"
      unfolding setField_alt list_all2_map1
      using Cons.prems(6)
    proof (rule list.rel_mono_strong)
      fix f t2
      assume mem: "t2 \<in> set ts"
        and f: "fst f = fst t2 \<and> (fst f \<notin> fst ` set (b # blocks) \<longrightarrow> fresh m0 m (snd f) (snd t2))"
      have "fresh m0 m1 (snd f) (snd t2)" if "fst f \<noteq> n" "fst f \<notin> fst ` set blocks"
        using fresh_widen [OF _ grows_refl c(2)] f that by (simp add: b)
      moreover have "snd t2 = t" if "fst f = n" using only [of "snd t2"] mem f that by (metis prod.collapse)
      ultimately show "fst (fst f, if fst f = n then u' else snd f) = fst t2 \<and>
          (fst (fst f, if fst f = n then u' else snd f) \<notin> fst ` set blocks \<longrightarrow>
           fresh m0 m1 (snd (fst f, if fst f = n then u' else snd f)) (snd t2))"
        using u' f by simp
    qed
    from Cons.IH [OF run c(1) grows_trans [OF Cons.prems(3) c(2)] _ _ this] Cons.prems(4,5) b show ?thesis by auto
  qed
qed

lemma copies_struct:
  assumes "fits blocks decl"
  shows "copies (copyStruct blocks) (isStruct decl)"
proof (rule copiesI)
  fix m v t v' m'
  assume wf: "wf_memory m" and v: "holds m v t" and P: "isStruct decl t" and run: "copyStruct blocks v m = (v', m')"
  from P obtain ts where t: "t = VStruct ts" by (cases t) auto
  with P have decl: "list_all2 (\<lambda>d t. fst t = fst d \<and> snd d (snd t)) decl ts" by (simp add: split_def)
  from v t obtain fs where fs: "v = GStruct fs" by (auto simp: holds_simps)
  have ins: "list_all2 (\<lambda>f t. fst f = fst t \<and> holds m (snd f) (snd t)) fs ts" using v unfolding t fs holds_struct .
  obtain fs' where run': "runBlocks blocks fs fs m = (fs', m')" and v': "v' = GStruct fs'"
    using run by (auto simp: fs copyStruct_def split: prod.splits)
  have names: "map fst fs = map fst decl"
    using ins decl by (auto simp: list_all2_conv_all_nth list_eq_iff_nth_eq)
  have field: "\<exists>P. (n, P) \<in> set decl \<and> P t1 \<and> (case map_of blocks n of None \<Rightarrow> \<forall>t. P t \<longrightarrow> flat t | Some into \<Rightarrow> copies into P)"
    if "(n, t1) \<in> set ts" for n t1
  proof -
    from that decl obtain P where "(n, P) \<in> set decl" "P t1"
      unfolding list_all2_conv_all_nth in_set_conv_nth by (metis prod.collapse fst_conv snd_conv)
    with assms show ?thesis by (auto simp: fits_def list_all_iff)
  qed
  have blocks: "\<exists>P. copies into P \<and> P t1" if "(n, into) \<in> set blocks" "(n, t1) \<in> set ts" for n into t1
    using field [OF that(2)] that(1) assms by (auto simp: fits_def)
  have "list_all2 (\<lambda>f t. fst f = fst t \<and> (fst f \<notin> fst ` set blocks \<longrightarrow> fresh m m (snd f) (snd t))) fs ts"
    using ins
  proof (rule list.rel_mono_strong)
    fix f t1
    assume "t1 \<in> set ts" and f: "fst f = fst t1 \<and> holds m (snd f) (snd t1)"
    moreover have "flat (snd t1)" if "fst f \<notin> fst ` set blocks"
    proof -
      have "map_of blocks (fst t1) = None" using that f by (simp add: map_of_eq_None_iff)
      with field [of "fst t1" "snd t1"] \<open>t1 \<in> set ts\<close> show ?thesis by auto
    qed
    ultimately show "fst f = fst t1 \<and> (fst f \<notin> fst ` set blocks \<longrightarrow> fresh m m (snd f) (snd t1))"
      by (auto simp: fresh_def intro: flat_holds)
  qed
  from runBlocks_copies [OF ins _ wf run' wf grows_refl _ blocks this] assms names
  have r: "wf_memory m'" "grows m m'" "list_all2 (\<lambda>f t. fst f = fst t \<and> fresh m m' (snd f) (snd t)) fs' ts"
    by (auto simp: fits_def)
  have "holds m2 v' t" if agree: "\<forall>a. lim m \<le> a \<and> a < lim m' \<longrightarrow> cells m2 a = cells m' a" for m2
    unfolding v' t holds_struct using r(3) by (rule list_all2_mono) (use agree in \<open>simp add: fresh_def\<close>)
  with r(1,2) show "wf_memory m' \<and> grows m m' \<and> fresh m m' v' t" by (simp add: fresh_def)
qed

end
