(* ===== verification/Deepcopy.thy ===== *)
theory Deepcopy
  imports Gomem
begin

text \<open>
  \<^verbatim>\<open>api/v1alpha1/zz_generated.deepcopy.go\<close>: the copies of the API objects, in memory. The reconcilers
  write into the objects they have read, labels, status and all; what keeps these writes out of the
  objects that the informer cache still holds is that the cache hands out deep copies. Every type has
  its fields in the order of the declaration (\<open>_type\<close>), its \<open>DeepCopyInto\<close>, a function from the value
  of \<^verbatim>\<open>in\<close> to that of \<^verbatim>\<open>out\<close>, and its \<open>DeepCopy\<close>.
\<close>

section \<open>The types of the Kubernetes library\<close>

text \<open>Their copies are not in the repository; that they are deep copies is their documentation.\<close>

datatype libType = LabelSelectorT | JSONT | TimeT | ConditionT | ObjectMetaT | ListMetaT

record library =
  lib_type :: "libType \<Rightarrow> gotree \<Rightarrow> bool"
  lib_into :: "libType \<Rightarrow> copier"
  lib_TimeDeepCopy :: copier

definition libraryCopies :: "library \<Rightarrow> bool" where
  "libraryCopies lib \<longleftrightarrow> (\<forall>T. copies (lib_into lib T) (lib_type lib T)) \<and>
     copies (lib_TimeDeepCopy lib) (isPointer (lib_type lib TimeT))"

definition isDuration :: "gotree \<Rightarrow> bool" where
  "isDuration = isStruct [(''Duration'', isScalar)]"

definition isTypeMeta :: "gotree \<Rightarrow> bool" where
  "isTypeMeta = isStruct [(''Kind'', isScalar), (''APIVersion'', isScalar)]"

section \<open>The copy of a type\<close>

locale deep_copier =
  fixes into :: "library \<Rightarrow> copier" and P :: "library \<Rightarrow> gotree \<Rightarrow> bool"
  assumes copies: "libraryCopies lib \<Longrightarrow> copies (into lib) (P lib)"
begin

lemma DeepCopy: "libraryCopies lib \<Longrightarrow> copies (copyPointer (into lib)) (isPointer (P lib))"
  by (rule copies_pointer) (rule copies)

lemma DeepCopy_slice: "libraryCopies lib \<Longrightarrow> copies (copySlice (into lib)) (isSlice (P lib))"
  by (rule copies_slice) (rule copies)

end

lemma scalar_flat: "isScalar t \<Longrightarrow> flat t"
  by (cases t) auto

lemma duration_flat: "isDuration t \<Longrightarrow> flat t"
  by (cases t) (auto simp: isDuration_def list_all2_Cons1 dest!: scalar_flat)

lemma typeMeta_flat: "isTypeMeta t \<Longrightarrow> flat t"
  by (cases t) (auto simp: isTypeMeta_def list_all2_Cons1 dest!: scalar_flat)

named_theorems copy_rules

lemma lib_copies: "libraryCopies lib \<Longrightarrow> copies (lib_into lib T) (lib_type lib T)"
  "libraryCopies lib \<Longrightarrow> copies (lib_TimeDeepCopy lib) (isPointer (lib_type lib TimeT))"
  by (simp_all add: libraryCopies_def)

lemma copies_flat [copy_rules]:
  "copies shallow isScalar" "copies shallow isDuration" "copies shallow isTypeMeta"
  "copies (copyPointer shallow) (isPointer isScalar)" "copies (copyPointer shallow) (isPointer isDuration)"
  "copies (copySlice shallow) (isSlice isScalar)" "copies copyMap (isMap isScalar)"
  by (intro copies_pointer copies_slice copies_map copies_shallow scalar_flat duration_flat typeMeta_flat; assumption)+

lemmas [copy_rules] = scalar_flat lib_copies copies_pointer [OF lib_copies(1)] copies_slice [OF lib_copies(1)]

text \<open>An interface is nil only if it is made of the nil of the language, not of a nil pointer.\<close>

definition asObject :: "copier \<Rightarrow> goval \<Rightarrow> memory \<Rightarrow> goval option \<times> memory" where
  "asObject copy v m = (case copy v m of (c, m') \<Rightarrow> (if c \<noteq> GPtr None then Some c else None, m'))"

lemma asObject_separate:
  assumes "copies copy (isPointer P)" and "wf_memory m" and "holds m v t" and "isPointer P t"
    and "asObject copy v m = (c, m')"
  shows "wf_memory m' \<and> (\<forall>a < lim m. cells m' a = cells m a) \<and>
    (case c of
       None \<Rightarrow> t = VPtr None
     | Some v' \<Rightarrow> t \<noteq> VPtr None \<and>
         (\<forall>m2. (\<forall>a. lim m \<le> a \<longrightarrow> cells m2 a = cells m' a) \<longrightarrow> holds m2 v' t) \<and>
         (\<forall>m2. (\<forall>a < lim m. cells m2 a = cells m a) \<longrightarrow> holds m2 v t))"
proof -
  obtain v' m1 where run: "copy v m = (v', m1)" by fastforce
  note c = copiesD [OF assms(1) run assms(2-4)]
  have out: "c = (if v' \<noteq> GPtr None then Some v' else None)" "m' = m1" using assms(5) run by (auto simp: asObject_def)
  have nil: "v' = GPtr None \<longleftrightarrow> t = VPtr None" using fresh_holds [OF c(3)] by (cases t) (auto simp: holds_value holds_simps)
  have "holds m2 v t" if agree: "\<forall>a < lim m. cells m2 a = cells m a" for m2
  proof (rule holds_mono [OF assms(3)])
    fix a x
    assume a: "cells m a = Some x"
    then have "a < lim m" using assms(2) unfolding wf_memory_def by (metis linorder_not_le option.distinct(1))
    with a agree show "cells m2 a = Some x" by simp
  qed
  with c nil show ?thesis by (auto simp: out grows_def fresh_def)
qed

section \<open>The types of the API\<close>

subsection \<open>RateLimitConfig\<close>

definition RateLimitConfig_type :: "library \<Rightarrow> gotree \<Rightarrow> bool" where
  "RateLimitConfig_type lib = isStruct
     [(''BatchSize'', isPointer isScalar), (''DelayBetweenBatches'', isPointer isDuration)]"

definition RateLimitConfig_DeepCopyInto :: "library \<Rightarrow> copier" where
  "RateLimitConfig_DeepCopyInto lib = copyStruct
     [(''BatchSize'', copyPointer shallow), (''DelayBetweenBatches'', copyPointer shallow)]"

interpretation RateLimitConfig_copier: deep_copier RateLimitConfig_DeepCopyInto RateLimitConfig_type
  by unfold_locales (simp add: RateLimitConfig_DeepCopyInto_def RateLimitConfig_type_def, rule copies_struct, simp add: fits_def,
      (intro conjI allI impI)?, (erule copy_rules | rule copy_rules)+)

definition RateLimitConfig_DeepCopy :: "library \<Rightarrow> copier" where
  "RateLimitConfig_DeepCopy lib = copyPointer (RateLimitConfig_DeepCopyInto lib)"

lemmas [copy_rules] = RateLimitConfig_copier.copies RateLimitConfig_copier.DeepCopy RateLimitConfig_copier.DeepCopy_slice

subsection \<open>ScalingProgress\<close>

definition ScalingProgress_type :: "library \<Rightarrow> gotree \<Rightarrow> bool" where
  "ScalingProgress_type lib = isStruct
     [(''Total'', isScalar), (''Completed'', isScalar), (''Failed'', isScalar), (''InProgress'', isScalar)]"

definition ScalingProgress_DeepCopyInto :: "library \<Rightarrow> copier" where
  "ScalingProgress_DeepCopyInto lib = copyStruct []"

interpretation ScalingProgress_copier: deep_copier ScalingProgress_DeepCopyInto ScalingProgress_type
  by unfold_locales (simp add: ScalingProgress_DeepCopyInto_def ScalingProgress_type_def, rule copies_struct, simp add: fits_def,
      (intro conjI allI impI)?, (erule copy_rules | rule copy_rules)+)

definition ScalingProgress_DeepCopy :: "library \<Rightarrow> copier" where
  "ScalingProgress_DeepCopy lib = copyPointer (ScalingProgress_DeepCopyInto lib)"

lemma ScalingProgress_flat: "ScalingProgress_type lib t \<Longrightarrow> flat t"
  by (cases t) (auto simp: ScalingProgress_type_def list_all2_Cons1 dest!: scalar_flat)

lemma ScalingProgress_shallow [copy_rules]:
  "copies shallow (ScalingProgress_type lib)" "copies (copyPointer shallow) (isPointer (ScalingProgress_type lib))"
  by (intro copies_pointer copies_shallow ScalingProgress_flat; assumption)+

subsection \<open>WaveProgress\<close>

definition WaveProgress_type :: "library \<Rightarrow> gotree \<Rightarrow> bool" where
  "WaveProgress_type lib = isStruct
     [(''Wave'', isScalar), (''Since'', lib_type lib TimeT)]"

definition WaveProgress_DeepCopyInto :: "library \<Rightarrow> copier" where
  "WaveProgress_DeepCopyInto lib = copyStruct
     [(''Since'', lib_into lib TimeT)]"

interpretation WaveProgress_copier: deep_copier WaveProgress_DeepCopyInto WaveProgress_type
  by unfold_locales (simp add: WaveProgress_DeepCopyInto_def WaveProgress_type_def, rule copies_struct, simp add: fits_def,
      (intro conjI allI impI)?, (erule copy_rules | rule copy_rules)+)

definition WaveProgress_DeepCopy :: "library \<Rightarrow> copier" where
  "WaveProgress_DeepCopy lib = copyPointer (WaveProgress_DeepCopyInto lib)"

lemmas [copy_rules] = WaveProgress_copier.copies WaveProgress_copier.DeepCopy WaveProgress_copier.DeepCopy_slice

subsection \<open>WorkloadStats\<close>

definition WorkloadStats_type :: "library \<Rightarrow> gotree \<Rightarrow> bool" where
  "WorkloadStats_type lib = isStruct
     [(''DeploymentsManaged'', isScalar), (''DeploymentsScaled'', isScalar), (''StatefulSetsManaged'', isScalar),
      (''StatefulSetsScaled'', isScalar), (''CronJobsManaged'', isScalar), (''CronJobsSuspended'', isScalar)]"

definition WorkloadStats_DeepCopyInto :: "library \<Rightarrow> copier" where
  "WorkloadStats_DeepCopyInto lib = copyStruct []"

interpretation WorkloadStats_copier: deep_copier WorkloadStats_DeepCopyInto WorkloadStats_type
  by unfold_locales (simp add: WorkloadStats_DeepCopyInto_def WorkloadStats_type_def, rule copies_struct, simp add: fits_def,
      (intro conjI allI impI)?, (erule copy_rules | rule copy_rules)+)

definition WorkloadStats_DeepCopy :: "library \<Rightarrow> copier" where
  "WorkloadStats_DeepCopy lib = copyPointer (WorkloadStats_DeepCopyInto lib)"

lemma WorkloadStats_flat: "WorkloadStats_type lib t \<Longrightarrow> flat t"
  by (cases t) (auto simp: WorkloadStats_type_def list_all2_Cons1 dest!: scalar_flat)

lemma WorkloadStats_shallow [copy_rules]:
  "copies shallow (WorkloadStats_type lib)" "copies (copyPointer shallow) (isPointer (WorkloadStats_type lib))"
  by (intro copies_pointer copies_shallow WorkloadStats_flat; assumption)+

subsection \<open>ArgoCDConfig\<close>

definition ArgoCDConfig_type :: "library \<Rightarrow> gotree \<Rightarrow> bool" where
  "ArgoCDConfig_type lib = isStruct
     [(''Namespace'', isScalar), (''WarmupTimeout'', isPointer isDuration), (''SyncWaves'', isScalar)]"

definition ArgoCDConfig_DeepCopyInto :: "library \<Rightarrow> copier" where
  "ArgoCDConfig_DeepCopyInto lib = copyStruct
     [(''WarmupTimeout'', copyPointer shallow)]"

interpretation ArgoCDConfig_copier: deep_copier ArgoCDConfig_DeepCopyInto ArgoCDConfig_type
  by unfold_locales (simp add: ArgoCDConfig_DeepCopyInto_def ArgoCDConfig_type_def, rule copies_struct, simp add: fits_def,
      (intro conjI allI impI)?, (erule copy_rules | rule copy_rules)+)

definition ArgoCDConfig_DeepCopy :: "library \<Rightarrow> copier" where
  "ArgoCDConfig_DeepCopy lib = copyPointer (ArgoCDConfig_DeepCopyInto lib)"

lemmas [copy_rules] = ArgoCDConfig_copier.copies ArgoCDConfig_copier.DeepCopy ArgoCDConfig_copier.DeepCopy_slice

subsection \<open>FluxCDConfig\<close>

definition FluxCDConfig_type :: "library \<Rightarrow> gotree \<Rightarrow> bool" where
  "FluxCDConfig_type lib = isStruct
     [(''Namespace'', isScalar), (''WarmupTimeout'', isPointer isDuration)]"

definition FluxCDConfig_DeepCopyInto :: "library \<Rightarrow> copier" where
  "FluxCDConfig_DeepCopyInto lib = copyStruct
     [(''WarmupTimeout'', copyPointer shallow)]"

interpretation FluxCDConfig_copier: deep_copier FluxCDConfig_DeepCopyInto FluxCDConfig_type
  by unfold_locales (simp add: FluxCDConfig_DeepCopyInto_def FluxCDConfig_type_def, rule copies_struct, simp add: fits_def,
      (intro conjI allI impI)?, (erule copy_rules | rule copy_rules)+)

definition FluxCDConfig_DeepCopy :: "library \<Rightarrow> copier" where
  "FluxCDConfig_DeepCopy lib = copyPointer (FluxCDConfig_DeepCopyInto lib)"

lemmas [copy_rules] = FluxCDConfig_copier.copies FluxCDConfig_copier.DeepCopy FluxCDConfig_copier.DeepCopy_slice

subsection \<open>FieldPatch\<close>

definition FieldPatch_type :: "library \<Rightarrow> gotree \<Rightarrow> bool" where
  "FieldPatch_type lib = isStruct
     [(''Path'', isScalar), (''Value'', lib_type lib JSONT)]"

definition FieldPatch_DeepCopyInto :: "library \<Rightarrow> copier" where
  "FieldPatch_DeepCopyInto lib = copyStruct
     [(''Value'', lib_into lib JSONT)]"

interpretation FieldPatch_copier: deep_copier FieldPatch_DeepCopyInto FieldPatch_type
  by unfold_locales (simp add: FieldPatch_DeepCopyInto_def FieldPatch_type_def, rule copies_struct, simp add: fits_def,
      (intro conjI allI impI)?, (erule copy_rules | rule copy_rules)+)

definition FieldPatch_DeepCopy :: "library \<Rightarrow> copier" where
  "FieldPatch_DeepCopy lib = copyPointer (FieldPatch_DeepCopyInto lib)"

lemmas [copy_rules] = FieldPatch_copier.copies FieldPatch_copier.DeepCopy FieldPatch_copier.DeepCopy_slice

subsection \<open>FieldMatch\<close>

definition FieldMatch_type :: "library \<Rightarrow> gotree \<Rightarrow> bool" where
  "FieldMatch_type lib = isStruct
     [(''Path'', isScalar), (''Value'', lib_type lib JSONT)]"

definition FieldMatch_DeepCopyInto :: "library \<Rightarrow> copier" where
  "FieldMatch_DeepCopyInto lib = copyStruct
     [(''Value'', lib_into lib JSONT)]"

interpretation FieldMatch_copier: deep_copier FieldMatch_DeepCopyInto FieldMatch_type
  by unfold_locales (simp add: FieldMatch_DeepCopyInto_def FieldMatch_type_def, rule copies_struct, simp add: fits_def,
      (intro conjI allI impI)?, (erule copy_rules | rule copy_rules)+)

definition FieldMatch_DeepCopy :: "library \<Rightarrow> copier" where
  "FieldMatch_DeepCopy lib = copyPointer (FieldMatch_DeepCopyInto lib)"

lemmas [copy_rules] = FieldMatch_copier.copies FieldMatch_copier.DeepCopy FieldMatch_copier.DeepCopy_slice

subsection \<open>CustomResourceConfig\<close>

definition CustomResourceConfig_type :: "library \<Rightarrow> gotree \<Rightarrow> bool" where
  "CustomResourceConfig_type lib = isStruct
     [(''Group'', isScalar), (''Version'', isScalar), (''Kind'', isScalar), (''Name'', isScalar),
      (''MatchLabels'', isMap isScalar), (''SetFields'', isSlice (FieldPatch_type lib)),
      (''ReadyWhen'', isSlice (FieldMatch_type lib)), (''Delete'', isScalar)]"

definition CustomResourceConfig_DeepCopyInto :: "library \<Rightarrow> copier" where
  "CustomResourceConfig_DeepCopyInto lib = copyStruct
     [(''MatchLabels'', copyMap), (''SetFields'', copySlice (FieldPatch_DeepCopyInto lib)),
      (''ReadyWhen'', copySlice (FieldMatch_DeepCopyInto lib))]"

interpretation CustomResourceConfig_copier: deep_copier CustomResourceConfig_DeepCopyInto CustomResourceConfig_type
  by unfold_locales (simp add: CustomResourceConfig_DeepCopyInto_def CustomResourceConfig_type_def, rule copies_struct, simp add: fits_def,
      (intro conjI allI impI)?, (erule copy_rules | rule copy_rules)+)

definition CustomResourceConfig_DeepCopy :: "library \<Rightarrow> copier" where
  "CustomResourceConfig_DeepCopy lib = copyPointer (CustomResourceConfig_DeepCopyInto lib)"

lemmas [copy_rules] = CustomResourceConfig_copier.copies CustomResourceConfig_copier.DeepCopy CustomResourceConfig_copier.DeepCopy_slice

subsection \<open>LightsOutScheduleCore\<close>

definition LightsOutScheduleCore_type :: "library \<Rightarrow> gotree \<Rightarrow> bool" where
  "LightsOutScheduleCore_type lib = isStruct
     [(''Upscale'', isScalar), (''Downscale'', isScalar), (''Timezone'', isScalar), (''Suspend'', isScalar),
      (''WorkloadTypes'', isSlice isScalar), (''ExcludeLabels'', isPointer (lib_type lib LabelSelectorT)),
      (''IncludeOwnedWorkloads'', isScalar), (''UpscaleRateLimit'', isPointer (RateLimitConfig_type lib)),
      (''DownscaleRateLimit'', isPointer (RateLimitConfig_type lib)), (''ArgoCD'', isPointer (ArgoCDConfig_type lib)),
      (''FluxCD'', isPointer (FluxCDConfig_type lib)), (''CustomResources'', isSlice (CustomResourceConfig_type lib)),
      (''CustomResourceWarmupTimeout'', isPointer isDuration)]"

definition LightsOutScheduleCore_DeepCopyInto :: "library \<Rightarrow> copier" where
  "LightsOutScheduleCore_DeepCopyInto lib = copyStruct
     [(''WorkloadTypes'', copySlice shallow), (''ExcludeLabels'', copyPointer (lib_into lib LabelSelectorT)),
      (''UpscaleRateLimit'', copyPointer (RateLimitConfig_DeepCopyInto lib)),
      (''DownscaleRateLimit'', copyPointer (RateLimitConfig_DeepCopyInto lib)),
      (''ArgoCD'', copyPointer (ArgoCDConfig_DeepCopyInto lib)),
      (''FluxCD'', copyPointer (FluxCDConfig_DeepCopyInto lib)),
      (''CustomResources'', copySlice (CustomResourceConfig_DeepCopyInto lib)),
      (''CustomResourceWarmupTimeout'', copyPointer shallow)]"

interpretation LightsOutScheduleCore_copier: deep_copier LightsOutScheduleCore_DeepCopyInto LightsOutScheduleCore_type
  by unfold_locales (simp add: LightsOutScheduleCore_DeepCopyInto_def LightsOutScheduleCore_type_def, rule copies_struct, simp add: fits_def,
      (intro conjI allI impI)?, (erule copy_rules | rule copy_rules)+)

definition LightsOutScheduleCore_DeepCopy :: "library \<Rightarrow> copier" where
  "LightsOutScheduleCore_DeepCopy lib = copyPointer (LightsOutScheduleCore_DeepCopyInto lib)"

lemmas [copy_rules] = LightsOutScheduleCore_copier.copies LightsOutScheduleCore_copier.DeepCopy LightsOutScheduleCore_copier.DeepCopy_slice

subsection \<open>LightsOutScheduleSpec\<close>

definition LightsOutScheduleSpec_type :: "library \<Rightarrow> gotree \<Rightarrow> bool" where
  "LightsOutScheduleSpec_type lib = isStruct
     [(''LightsOutScheduleCore'', LightsOutScheduleCore_type lib),
      (''NamespaceSelector'', isPointer (lib_type lib LabelSelectorT)), (''Namespaces'', isSlice isScalar),
      (''ExcludeNamespaces'', isSlice isScalar)]"

definition LightsOutScheduleSpec_DeepCopyInto :: "library \<Rightarrow> copier" where
  "LightsOutScheduleSpec_DeepCopyInto lib = copyStruct
     [(''LightsOutScheduleCore'', LightsOutScheduleCore_DeepCopyInto lib),
      (''NamespaceSelector'', copyPointer (lib_into lib LabelSelectorT)), (''Namespaces'', copySlice shallow),
      (''ExcludeNamespaces'', copySlice shallow)]"

interpretation LightsOutScheduleSpec_copier: deep_copier LightsOutScheduleSpec_DeepCopyInto LightsOutScheduleSpec_type
  by unfold_locales (simp add: LightsOutScheduleSpec_DeepCopyInto_def LightsOutScheduleSpec_type_def, rule copies_struct, simp add: fits_def,
      (intro conjI allI impI)?, (erule copy_rules | rule copy_rules)+)

definition LightsOutScheduleSpec_DeepCopy :: "library \<Rightarrow> copier" where
  "LightsOutScheduleSpec_DeepCopy lib = copyPointer (LightsOutScheduleSpec_DeepCopyInto lib)"

lemmas [copy_rules] = LightsOutScheduleSpec_copier.copies LightsOutScheduleSpec_copier.DeepCopy LightsOutScheduleSpec_copier.DeepCopy_slice

subsection \<open>LightsOutScheduleStatus\<close>

definition LightsOutScheduleStatus_type :: "library \<Rightarrow> gotree \<Rightarrow> bool" where
  "LightsOutScheduleStatus_type lib = isStruct
     [(''State'', isScalar), (''LastUpscaleTime'', isPointer (lib_type lib TimeT)),
      (''LastDownscaleTime'', isPointer (lib_type lib TimeT)), (''NextUpscaleTime'', isPointer (lib_type lib TimeT)),
      (''NextDownscaleTime'', isPointer (lib_type lib TimeT)), (''ObservedGeneration'', isScalar),
      (''Namespaces'', isSlice isScalar), (''WorkloadStats'', WorkloadStats_type lib),
      (''ScalingProgress'', isPointer (ScalingProgress_type lib)),
      (''WaveProgress'', isPointer (WaveProgress_type lib)), (''StuckTerminatingPods'', isScalar),
      (''Conditions'', isSlice (lib_type lib ConditionT))]"

definition LightsOutScheduleStatus_DeepCopyInto :: "library \<Rightarrow> copier" where
  "LightsOutScheduleStatus_DeepCopyInto lib = copyStruct
     [(''LastUpscaleTime'', lib_TimeDeepCopy lib), (''LastDownscaleTime'', lib_TimeDeepCopy lib),
      (''NextUpscaleTime'', lib_TimeDeepCopy lib), (''NextDownscaleTime'', lib_TimeDeepCopy lib),
      (''Namespaces'', copySlice shallow), (''WorkloadStats'', shallow), (''ScalingProgress'', copyPointer shallow),
      (''WaveProgress'', copyPointer (WaveProgress_DeepCopyInto lib)),
      (''Conditions'', copySlice (lib_into lib ConditionT))]"

interpretation LightsOutScheduleStatus_copier: deep_copier LightsOutScheduleStatus_DeepCopyInto LightsOutScheduleStatus_type
  by unfold_locales (simp add: LightsOutScheduleStatus_DeepCopyInto_def LightsOutScheduleStatus_type_def, rule copies_struct, simp add: fits_def,
      (intro conjI allI impI)?, (erule copy_rules | rule copy_rules)+)

definition LightsOutScheduleStatus_DeepCopy :: "library \<Rightarrow> copier" where
  "LightsOutScheduleStatus_DeepCopy lib = copyPointer (LightsOutScheduleStatus_DeepCopyInto lib)"

lemmas [copy_rules] = LightsOutScheduleStatus_copier.copies LightsOutScheduleStatus_copier.DeepCopy LightsOutScheduleStatus_copier.DeepCopy_slice

subsection \<open>LightsOutSchedule\<close>

definition LightsOutSchedule_type :: "library \<Rightarrow> gotree \<Rightarrow> bool" where
  "LightsOutSchedule_type lib = isStruct
     [(''TypeMeta'', isTypeMeta), (''ObjectMeta'', lib_type lib ObjectMetaT),
      (''Spec'', LightsOutScheduleSpec_type lib), (''Status'', LightsOutScheduleStatus_type lib)]"

definition LightsOutSchedule_DeepCopyInto :: "library \<Rightarrow> copier" where
  "LightsOutSchedule_DeepCopyInto lib = copyStruct
     [(''TypeMeta'', shallow), (''ObjectMeta'', lib_into lib ObjectMetaT),
      (''Spec'', LightsOutScheduleSpec_DeepCopyInto lib), (''Status'', LightsOutScheduleStatus_DeepCopyInto lib)]"

interpretation LightsOutSchedule_copier: deep_copier LightsOutSchedule_DeepCopyInto LightsOutSchedule_type
  by unfold_locales (simp add: LightsOutSchedule_DeepCopyInto_def LightsOutSchedule_type_def, rule copies_struct, simp add: fits_def,
      (intro conjI allI impI)?, (erule copy_rules | rule copy_rules)+)

definition LightsOutSchedule_DeepCopy :: "library \<Rightarrow> copier" where
  "LightsOutSchedule_DeepCopy lib = copyPointer (LightsOutSchedule_DeepCopyInto lib)"

lemmas [copy_rules] = LightsOutSchedule_copier.copies LightsOutSchedule_copier.DeepCopy LightsOutSchedule_copier.DeepCopy_slice

definition LightsOutSchedule_DeepCopyObject :: "library \<Rightarrow> goval \<Rightarrow> memory \<Rightarrow> goval option \<times> memory" where
  "LightsOutSchedule_DeepCopyObject lib = asObject (LightsOutSchedule_DeepCopy lib)"

subsection \<open>LightsOutScheduleList\<close>

definition LightsOutScheduleList_type :: "library \<Rightarrow> gotree \<Rightarrow> bool" where
  "LightsOutScheduleList_type lib = isStruct
     [(''TypeMeta'', isTypeMeta), (''ListMeta'', lib_type lib ListMetaT),
      (''Items'', isSlice (LightsOutSchedule_type lib))]"

definition LightsOutScheduleList_DeepCopyInto :: "library \<Rightarrow> copier" where
  "LightsOutScheduleList_DeepCopyInto lib = copyStruct
     [(''TypeMeta'', shallow), (''ListMeta'', lib_into lib ListMetaT),
      (''Items'', copySlice (LightsOutSchedule_DeepCopyInto lib))]"

interpretation LightsOutScheduleList_copier: deep_copier LightsOutScheduleList_DeepCopyInto LightsOutScheduleList_type
  by unfold_locales (simp add: LightsOutScheduleList_DeepCopyInto_def LightsOutScheduleList_type_def, rule copies_struct, simp add: fits_def,
      (intro conjI allI impI)?, (erule copy_rules | rule copy_rules)+)

definition LightsOutScheduleList_DeepCopy :: "library \<Rightarrow> copier" where
  "LightsOutScheduleList_DeepCopy lib = copyPointer (LightsOutScheduleList_DeepCopyInto lib)"

lemmas [copy_rules] = LightsOutScheduleList_copier.copies LightsOutScheduleList_copier.DeepCopy LightsOutScheduleList_copier.DeepCopy_slice

definition LightsOutScheduleList_DeepCopyObject :: "library \<Rightarrow> goval \<Rightarrow> memory \<Rightarrow> goval option \<times> memory" where
  "LightsOutScheduleList_DeepCopyObject lib = asObject (LightsOutScheduleList_DeepCopy lib)"

subsection \<open>LightsOutNamespaceScheduleSpec\<close>

definition LightsOutNamespaceScheduleSpec_type :: "library \<Rightarrow> gotree \<Rightarrow> bool" where
  "LightsOutNamespaceScheduleSpec_type lib = isStruct
     [(''LightsOutScheduleCore'', LightsOutScheduleCore_type lib)]"

definition LightsOutNamespaceScheduleSpec_DeepCopyInto :: "library \<Rightarrow> copier" where
  "LightsOutNamespaceScheduleSpec_DeepCopyInto lib = copyStruct
     [(''LightsOutScheduleCore'', LightsOutScheduleCore_DeepCopyInto lib)]"

interpretation LightsOutNamespaceScheduleSpec_copier: deep_copier LightsOutNamespaceScheduleSpec_DeepCopyInto LightsOutNamespaceScheduleSpec_type
  by unfold_locales (simp add: LightsOutNamespaceScheduleSpec_DeepCopyInto_def LightsOutNamespaceScheduleSpec_type_def, rule copies_struct, simp add: fits_def,
      (intro conjI allI impI)?, (erule copy_rules | rule copy_rules)+)

definition LightsOutNamespaceScheduleSpec_DeepCopy :: "library \<Rightarrow> copier" where
  "LightsOutNamespaceScheduleSpec_DeepCopy lib = copyPointer (LightsOutNamespaceScheduleSpec_DeepCopyInto lib)"

lemmas [copy_rules] = LightsOutNamespaceScheduleSpec_copier.copies LightsOutNamespaceScheduleSpec_copier.DeepCopy LightsOutNamespaceScheduleSpec_copier.DeepCopy_slice

subsection \<open>LightsOutNamespaceScheduleStatus\<close>

definition LightsOutNamespaceScheduleStatus_type :: "library \<Rightarrow> gotree \<Rightarrow> bool" where
  "LightsOutNamespaceScheduleStatus_type lib = isStruct
     [(''State'', isScalar), (''LastUpscaleTime'', isPointer (lib_type lib TimeT)),
      (''LastDownscaleTime'', isPointer (lib_type lib TimeT)), (''NextUpscaleTime'', isPointer (lib_type lib TimeT)),
      (''NextDownscaleTime'', isPointer (lib_type lib TimeT)), (''ObservedGeneration'', isScalar),
      (''WorkloadStats'', WorkloadStats_type lib), (''ScalingProgress'', isPointer (ScalingProgress_type lib)),
      (''WaveProgress'', isPointer (WaveProgress_type lib)), (''StuckTerminatingPods'', isScalar),
      (''Conditions'', isSlice (lib_type lib ConditionT))]"

definition LightsOutNamespaceScheduleStatus_DeepCopyInto :: "library \<Rightarrow> copier" where
  "LightsOutNamespaceScheduleStatus_DeepCopyInto lib = copyStruct
     [(''LastUpscaleTime'', lib_TimeDeepCopy lib), (''LastDownscaleTime'', lib_TimeDeepCopy lib),
      (''NextUpscaleTime'', lib_TimeDeepCopy lib), (''NextDownscaleTime'', lib_TimeDeepCopy lib),
      (''WorkloadStats'', shallow), (''ScalingProgress'', copyPointer shallow),
      (''WaveProgress'', copyPointer (WaveProgress_DeepCopyInto lib)),
      (''Conditions'', copySlice (lib_into lib ConditionT))]"

interpretation LightsOutNamespaceScheduleStatus_copier: deep_copier LightsOutNamespaceScheduleStatus_DeepCopyInto LightsOutNamespaceScheduleStatus_type
  by unfold_locales (simp add: LightsOutNamespaceScheduleStatus_DeepCopyInto_def LightsOutNamespaceScheduleStatus_type_def, rule copies_struct, simp add: fits_def,
      (intro conjI allI impI)?, (erule copy_rules | rule copy_rules)+)

definition LightsOutNamespaceScheduleStatus_DeepCopy :: "library \<Rightarrow> copier" where
  "LightsOutNamespaceScheduleStatus_DeepCopy lib = copyPointer (LightsOutNamespaceScheduleStatus_DeepCopyInto lib)"

lemmas [copy_rules] = LightsOutNamespaceScheduleStatus_copier.copies LightsOutNamespaceScheduleStatus_copier.DeepCopy LightsOutNamespaceScheduleStatus_copier.DeepCopy_slice

subsection \<open>LightsOutNamespaceSchedule\<close>

definition LightsOutNamespaceSchedule_type :: "library \<Rightarrow> gotree \<Rightarrow> bool" where
  "LightsOutNamespaceSchedule_type lib = isStruct
     [(''TypeMeta'', isTypeMeta), (''ObjectMeta'', lib_type lib ObjectMetaT),
      (''Spec'', LightsOutNamespaceScheduleSpec_type lib), (''Status'', LightsOutNamespaceScheduleStatus_type lib)]"

definition LightsOutNamespaceSchedule_DeepCopyInto :: "library \<Rightarrow> copier" where
  "LightsOutNamespaceSchedule_DeepCopyInto lib = copyStruct
     [(''TypeMeta'', shallow), (''ObjectMeta'', lib_into lib ObjectMetaT),
      (''Spec'', LightsOutNamespaceScheduleSpec_DeepCopyInto lib),
      (''Status'', LightsOutNamespaceScheduleStatus_DeepCopyInto lib)]"

interpretation LightsOutNamespaceSchedule_copier: deep_copier LightsOutNamespaceSchedule_DeepCopyInto LightsOutNamespaceSchedule_type
  by unfold_locales (simp add: LightsOutNamespaceSchedule_DeepCopyInto_def LightsOutNamespaceSchedule_type_def, rule copies_struct, simp add: fits_def,
      (intro conjI allI impI)?, (erule copy_rules | rule copy_rules)+)

definition LightsOutNamespaceSchedule_DeepCopy :: "library \<Rightarrow> copier" where
  "LightsOutNamespaceSchedule_DeepCopy lib = copyPointer (LightsOutNamespaceSchedule_DeepCopyInto lib)"

lemmas [copy_rules] = LightsOutNamespaceSchedule_copier.copies LightsOutNamespaceSchedule_copier.DeepCopy LightsOutNamespaceSchedule_copier.DeepCopy_slice

definition LightsOutNamespaceSchedule_DeepCopyObject :: "library \<Rightarrow> goval \<Rightarrow> memory \<Rightarrow> goval option \<times> memory" where
  "LightsOutNamespaceSchedule_DeepCopyObject lib = asObject (LightsOutNamespaceSchedule_DeepCopy lib)"

subsection \<open>LightsOutNamespaceScheduleList\<close>

definition LightsOutNamespaceScheduleList_type :: "library \<Rightarrow> gotree \<Rightarrow> bool" where
  "LightsOutNamespaceScheduleList_type lib = isStruct
     [(''TypeMeta'', isTypeMeta), (''ListMeta'', lib_type lib ListMetaT),
      (''Items'', isSlice (LightsOutNamespaceSchedule_type lib))]"

definition LightsOutNamespaceScheduleList_DeepCopyInto :: "library \<Rightarrow> copier" where
  "LightsOutNamespaceScheduleList_DeepCopyInto lib = copyStruct
     [(''TypeMeta'', shallow), (''ListMeta'', lib_into lib ListMetaT),
      (''Items'', copySlice (LightsOutNamespaceSchedule_DeepCopyInto lib))]"

interpretation LightsOutNamespaceScheduleList_copier: deep_copier LightsOutNamespaceScheduleList_DeepCopyInto LightsOutNamespaceScheduleList_type
  by unfold_locales (simp add: LightsOutNamespaceScheduleList_DeepCopyInto_def LightsOutNamespaceScheduleList_type_def, rule copies_struct, simp add: fits_def,
      (intro conjI allI impI)?, (erule copy_rules | rule copy_rules)+)

definition LightsOutNamespaceScheduleList_DeepCopy :: "library \<Rightarrow> copier" where
  "LightsOutNamespaceScheduleList_DeepCopy lib = copyPointer (LightsOutNamespaceScheduleList_DeepCopyInto lib)"

lemmas [copy_rules] = LightsOutNamespaceScheduleList_copier.copies LightsOutNamespaceScheduleList_copier.DeepCopy LightsOutNamespaceScheduleList_copier.DeepCopy_slice

definition LightsOutNamespaceScheduleList_DeepCopyObject :: "library \<Rightarrow> goval \<Rightarrow> memory \<Rightarrow> goval option \<times> memory" where
  "LightsOutNamespaceScheduleList_DeepCopyObject lib = asObject (LightsOutNamespaceScheduleList_DeepCopy lib)"

section \<open>What the copies share\<close>

text \<open>The objects the scheme knows, with the copies that the cache makes of them.\<close>

definition runtimeObjects :: "library \<Rightarrow> ((goval \<Rightarrow> memory \<Rightarrow> goval option \<times> memory) \<times> (gotree \<Rightarrow> bool)) list" where
  "runtimeObjects lib =
     [(LightsOutSchedule_DeepCopyObject lib, LightsOutSchedule_type lib),
      (LightsOutScheduleList_DeepCopyObject lib, LightsOutScheduleList_type lib),
      (LightsOutNamespaceSchedule_DeepCopyObject lib, LightsOutNamespaceSchedule_type lib),
      (LightsOutNamespaceScheduleList_DeepCopyObject lib, LightsOutNamespaceScheduleList_type lib)]"

text \<open>
  C13: The copy of a schedule, or of a list of them, shares no memory with the original. It reads like the
  original whatever is written to any address that was there before, and the original reads as before
  whatever is written to the new ones; making the copy has changed nothing. Nil is copied to the nil object.
\<close>

theorem deep_copies_share_nothing:
  assumes "libraryCopies lib" and "(copyObject, P) \<in> set (runtimeObjects lib)"
    and "wf_memory m" and "holds m v t" and "isPointer P t" and "copyObject v m = (c, m')"
  shows "wf_memory m' \<and> (\<forall>a < lim m. cells m' a = cells m a) \<and>
    (case c of
       None \<Rightarrow> t = VPtr None
     | Some v' \<Rightarrow> t \<noteq> VPtr None \<and>
         (\<forall>m2. (\<forall>a. lim m \<le> a \<longrightarrow> cells m2 a = cells m' a) \<longrightarrow> holds m2 v' t) \<and>
         (\<forall>m2. (\<forall>a < lim m. cells m2 a = cells m a) \<longrightarrow> holds m2 v t))"
proof -
  from assms(2) obtain copy where "copies copy (isPointer P)" "copyObject = asObject copy"
    using LightsOutSchedule_copier.DeepCopy [OF assms(1)] LightsOutScheduleList_copier.DeepCopy [OF assms(1)]
      LightsOutNamespaceSchedule_copier.DeepCopy [OF assms(1)] LightsOutNamespaceScheduleList_copier.DeepCopy [OF assms(1)]
    by (auto simp: runtimeObjects_def LightsOutSchedule_DeepCopyObject_def LightsOutScheduleList_DeepCopyObject_def
        LightsOutNamespaceSchedule_DeepCopyObject_def LightsOutNamespaceScheduleList_DeepCopyObject_def
        LightsOutSchedule_DeepCopy_def LightsOutScheduleList_DeepCopy_def LightsOutNamespaceSchedule_DeepCopy_def
        LightsOutNamespaceScheduleList_DeepCopy_def)
  from asObject_separate [OF this(1) assms(3-5) assms(6) [unfolded this(2)]] show ?thesis .
qed

text \<open>A library whose \<^verbatim>\<open>JSON\<close> is a slice of bytes and whose other types are values.\<close>

definition sampleLibrary :: library where
  "sampleLibrary = \<lparr>lib_type = (\<lambda>T. if T = JSONT then isStruct [(''Raw'', isSlice isScalar)] else isScalar),
     lib_into = (\<lambda>T. if T = JSONT then copyStruct [(''Raw'', copySlice shallow)] else shallow),
     lib_TimeDeepCopy = copyPointer shallow\<rparr>"

lemma sampleLibrary_copies: "libraryCopies sampleLibrary"
proof -
  have "copies (copyStruct [(''Raw'', copySlice shallow)]) (isStruct [(''Raw'', isSlice isScalar)])"
    by (rule copies_struct) (simp add: fits_def copies_flat)
  then show ?thesis by (simp add: libraryCopies_def sampleLibrary_def copies_flat)
qed

text \<open>A list of one namespace schedule with a batch size, in five cells, and what it holds.\<close>

definition blank :: "goval" where "blank = GScalar (JStr [])"
definition blankTree :: "gotree" where "blankTree = VScalar (JStr [])"

definition sampleItem :: "goval" where
  "sampleItem = GStruct [(''TypeMeta'', GStruct [(''Kind'', blank), (''APIVersion'', blank)]), (''ObjectMeta'', blank),
     (''Spec'', GStruct [(''LightsOutScheduleCore'', GStruct
        [(''Upscale'', blank), (''Downscale'', blank), (''Timezone'', blank), (''Suspend'', blank), (''WorkloadTypes'', GSlice None),
         (''ExcludeLabels'', GPtr None), (''IncludeOwnedWorkloads'', blank), (''UpscaleRateLimit'', GPtr None),
         (''DownscaleRateLimit'', GPtr (Some 2)), (''ArgoCD'', GPtr None), (''FluxCD'', GPtr None), (''CustomResources'', GSlice None),
         (''CustomResourceWarmupTimeout'', GPtr None)])]),
     (''Status'', GStruct
        [(''State'', blank), (''LastUpscaleTime'', GPtr None), (''LastDownscaleTime'', GPtr None), (''NextUpscaleTime'', GPtr None),
         (''NextDownscaleTime'', GPtr None), (''ObservedGeneration'', blank),
         (''WorkloadStats'', GStruct [(''DeploymentsManaged'', blank), (''DeploymentsScaled'', blank), (''StatefulSetsManaged'', blank),
            (''StatefulSetsScaled'', blank), (''CronJobsManaged'', blank), (''CronJobsSuspended'', blank)]),
         (''ScalingProgress'', GPtr None), (''WaveProgress'', GPtr None), (''StuckTerminatingPods'', blank), (''Conditions'', GSlice None)])]"

definition sampleTree :: "gotree" where
  "sampleTree = VStruct [(''TypeMeta'', VStruct [(''Kind'', blankTree), (''APIVersion'', blankTree)]), (''ObjectMeta'', blankTree),
     (''Spec'', VStruct [(''LightsOutScheduleCore'', VStruct
        [(''Upscale'', blankTree), (''Downscale'', blankTree), (''Timezone'', blankTree), (''Suspend'', blankTree), (''WorkloadTypes'', VSlice None),
         (''ExcludeLabels'', VPtr None), (''IncludeOwnedWorkloads'', blankTree), (''UpscaleRateLimit'', VPtr None),
         (''DownscaleRateLimit'', VPtr (Some (VStruct [(''BatchSize'', VPtr (Some (VScalar (JGoInt 5)))), (''DelayBetweenBatches'', VPtr None)]))),
         (''ArgoCD'', VPtr None), (''FluxCD'', VPtr None), (''CustomResources'', VSlice None),
         (''CustomResourceWarmupTimeout'', VPtr None)])]),
     (''Status'', VStruct
        [(''State'', blankTree), (''LastUpscaleTime'', VPtr None), (''LastDownscaleTime'', VPtr None), (''NextUpscaleTime'', VPtr None),
         (''NextDownscaleTime'', VPtr None), (''ObservedGeneration'', blankTree),
         (''WorkloadStats'', VStruct [(''DeploymentsManaged'', blankTree), (''DeploymentsScaled'', blankTree), (''StatefulSetsManaged'', blankTree),
            (''StatefulSetsScaled'', blankTree), (''CronJobsManaged'', blankTree), (''CronJobsSuspended'', blankTree)]),
         (''ScalingProgress'', VPtr None), (''WaveProgress'', VPtr None), (''StuckTerminatingPods'', blankTree), (''Conditions'', VSlice None)])]"

definition sampleMemory :: memory where
  "sampleMemory = \<lparr>cells = [0 \<mapsto> CellVal (GStruct [(''TypeMeta'', GStruct [(''Kind'', blank), (''APIVersion'', blank)]), (''ListMeta'', blank),
       (''Items'', GSlice (Some (1, 1)))]), 1 \<mapsto> CellArray [sampleItem],
     2 \<mapsto> CellVal (GStruct [(''BatchSize'', GPtr (Some 3)), (''DelayBetweenBatches'', GPtr None)]), 3 \<mapsto> CellVal (GScalar (JGoInt 5))],
     lim = 4\<rparr>"

definition sampleListTree :: gotree where
  "sampleListTree = VPtr (Some (VStruct [(''TypeMeta'', VStruct [(''Kind'', blankTree), (''APIVersion'', blankTree)]), (''ListMeta'', blankTree),
     (''Items'', VSlice (Some [sampleTree]))]))"

lemma sample_holds: "holds sampleMemory (GPtr (Some 0)) sampleListTree"
  by (simp add: sampleMemory_def sampleListTree_def sampleItem_def sampleTree_def blank_def blankTree_def holds_simps)

lemma sample_typed: "isPointer (LightsOutNamespaceScheduleList_type sampleLibrary) sampleListTree"
  by (simp add: sampleListTree_def sampleTree_def blankTree_def LightsOutNamespaceScheduleList_type_def LightsOutNamespaceSchedule_type_def
      LightsOutNamespaceScheduleSpec_type_def LightsOutScheduleCore_type_def RateLimitConfig_type_def
      LightsOutNamespaceScheduleStatus_type_def WorkloadStats_type_def isTypeMeta_def sampleLibrary_def)

theorem deep_copies_share_nothing_witness:
  "\<exists>v' m'. LightsOutNamespaceScheduleList_DeepCopyObject sampleLibrary (GPtr (Some 0)) sampleMemory = (Some v', m') \<and>
     holds (store 3 (CellVal (GScalar (JGoInt 9))) m') v' sampleListTree \<and>
     \<not> holds (store 3 (CellVal (GScalar (JGoInt 9))) m') (GPtr (Some 0)) sampleListTree"
proof -
  obtain c m' where run: "LightsOutNamespaceScheduleList_DeepCopyObject sampleLibrary (GPtr (Some 0)) sampleMemory = (c, m')" by fastforce
  have wf: "wf_memory sampleMemory" by (auto simp: wf_memory_def sampleMemory_def)
  have mem: "(LightsOutNamespaceScheduleList_DeepCopyObject sampleLibrary, LightsOutNamespaceScheduleList_type sampleLibrary)
      \<in> set (runtimeObjects sampleLibrary)" by (simp add: runtimeObjects_def)
  note t = deep_copies_share_nothing [OF sampleLibrary_copies mem wf sample_holds sample_typed run]
  have l: "lim sampleMemory = 4" by (simp add: sampleMemory_def)
  from t have old: "cells m' a = cells sampleMemory a" if "a < 4" for a using that l by simp
  from t obtain v' where c: "c = Some v'"
    and sep: "\<And>m2. (\<forall>a. 4 \<le> a \<longrightarrow> cells m2 a = cells m' a) \<Longrightarrow> holds m2 v' sampleListTree"
    by (auto simp: l sampleListTree_def split: option.splits)
  have "\<not> holds (store 3 (CellVal (GScalar (JGoInt 9))) m') (GPtr (Some 0)) sampleListTree"
    using old [of 0] old [of 1] old [of 2]
    by (simp add: sampleListTree_def holds_simps store_def sampleMemory_def sampleItem_def sampleTree_def)
  with run c sep [of "store 3 (CellVal (GScalar (JGoInt 9))) m'"] show ?thesis by (simp add: store_def)
qed

end
