(* ===== verification/Validator.thy ===== *)
theory Validator
  imports Period Namespaces
begin

text \<open>
  The admission webhooks, \<^verbatim>\<open>internal/webhook\<close>: defaulting and validating the two kinds of
  schedule, and the warnings about schedules that may work on the same namespaces. The cron
  parser and the time zone database are those of the period calculator; the DNS label check
  and the aggregation of errors belong to the Kubernetes library and are parameters. A nil
  error is the empty list.
\<close>

datatype field_error_type = ErrInvalid | ErrRequired | ErrForbidden

datatype bad_value = NoValue | BadString string | BadInt int

record field_error =
  fe_Type :: field_error_type
  fe_Field :: string
  fe_BadValue :: bad_value
  fe_Detail :: string

definition Invalid :: "string \<Rightarrow> bad_value \<Rightarrow> string \<Rightarrow> field_error" where
  "Invalid path v detail = \<lparr>fe_Type = ErrInvalid, fe_Field = path, fe_BadValue = v, fe_Detail = detail\<rparr>"
definition Required :: "string \<Rightarrow> string \<Rightarrow> field_error" where
  "Required path detail = \<lparr>fe_Type = ErrRequired, fe_Field = path, fe_BadValue = NoValue, fe_Detail = detail\<rparr>"
definition Forbidden :: "string \<Rightarrow> string \<Rightarrow> field_error" where
  "Forbidden path detail = \<lparr>fe_Type = ErrForbidden, fe_Field = path, fe_BadValue = NoValue, fe_Detail = detail\<rparr>"

record k8s_validation =
  kv_dnsLabelErrors :: "string \<Rightarrow> string list"
  kv_toAggregate :: "field_error list \<Rightarrow> field_error list"

text \<open>A schedule as the webhooks and the controllers see it: its metadata and its spec.\<close>

record LightsOutSchedule = kmeta +
  sched_Spec :: LightsOutScheduleSpec

record LightsOutNamespaceSchedule = kmeta +
  nsched_Core :: LightsOutScheduleCore

section \<open>Defaulting\<close>

definition defaultTimezone :: "LightsOutScheduleCore \<Rightarrow> LightsOutScheduleCore" where
  "defaultTimezone core = (if Timezone core = [] then core\<lparr>Timezone := DefaultTimezone\<rparr> else core)"

definition DefaultSchedule :: "LightsOutSchedule \<Rightarrow> LightsOutSchedule" where
  "DefaultSchedule schedule =
     schedule\<lparr>sched_Spec := (sched_Spec schedule)\<lparr>Core := defaultTimezone (Core (sched_Spec schedule))\<rparr>\<rparr>"

definition DefaultNamespaceSchedule :: "LightsOutNamespaceSchedule \<Rightarrow> LightsOutNamespaceSchedule" where
  "DefaultNamespaceSchedule schedule = schedule\<lparr>nsched_Core := defaultTimezone (nsched_Core schedule)\<rparr>"

section \<open>Validating\<close>

definition validateCronExpression :: "('l, 'c) cron_env \<Rightarrow> string \<Rightarrow> string option" where
  "validateCronExpression env expr = (case ce_parse env expr of Inl e \<Rightarrow> Some e | Inr _ \<Rightarrow> None)"

definition ptrErrorText :: "ptr_error \<Rightarrow> string" where
  "ptrErrorText e =
     (case e of
        EmptyPointer \<Rightarrow> ''empty JSON Pointer''
      | NoLeadingSlash p \<Rightarrow> ''JSON Pointer '' @ goQuote p @ '' must start with '' @ goQuote ''/''
      | EmptySegment p \<Rightarrow> ''JSON Pointer '' @ goQuote p @ '' has an empty segment''
      | _ \<Rightarrow> [])"

definition validatePointerAndValue :: "string \<Rightarrow> string \<Rightarrow> string \<Rightarrow> field_error list" where
  "validatePointerAndValue path pointer raw =
     (case Parse pointer of
        Inl e \<Rightarrow> [Invalid (path @ ''.path'') (BadString pointer) (ptrErrorText e)]
      | Inr _ \<Rightarrow> []) @
     (if raw = [] then [Required (path @ ''.value'') ''must be set''] else [])"

definition indexPath :: "string \<Rightarrow> nat \<Rightarrow> string" where
  "indexPath path i = path @ ''['' @ natText i @ '']''"

definition validateCustomResource :: "nat \<Rightarrow> CustomResourceConfig \<Rightarrow> field_error list" where
  "validateCustomResource i cfg =
     (let path = indexPath ''spec.customResources'' i in
      (if cr_Delete cfg then
         (if cr_SetFields cfg \<noteq> [] then
            [Forbidden (path @ ''.setFields'') ''cannot be combined with delete: the resource is removed rather than patched'']
          else []) @
         (if cr_ReadyWhen cfg \<noteq> [] then
            [Forbidden (path @ ''.readyWhen'') ''cannot be combined with delete: a deleted resource is not waited on'']
          else [])
       else if cr_SetFields cfg = [] then
         [Required (path @ ''.setFields'') ''an entry must either set fields or set delete, otherwise it does nothing'']
       else []) @
      concat (map (\<lambda>(j, f). validatePointerAndValue (indexPath (path @ ''.setFields'') j) (fp_Path f) (fp_Value f))
                (enumerate 0 (cr_SetFields cfg))) @
      concat (map (\<lambda>(j, f). validatePointerAndValue (indexPath (path @ ''.readyWhen'') j) (fm_Path f) (fm_Value f))
                (enumerate 0 (cr_ReadyWhen cfg))))"

definition ValidateCustomResources :: "CustomResourceConfig list \<Rightarrow> field_error list" where
  "ValidateCustomResources crs = concat (map (\<lambda>(i, cfg). validateCustomResource i cfg) (enumerate 0 crs))"

definition ValidateRateLimit :: "RateLimitConfig option \<Rightarrow> string \<Rightarrow> field_error list" where
  "ValidateRateLimit rateLimit fieldPath =
     (case rateLimit of
        None \<Rightarrow> []
      | Some rl \<Rightarrow>
          (case BatchSize rl of
             None \<Rightarrow> []
           | Some n \<Rightarrow> if n \<le> 0 then [Invalid (''spec.'' @ fieldPath @ ''.batchSize'') (BadInt n) ''must be greater than 0''] else []) @
          (case DelayBetweenBatches rl of
             None \<Rightarrow> []
           | Some d \<Rightarrow> if d < 0 then [Invalid (''spec.'' @ fieldPath @ ''.delayBetweenBatches'') (BadInt d) ''must be non-negative''] else []))"

definition validateIntegration :: "k8s_validation \<Rightarrow> string \<Rightarrow> string \<Rightarrow> duration option \<Rightarrow> field_error list" where
  "validateIntegration kv fieldName namespace warmupTimeout =
     (if namespace \<noteq> [] \<and> kv_dnsLabelErrors kv namespace \<noteq> [] then
        [Invalid (''spec.'' @ fieldName @ ''.namespace'') (BadString namespace)
           (''invalid namespace name: '' @ joinWith '', '' (kv_dnsLabelErrors kv namespace))]
      else []) @
     (case warmupTimeout of
        None \<Rightarrow> []
      | Some d \<Rightarrow> if d \<le> 0 then [Invalid (''spec.'' @ fieldName @ ''.warmupTimeout'') (BadInt d) ''must be positive''] else [])"

definition cronErrors :: "('l, 'c) cron_env \<Rightarrow> string \<Rightarrow> string \<Rightarrow> field_error list" where
  "cronErrors env fieldName expr =
     (case validateCronExpression env expr of
        None \<Rightarrow> []
      | Some e \<Rightarrow> [Invalid (''spec.'' @ fieldName) (BadString expr) (''invalid cron expression: '' @ e)])"

definition coreErrors :: "('l, 'c) cron_env \<Rightarrow> k8s_validation \<Rightarrow> LightsOutScheduleCore \<Rightarrow> field_error list" where
  "coreErrors env kv core =
     cronErrors env ''upscale'' (Upscale core) @
     cronErrors env ''downscale'' (Downscale core) @
     (if Timezone core \<noteq> [] then
        (case ce_loadLocation env (Timezone core) of
           Inl e \<Rightarrow> [Invalid ''spec.timezone'' (BadString (Timezone core)) ''invalid IANA timezone'']
         | Inr _ \<Rightarrow> [])
      else []) @
     ValidateRateLimit (UpscaleRateLimit core) ''upscaleRateLimit'' @
     ValidateRateLimit (DownscaleRateLimit core) ''downscaleRateLimit'' @
     (case ArgoCD core of
        None \<Rightarrow> [] | Some a \<Rightarrow> validateIntegration kv ''argoCD'' (argo_Namespace a) (argo_WarmupTimeout a)) @
     (case FluxCD core of
        None \<Rightarrow> [] | Some f \<Rightarrow> validateIntegration kv ''fluxCD'' (flux_Namespace f) (flux_WarmupTimeout f)) @
     ValidateCustomResources (CustomResources core) @
     (case CustomResourceWarmupTimeout core of
        None \<Rightarrow> []
      | Some d \<Rightarrow> if d \<le> 0 then [Invalid ''spec.customResourceWarmupTimeout'' (BadInt d) ''must be positive''] else [])"

definition ValidateScheduleCore :: "('l, 'c) cron_env \<Rightarrow> k8s_validation \<Rightarrow> LightsOutScheduleCore \<Rightarrow> field_error list" where
  "ValidateScheduleCore env kv core =
     (let allErrs = coreErrors env kv core in if allErrs = [] then [] else kv_toAggregate kv allErrs)"

definition ValidateScheduleSpec :: "('l, 'c) cron_env \<Rightarrow> k8s_validation \<Rightarrow> LightsOutSchedule \<Rightarrow> field_error list" where
  "ValidateScheduleSpec env kv schedule =
     (let spec = sched_Spec schedule;
          allErrs = ValidateScheduleCore env kv (Core spec) @
            (if NamespaceSelector spec = None \<and> Namespaces spec = [] then
               [Required ''spec'' ''at least one of namespaceSelector or namespaces must be specified'']
             else [])
      in if allErrs = [] then [] else kv_toAggregate kv allErrs)"

section \<open>Overlapping schedules\<close>

text \<open>Go compares the maps by looking up each key of the first in the second.\<close>

definition requirementsEqual :: "LabelSelectorRequirement \<Rightarrow> LabelSelectorRequirement \<Rightarrow> bool" where
  "requirementsEqual a b \<longleftrightarrow>
     req_Key a = req_Key b \<and> req_Operator a = req_Operator b \<and>
     length (req_Values a) = length (req_Values b) \<and>
     (\<forall>v \<in> set (req_Values b). v \<in> set (req_Values a))"

definition LabelSelectorsEqual :: "LabelSelector option \<Rightarrow> LabelSelector option \<Rightarrow> bool" where
  "LabelSelectorsEqual x y \<longleftrightarrow>
     (case (x, y) of
        (None, None) \<Rightarrow> True
      | (Some a, Some b) \<Rightarrow>
          length (MatchLabels a) = length (MatchLabels b) \<and>
          (\<forall>(k, v) \<in> set (MatchLabels a). mget (map_of (MatchLabels b)) k = v) \<and>
          length (MatchExpressions a) = length (MatchExpressions b) \<and>
          list_all2 requirementsEqual (MatchExpressions a) (MatchExpressions b)
      | _ \<Rightarrow> False)"

definition IsEmptyLabelSelector :: "LabelSelector option \<Rightarrow> bool" where
  "IsEmptyLabelSelector x \<longleftrightarrow>
     (case x of None \<Rightarrow> True | Some a \<Rightarrow> MatchLabels a = [] \<and> MatchExpressions a = [])"

definition SchedulesOverlap :: "LightsOutSchedule \<Rightarrow> LightsOutSchedule \<Rightarrow> bool" where
  "SchedulesOverlap a b \<longleftrightarrow>
     (let sa = sched_Spec a; sb = sched_Spec b in
      if \<exists>ns \<in> set (Namespaces sb). ns \<in> set (Namespaces sa) then True
      else if NamespaceSelector sa \<noteq> None \<and> NamespaceSelector sb \<noteq> None then
        (if LabelSelectorsEqual (NamespaceSelector sa) (NamespaceSelector sb) then True
         else if IsEmptyLabelSelector (NamespaceSelector sa) \<or> IsEmptyLabelSelector (NamespaceSelector sb) then True
         else True)
      else if NamespaceSelector sa \<noteq> None \<and> IsEmptyLabelSelector (NamespaceSelector sa) \<and> Namespaces sb \<noteq> [] then True
      else if NamespaceSelector sb \<noteq> None \<and> IsEmptyLabelSelector (NamespaceSelector sb) \<and> Namespaces sa \<noteq> [] then True
      else False)"

definition overlapWarning :: "string \<Rightarrow> string \<Rightarrow> string" where
  "overlapWarning name existing =
     ''schedule '' @ goQuote name @ '' may conflict with existing schedule '' @ goQuote existing @
     '' - both target overlapping namespaces; the managed-by annotation will prevent runtime conflicts, but workloads may be managed by either schedule''"

definition checkOverlappingSchedules :: "string + LightsOutSchedule list \<Rightarrow> LightsOutSchedule \<Rightarrow> string \<Rightarrow> string list" where
  "checkOverlappingSchedules listed schedule excludeName =
     (case listed of
        Inl e \<Rightarrow> [''overlap check could not be completed: failed to list existing schedules; verify manually that no other LightsOutSchedule targets the same namespaces'']
      | Inr items \<Rightarrow>
          map (\<lambda>existing. overlapWarning (obj_name schedule) (obj_name existing))
            (filter (\<lambda>existing. obj_name existing \<noteq> excludeName \<and> SchedulesOverlap schedule existing) items))"

definition checkGlobalScheduleOverlap :: "string + LightsOutSchedule list \<Rightarrow> LightsOutNamespaceSchedule \<Rightarrow> string list" where
  "checkGlobalScheduleOverlap listed schedule =
     (case listed of
        Inl e \<Rightarrow> [''overlap check could not be completed: failed to list LightsOutSchedule resources; verify manually that no global schedule targets this namespace'']
      | Inr items \<Rightarrow>
          concat (map (\<lambda>global.
            (if obj_namespace schedule \<in> set (Namespaces (sched_Spec global)) then
               [''LightsOutSchedule '' @ goQuote (obj_name global) @ '' targets namespace '' @ goQuote (obj_namespace schedule) @
                ''; the namespace schedule will take precedence, but you should verify the interaction is intended'']
             else []) @
            (if NamespaceSelector (sched_Spec global) \<noteq> None then
               [''LightsOutSchedule '' @ goQuote (obj_name global) @ '' uses a namespaceSelector that may include namespace '' @
                goQuote (obj_namespace schedule) @ ''; the namespace schedule will take precedence at runtime'']
             else [])) items))"

text \<open>The handlers: warnings and errors.\<close>

definition ValidateCreate ::
  "('l, 'c) cron_env \<Rightarrow> k8s_validation \<Rightarrow> string + LightsOutSchedule list \<Rightarrow> LightsOutSchedule \<Rightarrow>
     string list \<times> field_error list" where
  "ValidateCreate env kv listed schedule =
     (let err = ValidateScheduleSpec env kv schedule in
      if err \<noteq> [] then ([], err) else (checkOverlappingSchedules listed schedule [], []))"

definition ValidateUpdate ::
  "('l, 'c) cron_env \<Rightarrow> k8s_validation \<Rightarrow> string + LightsOutSchedule list \<Rightarrow> LightsOutSchedule \<Rightarrow> LightsOutSchedule \<Rightarrow>
     string list \<times> field_error list" where
  "ValidateUpdate env kv listed oldSchedule schedule =
     (let err = ValidateScheduleSpec env kv schedule in
      if err \<noteq> [] then ([], err) else (checkOverlappingSchedules listed schedule (obj_name schedule), []))"

definition ValidateDelete :: "LightsOutSchedule \<Rightarrow> string list \<times> field_error list" where
  "ValidateDelete schedule = ([], [])"

definition ValidateNamespaceCreate ::
  "('l, 'c) cron_env \<Rightarrow> k8s_validation \<Rightarrow> string + LightsOutSchedule list \<Rightarrow> LightsOutNamespaceSchedule \<Rightarrow>
     string list \<times> field_error list" where
  "ValidateNamespaceCreate env kv listed schedule =
     (let err = ValidateScheduleCore env kv (nsched_Core schedule) in
      if err \<noteq> [] then ([], err) else (checkGlobalScheduleOverlap listed schedule, []))"

definition ValidateNamespaceUpdate ::
  "('l, 'c) cron_env \<Rightarrow> k8s_validation \<Rightarrow> string + LightsOutSchedule list \<Rightarrow> LightsOutNamespaceSchedule \<Rightarrow>
     LightsOutNamespaceSchedule \<Rightarrow> string list \<times> field_error list" where
  "ValidateNamespaceUpdate env kv listed oldSchedule schedule =
     (let err = ValidateScheduleCore env kv (nsched_Core schedule) in
      if err \<noteq> [] then ([], err) else (checkGlobalScheduleOverlap listed schedule, []))"

definition ValidateNamespaceDelete :: "LightsOutNamespaceSchedule \<Rightarrow> string list \<times> field_error list" where
  "ValidateNamespaceDelete schedule = ([], [])"

section \<open>What an accepted schedule is\<close>

lemma Parse_ok_iff: "(case Parse p of Inl e \<Rightarrow> [f e] | Inr _ \<Rightarrow> []) = [] \<longleftrightarrow> (\<exists>ts. Parse p = Inr ts)"
  by (auto split: sum.splits)

definition pointerOk :: "string \<Rightarrow> string \<Rightarrow> bool" where
  "pointerOk path raw \<longleftrightarrow> (\<exists>ts. Parse path = Inr ts) \<and> raw \<noteq> []"

definition customResourceOk :: "CustomResourceConfig \<Rightarrow> bool" where
  "customResourceOk cfg \<longleftrightarrow>
     (if cr_Delete cfg then cr_SetFields cfg = [] \<and> cr_ReadyWhen cfg = [] else cr_SetFields cfg \<noteq> []) \<and>
     (\<forall>f \<in> set (cr_SetFields cfg). pointerOk (fp_Path f) (fp_Value f)) \<and>
     (\<forall>f \<in> set (cr_ReadyWhen cfg). pointerOk (fm_Path f) (fm_Value f))"

definition rateLimitOk :: "RateLimitConfig option \<Rightarrow> bool" where
  "rateLimitOk rl \<longleftrightarrow>
     (\<forall>r. rl = Some r \<longrightarrow> pred_option (\<lambda>n. 0 < n) (BatchSize r) \<and> pred_option (\<lambda>d. 0 \<le> d) (DelayBetweenBatches r))"

definition integrationOk :: "k8s_validation \<Rightarrow> string \<Rightarrow> duration option \<Rightarrow> bool" where
  "integrationOk kv ns timeout \<longleftrightarrow>
     (ns = [] \<or> kv_dnsLabelErrors kv ns = []) \<and> pred_option (\<lambda>d. 0 < d) timeout"

lemma enumerate_concat_Nil:
  "concat (map (\<lambda>(j, x). f j x) (enumerate n xs)) = [] \<longleftrightarrow> (\<forall>j < length xs. f (n + j) (xs ! j) = [])"
proof (induction xs arbitrary: n)
  case (Cons x xs)
  have "(\<forall>j < length (x # xs). f (n + j) ((x # xs) ! j) = []) \<longleftrightarrow>
      f n x = [] \<and> (\<forall>j < length xs. f (Suc n + j) (xs ! j) = [])"
    by (auto simp: less_Suc_eq_0_disj nth_Cons')
  with Cons.IH [of "Suc n"] show ?case by simp
qed simp

lemma all_nth_iff: "(\<forall>j < length xs. P (xs ! j)) \<longleftrightarrow> (\<forall>x \<in> set xs. P x)"
  by (metis in_set_conv_nth)

lemma validatePointerAndValue_iff: "validatePointerAndValue path p raw = [] \<longleftrightarrow> pointerOk p raw"
  by (auto simp: validatePointerAndValue_def pointerOk_def split: sum.splits)

lemma validateCustomResource_iff: "validateCustomResource i cfg = [] \<longleftrightarrow> customResourceOk cfg"
proof -
  let ?path = "indexPath ''spec.customResources'' i"
  have a: "concat (map (\<lambda>(j, f). validatePointerAndValue (indexPath (?path @ ''.setFields'') j) (fp_Path f) (fp_Value f))
        (enumerate 0 (cr_SetFields cfg))) = [] \<longleftrightarrow> (\<forall>f \<in> set (cr_SetFields cfg). pointerOk (fp_Path f) (fp_Value f))"
    unfolding enumerate_concat_Nil validatePointerAndValue_iff
    using all_nth_iff [where P = "\<lambda>f. pointerOk (fp_Path f) (fp_Value f)"] .
  have b: "concat (map (\<lambda>(j, f). validatePointerAndValue (indexPath (?path @ ''.readyWhen'') j) (fm_Path f) (fm_Value f))
        (enumerate 0 (cr_ReadyWhen cfg))) = [] \<longleftrightarrow> (\<forall>f \<in> set (cr_ReadyWhen cfg). pointerOk (fm_Path f) (fm_Value f))"
    unfolding enumerate_concat_Nil validatePointerAndValue_iff
    using all_nth_iff [where P = "\<lambda>f. pointerOk (fm_Path f) (fm_Value f)"] .
  show ?thesis
    unfolding validateCustomResource_def customResourceOk_def Let_def append_is_Nil_conv a b by simp
qed

lemma ValidateCustomResources_iff: "ValidateCustomResources crs = [] \<longleftrightarrow> (\<forall>cfg \<in> set crs. customResourceOk cfg)"
  unfolding ValidateCustomResources_def enumerate_concat_Nil validateCustomResource_iff
  by (rule all_nth_iff)

lemma ValidateRateLimit_iff: "ValidateRateLimit rl f = [] \<longleftrightarrow> rateLimitOk rl"
  by (auto simp: ValidateRateLimit_def rateLimitOk_def split: option.splits)

lemma validateIntegration_iff: "validateIntegration kv f ns d = [] \<longleftrightarrow> integrationOk kv ns d"
  by (auto simp: validateIntegration_def integrationOk_def split: option.splits)

definition coreOk :: "('l, 'c) cron_env \<Rightarrow> k8s_validation \<Rightarrow> LightsOutScheduleCore \<Rightarrow> bool" where
  "coreOk env kv core \<longleftrightarrow>
     (\<exists>c. ce_parse env (Upscale core) = Inr c) \<and> (\<exists>c. ce_parse env (Downscale core) = Inr c) \<and>
     (Timezone core = [] \<or> (\<exists>l. ce_loadLocation env (Timezone core) = Inr l)) \<and>
     rateLimitOk (UpscaleRateLimit core) \<and> rateLimitOk (DownscaleRateLimit core) \<and>
     (\<forall>a. ArgoCD core = Some a \<longrightarrow> integrationOk kv (argo_Namespace a) (argo_WarmupTimeout a)) \<and>
     (\<forall>f. FluxCD core = Some f \<longrightarrow> integrationOk kv (flux_Namespace f) (flux_WarmupTimeout f)) \<and>
     (\<forall>cfg \<in> set (CustomResources core). customResourceOk cfg) \<and>
     pred_option (\<lambda>d. 0 < d) (CustomResourceWarmupTimeout core)"

lemma coreErrors_iff: "coreErrors env kv core = [] \<longleftrightarrow> coreOk env kv core"
  unfolding coreErrors_def coreOk_def cronErrors_def validateCronExpression_def append_is_Nil_conv
    ValidateRateLimit_iff ValidateCustomResources_iff
  by (auto simp: validateIntegration_iff split: sum.splits option.splits)

text \<open>The aggregation of errors is nil for no errors only.\<close>

lemma ValidateScheduleCore_iff:
  assumes "\<forall>es. es \<noteq> [] \<longrightarrow> kv_toAggregate kv es \<noteq> []"
  shows "ValidateScheduleCore env kv core = [] \<longleftrightarrow> coreOk env kv core"
  using assms coreErrors_iff [of env kv core] by (auto simp: ValidateScheduleCore_def Let_def)

section \<open>Properties\<close>

text \<open>
  C30: The webhook accepts a schedule core exactly if both cron expressions parse, the time
  zone loads, batch sizes and timeouts are positive and delays not negative, the namespaces
  of the integrations are DNS labels, and every custom resource entry either deletes or sets
  fields, with pointers that parse and values that are there.
\<close>

theorem ValidateScheduleCore_exact:
  assumes "\<forall>es. es \<noteq> [] \<longrightarrow> kv_toAggregate kv es \<noteq> []"
  shows "ValidateScheduleCore env kv core = [] \<longleftrightarrow> coreOk env kv core"
  using assms by (rule ValidateScheduleCore_iff)

definition sampleValidation :: k8s_validation where
  "sampleValidation = \<lparr>kv_dnsLabelErrors = (\<lambda>s. []), kv_toAggregate = (\<lambda>es. es)\<rparr>"

definition dailyCore :: LightsOutScheduleCore where
  "dailyCore = emptyCore\<lparr>Upscale := ''0 6 * * *'', Downscale := ''0 18 * * *'', Timezone := ''UTC''\<rparr>"

lemma dailyCore_ok: "coreOk sampleCron sampleValidation dailyCore"
  by (simp add: coreOk_def dailyCore_def emptyCore_def sampleCron_def sampleParse_def rateLimitOk_def)

lemma sampleValidation_law: "\<forall>es. es \<noteq> [] \<longrightarrow> kv_toAggregate sampleValidation es \<noteq> []"
  by (simp add: sampleValidation_def)

theorem ValidateScheduleCore_exact_witness:
  "ValidateScheduleCore sampleCron sampleValidation dailyCore = []"
  using ValidateScheduleCore_exact [OF sampleValidation_law] dailyCore_ok by blast

text \<open>
  C39: For a schedule that the webhook has accepted the period can be calculated at every instant and
  from every cache, and every pointer that its custom resource entries write or compare parses. The namespace
  selector is not among what has been checked: the same schedule with any selector is accepted too,
  and with one that the library cannot convert the discovery of its namespaces fails.
\<close>

theorem accepted_schedule_runs:
  assumes "\<forall>es. es \<noteq> [] \<longrightarrow> kv_toAggregate kv es \<noteq> []"
    and "ce_loadLocation env DefaultTimezone = Inr utc"
    and "ValidateScheduleSpec env kv schedule = []"
    and "core = Core (sched_Spec schedule)"
  shows "(\<exists>r cache'. CalculatePeriod env cache (Upscale core) (Downscale core)
            (Timezone (defaultTimezone core)) now = (Inr r, cache')) \<and>
    (\<forall>cfg \<in> set (CustomResources core).
       (\<forall>f \<in> set (cr_SetFields cfg). \<exists>ts. Parse (fp_Path f) = Inr ts) \<and>
       (\<forall>f \<in> set (cr_ReadyWhen cfg). \<exists>ts. Parse (fm_Path f) = Inr ts)) \<and>
    (let any = (sched_Spec schedule)\<lparr>NamespaceSelector := Some ls\<rparr> in
     ValidateScheduleSpec env kv (schedule\<lparr>sched_Spec := any\<rparr>) = [] \<and>
     (sel_of sels ls = Inl e \<longrightarrow> DiscoverNamespaces sels listNamespaces any s = Inl e))"
proof -
  have "ValidateScheduleCore env kv core = []"
    using assms(1,3,4) by (auto simp: ValidateScheduleSpec_def Let_def split: if_splits)
  then have any: "ValidateScheduleSpec env kv (schedule\<lparr>sched_Spec := (sched_Spec schedule)\<lparr>NamespaceSelector := Some ls\<rparr>\<rparr>) = []"
    using assms(4) by (simp add: ValidateScheduleSpec_def Let_def)
  have "ValidateScheduleCore env kv core = []"
    using assms(1,3,4) by (auto simp: ValidateScheduleSpec_def Let_def split: if_splits)
  then have ok: "coreOk env kv core" using ValidateScheduleCore_iff [OF assms(1)] by blast
  then obtain us ds where us: "ce_parse env (Upscale core) = Inr us" and ds: "ce_parse env (Downscale core) = Inr ds"
    by (auto simp: coreOk_def)
  obtain loc where "ce_loadLocation env (Timezone (defaultTimezone core)) = Inr loc"
    using ok assms(2) by (cases "Timezone core = []") (auto simp: coreOk_def defaultTimezone_def)
  with us ds have "\<exists>r cache'. CalculatePeriod env cache (Upscale core) (Downscale core)
            (Timezone (defaultTimezone core)) now = (Inr r, cache')"
    by (auto simp: CalculatePeriod_def Let_def split: option.split)
  moreover have "\<forall>cfg \<in> set (CustomResources core).
       (\<forall>f \<in> set (cr_SetFields cfg). \<exists>ts. Parse (fp_Path f) = Inr ts) \<and>
       (\<forall>f \<in> set (cr_ReadyWhen cfg). \<exists>ts. Parse (fm_Path f) = Inr ts)"
    using ok by (auto simp: coreOk_def customResourceOk_def pointerOk_def)
  moreover have "sel_of sels ls = Inl e \<Longrightarrow>
      DiscoverNamespaces sels listNamespaces ((sched_Spec schedule)\<lparr>NamespaceSelector := Some ls\<rparr>) s = Inl e"
    by (simp add: DiscoverNamespaces_def selectedNamespaces_def)
  ultimately show ?thesis using any by (simp add: Let_def)
qed

definition sampleSchedule :: "string \<Rightarrow> LabelSelector option \<Rightarrow> string list \<Rightarrow> LightsOutSchedule" where
  "sampleSchedule name sel nss =
     \<lparr>obj_name = name, obj_namespace = [], obj_labels = Map.empty, obj_annotations = Map.empty,
      obj_generation = 1, obj_ownerReferences = [],
      sched_Spec = \<lparr>Core = dailyCore, NamespaceSelector = sel, Namespaces = nss, ExcludeNamespaces = []\<rparr>\<rparr>"

theorem accepted_schedule_runs_witness:
  "(\<exists>r cache'. CalculatePeriod sampleCron Map.empty ''0 6 * * *'' ''0 18 * * *'' ''UTC'' 0 = (Inr r, cache')) \<and>
   DiscoverNamespaces sampleSelectors (\<lambda>v s. Inr []) ((sched_Spec (sampleSchedule ''n'' None [''shop'']))
     \<lparr>NamespaceSelector := Some \<lparr>MatchLabels = [], MatchExpressions = []\<rparr>\<rparr>) () = Inl ''unsupported''"
proof -
  have core: "Core (sched_Spec (sampleSchedule ''n'' None [''shop''])) = dailyCore" by (simp add: sampleSchedule_def)
  have "ValidateScheduleCore sampleCron sampleValidation dailyCore = []"
    using ValidateScheduleCore_iff [OF sampleValidation_law, of sampleCron dailyCore] dailyCore_ok by blast
  then have "ValidateScheduleSpec sampleCron sampleValidation (sampleSchedule ''n'' None [''shop'']) = []"
    by (simp add: ValidateScheduleSpec_def sampleSchedule_def Let_def)
  moreover have "ce_loadLocation sampleCron DefaultTimezone = Inr ()"
    by (simp add: sampleCron_def DefaultTimezone_def)
  ultimately show ?thesis
    using accepted_schedule_runs [OF sampleValidation_law _ _ core [symmetric], of sampleCron "()" Map.empty 0
        "\<lparr>MatchLabels = [], MatchExpressions = []\<rparr>" sampleSelectors "''unsupported''" "\<lambda>v s. Inr []" "()"]
    by (simp add: dailyCore_def defaultTimezone_def Let_def sampleSelectors_def)
qed

text \<open>
  C40: Two schedules of which neither has a selector with conditions, and about which the
  overlap check is silent, work on disjoint sets of namespaces.
\<close>

theorem silent_overlap_check_disjoint:
  assumes "\<not> SchedulesOverlap a b"
    and "IsEmptyLabelSelector (NamespaceSelector (sched_Spec a))" and "IsEmptyLabelSelector (NamespaceSelector (sched_Spec b))"
    and "DiscoverNamespaces sels listNamespaces (sched_Spec a) s = Inr ra"
    and "DiscoverNamespaces sels listNamespaces (sched_Spec b) s = Inr rb"
  shows "set ra \<inter> set rb = {}"
proof -
  have disc: "\<exists>sel. selectedNamespaces sels listNamespaces (NamespaceSelector spec) s = Inr sel \<and>
      set r \<subseteq> sel \<union> set (Namespaces spec) \<and> (NamespaceSelector spec = None \<longrightarrow> sel = {})"
    if "DiscoverNamespaces sels listNamespaces spec s = Inr r" for spec r
  proof -
    from that obtain sel where sel: "selectedNamespaces sels listNamespaces (NamespaceSelector spec) s = Inr sel"
      by (auto simp: DiscoverNamespaces_def split: sum.splits)
    have "finite sel" using sel by (auto simp: selectedNamespaces_def split: option.splits sum.splits)
    then show ?thesis using that sel
      by (auto simp: DiscoverNamespaces_def Let_def selectedNamespaces_def)
  qed
  from disc [OF assms(4)] disc [OF assms(5)] show ?thesis
    using assms(1-3) by (auto simp: SchedulesOverlap_def Let_def split: if_splits)
qed

theorem silent_overlap_check_disjoint_witness:
  "set [''shop''] \<inter> set [''lab''] = {}"
proof -
  let ?a = "sampleSchedule ''a'' None [''shop'']" and ?b = "sampleSchedule ''b'' None [''lab'']"
  have "\<not> SchedulesOverlap ?a ?b" by (simp add: SchedulesOverlap_def sampleSchedule_def)
  moreover have "DiscoverNamespaces sampleSelectors (\<lambda>v s. Inr []) (sched_Spec ?a) () = Inr [''shop'']"
    "DiscoverNamespaces sampleSelectors (\<lambda>v s. Inr []) (sched_Spec ?b) () = Inr [''lab'']"
    by (simp_all add: DiscoverNamespaces_def selectedNamespaces_def sampleSchedule_def SystemNamespaces_def)
  ultimately show ?thesis
    using silent_overlap_check_disjoint [of ?a ?b sampleSelectors "\<lambda>v s. Inr []" "()" "[''shop'']" "[''lab'']"]
    by (simp add: sampleSchedule_def IsEmptyLabelSelector_def)
qed

text \<open>
  The check is silent about a schedule that names a namespace and another whose selector
  with conditions matches it, although both work on that namespace.
\<close>

theorem overlap_check_misses_selector:
  "\<exists>a b ra rb. \<not> SchedulesOverlap a b \<and>
     DiscoverNamespaces sampleSelectors (\<lambda>v s. Inr [''shop'']) (sched_Spec a) () = Inr ra \<and>
     DiscoverNamespaces sampleSelectors (\<lambda>v s. Inr [''shop'']) (sched_Spec b) () = Inr rb \<and>
     ''shop'' \<in> set ra \<inter> set rb"
proof (intro exI conjI)
  let ?a = "sampleSchedule ''a'' None [''shop'']"
  let ?b = "sampleSchedule ''b'' (Some \<lparr>MatchLabels = [(''env'', ''dev'')], MatchExpressions = []\<rparr>) []"
  show "\<not> SchedulesOverlap ?a ?b"
    by (simp add: SchedulesOverlap_def sampleSchedule_def IsEmptyLabelSelector_def)
  show "DiscoverNamespaces sampleSelectors (\<lambda>v s. Inr [''shop'']) (sched_Spec ?a) () = Inr [''shop'']"
    "DiscoverNamespaces sampleSelectors (\<lambda>v s. Inr [''shop'']) (sched_Spec ?b) () = Inr [''shop'']"
    by (simp_all add: DiscoverNamespaces_def selectedNamespaces_def sampleSchedule_def SystemNamespaces_def
        sampleSelectors_def)
qed simp

text \<open>
  The comparison of selectors is not an equality: it takes a selector for one that
  demands different labels when the first demands an empty value, and for one whose
  expression lists other values, and it is not symmetric.
\<close>

theorem LabelSelectorsEqual_not_equality:
  "LabelSelectorsEqual (Some \<lparr>MatchLabels = [(''a'', [])], MatchExpressions = []\<rparr>)
                       (Some \<lparr>MatchLabels = [(''b'', ''x'')], MatchExpressions = []\<rparr>) \<and>
   \<not> LabelSelectorsEqual (Some \<lparr>MatchLabels = [(''b'', ''x'')], MatchExpressions = []\<rparr>)
                         (Some \<lparr>MatchLabels = [(''a'', [])], MatchExpressions = []\<rparr>) \<and>
   LabelSelectorsEqual
     (Some \<lparr>MatchLabels = [], MatchExpressions = [\<lparr>req_Key = ''env'', req_Operator = ''In'', req_Values = [''dev'', ''test'']\<rparr>]\<rparr>)
     (Some \<lparr>MatchLabels = [], MatchExpressions = [\<lparr>req_Key = ''env'', req_Operator = ''In'', req_Values = [''dev'', ''dev'']\<rparr>]\<rparr>)"
  by (simp add: LabelSelectorsEqual_def requirementsEqual_def mget_def)

end
