(* ===== verification/Cache.thy ===== *)
theory Cache
  imports Period
begin

text \<open>
  The period cache under concurrency. The two controllers of the manager run in one process and
  share \<^verbatim>\<open>periodCache\<close> of \<^verbatim>\<open>period.go\<close>. A reconcile reads the clock, then asks the cache under a
  read lock, and after a miss computes without a lock and stores under the write lock; between
  these steps others run. The steps of \<open>CalculatePeriod\<close> are those of \<open>Period\<close>.
\<close>

record request =
  rq_Upscale :: string
  rq_Downscale :: string
  rq_Timezone :: string

definition requestKey :: "('l, 'c) cron_env \<Rightarrow> request \<Rightarrow> string" where
  "requestKey env q = generateCacheKey (ce_sha256hex env) (rq_Upscale q) (rq_Downscale q) (rq_Timezone q)"

text \<open>What \<open>CalculatePeriod\<close> does once the cache has missed, before it stores the result.\<close>

definition computePeriod :: "('l, 'c) cron_env \<Rightarrow> request \<Rightarrow> time \<Rightarrow> period_error + PeriodResult" where
  "computePeriod env q now =
     fst (CalculatePeriod env Map.empty (rq_Upscale q) (rq_Downscale q) (rq_Timezone q) now)"

text \<open>Where a reconcile stands: it has read the clock, it has missed, it has its answer.\<close>

datatype threadPhase = Idle | Asked request time | Missed request time | Served request time PeriodResult

record shared =
  sh_clock :: time
  sh_cache :: periodCache
  sh_threads :: "nat \<Rightarrow> threadPhase"

inductive cacheStep :: "('l, 'c) cron_env \<Rightarrow> request set \<Rightarrow> shared \<Rightarrow> shared \<Rightarrow> bool" for env Q where
  tick: "sh_clock w \<le> t \<Longrightarrow> cacheStep env Q w (w\<lparr>sh_clock := t\<rparr>)"
| ask: "sh_threads w i = Idle \<Longrightarrow> q \<in> Q \<Longrightarrow>
    cacheStep env Q w (w\<lparr>sh_threads := (sh_threads w)(i := Asked q (sh_clock w))\<rparr>)"
| hit: "sh_threads w i = Asked q now \<Longrightarrow> getCachedPeriod (sh_cache w) (requestKey env q) now = Some r \<Longrightarrow>
    cacheStep env Q w (w\<lparr>sh_threads := (sh_threads w)(i := Served q now r)\<rparr>)"
| miss: "sh_threads w i = Asked q now \<Longrightarrow> getCachedPeriod (sh_cache w) (requestKey env q) now = None \<Longrightarrow>
    cacheStep env Q w (w\<lparr>sh_threads := (sh_threads w)(i := Missed q now)\<rparr>)"
| store: "sh_threads w i = Missed q now \<Longrightarrow> computePeriod env q now = Inr r \<Longrightarrow>
    cacheStep env Q w (w\<lparr>sh_cache := setCachedPeriod (sh_cache w) (requestKey env q) r,
                         sh_threads := (sh_threads w)(i := Served q now r)\<rparr>)"
| fail: "sh_threads w i = Missed q now \<Longrightarrow> computePeriod env q now = Inl e \<Longrightarrow>
    cacheStep env Q w (w\<lparr>sh_threads := (sh_threads w)(i := Idle)\<rparr>)"
| leave: "sh_threads w i = Served q now r \<Longrightarrow>
    cacheStep env Q w (w\<lparr>sh_threads := (sh_threads w)(i := Idle)\<rparr>)"

inductive_cases cacheStepE: "cacheStep env Q w w'"

definition started :: "time \<Rightarrow> shared" where
  "started start = \<lparr>sh_clock = start, sh_cache = Map.empty, sh_threads = (\<lambda>i. Idle)\<rparr>"

definition reached :: "('l, 'c) cron_env \<Rightarrow> request set \<Rightarrow> time \<Rightarrow> shared \<Rightarrow> bool" where
  "reached env Q start = (cacheStep env Q)\<^sup>*\<^sup>* (started start)"

text \<open>A reconcile that nobody interrupts does what the sequential \<open>CalculatePeriod\<close> does.\<close>

lemma CalculatePeriod_steps:
  "CalculatePeriod env cache (rq_Upscale q) (rq_Downscale q) (rq_Timezone q) now =
     (case getCachedPeriod cache (requestKey env q) now of
        Some r \<Rightarrow> (Inr r, cache)
      | None \<Rightarrow>
          (case computePeriod env q now of
             Inl e \<Rightarrow> (Inl e, cache)
           | Inr r \<Rightarrow> (Inr r, setCachedPeriod cache (requestKey env q) r)))"
proof -
  have "getCachedPeriod Map.empty key now = None" for key by (simp add: getCachedPeriod_def)
  then show ?thesis
    by (simp add: CalculatePeriod_def computePeriod_def requestKey_def Let_def split: option.splits sum.splits)
qed

section \<open>Schedules in use\<close>

text \<open>
  A schedule whose expressions parse and trigger often enough for the search, at every instant
  from \<open>start\<close> on.
\<close>

definition regular :: "('l, 'c) cron_env \<Rightarrow> time \<Rightarrow> request \<Rightarrow> bool" where
  "regular env start q \<longleftrightarrow>
     (\<exists>loc us ds occU occD. parsedAs env (rq_Upscale q) (rq_Downscale q) (rq_Timezone q) loc us ds \<and>
        (\<forall>t \<ge> start. (\<exists>u. covered (ce_next env us loc) occU (rq_Upscale q) t u) \<and>
                     (\<exists>d. covered (ce_next env ds loc) occD (rq_Downscale q) t d)))"

lemma covered_before:
  assumes "covered nxt occ e t u" and "t < nxt t0"
  shows "u \<le> t0"
proof (rule ccontr)
  assume "\<not> u \<le> t0"
  moreover obtain gap where law: "cronLaw nxt occ gap" using assms(1) by (auto simp: covered_def)
  moreover have "occ u" "u \<le> t" using assms(1) by (simp_all add: covered_def)
  ultimately have "nxt t0 \<le> u" using cronLaw_next(3) [OF law, of u t0] by simp
  with assms(2) \<open>u \<le> t\<close> show False by simp
qed

lemma compute_regular:
  assumes "parsedAs env (rq_Upscale q) (rq_Downscale q) (rq_Timezone q) loc us ds"
  shows "computePeriod env q t = Inr (freshPeriod env (rq_Upscale q) (rq_Downscale q) loc us ds t)"
  using CalculatePeriod_miss [OF assms, of Map.empty t] by (simp add: computePeriod_def getCachedPeriod_def)

lemma compute_stable:
  assumes "regular env start q" and "computePeriod env q t0 = Inr r"
    and "start \<le> t0" and "t0 \<le> t" and "t < min (NextUpscale r) (NextDownscale r)"
  shows "computePeriod env q t = Inr r"
proof -
  from assms(1) obtain loc us ds occU occD where
    p: "parsedAs env (rq_Upscale q) (rq_Downscale q) (rq_Timezone q) loc us ds" and
    c: "\<forall>t \<ge> start. (\<exists>u. covered (ce_next env us loc) occU (rq_Upscale q) t u) \<and>
                     (\<exists>d. covered (ce_next env ds loc) occD (rq_Downscale q) t d)"
    unfolding regular_def by blast
  from c assms(3,4) obtain u d where
    ud: "covered (ce_next env us loc) occU (rq_Upscale q) t u" "covered (ce_next env ds loc) occD (rq_Downscale q) t d"
    by (meson order_trans)
  have r: "r = freshPeriod env (rq_Upscale q) (rq_Downscale q) loc us ds t0"
    using assms(2) compute_regular [OF p] by simp
  have nx: "t < ce_next env us loc t0" "t < ce_next env ds loc t0"
    using assms(5) by (simp_all add: r freshPeriod_def Let_def)
  have "freshPeriod env (rq_Upscale q) (rq_Downscale q) loc us ds t = r"
    using covered_stable [OF ud(1) assms(4) nx(1) covered_before [OF ud(1) nx(1)]]
      covered_stable [OF ud(2) assms(4) nx(2) covered_before [OF ud(2) nx(2)]]
    by (simp add: r freshPeriod_def Let_def)
  with compute_regular [OF p] show ?thesis by simp
qed

section \<open>The invariant\<close>

abbreviation validTill :: "PeriodResult \<Rightarrow> time" where
  "validTill r \<equiv> min (NextUpscale r) (NextDownscale r)"

text \<open>An entry is what a computation at some instant since the start would give.\<close>

definition entryOk :: "('l, 'c) cron_env \<Rightarrow> request set \<Rightarrow> time \<Rightarrow> time \<Rightarrow> string \<Rightarrow> cachedPeriod \<Rightarrow> bool" where
  "entryOk env Q start clock key c \<longleftrightarrow>
     (\<exists>q \<in> Q. key = requestKey env q \<and> cp_validUntil c = validTill (cp_result c) \<and>
        (\<exists>t \<ge> start. t \<le> clock \<and> computePeriod env q t = Inr (cp_result c)))"

text \<open>
  An answer is right for an instant between the one the reconcile asked for and now, unless it
  asked for the very instant of a transition.
\<close>

definition answerOk :: "('l, 'c) cron_env \<Rightarrow> time \<Rightarrow> request \<Rightarrow> time \<Rightarrow> PeriodResult \<Rightarrow> bool" where
  "answerOk env clock q now r \<longleftrightarrow>
     (\<exists>t. now \<le> t \<and> t \<le> clock \<and> computePeriod env q t = Inr r) \<or>
     now = validTill r \<and> (\<exists>t < now. computePeriod env q t = Inr r)"

fun phaseOk :: "('l, 'c) cron_env \<Rightarrow> request set \<Rightarrow> time \<Rightarrow> time \<Rightarrow> threadPhase \<Rightarrow> bool" where
  "phaseOk env Q start clock Idle \<longleftrightarrow> True"
| "phaseOk env Q start clock (Asked q now) \<longleftrightarrow> q \<in> Q \<and> start \<le> now \<and> now \<le> clock"
| "phaseOk env Q start clock (Missed q now) \<longleftrightarrow> q \<in> Q \<and> start \<le> now \<and> now \<le> clock"
| "phaseOk env Q start clock (Served q now r) \<longleftrightarrow> q \<in> Q \<and> now \<le> clock \<and> answerOk env clock q now r"

definition cacheInv :: "('l, 'c) cron_env \<Rightarrow> request set \<Rightarrow> time \<Rightarrow> shared \<Rightarrow> bool" where
  "cacheInv env Q start w \<longleftrightarrow>
     start \<le> sh_clock w \<and>
     (\<forall>key c. sh_cache w key = Some c \<longrightarrow> entryOk env Q start (sh_clock w) key c) \<and>
     (\<forall>i. phaseOk env Q start (sh_clock w) (sh_threads w i))"

lemma cacheInv_started: "cacheInv env Q start (started start)"
  by (simp add: cacheInv_def started_def)

lemma entryOk_later: "entryOk env Q start clock key c \<Longrightarrow> clock \<le> clock' \<Longrightarrow> entryOk env Q start clock' key c"
  unfolding entryOk_def by (meson order_trans)

lemma phaseOk_later: "phaseOk env Q start clock p \<Longrightarrow> clock \<le> clock' \<Longrightarrow> phaseOk env Q start clock' p"
  by (cases p) (auto simp: answerOk_def intro: order_trans)

lemma hit_answers:
  assumes "\<forall>q \<in> Q. regular env start q" and "inj_on (requestKey env) Q" and "cacheInv env Q start w"
    and "q \<in> Q" and "getCachedPeriod (sh_cache w) (requestKey env q) now = Some r" and "now \<le> sh_clock w"
  shows "answerOk env (sh_clock w) q now r"
proof -
  obtain c where c: "sh_cache w (requestKey env q) = Some c" "r = cp_result c" "now \<le> cp_validUntil c"
    using assms(5) by (auto simp: getCachedPeriod_def split: option.splits if_splits)
  then have "entryOk env Q start (sh_clock w) (requestKey env q) c" using assms(3) by (simp add: cacheInv_def)
  then obtain q' t where q': "q' \<in> Q" "requestKey env q = requestKey env q'" "cp_validUntil c = validTill r"
    and t: "start \<le> t" "t \<le> sh_clock w" "computePeriod env q' t = Inr r"
    unfolding entryOk_def c(2) by blast
  have "q' = q" using inj_onD [OF assms(2) q'(2) assms(4) q'(1)] by simp
  note t = t [unfolded this]
  consider "now \<le> t" | "t < now" "now < validTill r" | "t < now" "now = validTill r" using c(3) q'(3) by linarith
  then show ?thesis
  proof cases
    case 2
    have "regular env start q" using assms(1,4) by blast
    from compute_stable [OF this t(3) t(1)] 2 have "computePeriod env q now = Inr r" by simp
    with assms(6) show ?thesis by (auto simp: answerOk_def)
  qed (use t in \<open>auto simp: answerOk_def\<close>)
qed

lemma threads_update:
  assumes "cacheInv env Q start w" and "phaseOk env Q start (sh_clock w) p"
  shows "cacheInv env Q start (w\<lparr>sh_threads := (sh_threads w)(i := p)\<rparr>)"
  using assms by (simp add: cacheInv_def)

lemma store_entry:
  assumes "cacheInv env Q start w" and "q \<in> Q" and "start \<le> now" and "now \<le> sh_clock w"
    and "computePeriod env q now = Inr r"
  shows "cacheInv env Q start (w\<lparr>sh_cache := setCachedPeriod (sh_cache w) (requestKey env q) r\<rparr>)"
proof -
  have "entryOk env Q start (sh_clock w) (requestKey env q) \<lparr>cp_result = r, cp_validUntil = validTill r\<rparr>"
    unfolding entryOk_def using assms(2-5) by auto
  moreover have "setCachedPeriod (sh_cache w) (requestKey env q) r =
      (sh_cache w)(requestKey env q \<mapsto> \<lparr>cp_result = r, cp_validUntil = validTill r\<rparr>)"
    by (auto simp: setCachedPeriod_def Let_def min_def)
  ultimately show ?thesis using assms(1) by (auto simp: cacheInv_def)
qed

lemma cacheInv_step:
  assumes "\<forall>q \<in> Q. regular env start q" and "inj_on (requestKey env) Q"
    and "cacheStep env Q w w'" and inv: "cacheInv env Q start w"
  shows "cacheInv env Q start w'"
proof -
  have ph: "phaseOk env Q start (sh_clock w) (sh_threads w i)" for i using inv by (simp add: cacheInv_def)
  have clock: "start \<le> sh_clock w" using inv by (simp add: cacheInv_def)
  from assms(3) show ?thesis
  proof cases
    case (tick t)
    with inv show ?thesis
      by (auto simp: cacheInv_def intro: entryOk_later phaseOk_later)
  next
    case (ask i q)
    with threads_update [OF inv, of "Asked q (sh_clock w)" i] clock show ?thesis by simp
  next
    case (hit i q now r)
    with ph [of i] have q: "q \<in> Q" "now \<le> sh_clock w" by simp_all
    from threads_update [OF inv, of "Served q now r" i] hit q hit_answers [OF assms(1,2) inv q(1) hit(3) q(2)]
    show ?thesis by simp
  next
    case (miss i q now)
    with ph [of i] threads_update [OF inv, of "Missed q now" i] show ?thesis by simp
  next
    case (store i q now r)
    with ph [of i] have q: "q \<in> Q" "start \<le> now" "now \<le> sh_clock w" by simp_all
    then have "answerOk env (sh_clock w) q now r" using store(3) by (auto simp: answerOk_def)
    with threads_update [OF store_entry [OF inv q store(3)], of "Served q now r" i] q store(1) show ?thesis by simp
  next
    case (fail i q now e)
    with threads_update [OF inv, of Idle i] show ?thesis by simp
  next
    case (leave i q now r)
    with threads_update [OF inv, of Idle i] show ?thesis by simp
  qed
qed

lemma cacheInv_reached:
  assumes "\<forall>q \<in> Q. regular env start q" and "inj_on (requestKey env) Q" and "reached env Q start w"
  shows "cacheInv env Q start w"
  using assms(3) unfolding reached_def
proof (induction rule: rtranclp_induct)
  case base
  show ?case by (rule cacheInv_started)
next
  case (step w w')
  show ?case by (rule cacheInv_step [OF assms(1,2) step(2,3)])
qed

section \<open>Properties\<close>

text \<open>
  C6: For schedules in use whose cache keys are pairwise different, whose expressions parse and which at
  every instant have triggered within their search window, often enough apart for the bound of the search
  (\<open>regular\<close>): however the reconciles interleave, an answer is what a computation without the cache
  gives at some instant between the one the reconcile read off its clock and the present one, so that it
  is never older than the reconcile. The one exception is a reconcile that reads the very
  instant of the schedule's next transition. Without these conditions it does not hold
  (\<open>cache_key_shared\<close>, \<open>minute_window_misses_upscale\<close>).
\<close>

theorem concurrent_answers_current:
  assumes "\<forall>q \<in> Q. regular env start q" and "inj_on (requestKey env) Q"
    and "reached env Q start w" and "sh_threads w i = Served q now r"
  shows "(\<exists>t. now \<le> t \<and> t \<le> sh_clock w \<and> computePeriod env q t = Inr r) \<or>
    now = min (NextUpscale r) (NextDownscale r) \<and> (\<exists>t < now. computePeriod env q t = Inr r)"
proof -
  have "phaseOk env Q start (sh_clock w) (sh_threads w i)"
    using cacheInv_reached [OF assms(1-3)] by (simp add: cacheInv_def)
  with assms(4) show ?thesis by (simp add: answerOk_def)
qed

text \<open>
  The exception is real: at the very instant of its next transition a cached result is still
  served, whereas a computation there has the transition behind it.
\<close>

theorem transition_served_stale:
  assumes "regular env t0 q" and "computePeriod env q t0 = Inr r"
    and "getCachedPeriod cache (requestKey env q) t0 = None" and "validTill r = t" and "t0 \<le> t"
  shows "fst (CalculatePeriod env (snd (CalculatePeriod env cache (rq_Upscale q) (rq_Downscale q) (rq_Timezone q) t0))
      (rq_Upscale q) (rq_Downscale q) (rq_Timezone q) t) = Inr r \<and>
    (\<exists>r'. computePeriod env q t = Inr r' \<and> t < validTill r' \<and> r' \<noteq> r)"
proof
  have c: "snd (CalculatePeriod env cache (rq_Upscale q) (rq_Downscale q) (rq_Timezone q) t0) =
      setCachedPeriod cache (requestKey env q) r"
    unfolding CalculatePeriod_steps by (simp add: assms(2,3))
  have "getCachedPeriod (setCachedPeriod cache (requestKey env q) r) (requestKey env q) t = Some r"
    using assms(4) by (simp add: getCached_setCached)
  then show "fst (CalculatePeriod env (snd (CalculatePeriod env cache (rq_Upscale q) (rq_Downscale q) (rq_Timezone q) t0))
      (rq_Upscale q) (rq_Downscale q) (rq_Timezone q) t) = Inr r"
    unfolding c by (subst CalculatePeriod_steps) simp
  from assms(1) obtain loc us ds occU occD where
    p: "parsedAs env (rq_Upscale q) (rq_Downscale q) (rq_Timezone q) loc us ds" and
    cov: "\<forall>t \<ge> t0. (\<exists>u. covered (ce_next env us loc) occU (rq_Upscale q) t u) \<and>
                     (\<exists>d. covered (ce_next env ds loc) occD (rq_Downscale q) t d)"
    unfolding regular_def by blast
  from cov assms(5) obtain u d where
    ud: "covered (ce_next env us loc) occU (rq_Upscale q) t u" "covered (ce_next env ds loc) occD (rq_Downscale q) t d"
    by blast
  then obtain g1 g2 where law: "cronLaw (ce_next env us loc) occU g1" "cronLaw (ce_next env ds loc) occD g2"
    by (auto simp: covered_def)
  let ?r' = "freshPeriod env (rq_Upscale q) (rq_Downscale q) loc us ds t"
  have "t < validTill ?r'"
    using cronLaw_next(1) [OF law(1), of t] cronLaw_next(1) [OF law(2), of t] by (simp add: freshPeriod_def Let_def)
  moreover from this assms(4) have "?r' \<noteq> r" by auto
  ultimately show "\<exists>r'. computePeriod env q t = Inr r' \<and> t < validTill r' \<and> r' \<noteq> r"
    using compute_regular [OF p, of t] by blast
qed

section \<open>Witnesses\<close>

definition dailyRequest :: request where
  "dailyRequest = \<lparr>rq_Upscale = ''0 6 * * *'', rq_Downscale = ''0 18 * * *'', rq_Timezone = ''UTC''\<rparr>"

lemma daily_covered:
  assumes "analyzeScheduleFrequency e = FrequencyDaily"
  shows "\<exists>u. covered (periodicNext (24 * hour) off) (\<lambda>t. (t - off) mod (24 * hour) = 0) e t u"
proof -
  have p: "0 < 24 * hour" by (simp add: duration_defs)
  define u where "u = off + 24 * hour * ((t - off) div (24 * hour))"
  have "(t - off) mod (24 * hour) = t - u" by (simp add: u_def minus_mult_div_eq_mod [symmetric])
  with pos_mod_sign [OF p, of "t - off"] pos_mod_bound [OF p, of "t - off"] have "u \<le> t" "t < u + 24 * hour" by simp_all
  moreover have "24 * hour < getSearchWindow FrequencyDaily" by (simp add: duration_defs)
  ultimately have w: "t - getSearchWindow FrequencyDaily < u" "u \<le> t" by linarith+
  have "(u - off) mod (24 * hour) = 0" by (simp add: u_def)
  from sample_covered [OF _ assms _ this w] show ?thesis by (auto simp: duration_defs)
qed

lemma daily_regular: "regular sampleCron start dailyRequest"
  unfolding regular_def
  using sample_parsed daily_covered [OF sample_frequencies(1)] daily_covered [OF sample_frequencies(2)]
  by (intro exI [of _ "()"] exI [of _ "periodicNext (24 * hour) (6 * hour)"] exI [of _ "periodicNext (24 * hour) (18 * hour)"]
      exI [of _ "\<lambda>t. (t - 6 * hour) mod (24 * hour) = 0"] exI [of _ "\<lambda>t. (t - 18 * hour) mod (24 * hour) = 0"])
    (simp add: dailyRequest_def)

definition dailyNoon :: PeriodResult where
  "dailyNoon = freshPeriod sampleCron ''0 6 * * *'' ''0 18 * * *'' () (periodicNext (24 * hour) (6 * hour))
     (periodicNext (24 * hour) (18 * hour)) (252 * hour)"

lemma compute_noon: "computePeriod sampleCron dailyRequest (252 * hour) = Inr dailyNoon"
  unfolding dailyNoon_def
  using compute_regular [of sampleCron dailyRequest, unfolded dailyRequest_def, simplified, OF sample_parsed]
  by (simp add: dailyRequest_def)

lemma noon_validTill: "validTill dailyNoon = 258 * hour"
  by (simp add: dailyNoon_def freshPeriod_def Let_def periodicNext_def duration_defs)

text \<open>Two reconciles that ask for the same schedule; the second starts before the first has stored.\<close>

theorem concurrent_answers_current_witness:
  "\<exists>w. reached sampleCron {dailyRequest} (252 * hour) w \<and>
     sh_threads w 1 = Served dailyRequest (253 * hour) dailyNoon \<and>
     computePeriod sampleCron dailyRequest (253 * hour) = Inr dailyNoon"
proof -
  let ?q = dailyRequest and ?key = "requestKey sampleCron dailyRequest"
  let ?step = "cacheStep sampleCron {dailyRequest}"
  let ?w0 = "started (252 * hour)"
  let ?w1 = "?w0\<lparr>sh_threads := (sh_threads ?w0)(0 := Asked ?q (sh_clock ?w0))\<rparr>"
  let ?w2 = "?w1\<lparr>sh_threads := (sh_threads ?w1)(0 := Missed ?q (252 * hour))\<rparr>"
  let ?w3 = "?w2\<lparr>sh_clock := 253 * hour\<rparr>"
  let ?w4 = "?w3\<lparr>sh_threads := (sh_threads ?w3)(1 := Asked ?q (sh_clock ?w3))\<rparr>"
  let ?w5 = "?w4\<lparr>sh_cache := setCachedPeriod (sh_cache ?w4) ?key dailyNoon,
                  sh_threads := (sh_threads ?w4)(0 := Served ?q (252 * hour) dailyNoon)\<rparr>"
  let ?w6 = "?w5\<lparr>sh_threads := (sh_threads ?w5)(1 := Served ?q (253 * hour) dailyNoon)\<rparr>"
  have 1: "?step ?w0 ?w1" by (rule ask) (simp_all add: started_def)
  have 2: "?step ?w1 ?w2" by (rule miss) (simp_all add: started_def getCachedPeriod_def)
  have 3: "?step ?w2 ?w3" by (rule tick) (simp add: started_def duration_defs)
  have 4: "?step ?w3 ?w4" by (rule ask) (simp_all add: started_def)
  have 5: "?step ?w4 ?w5" by (rule store) (simp_all add: started_def compute_noon)
  have "getCachedPeriod (sh_cache ?w5) ?key (253 * hour) = Some dailyNoon"
    using noon_validTill by (simp add: getCached_setCached duration_defs)
  then have 6: "?step ?w5 ?w6" by (intro hit) (simp_all add: started_def)
  have r: "reached sampleCron {dailyRequest} (252 * hour) ?w6"
    unfolding reached_def
    by (rule converse_rtranclp_into_rtranclp [of ?step, OF 1 converse_rtranclp_into_rtranclp [of ?step, OF 2
        converse_rtranclp_into_rtranclp [of ?step, OF 3 converse_rtranclp_into_rtranclp [of ?step, OF 4
        converse_rtranclp_into_rtranclp [of ?step, OF 5 r_into_rtranclp [of ?step, OF 6]]]]]])
  have s: "sh_threads ?w6 1 = Served ?q (253 * hour) dailyNoon" by simp
  have "253 * hour \<noteq> min (NextUpscale dailyNoon) (NextDownscale dailyNoon)"
    using noon_validTill by (simp add: duration_defs)
  with concurrent_answers_current [OF _ _ r s] daily_regular
  obtain t where t: "253 * hour \<le> t" "t \<le> sh_clock ?w6" "computePeriod sampleCron ?q t = Inr dailyNoon" by auto
  then have "t = 253 * hour" by simp
  with r s t(3) show ?thesis by blast
qed

theorem transition_served_stale_witness:
  "\<exists>r'. computePeriod sampleCron dailyRequest (258 * hour) = Inr r' \<and> r' \<noteq> dailyNoon \<and>
     fst (CalculatePeriod sampleCron (snd (CalculatePeriod sampleCron Map.empty ''0 6 * * *'' ''0 18 * * *'' ''UTC'' (252 * hour)))
       ''0 6 * * *'' ''0 18 * * *'' ''UTC'' (258 * hour)) = Inr dailyNoon"
  using transition_served_stale [OF daily_regular compute_noon _ noon_validTill, of Map.empty]
  by (auto simp: getCachedPeriod_def dailyRequest_def duration_defs)

end
