(* ===== verification/Metrics_Facts.thy ===== *)
theory Metrics_Facts
  imports Controller_Facts
begin

text \<open>
  The series the reconcilers publish: that no call on a collector panics, that a reconcile
  touches only the series of its own schedule, and that none of them is left when the schedule
  is gone. The Prometheus client is not part of the repository: it is a function \<open>call\<close> that
  carries out one call, with \<open>None\<close> for a panic, and \<open>series\<close>, which reads the value of a
  series by its collector and label values.
\<close>

section \<open>What the client promises\<close>

definition usable :: "collectorKind \<Rightarrow> collector \<Rightarrow> string list \<Rightarrow> bool" where
  "usable kind c values \<longleftrightarrow> collectorKindOf c = kind \<and> length values = length (labelNames c)"

text \<open>One value per label name, a collector of the kind, and no counter that goes down.\<close>

fun wellCalled :: "observation \<Rightarrow> bool" where
  "wellCalled (CounterInc c values) \<longleftrightarrow> usable CounterVec c values"
| "wellCalled (CounterAdd c values n) \<longleftrightarrow> usable CounterVec c values \<and> 0 \<le> n"
| "wellCalled (GaugeSet c values n) \<longleftrightarrow> usable GaugeVec c values"
| "wellCalled (GaugeClock c values) \<longleftrightarrow> usable GaugeVec c values"
| "wellCalled (HistogramObserve c values) \<longleftrightarrow> usable HistogramVec c values"
| "wellCalled (SeriesDropped c label) \<longleftrightarrow> True"
| "wellCalled (EventRecorded obj ty reason action note) \<longleftrightarrow> True"

text \<open>The series a partial match on the schedule label selects, and those a call is about.\<close>

definition ofSchedule :: "collector \<Rightarrow> string \<Rightarrow> string list \<Rightarrow> bool" where
  "ofSchedule c label values \<longleftrightarrow> map_of (zip (labelNames c) values) labelSchedule = Some label"

fun touches :: "observation \<Rightarrow> collector \<Rightarrow> string list \<Rightarrow> bool" where
  "touches (CounterInc c values) c' values' \<longleftrightarrow> c' = c \<and> values' = values"
| "touches (CounterAdd c values n) c' values' \<longleftrightarrow> c' = c \<and> values' = values"
| "touches (GaugeSet c values n) c' values' \<longleftrightarrow> c' = c \<and> values' = values"
| "touches (GaugeClock c values) c' values' \<longleftrightarrow> c' = c \<and> values' = values"
| "touches (HistogramObserve c values) c' values' \<longleftrightarrow> c' = c \<and> values' = values"
| "touches (SeriesDropped c label) c' values' \<longleftrightarrow> c' = c \<and> ofSchedule c label values'"
| "touches (EventRecorded obj ty reason action note) c' values' \<longleftrightarrow> False"

definition prometheusLaw :: "(observation \<Rightarrow> 'm \<Rightarrow> 'm option) \<Rightarrow> ('m \<Rightarrow> collector \<Rightarrow> string list \<Rightarrow> int option) \<Rightarrow> bool" where
  "prometheusLaw call series \<longleftrightarrow>
     (\<forall>x m. wellCalled x \<longrightarrow>
        (\<exists>m'. call x m = Some m' \<and>
           (\<forall>c values. \<not> touches x c values \<longrightarrow> series m' c values = series m c values))) \<and>
     (\<forall>c label m m' values. call (SeriesDropped c label) m = Some m' \<longrightarrow> ofSchedule c label values \<longrightarrow>
        series m' c values = None)"

fun callAll :: "(observation \<Rightarrow> 'm \<Rightarrow> 'm option) \<Rightarrow> observation list \<Rightarrow> 'm \<Rightarrow> 'm option" where
  "callAll call [] m = Some m"
| "callAll call (x # xs) m = (case call x m of None \<Rightarrow> None | Some m' \<Rightarrow> callAll call xs m')"

section \<open>Calls that are proper\<close>

text \<open>
  A call that does not panic, is about the series of one schedule, and about the stuck pods of
  the namespaces \<open>N\<close> only.
\<close>

definition proper :: "string set \<Rightarrow> string \<Rightarrow> observation \<Rightarrow> bool" where
  "proper N label x \<longleftrightarrow> wellCalled x \<and>
     (\<forall>c values. touches x c values \<longrightarrow> ofSchedule c label values) \<and>
     (\<forall>ns. touches x StuckTerminatingPods [label, ns] \<longrightarrow> ns \<in> N)"

fun isEvent :: "observation \<Rightarrow> bool" where
  "isEvent (EventRecorded obj ty reason action note) \<longleftrightarrow> True"
| "isEvent _ \<longleftrightarrow> False"

abbreviation allProper :: "string set \<Rightarrow> string \<Rightarrow> observation list \<Rightarrow> bool" where
  "allProper N label obs \<equiv> list_all (proper N label) obs"

abbreviation allEvents :: "observation list \<Rightarrow> bool" where
  "allEvents obs \<equiv> list_all isEvent obs"

lemma ofSchedule_hd:
  assumes "length values = length (labelNames c)"
  shows "ofSchedule c label values \<longleftrightarrow> hd values = label"
  using assms by (cases c) (auto simp: ofSchedule_def length_Suc_conv)

lemma proper_simps [simp]:
  "proper N label (CounterInc c values) \<longleftrightarrow> usable CounterVec c values \<and> hd values = label"
  "proper N label (CounterAdd c values n) \<longleftrightarrow> usable CounterVec c values \<and> 0 \<le> n \<and> hd values = label"
  "proper N label (GaugeSet c values n) \<longleftrightarrow>
     usable GaugeVec c values \<and> hd values = label \<and> (c = StuckTerminatingPods \<longrightarrow> values ! 1 \<in> N)"
  "proper N label (GaugeClock c values) \<longleftrightarrow>
     usable GaugeVec c values \<and> hd values = label \<and> (c = StuckTerminatingPods \<longrightarrow> values ! 1 \<in> N)"
  "proper N label (HistogramObserve c values) \<longleftrightarrow> usable HistogramVec c values \<and> hd values = label"
  "proper UNIV label (SeriesDropped c label)"
  "proper N label (EventRecorded obj ty reason action note)"
  by (auto simp: proper_def usable_def ofSchedule_hd length_Suc_conv)

lemma events_proper: "allEvents obs \<Longrightarrow> allProper N label obs"
  by (erule list.pred_mono_strong) (auto elim: isEvent.elims)

lemma callAll_append:
  "callAll call (xs @ ys) m = (case callAll call xs m of None \<Rightarrow> None | Some m' \<Rightarrow> callAll call ys m')"
  by (induction xs arbitrary: m) (auto split: option.splits)

text \<open>The series of other schedules are left as they are.\<close>

definition sameElsewhere :: "('m \<Rightarrow> collector \<Rightarrow> string list \<Rightarrow> int option) \<Rightarrow> string \<Rightarrow> 'm \<Rightarrow> 'm \<Rightarrow> bool" where
  "sameElsewhere series label m m' \<longleftrightarrow>
     (\<forall>c values. \<not> ofSchedule c label values \<longrightarrow> series m' c values = series m c values)"

lemma proper_call:
  assumes "prometheusLaw call series" and "proper N label x"
  shows "\<exists>m'. call x m = Some m' \<and> sameElsewhere series label m m' \<and>
    (\<forall>ns. ns \<notin> N \<longrightarrow> series m' StuckTerminatingPods [label, ns] = series m StuckTerminatingPods [label, ns])"
proof -
  have "wellCalled x" using assms(2) by (simp add: proper_def)
  with assms(1) obtain m' where m': "call x m = Some m'" "\<forall>c values. \<not> touches x c values \<longrightarrow> series m' c values = series m c values"
    unfolding prometheusLaw_def by blast
  with assms(2) show ?thesis unfolding proper_def sameElsewhere_def by blast
qed

lemma proper_callAll:
  assumes "prometheusLaw call series" and "allProper N label xs"
  shows "\<exists>m'. callAll call xs m = Some m' \<and> sameElsewhere series label m m' \<and>
    (\<forall>ns. ns \<notin> N \<longrightarrow> series m' StuckTerminatingPods [label, ns] = series m StuckTerminatingPods [label, ns])"
  using assms(2)
proof (induction xs arbitrary: m)
  case (Cons x xs)
  from Cons.prems proper_call [OF assms(1), of N label x m] obtain m1 where
    1: "call x m = Some m1" "sameElsewhere series label m m1"
      "\<forall>ns. ns \<notin> N \<longrightarrow> series m1 StuckTerminatingPods [label, ns] = series m StuckTerminatingPods [label, ns]" by auto
  from Cons.prems Cons.IH [of m1] obtain m2 where
    2: "callAll call xs m1 = Some m2" "sameElsewhere series label m1 m2"
      "\<forall>ns. ns \<notin> N \<longrightarrow> series m2 StuckTerminatingPods [label, ns] = series m1 StuckTerminatingPods [label, ns]" by auto
  from 1 2 show ?case by (auto simp: sameElsewhere_def)
qed (simp add: sameElsewhere_def)

section \<open>What the program calls\<close>

lemma event_makers:
  "allEvents (recordWorkloadEvent recorder w sched kind up r)"
  "allEvents (recordScalingEvents recorder obj up stats nss)"
  "allEvents (emitCustomResourceWarning recorder obj reason note)"
  "allEvents (crDiscoveryFailed recorder obj cfg e)"
  "allEvents (discoveryFailed recorder obj reason action text e)"
  "waveGate recorder obj prev wave gated up timeout now = (progress, hold, events) \<Longrightarrow> allEvents events"
  by (auto simp: recordWorkloadEvent_def recordScalingEvents_def emitCustomResourceWarning_def crDiscoveryFailed_def
      discoveryFailed_def waveGate_def Let_def split: workload.splits if_splits prod.splits)

lemmas event_proper = event_makers [THEN events_proper]

text \<open>The pass: \<open>cfg_ScheduleLabel\<close> is the label of all its series.\<close>

lemma boundary_proper:
  assumes "boundary recorder cfg waves timeout w p = (hold, p1)" and "allProper N label (p_log p)"
  shows "allProper N label (p_log p1)"
  using assms by (auto simp: boundary_def Let_def event_proper split: if_splits prod.splits)

lemma note_proper:
  assumes "allProper N (cfg_ScheduleLabel cfg) (p_log p)"
  shows "allProper N (cfg_ScheduleLabel cfg) (p_log (noteResult recorder cfg waves w r p))"
    "allProper N (cfg_ScheduleLabel cfg) (p_log (noteFailure cfg w p))"
proof -
  show "allProper N (cfg_ScheduleLabel cfg) (p_log (noteFailure cfg w p))"
    using assms by (simp add: noteFailure_def usable_def)
  have "p_log (noteResult recorder cfg waves w r p) = p_log p \<or>
    (\<exists>op. p_log (noteResult recorder cfg waves w r p) = p_log p @
       [CounterInc ScalingOperationsTotal [cfg_ScheduleLabel cfg, workloadNamespace w, workloadType w, op],
        CounterInc ScalingWorkloadsProcessed [cfg_ScheduleLabel cfg, directionOf (cfg_ScaleUp cfg), ''success'']] @
       recordWorkloadEvent recorder w (cfg_ScheduleName cfg) (cfg_ScheduleKind cfg) (cfg_ScaleUp cfg) r)"
    by (cases "Skipped r") (auto simp: noteResult_def Let_def)
  then show "allProper N (cfg_ScheduleLabel cfg) (p_log (noteResult recorder cfg waves w r p))"
    using assms by (auto simp: usable_def event_proper)
qed

lemma visit_proper:
  assumes "visit c recorder cfg waves w p = (p1, ex)" and "allProper N (cfg_ScheduleLabel cfg) (p_log p)"
  shows "allProper N (cfg_ScheduleLabel cfg) (p_log p1)"
proof -
  obtain outcome w' hpas' s' where one: "scaleOne c (cfg_ScheduleName cfg) (cfg_ScaleUp cfg) w
      (p_hpas p (workloadNamespace w)) (p_state p) = (outcome, w', hpas', s')" by (rule prod_cases4)
  let ?p = "p\<lparr>p_hpas := (p_hpas p)(workloadNamespace w := hpas'), p_state := s', p_trace := p_trace p @ [(w, w', outcome)]\<rparr>"
  have p: "allProper N (cfg_ScheduleLabel cfg) (p_log ?p)" using assms(2) by simp
  have "p1 = (case outcome of Inl e \<Rightarrow> noteFailure cfg w ?p | Inr r \<Rightarrow> noteResult recorder cfg waves w' r ?p)"
    using assms(1) by (simp add: visit_def one Let_def split: sum.splits)
  with note_proper [OF p] show ?thesis by (simp split: sum.splits)
qed

lemma ends_proper:
  assumes "allProper N (cfg_ScheduleLabel cfg) (p_log p)"
  shows "endComplete cfg p = (r, err, q) \<Longrightarrow> allProper N (cfg_ScheduleLabel cfg) (p_log q)"
    "endHeld cfg nws p = (r, err, q) \<Longrightarrow> allProper N (cfg_ScheduleLabel cfg) (p_log q)"
    "endBatch cfg nws p = (r, err, q) \<Longrightarrow> allProper N (cfg_ScheduleLabel cfg) (p_log q)"
    "endCancelled e p = (r, err, q) \<Longrightarrow> allProper N (cfg_ScheduleLabel cfg) (p_log q)"
  using assms by (auto simp: endComplete_def endHeld_def endBatch_def endCancelled_def observeDuration_def
      countBatch_def usable_def)

lemma scaleLoop_proper:
  assumes "scaleLoop c recorder cfg waves timeout nws i ws p = (r, err, q)"
    and "allProper N (cfg_ScheduleLabel cfg) (p_log p)"
  shows "allProper N (cfg_ScheduleLabel cfg) (p_log q)"
  using assms
proof (induction ws arbitrary: i p)
  case (Cons w ws)
  obtain hold p1 where b: "boundary recorder cfg waves timeout w p = (hold, p1)" by fastforce
  obtain p2 ex where v: "visit c recorder cfg waves w p1 = (p2, ex)" by fastforce
  note p1 = boundary_proper [OF b Cons.prems(2)]
  note p2 = visit_proper [OF v p1]
  show ?case
  proof (cases "cl_cancelled c i (p_state p) = None \<and> \<not> hold \<and> \<not> (ex \<and> ws \<noteq> [])")
    case True
    then have "scaleLoop c recorder cfg waves timeout nws (Suc i) ws p2 = (r, err, q)"
      using Cons.prems(1) b v by auto
    from Cons.IH [OF this p2] show ?thesis .
  next
    case False
    then consider e where "endCancelled e p = (r, err, q)" | "endHeld cfg nws p1 = (r, err, q)" | "endBatch cfg nws p2 = (r, err, q)"
      using Cons.prems(1) b v by (cases "cl_cancelled c i (p_state p)"; cases hold) auto
    then show ?thesis
      using ends_proper(4) [OF Cons.prems(2)] ends_proper(2) [OF p1] ends_proper(3) [OF p2] by cases blast+
  qed
qed (auto intro: ends_proper(1))

lemma scaleWorkloads_proper:
  assumes "scaleWorkloads c core cfg recorder s = (r, err, obs, s')"
  shows "allProper N (cfg_ScheduleLabel cfg) obs"
proof (cases "collectWorkloads c (cfg_Namespaces cfg) core (cfg_ScheduleName cfg) (cfg_TransferOwnership cfg) s")
  case (Pair answer s1)
  show ?thesis
  proof (cases answer)
    case (Inl e)
    with assms Pair show ?thesis by (simp add: scaleWorkloads_def)
  next
    case (Inr collected)
    obtain res e q where run: "runPass c recorder core cfg collected s1 = (res, e, q)" by (rule prod_cases3)
    obtain waves timeout where "syncWaveSettings core = (waves, timeout)" by fastforce
    with run have "scaleLoop c recorder cfg waves timeout (int (length (orderedWorkloads cfg waves collected))) 0
        (orderedWorkloads cfg waves collected) (startPass c cfg waves (orderedWorkloads cfg waves collected) s1) = (res, e, q)"
      by (simp add: runPass_def Let_def)
    from scaleLoop_proper [OF this] have "allProper N (cfg_ScheduleLabel cfg) (p_log q)" by (simp add: startPass_def)
    with assms Pair Inr run show ?thesis by (simp add: scaleWorkloads_def)
  qed
qed

text \<open>The integrations. A schedule's label is an argument of those that count.\<close>

lemma scaleEach_proper:
  assumes "scaleEach scale failed done objs s = (t, obs, s')"
    and "\<And>obj e. allProper N label (failed obj e)" and "\<And>obj. allProper N label (done obj)"
  shows "allProper N label obs"
  using assms(1)
proof (induction objs arbitrary: s t obs s')
  case (Cons obj objs)
  obtain r obj' s1 where o: "scale obj s = (r, obj', s1)" by (rule prod_cases3)
  obtain t2 obs2 s2 where e: "scaleEach scale failed done objs s1 = (t2, obs2, s2)" by (rule prod_cases3)
  from Cons.IH [OF e] Cons.prems assms(2,3) o e show ?case by (auto split: sum.splits bool.splits)
qed simp

lemma cr_proper:
  "allProper N label (crFailed recorder obj label cfg reason note o1 e)" "allProper N label (crScaled label cfg operation o1)"
  "proper N label (managedCount label cfg n)"
  by (simp_all add: crFailed_def crScaled_def managedCount_def usable_def event_proper)

lemma downEntry_proper:
  assumes "downEntry jc api recorder obj sched label nss cfg s = (obs, s')"
  shows "allProper N label obs"
  using assms
  by (auto simp: downEntry_def event_proper cr_proper usable_def dest!: scaleEach_proper [OF _ cr_proper(1) cr_proper(2)]
      split: if_splits prod.splits option.splits sum.splits)

lemma upEntry_proper:
  assumes "upEntry jc api recorder obj sched label nss now cfg s = (t, obs, s')"
  shows "allProper N label obs"
  using assms
  by (auto simp: upEntry_def Let_def event_proper cr_proper dest!: scaleEach_proper [OF _ cr_proper(1) cr_proper(2)]
      split: if_splits prod.splits option.splits sum.splits)

lemma customResources_proper:
  "customResourcesDown jc api recorder obj sched label nss cfgs s = (obs, s') \<Longrightarrow> allProper N label obs"
  "customResourcesUp jc api recorder obj sched label nss now cfgs s = (t, obs, s') \<Longrightarrow> allProper N label obs"
proof -
  show "customResourcesDown jc api recorder obj sched label nss cfgs s = (obs, s') \<Longrightarrow> allProper N label obs"
    by (induction cfgs arbitrary: s obs s') (auto dest: downEntry_proper split: prod.splits)
  show "customResourcesUp jc api recorder obj sched label nss now cfgs s = (t, obs, s') \<Longrightarrow> allProper N label obs"
    by (induction cfgs arbitrary: s t obs s') (auto dest: upEntry_proper split: prod.splits)
qed

lemma crWarmup_events:
  "allEvents (pass_obs p) \<Longrightarrow> allEvents (pass_obs (crWarmupOne jc api recorder obj sched timeout now cfg o1 p))"
  "allEvents (pass_obs p) \<Longrightarrow> allEvents (pass_obs (crWarmupEntry jc api recorder obj sched timeout nss now cfg p))"
proof -
  show one: "allEvents (pass_obs p) \<Longrightarrow> allEvents (pass_obs (crWarmupOne jc api recorder obj sched timeout now cfg o1 p))" for o1 p
    by (auto simp: crWarmupOne_def Let_def event_makers split: sum.splits prod.splits option.splits)
  have "allEvents (pass_obs p) \<Longrightarrow> allEvents (pass_obs (fold (crWarmupOne jc api recorder obj sched timeout now cfg) objs p))" for objs p
    by (induction objs arbitrary: p) (simp_all add: one)
  then show "allEvents (pass_obs p) \<Longrightarrow> allEvents (pass_obs (crWarmupEntry jc api recorder obj sched timeout nss now cfg p))"
    by (auto simp: crWarmupEntry_def event_makers split: sum.splits)
qed

lemma handleCustomResourceWarmup_events:
  assumes "handleCustomResourceWarmup jc api recorder obj core sched nss now s = (t, obs, s')"
  shows "allEvents obs"
proof -
  have "allEvents (pass_obs p) \<Longrightarrow> allEvents (pass_obs (fold (crWarmupEntry jc api recorder obj sched timeout nss now) cfgs p))" for timeout cfgs p
    by (induction cfgs arbitrary: p) (simp_all add: crWarmup_events)
  with assms show ?thesis by (auto simp: handleCustomResourceWarmup_def Let_def)
qed

lemma gitops_events:
  "labelArgoCDAppsDown api recorder obj cfgA sched nss s = (apps, obs, s') \<Longrightarrow> allEvents obs"
  "handleArgoCDWarmup api recorder obj cfgA sched nss now s = (t, apps, obs, s') \<Longrightarrow> allEvents obs"
  "labelFluxResourcesDown api recorder obj cfgF sched nss s = (apps, obs, s') \<Longrightarrow> allEvents obs"
  "handleFluxCDWarmup api recorder obj cfgF sched nss now s = (t, apps, obs, s') \<Longrightarrow> allEvents obs"
  by (auto simp: labelArgoCDAppsDown_def handleArgoCDWarmup_def labelFluxResourcesDown_def handleFluxCDWarmup_def
      event_makers split: sum.splits prod.splits)

lemma integrations_proper:
  assumes "ic_ScheduleLabel cfg = label"
  shows "integrationsDown jc api recorder cfg s = (obs, s') \<Longrightarrow> allProper N label obs"
    "integrationsUp jc api recorder cfg now s = (t, obs, s') \<Longrightarrow> allProper N label obs"
    "integrationsWarmup api recorder cfg now s = (t, obs, s') \<Longrightarrow> allProper N label obs"
proof -
  have a: "argoDown api recorder cfg s = (obs, s') \<Longrightarrow> allProper N label obs" for s obs s'
    by (auto simp: argoDown_def dest!: gitops_events(1) intro: events_proper split: option.splits prod.splits)
  have f: "fluxDown api recorder cfg s = (obs, s') \<Longrightarrow> allProper N label obs" for s obs s'
    by (auto simp: fluxDown_def dest!: gitops_events(3) intro: events_proper split: option.splits prod.splits)
  show "integrationsDown jc api recorder cfg s = (obs, s') \<Longrightarrow> allProper N label obs"
    using assms by (auto simp: integrationsDown_def dest!: a f dest: customResources_proper(1) split: prod.splits if_splits)
  show "integrationsUp jc api recorder cfg now s = (t, obs, s') \<Longrightarrow> allProper N label obs"
    using assms by (auto simp: integrationsUp_def dest!: customResources_proper(2) handleCustomResourceWarmup_events
        intro: events_proper split: prod.splits if_splits bool.splits)
  have aw: "argoWarmup api recorder cfg now s = (t, obs, s') \<Longrightarrow> allProper N label obs" for s t obs s'
    by (auto simp: argoWarmup_def dest!: gitops_events(2) intro: events_proper split: option.splits prod.splits)
  have fw: "fluxWarmup api recorder cfg now s = (t, obs, s') \<Longrightarrow> allProper N label obs" for s t obs s'
    by (auto simp: fluxWarmup_def dest!: gitops_events(4) intro: events_proper split: option.splits prod.splits)
  show "integrationsWarmup api recorder cfg now s = (t, obs, s') \<Longrightarrow> allProper N label obs"
    by (auto simp: integrationsWarmup_def dest!: aw fw split: prod.splits)
qed

text \<open>The restore only records events.\<close>

lemma restore_events:
  assumes "restoreManagedWorkloads env core sched kindS nss now s = (errs, obs, s')"
  shows "allEvents obs"
proof -
  have w: "allEvents (re_obs p) \<Longrightarrow> allEvents (re_obs (restoreWorkload c recorder sched kindS kind ns w p))" for c recorder kind ns w p
    by (auto simp: restoreWorkload_def Let_def event_makers split: prod.splits sum.splits)
  have ws: "allEvents (re_obs p) \<Longrightarrow> allEvents (re_obs (fold (restoreWorkload c recorder sched kindS kind ns) ws p))" for c recorder kind ns ws p
    by (induction ws arbitrary: p) (simp_all add: w)
  have k: "allEvents (re_obs p) \<Longrightarrow> allEvents (re_obs (restoreKind c recorder sched kindS kind kinds ns answer p))" for c recorder kind kinds ns answer p
    by (auto simp: restoreKind_def Let_def ws split: sum.splits)
  have n: "allEvents (re_obs p) \<Longrightarrow> allEvents (re_obs (restoreNamespace env sched kindS ns p))" for ns p
    unfolding restoreNamespace_def Let_def by (intro k) simp
  have "allEvents (re_obs p) \<Longrightarrow> allEvents (re_obs (fold (restoreNamespace env sched kindS) nss p))" for nss p
    by (induction nss arbitrary: p) (simp_all add: n)
  then have "allEvents (re_obs (restorePass env sched kindS nss s))" by (simp add: restorePass_def)
  with assms show ?thesis by (auto simp: restoreManagedWorkloads_def Let_def split: if_splits prod.splits)
qed

section \<open>A reconcile\<close>

lemma scalePhase_proper:
  assumes "scalePhase env core integrations cfg now s = (r, obs, s')" and "ic_ScheduleLabel integrations = cfg_ScheduleLabel cfg"
  shows "allProper N (cfg_ScheduleLabel cfg) obs"
  using assms integrations_proper(1,2) [OF assms(2)]
  by (auto simp: scalePhase_def dest!: scaleWorkloads_proper split: prod.splits bool.splits option.splits if_splits)

text \<open>The report of a termination check is about the namespaces it was asked for.\<close>

lemma countPods_keys:
  "dom (map_of (StuckByNamespace (fold (countPod ns now) pods report))) \<subseteq> insert ns (dom (map_of (StuckByNamespace report)))"
proof (induction pods arbitrary: report)
  case (Cons p pods)
  have "dom (map_of (StuckByNamespace (countPod ns now p report))) \<subseteq> insert ns (dom (map_of (StuckByNamespace report)))"
    by (simp add: countPod_eq) blast
  with Cons.IH [of "countPod ns now p report"] show ?case by auto
qed (simp add: subset_insertI)

lemma countNamespaces_keys:
  "countNamespaces listPods nss now s report = (report', e) \<Longrightarrow>
   dom (map_of (StuckByNamespace report')) \<subseteq> dom (map_of (StuckByNamespace report)) \<union> set nss"
proof (induction nss arbitrary: report)
  case (Cons ns nss)
  let ?r = "report\<lparr>StuckByNamespace := objSet ns 0 (StuckByNamespace report)\<rparr>"
  have r: "dom (map_of (StuckByNamespace ?r)) = insert ns (dom (map_of (StuckByNamespace report)))" by simp
  show ?case
  proof (cases "listPods ns s")
    case (Inl e)
    with Cons.prems have "report' = ?r" by (simp add: Let_def)
    show ?thesis unfolding \<open>report' = ?r\<close> r by auto
  next
    case (Inr pods)
    with Cons.prems have "countNamespaces listPods nss now s (fold (countPod ns now) pods ?r) = (report', e)"
      by (simp add: Let_def)
    from Cons.IH [OF this] countPods_keys [of ns now pods ?r] r show ?thesis by auto
  qed
qed simp

lemma countTerminatingPods_keys:
  assumes "countTerminatingPods listPods nss now s = (report, e)"
  shows "fst ` set (StuckByNamespace report) \<subseteq> set nss"
proof -
  obtain report1 e1 where run: "countNamespaces listPods nss now s
      \<lparr>Terminating = 0, Stuck = 0, StuckByNamespace = [], StuckNames = []\<rparr> = (report1, e1)" by fastforce
  with assms have "StuckByNamespace report = StuckByNamespace report1"
    by (auto simp: countTerminatingPods_def split: option.splits)
  with countNamespaces_keys [OF run] show ?thesis by (simp add: dom_map_of_conv_image_fst)
qed

lemma checkTermination_proper:
  assumes "checkTermination api recorder obj label nss up now s = (report, obs)" and "set nss \<subseteq> N"
  shows "allProper N label obs"
proof -
  have g: "set (map fst stuck) \<subseteq> N \<Longrightarrow> allProper N label (map (\<lambda>(ns, count). GaugeSet StuckTerminatingPods [label, ns] count) stuck)"
    for stuck by (induction stuck) (auto simp: usable_def)
  have r: "allProper N label (reportStuckTerminatingPods recorder (Some obj) label t)"
    if "fst ` set (StuckByNamespace t) \<subseteq> N" for t
    using that g [of "StuckByNamespace t"]
    by (auto simp: reportStuckTerminatingPods_def Let_def split: bool.splits)
  have c: "set nss \<subseteq> N \<Longrightarrow> allProper N label (clearStuckTerminatingPods label nss)"
    by (induction nss) (auto simp: clearStuckTerminatingPods_def usable_def)
  show ?thesis
    using assms c r countTerminatingPods_keys
    by (fastforce simp: checkTermination_def split: if_splits prod.splits option.splits)
qed

lemma scheduleMetrics_proper: "allProper N label (scheduleMetrics label warming status)"
  by (simp add: scheduleMetrics_def Let_def usable_def)

lemma runSchedule_proper:
  assumes "runSchedule env st k core schedule nss period now s = (r, obs, s')" and "set nss \<subseteq> N"
  shows "allProper N (sk_Label k) obs"
proof -
  let ?up = "State period = ''Up''"
  let ?int = "\<lparr>ic_ScheduleObj = sk_Ref k, ic_Core = core, ic_ScheduleName = sc_Name schedule,
                          ic_ScheduleLabel = sk_Label k, ic_Namespaces = nss\<rparr>"
  let ?cfg = "scaleConfig k (sc_Name schedule) nss ?up (if ?up then UpscaleRateLimit core else DownscaleRateLimit core)
                  (carriedWaveProgress (sc_Status schedule) period) now"
  obtain res obs1 s1 where sp: "scalePhase env core ?int ?cfg now s = (res, obs1, s1)" by (rule prod_cases3)
  have l: "cfg_ScheduleLabel ?cfg = sk_Label k" by (simp add: scaleConfig_def)
  have 1: "allProper N (sk_Label k) obs1" using scalePhase_proper [OF sp] unfolding l by simp
  show ?thesis
  proof (cases res)
    case (Inl e)
    with assms sp 1 show ?thesis by (simp add: runSchedule_def Let_def)
  next
    case (Inr ok)
    obtain later result where ok: "ok = (later, result)" by fastforce
    obtain warming obs2 s2 where w: "warmupPhase env ?int ?up later result now s1 = (warming, obs2, s2)" by (rule prod_cases3)
    have 2: "allProper N (sk_Label k) obs2"
      using w integrations_proper(3) [of ?int "sk_Label k" "e_api env" "e_recorder env" now s1 _ obs2 s2]
      by (cases "warmupMayStart ?up later result") (auto simp: warmupPhase_def Let_def split: prod.splits)
    obtain t obs3 where t: "checkTermination (e_api env) (e_recorder env) (sk_Ref k) (sk_Label k) nss ?up now s2 = (t, obs3)"
      by fastforce
    note 3 = checkTermination_proper [OF t assms(2)]
    have "obs = obs1 @ obs2 @ obs3 \<or> (\<exists>status. obs = obs1 @ obs2 @ obs3 @
        (if later then [] else recordScalingEvents (e_recorder env) (sk_Ref k) ?up (r_stats result) nss) @
        scheduleMetrics (sk_Label k) warming status)"
      using assms(1) sp Inr ok w t unfolding runSchedule_def Let_def by (auto split: prod.splits option.splits)
    with 1 2 3 show ?thesis by (auto simp: event_proper scheduleMetrics_proper)
  qed
qed

lemma cleanup_proper:
  assumes "cleanup env st k core schedule nss now s = (r, obs, s')"
  shows "allProper UNIV (sk_Label k) obs"
proof -
  obtain errs o1 s1 where rm: "restoreManagedWorkloads env core (sc_Name schedule) (kindName k) nss now s = (errs, o1, s1)"
    by (rule prod_cases3)
  note e = events_proper [OF restore_events [OF rm], of UNIV "sk_Label k"]
  have "allProper UNIV (sk_Label k) (clearScheduleMetrics (sk_Label k))"
    by (simp add: clearScheduleMetrics_def scheduleSeries_def)
  with e assms rm show ?thesis by (auto simp: cleanup_def split: if_splits prod.splits)
qed

lemma released_events:
  assumes "releaseOrphanedNamespaces env core sched targets now s = (obs, s')"
  shows "allEvents obs"
  using assms restore_events by (fastforce simp: releaseOrphanedNamespaces_def split: sum.splits if_splits prod.splits)

lemma handleDeletion_proper:
  assumes "handleDeletion env st schedule now s = (r, obs, s')"
  shows "allProper UNIV (sc_Name schedule) obs"
  using assms cleanup_proper [where k = "globalKind schedule"]
  by (auto simp: handleDeletion_def Let_def globalKind_def split: sum.splits)

lemma ReconcileActive_proper:
  assumes run: "ReconcileActive env st schedule now cache s = (r, obs, cache', s')"
    and targets: "\<And>nss. DiscoverNamespaces (cl_selectors (e_cluster env)) (e_listNamespaces env) (sc_Spec schedule) s = Inr nss \<Longrightarrow>
      set nss \<subseteq> N"
  shows "allProper N (sc_Name schedule) obs"
proof -
  let ?core = "Core (sc_Spec schedule)"
  obtain answer cache1 where period:
    "CalculatePeriod (e_cron env) cache (Upscale ?core) (Downscale ?core) (timezoneOf ?core) now = (answer, cache1)" by fastforce
  show ?thesis
  proof (cases answer)
    case (Inl e)
    with run period show ?thesis by (simp add: ReconcileActive_def Let_def)
  next
    case (Inr p)
    note p = period [unfolded Inr]
    show ?thesis
    proof (cases "DiscoverNamespaces (cl_selectors (e_cluster env)) (e_listNamespaces env) (sc_Spec schedule) s")
      case (Inl e)
      with run p show ?thesis by (simp add: ReconcileActive_def Let_def)
    next
      case (Inr nss)
      obtain obs1 s1 where rel: "releaseOrphanedNamespaces env ?core (sc_Name schedule) nss now s = (obs1, s1)" by fastforce
      note e = events_proper [OF released_events [OF rel], of N "sc_Name schedule"]
      show ?thesis
      proof (cases "FilterNamespacesWithLocalSchedules (e_listLocal env) nss s1")
        case (Inl e')
        with run p Inr rel e show ?thesis by (simp add: ReconcileActive_def Let_def)
      next
        case kept: (Inr nss')
        have sub: "set nss' \<subseteq> N"
          using FilterNamespaces_subset [OF kept] targets [OF Inr] by blast
        obtain r2 obs2 s2 where rs: "runSchedule env st (globalKind schedule) ?core schedule nss' p now s1 = (r2, obs2, s2)"
          by (rule prod_cases3)
        from runSchedule_proper [OF rs sub] have "allProper N (sc_Name schedule) obs2" by (simp add: globalKind_def)
        moreover have "obs = obs1 @ obs2" using run by (simp add: ReconcileActive_def Let_def p Inr rel kept rs)
        ultimately show ?thesis using e by simp
      qed
    qed
  qed
qed

lemma Reconcile_proper:
  assumes "Reconcile env st key now cache s = (r, obs, cache', s')" and "get_schedule st key s = Inr schedule"
  shows "allProper UNIV (sc_Name schedule) obs"
  using assms
  by (auto simp: Reconcile_def dest!: handleDeletion_proper ReconcileActive_proper [where N = UNIV, OF _ subset_UNIV]
      split: if_splits prod.splits option.splits)

lemma ReconcileNamespaceActive_proper:
  assumes "ReconcileNamespaceActive env st schedule now cache s = (r, obs, cache', s')"
  shows "allProper {sc_Namespace schedule} (sk_Label (localKind schedule)) obs"
  using assms
  by (auto simp: ReconcileNamespaceActive_def Let_def dest!: runSchedule_proper [where N = "{sc_Namespace schedule}"]
     split: prod.splits sum.splits)

lemma proper_mono: "allProper N label obs \<Longrightarrow> allProper UNIV label obs"
proof (erule list.pred_mono_strong)
  show "proper N label x \<Longrightarrow> proper UNIV label x" for x by (simp add: proper_def)
qed

lemma ReconcileNamespace_proper:
  assumes "ReconcileNamespace env st key now cache s = (r, obs, cache', s')" and "get_schedule st key s = Inr schedule"
  shows "allProper UNIV (sk_Label (localKind schedule)) obs"
  using assms
  by (auto simp: ReconcileNamespace_def handleNamespaceDeletion_def dest!: cleanup_proper ReconcileNamespaceActive_proper
      intro: proper_mono split: if_splits prod.splits option.splits)

text \<open>The deletion leaves nothing behind.\<close>

definition noneOf :: "('m \<Rightarrow> collector \<Rightarrow> string list \<Rightarrow> int option) \<Rightarrow> string \<Rightarrow> collector set \<Rightarrow> 'm \<Rightarrow> bool" where
  "noneOf series label C m \<longleftrightarrow> (\<forall>c \<in> C. \<forall>values. ofSchedule c label values \<longrightarrow> series m c values = None)"

lemma callAll_dropped:
  assumes law: "prometheusLaw call series"
  shows "noneOf series label C m \<Longrightarrow> callAll call (map (\<lambda>c. SeriesDropped c label) cs) m = Some m' \<Longrightarrow>
    noneOf series label (C \<union> set cs) m'"
proof (induction cs arbitrary: m C)
  case (Cons c cs)
  obtain m1 where m1: "call (SeriesDropped c label) m = Some m1"
      "\<forall>c' values. \<not> touches (SeriesDropped c label) c' values \<longrightarrow> series m1 c' values = series m c' values"
    using law wellCalled.simps(6) unfolding prometheusLaw_def by blast
  have "\<forall>values. ofSchedule c label values \<longrightarrow> series m1 c values = None"
    using law m1(1) unfolding prometheusLaw_def by blast
  with m1(2) Cons.prems(1) have "noneOf series label (insert c C) m1"
    unfolding noneOf_def touches.simps by (metis insert_iff)
  moreover have "callAll call (map (\<lambda>c. SeriesDropped c label) cs) m1 = Some m'" using Cons.prems(2) m1(1) by simp
  ultimately show ?case using Cons.IH [of "insert c C" m1] by simp
qed simp

lemma scheduleSeries_all: "set scheduleSeries = UNIV"
  unfolding registered_UNIV [symmetric] by (auto simp: scheduleSeries_def registered_def)

lemma cleanup_series:
  assumes law: "prometheusLaw call series" and run: "cleanup env st k core schedule nss now s = (Inr 0, obs, s')"
  shows "\<exists>m'. callAll call obs m = Some m' \<and> sameElsewhere series (sk_Label k) m m' \<and> noneOf series (sk_Label k) UNIV m'"
proof -
  obtain errs o1 s1 where rm: "restoreManagedWorkloads env core (sc_Name schedule) (kindName k) nss now s = (errs, o1, s1)"
    by (rule prod_cases3)
  obtain o2 where obs: "obs = o2 @ clearScheduleMetrics (sk_Label k)"
    using run rm by (auto simp: cleanup_def second_def split: if_splits prod.splits option.splits)
  from proper_callAll [OF law cleanup_proper [OF run], of m] obtain m' where
    m': "callAll call obs m = Some m'" "sameElsewhere series (sk_Label k) m m'" by blast
  then obtain m1 where "callAll call (clearScheduleMetrics (sk_Label k)) m1 = Some m'"
    unfolding obs callAll_append by (auto split: option.splits)
  with callAll_dropped [OF law, of "sk_Label k" "{}" m1 scheduleSeries m'] have "noneOf series (sk_Label k) UNIV m'"
    by (simp add: clearScheduleMetrics_def scheduleSeries_all noneOf_def)
  with m' show ?thesis by blast
qed

section \<open>Properties\<close>

text \<open>
  C16: Whatever a reconcile meets, each call it makes on a collector is in order: the right number
  of label values, and no counter that goes down, either of which panics. The only series that it
  changes or drops are those of its own schedule, whose label is the name for a cluster schedule
  and namespace and name for a namespace schedule.
\<close>

theorem metrics_never_panic:
  assumes "prometheusLaw call series"
    and "get_schedule st key s = Inr schedule" and "Reconcile env st key now cache s = (r, obs, cache1, s1)"
    and "get_schedule stN keyN s = Inr local" and "ReconcileNamespace env stN keyN now cache s = (rN, obsN, cache2, s2)"
  shows "(\<exists>m'. callAll call obs m = Some m' \<and> sameElsewhere series (sc_Name schedule) m m') \<and>
    (\<exists>m'. callAll call obsN m = Some m' \<and>
       sameElsewhere series (sc_Namespace local @ ''/'' @ sc_Name local) m m')"
proof -
  have "sk_Label (localKind local) = sc_Namespace local @ ''/'' @ sc_Name local" by (simp add: localKind_def)
  with proper_callAll [OF assms(1) Reconcile_proper [OF assms(3,2)], of m]
    proper_callAll [OF assms(1) ReconcileNamespace_proper [OF assms(5,4)], of m]
  show ?thesis by auto
qed

text \<open>
  C12: A deletion that goes through leaves no series of its schedule in any collector of the
  registry, and leaves every other series as it was.
\<close>

theorem deletion_leaves_no_series:
  assumes "prometheusLaw call series" and "handleDeletion env st schedule now s = (Inr 0, obs, s')"
  shows "\<exists>m'. callAll call obs m = Some m' \<and>
    (\<forall>c values. series m' c values = (if ofSchedule c (sc_Name schedule) values then None else series m c values))"
proof -
  obtain nss where "cleanup env st (globalKind schedule) (Core (sc_Spec schedule)) schedule nss now s = (Inr 0, obs, s')"
    using assms(2) by (auto simp: handleDeletion_def Let_def split: sum.splits)
  from cleanup_series [OF assms(1) this, of m] show ?thesis
    by (auto simp: globalKind_def sameElsewhere_def noneOf_def)
qed

text \<open>
  A namespace that the selectors no longer name is given back by the next reconcile, but its
  count of stuck pods is not: no reconcile sets it again, and it keeps alerting.
\<close>

theorem released_namespace_keeps_alerting:
  assumes "prometheusLaw call series"
    and "get_schedule st key s = Inr schedule" and "FinalizerName \<in> sc_Finalizers schedule"
    and "sc_DeletionTimestamp schedule = None"
    and "DiscoverNamespaces (cl_selectors (e_cluster env)) (e_listNamespaces env) (sc_Spec schedule) s = Inr nss"
    and "ns \<notin> set nss" and "Reconcile env st key now cache s = (r, obs, cache', s')"
  shows "\<exists>m'. callAll call obs m = Some m' \<and>
    series m' StuckTerminatingPods [sc_Name schedule, ns] = series m StuckTerminatingPods [sc_Name schedule, ns]"
proof -
  have "allProper (set nss) (sc_Name schedule) obs"
  proof (cases "Suspend (Core (sc_Spec schedule))")
    case True
    with assms show ?thesis by (simp add: Reconcile_def)
  next
    case False
    with assms have "ReconcileActive env st schedule now cache s = (r, obs, cache', s')" by (simp add: Reconcile_def)
    from ReconcileActive_proper [OF this] assms(5) show ?thesis by auto
  qed
  from proper_callAll [OF assms(1) this, of m] assms(6) show ?thesis by blast
qed

section \<open>Witnesses\<close>

text \<open>A client that keeps the series in a function; \<open>clock\<close> is what a gauge set from the clock shows.\<close>

type_synonym registry = "collector \<Rightarrow> string list \<Rightarrow> int option"

definition putSeries :: "registry \<Rightarrow> collector \<Rightarrow> string list \<Rightarrow> (int \<Rightarrow> int) \<Rightarrow> registry" where
  "putSeries reg c values f = reg(c := (reg c)(values \<mapsto> f (case reg c values of None \<Rightarrow> 0 | Some n \<Rightarrow> n)))"

fun observe :: "int \<Rightarrow> observation \<Rightarrow> registry \<Rightarrow> registry option" where
  "observe clock (CounterInc c values) reg =
     (if usable CounterVec c values then Some (putSeries reg c values (\<lambda>n. n + 1)) else None)"
| "observe clock (CounterAdd c values k) reg =
     (if usable CounterVec c values \<and> 0 \<le> k then Some (putSeries reg c values (\<lambda>n. n + k)) else None)"
| "observe clock (GaugeSet c values k) reg =
     (if usable GaugeVec c values then Some (putSeries reg c values (\<lambda>n. k)) else None)"
| "observe clock (GaugeClock c values) reg =
     (if usable GaugeVec c values then Some (putSeries reg c values (\<lambda>n. clock)) else None)"
| "observe clock (HistogramObserve c values) reg =
     (if usable HistogramVec c values then Some (putSeries reg c values (\<lambda>n. n + 1)) else None)"
| "observe clock (SeriesDropped c label) reg =
     Some (reg(c := (\<lambda>values. if ofSchedule c label values then None else reg c values)))"
| "observe clock (EventRecorded obj ty reason action note) reg = Some reg"

lemma observe_law: "prometheusLaw (observe clock) (\<lambda>reg. reg)"
proof -
  have "wellCalled x \<Longrightarrow>
      \<exists>m'. observe clock x m = Some m' \<and> (\<forall>c values. \<not> touches x c values \<longrightarrow> m' c values = m c values)" for x m
    by (cases x) (auto simp: putSeries_def)
  moreover have "observe clock (SeriesDropped c label) m = Some m' \<Longrightarrow> ofSchedule c label vs \<Longrightarrow> m' c vs = None"
    for c label m m' vs by auto
  ultimately show ?thesis unfolding prometheusLaw_def by blast
qed

theorem metrics_never_panic_witness:
  "\<exists>r obs c s' reg'. Reconcile sampleEnv (sampleStore\<lparr>get_schedule := (\<lambda>key s. Inr (nightSchedule (shopSpec None)))\<rparr>)
       ([], ''night'') 0 morningCache () = (r, obs, c, s') \<and>
     callAll (observe 0) obs (\<lambda>c values. None) = Some reg' \<and> reg' ScheduleState [''day''] = None"
proof -
  let ?st = "sampleStore\<lparr>get_schedule := (\<lambda>key s. Inr (nightSchedule (shopSpec None)))\<rparr>"
  let ?stN = "sampleStore\<lparr>get_schedule := (\<lambda>key s. Inr (nightSchedule emptyCore))\<rparr>"
  obtain r obs c s' where run: "Reconcile sampleEnv ?st ([], ''night'') 0 morningCache () = (r, obs, c, s')"
    by (rule prod_cases4)
  obtain rN obsN cN sN where runN: "ReconcileNamespace sampleEnv ?stN (''shop'', ''night'') 0 morningCache () = (rN, obsN, cN, sN)"
    by (rule prod_cases4)
  have get: "get_schedule ?st ([], ''night'') () = Inr (nightSchedule (shopSpec None))"
    "get_schedule ?stN (''shop'', ''night'') () = Inr (nightSchedule emptyCore)" by simp_all
  have "\<not> ofSchedule ScheduleState ''night'' [''day'']" by (simp add: ofSchedule_def labelSchedule_def)
  with metrics_never_panic [OF observe_law get(1) run get(2) runN, of 0 "\<lambda>c values. None"] run show ?thesis
    by (auto simp: sameElsewhere_def nightSchedule_def)
qed

theorem deletion_leaves_no_series_witness:
  "\<exists>obs s' reg'. handleDeletion sampleEnv sampleStore (nightSchedule (shopSpec None)) 0 () = (Inr 0, obs, s') \<and>
     callAll (observe 0) obs (\<lambda>c values. Some 1) = Some reg' \<and>
     reg' ScheduleState [''night''] = None \<and> reg' ScheduleState [''day''] = Some 1"
proof -
  let ?sc = "nightSchedule (shopSpec None)"
  have "fst (handleDeletion sampleEnv sampleStore ?sc 0 ()) = Inr 0" by code_simp
  then obtain obs s' where run: "handleDeletion sampleEnv sampleStore ?sc 0 () = (Inr 0, obs, s')"
    by (metis prod.collapse)
  have "\<not> ofSchedule ScheduleState ''night'' [''day'']" "ofSchedule ScheduleState ''night'' [''night'']"
    by (simp_all add: ofSchedule_def labelSchedule_def)
  with deletion_leaves_no_series [OF observe_law run, of 0 "\<lambda>c values. Some 1"] run show ?thesis
    by (auto simp: nightSchedule_def)
qed

theorem released_namespace_keeps_alerting_witness:
  "\<exists>r obs c s' reg'. Reconcile sampleEnv (sampleStore\<lparr>get_schedule := (\<lambda>key s. Inr (nightSchedule (shopSpec None)))\<rparr>)
       ([], ''night'') 0 morningCache () = (r, obs, c, s') \<and>
     callAll (observe 0) obs (\<lambda>c values. if values = [''night'', ''lab''] then Some 3 else None) = Some reg' \<and>
     reg' StuckTerminatingPods [''night'', ''lab''] = Some 3"
proof -
  let ?sc = "nightSchedule (shopSpec None)"
  let ?st = "sampleStore\<lparr>get_schedule := (\<lambda>key s. Inr ?sc)\<rparr>"
  obtain r obs c s' where run: "Reconcile sampleEnv ?st ([], ''night'') 0 morningCache () = (r, obs, c, s')"
    by (rule prod_cases4)
  have get: "get_schedule ?st ([], ''night'') () = Inr ?sc" by simp
  have sc: "FinalizerName \<in> sc_Finalizers ?sc" "sc_DeletionTimestamp ?sc = None" by (simp_all add: nightSchedule_def)
  have disc: "DiscoverNamespaces (cl_selectors (e_cluster sampleEnv)) (e_listNamespaces sampleEnv) (sc_Spec ?sc) () = Inr [''shop'']"
    by (simp add: DiscoverNamespaces_def selectedNamespaces_def nightSchedule_def shopSpec_def SystemNamespaces_def)
  have "''lab'' \<notin> set [''shop'']" by simp
  from released_namespace_keeps_alerting [OF observe_law get sc disc this run, of 0 "\<lambda>c values. if values = [''night'', ''lab''] then Some 3 else None"]
    run show ?thesis by (simp add: nightSchedule_def)
qed

end
