(* ===== verification/Manager.thy ===== *)
theory Manager
  imports Prelude
begin

text \<open>
  The manager, \<^verbatim>\<open>cmd/main.go\<close>, and the set-up of its controllers and webhooks: command line,
  server options and the order in which everything is registered. The controller library is
  not part of the repository: the model says which of its calls are made, with what, and
  \<open>answer\<close> says which of them fail. The arguments are those the Helm chart of the repository passes.
\<close>

section \<open>The command line\<close>

record managerFlags =
  MetricsAddr :: string
  ProbeAddr :: string
  EnableLeaderElection :: bool
  SecureMetrics :: bool
  WebhookCertPath :: string
  WebhookCertName :: string
  WebhookCertKey :: string
  MetricsCertPath :: string
  MetricsCertName :: string
  MetricsCertKey :: string
  EnableHTTP2 :: bool
  EnableNamespaceSchedules :: bool

definition defaultFlags :: managerFlags where
  "defaultFlags =
     \<lparr>MetricsAddr = ''0'', ProbeAddr = '':8081'', EnableLeaderElection = False, SecureMetrics = True,
      WebhookCertPath = '''', WebhookCertName = ''tls.crt'', WebhookCertKey = ''tls.key'',
      MetricsCertPath = '''', MetricsCertName = ''tls.crt'', MetricsCertKey = ''tls.key'',
      EnableHTTP2 = False, EnableNamespaceSchedules = True\<rparr>"

definition stringFlags :: "(string \<times> (string \<Rightarrow> managerFlags \<Rightarrow> managerFlags)) list" where
  "stringFlags =
     [(''metrics-bind-address'', \<lambda>v f. f\<lparr>MetricsAddr := v\<rparr>),
      (''health-probe-bind-address'', \<lambda>v f. f\<lparr>ProbeAddr := v\<rparr>),
      (''webhook-cert-path'', \<lambda>v f. f\<lparr>WebhookCertPath := v\<rparr>),
      (''webhook-cert-name'', \<lambda>v f. f\<lparr>WebhookCertName := v\<rparr>),
      (''webhook-cert-key'', \<lambda>v f. f\<lparr>WebhookCertKey := v\<rparr>),
      (''metrics-cert-path'', \<lambda>v f. f\<lparr>MetricsCertPath := v\<rparr>),
      (''metrics-cert-name'', \<lambda>v f. f\<lparr>MetricsCertName := v\<rparr>),
      (''metrics-cert-key'', \<lambda>v f. f\<lparr>MetricsCertKey := v\<rparr>)]"

definition boolFlags :: "(string \<times> (bool \<Rightarrow> managerFlags \<Rightarrow> managerFlags)) list" where
  "boolFlags =
     [(''leader-elect'', \<lambda>v f. f\<lparr>EnableLeaderElection := v\<rparr>),
      (''metrics-secure'', \<lambda>v f. f\<lparr>SecureMetrics := v\<rparr>),
      (''enable-http2'', \<lambda>v f. f\<lparr>EnableHTTP2 := v\<rparr>),
      (''enable-namespace-schedules'', \<lambda>v f. f\<lparr>EnableNamespaceSchedules := v\<rparr>)]"

text \<open>
  The flags that libraries add to the command line: whether such a flag is a boolean one, and
  the values it accepts.
\<close>

type_synonym libraryFlags = "string \<Rightarrow> (bool \<times> (string \<Rightarrow> bool)) option"

definition parseBool :: "string \<Rightarrow> bool option" where
  "parseBool v =
     (if v \<in> set [''1'', ''t'', ''T'', ''TRUE'', ''true'', ''True''] then Some True
      else if v \<in> set [''0'', ''f'', ''F'', ''FALSE'', ''false'', ''False''] then Some False
      else None)"

text \<open>Whether a flag is defined, and then whether it is a boolean one.\<close>

definition flagKind :: "libraryFlags \<Rightarrow> string \<Rightarrow> bool option" where
  "flagKind lib name =
     (if map_of boolFlags name \<noteq> None then Some True
      else if map_of stringFlags name \<noteq> None then Some False
      else map_option fst (lib name))"

definition setFlag :: "libraryFlags \<Rightarrow> string \<Rightarrow> string \<Rightarrow> managerFlags \<Rightarrow> managerFlags option" where
  "setFlag lib name v f =
     (case map_of boolFlags name of
        Some upd \<Rightarrow> map_option (\<lambda>b. upd b f) (parseBool v)
      | None \<Rightarrow>
          (case map_of stringFlags name of
             Some upd \<Rightarrow> Some (upd v f)
           | None \<Rightarrow>
               (case lib name of
                  Some (isBool, accepts) \<Rightarrow> if accepts v then Some f else None
                | None \<Rightarrow> None)))"

text \<open>An argument: not a flag, the end of the flags, badly formed, or a name with a value or without.\<close>

datatype argument = Positional | Terminator | BadSyntax | Flag string "string option"

definition splitFlag :: "string \<Rightarrow> argument" where
  "splitFlag name =
     (if name = [] \<or> hd name = CHR ''-'' \<or> hd name = CHR ''='' then BadSyntax
      else
        (case dropWhile (\<lambda>c. c \<noteq> CHR ''='') name of
           [] \<Rightarrow> Flag name None
         | _ # v \<Rightarrow> Flag (takeWhile (\<lambda>c. c \<noteq> CHR ''='') name) (Some v)))"

definition readArgument :: "string \<Rightarrow> argument" where
  "readArgument s =
     (case s of
        c # d # rest \<Rightarrow>
          if c \<noteq> CHR ''-'' then Positional
          else if d = CHR ''-'' then (if rest = [] then Terminator else splitFlag rest)
          else splitFlag (d # rest)
      | _ \<Rightarrow> Positional)"

text \<open>\<^verbatim>\<open>flag.Parse\<close>. The error is the exit status: 0 for a request for help, 2 otherwise.\<close>

fun parseFlags :: "libraryFlags \<Rightarrow> string list \<Rightarrow> managerFlags \<Rightarrow> nat + managerFlags" where
  "parseFlags lib [] f = Inr f"
| "parseFlags lib (s # args) f =
     (case readArgument s of
        Positional \<Rightarrow> Inr f
      | Terminator \<Rightarrow> Inr f
      | BadSyntax \<Rightarrow> Inl 2
      | Flag name given \<Rightarrow>
          (case flagKind lib name of
             None \<Rightarrow> Inl (if name = ''help'' \<or> name = ''h'' then 0 else 2)
           | Some True \<Rightarrow>
               (case setFlag lib name (case given of None \<Rightarrow> ''true'' | Some v \<Rightarrow> v) f of
                  None \<Rightarrow> Inl 2
                | Some f' \<Rightarrow> parseFlags lib args f')
           | Some False \<Rightarrow>
               (case (given, args) of
                  (Some v, _) \<Rightarrow>
                    (case setFlag lib name v f of None \<Rightarrow> Inl 2 | Some f' \<Rightarrow> parseFlags lib args f')
                | (None, v # args') \<Rightarrow>
                    (case setFlag lib name v f of None \<Rightarrow> Inl 2 | Some f' \<Rightarrow> parseFlags lib args' f')
                | (None, []) \<Rightarrow> Inl 2)))"

section \<open>The servers\<close>

text \<open>The one change the program makes to a TLS configuration.\<close>

datatype tlsOption = DisableHTTP2

fun applyTLS :: "tlsOption \<Rightarrow> string list \<Rightarrow> string list" where
  "applyTLS DisableHTTP2 nextProtos = [''http/1.1'']"

record webhookOptions =
  wo_TLSOpts :: "tlsOption list"
  wo_CertDir :: string
  wo_CertName :: string
  wo_KeyName :: string

record metricsOptions =
  mo_BindAddress :: string
  mo_SecureServing :: bool
  mo_TLSOpts :: "tlsOption list"
  mo_FilterProvider :: bool
  mo_CertDir :: string
  mo_CertName :: string
  mo_KeyName :: string

record managerOptions =
  Metrics :: metricsOptions
  WebhookServer :: webhookOptions
  HealthProbeBindAddress :: string
  LeaderElection :: bool
  LeaderElectionID :: string
  CacheDisableFor :: "string list"

definition tlsOpts :: "managerFlags \<Rightarrow> tlsOption list" where
  "tlsOpts f = (if \<not> EnableHTTP2 f then [DisableHTTP2] else [])"

definition webhookServerOptions :: "managerFlags \<Rightarrow> webhookOptions" where
  "webhookServerOptions f =
     (if WebhookCertPath f \<noteq> [] then
        \<lparr>wo_TLSOpts = tlsOpts f, wo_CertDir = WebhookCertPath f, wo_CertName = WebhookCertName f, wo_KeyName = WebhookCertKey f\<rparr>
      else \<lparr>wo_TLSOpts = tlsOpts f, wo_CertDir = [], wo_CertName = [], wo_KeyName = []\<rparr>)"

definition metricsServerOptions :: "managerFlags \<Rightarrow> metricsOptions" where
  "metricsServerOptions f =
     (let opts = \<lparr>mo_BindAddress = MetricsAddr f, mo_SecureServing = SecureMetrics f, mo_TLSOpts = tlsOpts f,
                  mo_FilterProvider = False, mo_CertDir = [], mo_CertName = [], mo_KeyName = []\<rparr>;
          opts = (if SecureMetrics f then opts\<lparr>mo_FilterProvider := True\<rparr> else opts)
      in if MetricsCertPath f \<noteq> [] then
           opts\<lparr>mo_CertDir := MetricsCertPath f, mo_CertName := MetricsCertName f, mo_KeyName := MetricsCertKey f\<rparr>
         else opts)"

definition managerOptionsOf :: "managerFlags \<Rightarrow> managerOptions" where
  "managerOptionsOf f =
     \<lparr>Metrics = metricsServerOptions f, WebhookServer = webhookServerOptions f, HealthProbeBindAddress = ProbeAddr f,
      LeaderElection = EnableLeaderElection f, LeaderElectionID = ''249a88bc.techsupport.mk'', CacheDisableFor = [''Pod'']\<rparr>"

section \<open>Controllers and webhooks\<close>

datatype scheduleType = ClusterScoped | NamespaceScoped

text \<open>The group, the version and the types that \<^verbatim>\<open>groupversion_info.go\<close> adds to the scheme.\<close>

definition GroupVersion :: "string \<times> string" where
  "GroupVersion = (''lightsout.techsupport.mk'', ''v1alpha1'')"

definition addKnownTypes :: "(string \<times> string) \<times> string list" where
  "addKnownTypes = (GroupVersion,
     [''LightsOutSchedule'', ''LightsOutScheduleList'', ''LightsOutNamespaceSchedule'', ''LightsOutNamespaceScheduleList''])"

text \<open>
  A controller: its type, the predicates on the events of that type, its name, the name of its
  recorder, and the types it watches with a handler that asks for no reconcile.
\<close>

record controllerBuild =
  cb_For :: scheduleType
  cb_Predicates :: "string list"
  cb_Named :: string
  cb_Recorder :: string
  cb_CacheOnly :: "string list"

definition SetupWithManager :: controllerBuild where
  "SetupWithManager =
     \<lparr>cb_For = ClusterScoped, cb_Predicates = [''GenerationChangedPredicate''], cb_Named = ''lightsoutschedule'',
      cb_Recorder = ''lightsout-controller'',
      cb_CacheOnly = [''HorizontalPodAutoscaler'']\<rparr>"

definition SetupNamespaceWithManager :: controllerBuild where
  "SetupNamespaceWithManager =
     \<lparr>cb_For = NamespaceScoped, cb_Predicates = [''GenerationChangedPredicate''], cb_Named = ''lightsoutnamespaceschedule'',
      cb_Recorder = ''lightsout-namespace-controller'',
      cb_CacheOnly = [''HorizontalPodAutoscaler'']\<rparr>"

text \<open>The calls on the library that can fail, in the order in which \<^verbatim>\<open>main\<close> makes them.\<close>

datatype startupCall =
    GetConfig
  | NewManager managerOptions
  | BuildController controllerBuild
  | BuildWebhook scheduleType
  | AddHealthzCheck
  | AddReadyzCheck
  | StartManager

definition SetupWebhookWithManager :: "startupCall list" where
  "SetupWebhookWithManager = [BuildWebhook ClusterScoped, BuildWebhook NamespaceScoped]"

definition mainCalls :: "managerFlags \<Rightarrow> startupCall list" where
  "mainCalls f =
     [GetConfig, NewManager (managerOptionsOf f), BuildController SetupWithManager] @
     (if EnableNamespaceSchedules f then [BuildController SetupNamespaceWithManager] else []) @
     SetupWebhookWithManager @ [AddHealthzCheck, AddReadyzCheck, StartManager]"

text \<open>The calls made and the exit status; the first one that fails ends the program.\<close>

fun runCalls :: "(startupCall \<Rightarrow> string option) \<Rightarrow> startupCall list \<Rightarrow> startupCall list \<times> nat" where
  "runCalls answer [] = ([], 0)"
| "runCalls answer (call # calls) =
     (case answer call of
        Some e \<Rightarrow> ([call], 1)
      | None \<Rightarrow> (case runCalls answer calls of (made, status) \<Rightarrow> (call # made, status)))"

definition mainProgram ::
  "libraryFlags \<Rightarrow> (startupCall \<Rightarrow> string option) \<Rightarrow> string list \<Rightarrow> startupCall list \<times> nat" where
  "mainProgram lib answer args =
     (case parseFlags lib args defaultFlags of
        Inl status \<Rightarrow> ([], status)
      | Inr f \<Rightarrow> runCalls answer (mainCalls f))"

section \<open>The Helm chart\<close>

text \<open>The values that decide about the arguments; the numbers are as the template prints them.\<close>

record chartValues =
  v_leaderElection :: bool
  v_metricsEnabled :: bool
  v_metricsPort :: string
  v_metricsSecure :: bool
  v_healthProbePort :: string
  v_webhookEnabled :: bool
  v_webhookCertPath :: string
  v_webhookCertName :: string
  v_webhookKeyName :: string
  v_namespaceSchedules :: bool

definition showBool :: "bool \<Rightarrow> string" where
  "showBool b = (if b then ''true'' else ''false'')"

definition chartArgs :: "chartValues \<Rightarrow> string list" where
  "chartArgs v =
     (if v_leaderElection v then [''--leader-elect=true''] else [''--leader-elect=false'']) @
     (if v_metricsEnabled v then
        [''--metrics-bind-address=:'' @ v_metricsPort v, ''--metrics-secure='' @ showBool (v_metricsSecure v)]
      else []) @
     [''--health-probe-bind-address=:'' @ v_healthProbePort v] @
     (if v_webhookEnabled v then
        [''--webhook-cert-path='' @ v_webhookCertPath v, ''--webhook-cert-name='' @ v_webhookCertName v,
         ''--webhook-cert-key='' @ v_webhookKeyName v]
      else []) @
     [''--enable-namespace-schedules='' @ showBool (v_namespaceSchedules v)]"

text \<open>What the cluster role of the chart allows on namespace schedules.\<close>

definition namespaceScheduleVerbs :: "chartValues \<Rightarrow> string list" where
  "namespaceScheduleVerbs v =
     (if v_namespaceSchedules v then
        [''create'', ''delete'', ''get'', ''list'', ''patch'', ''update'', ''watch'']
      else [])"

end
