(* ===== verification/Manager_Facts.thy ===== *)
theory Manager_Facts
  imports Manager Controller_Facts
begin

text \<open>
  The command line the chart passes is understood as meant, the manager runs only when
  everything is registered, and what the cluster-scoped controller does in an installation
  whose chart leaves the namespace schedules out.
\<close>

section \<open>The command line\<close>

lemmas argument_defs = readArgument_def splitFlag_def flagKind_def setFlag_def boolFlags_def stringFlags_def parseBool_def

lemma chart_argument:
  "parseFlags lib (''--leader-elect=true'' # args) f = parseFlags lib args (f\<lparr>EnableLeaderElection := True\<rparr>)"
  "parseFlags lib (''--leader-elect=false'' # args) f = parseFlags lib args (f\<lparr>EnableLeaderElection := False\<rparr>)"
  "parseFlags lib ((''--metrics-bind-address=:'' @ v) # args) f = parseFlags lib args (f\<lparr>MetricsAddr := '':'' @ v\<rparr>)"
  "parseFlags lib ((''--metrics-secure='' @ showBool b) # args) f = parseFlags lib args (f\<lparr>SecureMetrics := b\<rparr>)"
  "parseFlags lib ((''--health-probe-bind-address=:'' @ v) # args) f = parseFlags lib args (f\<lparr>ProbeAddr := '':'' @ v\<rparr>)"
  "parseFlags lib ((''--webhook-cert-path='' @ v) # args) f = parseFlags lib args (f\<lparr>WebhookCertPath := v\<rparr>)"
  "parseFlags lib ((''--webhook-cert-name='' @ v) # args) f = parseFlags lib args (f\<lparr>WebhookCertName := v\<rparr>)"
  "parseFlags lib ((''--webhook-cert-key='' @ v) # args) f = parseFlags lib args (f\<lparr>WebhookCertKey := v\<rparr>)"
  "parseFlags lib ((''--enable-namespace-schedules='' @ showBool b) # args) f =
     parseFlags lib args (f\<lparr>EnableNamespaceSchedules := b\<rparr>)"
  by (simp_all add: argument_defs showBool_def)

lemmas chart_arguments = chart_argument [unfolded append_Cons append_Nil]

lemma chart_flags:
  "parseFlags lib (chartArgs v) defaultFlags = Inr
     \<lparr>MetricsAddr = (if v_metricsEnabled v then '':'' @ v_metricsPort v else ''0''),
      ProbeAddr = '':'' @ v_healthProbePort v, EnableLeaderElection = v_leaderElection v,
      SecureMetrics = (v_metricsEnabled v \<longrightarrow> v_metricsSecure v),
      WebhookCertPath = (if v_webhookEnabled v then v_webhookCertPath v else ''''),
      WebhookCertName = (if v_webhookEnabled v then v_webhookCertName v else ''tls.crt''),
      WebhookCertKey = (if v_webhookEnabled v then v_webhookKeyName v else ''tls.key''),
      MetricsCertPath = '''', MetricsCertName = ''tls.crt'', MetricsCertKey = ''tls.key'',
      EnableHTTP2 = False, EnableNamespaceSchedules = v_namespaceSchedules v\<rparr>"
proof -
  have 1: "parseFlags lib ((if b then [''--leader-elect=true''] else [''--leader-elect=false'']) @ args) f =
      parseFlags lib args (f\<lparr>EnableLeaderElection := b\<rparr>)" for b args f
    by (cases b) (simp_all only: if_True if_False append_Cons append_Nil chart_arguments)
  have 2: "parseFlags lib ((if b then [''--metrics-bind-address=:'' @ p, ''--metrics-secure='' @ showBool s] else []) @ args) f =
      parseFlags lib args (if b then f\<lparr>MetricsAddr := '':'' @ p, SecureMetrics := s\<rparr> else f)" for b p s args f
    by (cases b) (simp_all only: if_True if_False append_Cons append_Nil chart_arguments)
  have 3: "parseFlags lib ((if b then [''--webhook-cert-path='' @ p, ''--webhook-cert-name='' @ n, ''--webhook-cert-key='' @ k] else []) @ args) f =
      parseFlags lib args (if b then f\<lparr>WebhookCertPath := p, WebhookCertName := n, WebhookCertKey := k\<rparr> else f)" for b p n k args f
    by (cases b) (simp_all only: if_True if_False append_Cons append_Nil chart_arguments)
  show ?thesis
    unfolding chartArgs_def 1 2
    by (simp only: append_Cons append_Nil chart_arguments 3 [unfolded append_Cons append_Nil] parseFlags.simps(1))
      (simp add: defaultFlags_def)
qed

section \<open>Starting up\<close>

lemma runCalls_prefix:
  "runCalls answer calls = (made, status) \<Longrightarrow>
   \<exists>rest. calls = made @ rest \<and>
     (status = 0 \<and> rest = [] \<and> (\<forall>call \<in> set made. answer call = None) \<or>
      status = 1 \<and> made \<noteq> [] \<and> answer (last made) \<noteq> None \<and> (\<forall>call \<in> set (butlast made). answer call = None))"
proof (induction calls arbitrary: made status)
  case (Cons call calls)
  show ?case
  proof (cases "answer call")
    case (Some e)
    with Cons.prems show ?thesis by auto
  next
    case None
    obtain made1 status1 where r: "runCalls answer calls = (made1, status1)" by fastforce
    with Cons.prems None have m: "made = call # made1" "status = status1" by simp_all
    from Cons.IH [OF r] None show ?thesis unfolding m by fastforce
  qed
qed simp

section \<open>Properties\<close>

text \<open>
  C35: The manager runs only after the configuration, the cluster-scoped controller, the
  namespace-scoped one if it is not switched off, both webhooks and both probes have been set
  up without an error. The exit status is 0 only if it then ran to its end; a step that
  fails is the last one and gives 1.
\<close>

theorem manager_starts_complete:
  assumes "parseFlags lib args defaultFlags = Inr f" and "mainProgram lib answer args = (made, status)"
  shows "(StartManager \<in> set made \<longrightarrow>
      made = mainCalls f \<and> (\<forall>call \<in> set made. call \<noteq> StartManager \<longrightarrow> answer call = None) \<and>
      BuildController SetupWithManager \<in> set made \<and>
      (BuildController SetupNamespaceWithManager \<in> set made \<longleftrightarrow> EnableNamespaceSchedules f) \<and>
      BuildWebhook ClusterScoped \<in> set made \<and> BuildWebhook NamespaceScoped \<in> set made) \<and>
    (status = 0 \<longleftrightarrow> made = mainCalls f \<and> (\<forall>call \<in> set made. answer call = None)) \<and>
    (status \<noteq> 0 \<longrightarrow> status = 1 \<and> made \<noteq> [] \<and> answer (last made) \<noteq> None)"
proof -
  have run: "runCalls answer (mainCalls f) = (made, status)" using assms by (simp add: mainProgram_def)
  from runCalls_prefix [OF this] obtain rest where rest: "mainCalls f = made @ rest" and
    cases: "status = 0 \<and> rest = [] \<and> (\<forall>call \<in> set made. answer call = None) \<or>
      status = 1 \<and> made \<noteq> [] \<and> answer (last made) \<noteq> None \<and> (\<forall>call \<in> set (butlast made). answer call = None)" by blast
  obtain pre where pre: "mainCalls f = pre @ [StartManager]" "StartManager \<notin> set pre"
    by (cases "EnableNamespaceSchedules f") (auto simp: mainCalls_def SetupWebhookWithManager_def)
  have all: "made = mainCalls f" if "StartManager \<in> set made"
  proof (cases "rest = []")
    case False
    then obtain r x where r: "rest = r @ [x]" by (meson rev_exhaust)
    with rest pre(1) have "pre = made @ r" by simp
    with that pre(2) show ?thesis by simp
  qed (use rest in simp)
  have main: "BuildController SetupWithManager \<in> set (mainCalls f)"
    "BuildController SetupNamespaceWithManager \<in> set (mainCalls f) \<longleftrightarrow> EnableNamespaceSchedules f"
    "BuildWebhook ClusterScoped \<in> set (mainCalls f)" "BuildWebhook NamespaceScoped \<in> set (mainCalls f)"
    by (auto simp: mainCalls_def SetupWebhookWithManager_def SetupWithManager_def SetupNamespaceWithManager_def)
  have "\<forall>call \<in> set made. call \<noteq> StartManager \<longrightarrow> answer call = None" if "StartManager \<in> set made"
    using cases
  proof
    assume "status = 1 \<and> made \<noteq> [] \<and> answer (last made) \<noteq> None \<and> (\<forall>call \<in> set (butlast made). answer call = None)"
    moreover have "butlast made = pre" "made = pre @ [StartManager]" using all [OF that] pre(1) by simp_all
    ultimately show ?thesis by auto
  qed blast
  with all main cases rest show ?thesis by auto
qed

text \<open>
  The servers speak HTTP/1.1 only unless the flag says otherwise, whatever protocols the library
  starts from, and a metrics endpoint that is served over TLS asks who calls.
\<close>

theorem servers_guarded:
  assumes "\<not> EnableHTTP2 f"
  shows "fold applyTLS (wo_TLSOpts (webhookServerOptions f)) protos = [''http/1.1''] \<and>
    fold applyTLS (mo_TLSOpts (metricsServerOptions f)) protos = [''http/1.1''] \<and>
    (mo_SecureServing (metricsServerOptions f) \<longrightarrow> mo_FilterProvider (metricsServerOptions f))"
  using assms by (simp add: webhookServerOptions_def metricsServerOptions_def tlsOpts_def Let_def)

text \<open>
  C34: An installation whose chart switches the namespace schedules off does not start their
  controller and may not list them. The cluster-scoped controller lists them all the same, so
  that every reconcile of an active schedule with a target fails before it scales anything.
\<close>

theorem switched_off_blocks_cluster_schedules:
  assumes "\<not> v_namespaceSchedules v"
    and "''list'' \<notin> set (namespaceScheduleVerbs v) \<Longrightarrow> \<forall>ns n s. \<exists>e. e_listLocal env ns n s = Inl e"
    and "get_schedule st key s = Inr schedule" and "FinalizerName \<in> sc_Finalizers schedule"
    and "sc_DeletionTimestamp schedule = None" and "\<not> Suspend (Core (sc_Spec schedule))"
    and "CalculatePeriod (e_cron env) cache (Upscale (Core (sc_Spec schedule))) (Downscale (Core (sc_Spec schedule)))
           (timezoneOf (Core (sc_Spec schedule))) now = (Inr period, cache')"
    and "DiscoverNamespaces (cl_selectors (e_cluster env)) (e_listNamespaces env) (sc_Spec schedule) s = Inr (ns # nss)"
  shows "\<exists>f. parseFlags lib (chartArgs v) defaultFlags = Inr f \<and>
    BuildController SetupNamespaceWithManager \<notin> set (mainCalls f) \<and> BuildController SetupWithManager \<in> set (mainCalls f) \<and>
    (\<exists>e obs s1. releaseOrphanedNamespaces env (Core (sc_Spec schedule)) (sc_Name schedule) (ns # nss) now s = (obs, s1) \<and>
       Reconcile env st key now cache s = (Inl e, obs, cache', setErrorCondition env st schedule e s1))"
proof -
  obtain f where f: "parseFlags lib (chartArgs v) defaultFlags = Inr f" "EnableNamespaceSchedules f = v_namespaceSchedules v"
    using chart_flags [of lib v] by simp
  have calls: "BuildController SetupNamespaceWithManager \<notin> set (mainCalls f) \<and> BuildController SetupWithManager \<in> set (mainCalls f)"
    using assms(1) f(2)
    by (simp add: mainCalls_def SetupWebhookWithManager_def SetupWithManager_def SetupNamespaceWithManager_def)
  obtain obs s1 where rel: "releaseOrphanedNamespaces env (Core (sc_Spec schedule)) (sc_Name schedule) (ns # nss) now s = (obs, s1)"
    by fastforce
  have "\<forall>ns n s. \<exists>e. e_listLocal env ns n s = Inl e" using assms(1,2) by (simp add: namespaceScheduleVerbs_def)
  then obtain e where "e_listLocal env ns 1 s1 = Inl e" by blast
  then obtain e' where "FilterNamespacesWithLocalSchedules (e_listLocal env) (ns # nss) s1 = Inl e'" by simp
  then have "Reconcile env st key now cache s = (Inl e', obs, cache', setErrorCondition env st schedule e' s1)"
    using assms(3-8) rel by (simp add: Reconcile_def ReconcileActive_def Let_def)
  with f(1) calls rel show ?thesis by blast
qed

section \<open>Witnesses\<close>

theorem manager_starts_complete_witness:
  "\<exists>made. mainProgram (\<lambda>name. None) (\<lambda>call. if call = AddReadyzCheck then Some ''closed'' else None)
       [''--leader-elect'', ''-enable-namespace-schedules=false''] = (made, 1) \<and>
     StartManager \<notin> set made \<and> last made = AddReadyzCheck"
proof -
  let ?answer = "\<lambda>call. if call = AddReadyzCheck then Some ''closed'' else None"
  let ?f = "defaultFlags\<lparr>EnableLeaderElection := True, EnableNamespaceSchedules := False\<rparr>"
  have f: "parseFlags (\<lambda>name. None) [''--leader-elect'', ''-enable-namespace-schedules=false''] defaultFlags = Inr ?f"
    by (simp add: argument_defs)
  obtain made status where run: "mainProgram (\<lambda>name. None) ?answer
      [''--leader-elect'', ''-enable-namespace-schedules=false''] = (made, status)" by fastforce
  have "AddReadyzCheck \<in> set (mainCalls ?f)" by (simp add: mainCalls_def)
  with manager_starts_complete [OF f run] have no: "StartManager \<notin> set made" "status \<noteq> 0" by fastforce+
  with manager_starts_complete [OF f run] have "status = 1 \<and> ?answer (last made) \<noteq> None" by blast
  with no(1) run show ?thesis by (auto split: if_splits)
qed

theorem servers_guarded_witness:
  "fold applyTLS (wo_TLSOpts (webhookServerOptions defaultFlags)) [''h2''] = [''http/1.1'']"
  using servers_guarded [of defaultFlags "[''h2'']"] by (simp add: defaultFlags_def)

definition chartWithoutNamespaceSchedules :: chartValues where
  "chartWithoutNamespaceSchedules =
     \<lparr>v_leaderElection = True, v_metricsEnabled = True, v_metricsPort = ''8080'', v_metricsSecure = True,
      v_healthProbePort = ''8081'', v_webhookEnabled = True, v_webhookCertPath = ''/tmp/k8s-webhook-server/serving-certs'',
      v_webhookCertName = ''tls.crt'', v_webhookKeyName = ''tls.key'', v_namespaceSchedules = False\<rparr>"

theorem switched_off_blocks_cluster_schedules_witness:
  "\<exists>e obs. Reconcile (sampleEnv\<lparr>e_listLocal := \<lambda>ns n s. Inl ''forbidden''\<rparr>)
     (sampleStore\<lparr>get_schedule := (\<lambda>key s. Inr (nightSchedule (shopSpec None)))\<rparr>) ([], ''night'') 0 morningCache () =
     (Inl e, obs, morningCache, ())"
proof -
  let ?sc = "nightSchedule (shopSpec None)" and ?env = "sampleEnv\<lparr>e_listLocal := \<lambda>ns n s. Inl ''forbidden''\<rparr>"
  let ?st = "sampleStore\<lparr>get_schedule := (\<lambda>key s. Inr ?sc)\<rparr>"
  have off: "\<not> v_namespaceSchedules chartWithoutNamespaceSchedules" by (simp add: chartWithoutNamespaceSchedules_def)
  have rbac: "\<forall>ns n s. \<exists>e. e_listLocal ?env ns n s = Inl e" by simp
  have get: "get_schedule ?st ([], ''night'') () = Inr ?sc" by simp
  have sc: "FinalizerName \<in> sc_Finalizers ?sc" "sc_DeletionTimestamp ?sc = None" "\<not> Suspend (Core (sc_Spec ?sc))"
    by (simp_all add: nightSchedule_def shopSpec_def emptyCore_def)
  have period: "CalculatePeriod (e_cron ?env) morningCache (Upscale (Core (sc_Spec ?sc))) (Downscale (Core (sc_Spec ?sc)))
      (timezoneOf (Core (sc_Spec ?sc))) 0 = (Inr morning, morningCache)"
    by (simp add: CalculatePeriod_def getCachedPeriod_def morningCache_def nightSchedule_def shopSpec_def emptyCore_def
        timezoneOf_def sampleEnv_def hour_def minute_def second_def)
  have disc: "DiscoverNamespaces (cl_selectors (e_cluster ?env)) (e_listNamespaces ?env) (sc_Spec ?sc) () = Inr [''shop'']"
    by (simp add: DiscoverNamespaces_def selectedNamespaces_def nightSchedule_def shopSpec_def SystemNamespaces_def)
  from switched_off_blocks_cluster_schedules [OF off rbac get sc period disc, of "\<lambda>name. None"]
  show ?thesis by auto
qed

end
